(* ===== verification/Rust_Prelude.thy ===== *)
theory Rust_Prelude
  imports Main "HOL-Library.Word" "HOL-Library.Monad_Syntax" "HOL-Library.Code_Target_Nat"
begin

unbundle bit_operations_syntax

text \<open>
  The vocabulary every other theory of the development shares.

  \<^item> Bytes and header fields are machine words (\<open>u8\<close>, \<open>u16\<close>, ...). Offsets, sizes and
    counters that the code keeps in \<open>u8\<close>, \<open>u16\<close>, \<open>u32\<close> or \<open>usize\<close> variables and on which it
    does arithmetic are \<open>nat\<close>, and every addition, subtraction and multiplication on them goes
    through \<open>uadd\<close>, \<open>usub\<close>, \<open>umul\<close>, which are given the width of the variable.
  \<^item> A Rust computation that can panic has type \<open>'a option\<close>; \<open>None\<close> is the panic. What panics:
    an index or a slice out of range (always); \<open>assert!\<close> (always); \<open>debug_assert!\<close> and arithmetic
    overflow (in a build with debug assertions, the flag \<open>dbg\<close>; a build without them skips the
    assertion and wraps around).
  \<^item> \<open>wp m Q\<close> says that \<open>m\<close> does not panic and that its result satisfies \<open>Q\<close>. The rules in
    \<open>wp_rules\<close> turn \<open>wp\<close> of a whole function body into the conditions it depends on.
  \<^item> Byte order: \<open>nat_to_le\<close> and \<open>le_to_nat\<close> are the little-endian bytes of a number and back.
\<close>

named_theorems wp_rules \<open>rewrite rules for the panic-freedom predicate\<close>
named_theorems wp_intros \<open>introduction rules for the panic-freedom predicate\<close>
named_theorems wlp_intros \<open>introduction rules for the predicate of the results a computation can have\<close>
named_theorems enum_consts \<open>definitions of the numeric constants of the wire format\<close>

type_synonym u8 = "8 word"
type_synonym u16 = "16 word"
type_synonym u32 = "32 word"
type_synonym u64 = "64 word"
type_synonym bytes = "8 word list"

section \<open>Panics\<close>

abbreviation Panic :: "'a option" where
  "Panic \<equiv> None"

definition debug_assert :: "bool \<Rightarrow> bool \<Rightarrow> unit option" where
  "debug_assert dbg P = (if dbg \<and> \<not> P then Panic else Some ())"

definition rust_assert :: "bool \<Rightarrow> unit option" where
  "rust_assert P = (if P then Some () else Panic)"

definition wp :: "'a option \<Rightarrow> ('a \<Rightarrow> bool) \<Rightarrow> bool" where
  "wp m Q = (case m of None \<Rightarrow> False | Some x \<Rightarrow> Q x)"

lemma wp_Some [wp_rules, simp]: "wp (Some x) Q = Q x"
  by (simp add: wp_def)

lemma wp_None [wp_rules, simp]: "wp None Q = False"
  by (simp add: wp_def)

lemma wp_bind [wp_rules]: "wp (Option.bind m f) Q = wp m (\<lambda>x. wp (f x) Q)"
  by (cases m) simp_all

lemma wp_if [wp_rules]: "wp (if b then m else n) Q = (if b then wp m Q else wp n Q)"
  by simp

lemma wp_let [wp_rules]: "wp (let x = a in f x) Q = (let x = a in wp (f x) Q)"
  by simp

lemma wp_case_prod [wp_rules]: "wp (case p of (a, b) \<Rightarrow> f a b) Q = (case p of (a, b) \<Rightarrow> wp (f a b) Q)"
  by (cases p) simp

lemma wp_debug_assert [wp_rules]: "wp (debug_assert dbg P) Q = ((dbg \<longrightarrow> P) \<and> Q ())"
  by (simp add: debug_assert_def)

lemma wp_rust_assert [wp_rules]: "wp (rust_assert P) Q = (P \<and> Q ())"
  by (simp add: rust_assert_def)

lemma wp_iff: "wp m Q \<longleftrightarrow> (\<exists>x. m = Some x \<and> Q x)"
  by (cases m) auto

lemma wp_mono: "wp m P \<Longrightarrow> (\<And>x. P x \<Longrightarrow> Q x) \<Longrightarrow> wp m Q"
  by (cases m) auto

lemma wp_SomeD: "wp m Q \<Longrightarrow> m = Some x \<Longrightarrow> Q x"
  by simp

lemma wp_not_panic: "wp m Q \<Longrightarrow> m \<noteq> Panic"
  by (cases m) simp_all

lemma wp_SomeI [wp_intros]: "Q x \<Longrightarrow> wp (Some x) Q"
  by simp

lemma wp_bindI [wp_intros]: "wp m (\<lambda>x. wp (f x) Q) \<Longrightarrow> wp (Option.bind m f) Q"
  by (simp add: wp_bind)

lemma wp_ifI [wp_intros]: "(b \<Longrightarrow> wp m Q) \<Longrightarrow> (\<not> b \<Longrightarrow> wp n Q) \<Longrightarrow> wp (if b then m else n) Q"
  by simp

lemma wp_letI [wp_intros]: "wp (f a) Q \<Longrightarrow> wp (let x = a in f x) Q"
  by simp

lemma wp_case_prodI [wp_intros]:
  "(\<And>a b. p = (a, b) \<Longrightarrow> wp (f a b) Q) \<Longrightarrow> wp (case p of (a, b) \<Rightarrow> f a b) Q"
  by (cases p) simp

lemma wp_case_optionI [wp_intros]:
  "(p = None \<Longrightarrow> wp m Q) \<Longrightarrow> (\<And>a. p = Some a \<Longrightarrow> wp (f a) Q) \<Longrightarrow>
   wp (case p of None \<Rightarrow> m | Some a \<Rightarrow> f a) Q"
  by (cases p) simp_all

lemma wp_case_sumI [wp_intros]:
  "(\<And>a. p = Inl a \<Longrightarrow> wp (f a) Q) \<Longrightarrow> (\<And>b. p = Inr b \<Longrightarrow> wp (g b) Q) \<Longrightarrow>
   wp (case p of Inl a \<Rightarrow> f a | Inr b \<Rightarrow> g b) Q"
  by (cases p) simp_all

lemma wp_debug_assertI [wp_intros]: "(dbg \<Longrightarrow> P) \<Longrightarrow> Q () \<Longrightarrow> wp (debug_assert dbg P) Q"
  by (simp add: debug_assert_def)

text \<open>
  \<open>wlp m Q\<close> says that \<open>Q\<close> holds of the result if there is one. It serves frame properties, where a
  panic is no concern; its rules are introduction rules, one for each construct of a function body.
\<close>

definition wlp :: "'a option \<Rightarrow> ('a \<Rightarrow> bool) \<Rightarrow> bool" where
  "wlp m Q = (\<forall>x. m = Some x \<longrightarrow> Q x)"

lemma wlp_SomeI [wlp_intros]: "Q x \<Longrightarrow> wlp (Some x) Q"
  by (simp add: wlp_def)

lemma wlp_NoneI [wlp_intros]: "wlp None Q"
  by (simp add: wlp_def)

lemma wlp_bindI [wlp_intros]: "wlp m (\<lambda>x. wlp (f x) Q) \<Longrightarrow> wlp (Option.bind m f) Q"
  by (auto simp: wlp_def bind_eq_Some_conv)

lemma wlp_ifI [wlp_intros]: "(b \<Longrightarrow> wlp m Q) \<Longrightarrow> (\<not> b \<Longrightarrow> wlp n Q) \<Longrightarrow> wlp (if b then m else n) Q"
  by simp

lemma wlp_letI [wlp_intros]: "wlp (f a) Q \<Longrightarrow> wlp (let x = a in f x) Q"
  by simp

lemma wlp_case_prodI [wlp_intros]:
  "(\<And>a b. p = (a, b) \<Longrightarrow> wlp (f a b) Q) \<Longrightarrow> wlp (case p of (a, b) \<Rightarrow> f a b) Q"
  by (cases p) simp

lemma wlp_case_optionI [wlp_intros]:
  "(p = None \<Longrightarrow> wlp m Q) \<Longrightarrow> (\<And>a. p = Some a \<Longrightarrow> wlp (f a) Q) \<Longrightarrow>
   wlp (case p of None \<Rightarrow> m | Some a \<Rightarrow> f a) Q"
  by (cases p) simp_all

lemma wlp_any: "(\<And>x. Q x) \<Longrightarrow> wlp m Q"
  by (simp add: wlp_def)

lemma wlp_debug_assertI [wlp_intros]: "Q () \<Longrightarrow> wlp (debug_assert dbg P) Q"
  by (simp add: wlp_def)

lemma wlpD: "wlp m Q \<Longrightarrow> m = Some x \<Longrightarrow> Q x"
  by (simp add: wlp_def)

section \<open>Unsigned arithmetic of a fixed width\<close>

definition uadd :: "nat \<Rightarrow> bool \<Rightarrow> nat \<Rightarrow> nat \<Rightarrow> nat option" where
  "uadd w dbg a b =
     (if a + b < 2 ^ w then Some (a + b) else if dbg then Panic else Some ((a + b) mod 2 ^ w))"

definition usub :: "nat \<Rightarrow> bool \<Rightarrow> nat \<Rightarrow> nat \<Rightarrow> nat option" where
  "usub w dbg a b =
     (if b \<le> a then Some (a - b) else if dbg then Panic else Some ((2 ^ w + a - b) mod 2 ^ w))"

definition umul :: "nat \<Rightarrow> bool \<Rightarrow> nat \<Rightarrow> nat \<Rightarrow> nat option" where
  "umul w dbg a b =
     (if a * b < 2 ^ w then Some (a * b) else if dbg then Panic else Some ((a * b) mod 2 ^ w))"

definition ucast_to :: "nat \<Rightarrow> nat \<Rightarrow> nat" where
  "ucast_to w a = a mod 2 ^ w"

text \<open>
  \<open>a >> s\<close>, where a shift by the width or more is an overflow, and \<open>a & !m\<close> on \<open>usize\<close>. A \<open>usize\<close> has
  64 bits here.
\<close>

definition ushr :: "nat \<Rightarrow> bool \<Rightarrow> nat \<Rightarrow> nat \<Rightarrow> nat option" where
  "ushr w dbg a s =
     (if s < w then Some (a div 2 ^ s) else if dbg then Panic else Some (a div 2 ^ (s mod w)))"

definition and_not :: "nat \<Rightarrow> nat \<Rightarrow> nat" where
  "and_not a m = unat ((word_of_nat a :: u64) AND NOT (word_of_nat m))"

lemma uadd_exact [simp]: "a + b < 2 ^ w \<Longrightarrow> uadd w dbg a b = Some (a + b)"
  by (simp add: uadd_def)

lemma usub_exact [simp]: "b \<le> a \<Longrightarrow> usub w dbg a b = Some (a - b)"
  by (simp add: usub_def)

lemma umul_exact [simp]: "a * b < 2 ^ w \<Longrightarrow> umul w dbg a b = Some (a * b)"
  by (simp add: umul_def)

lemma ucast_to_exact [simp]: "a < 2 ^ w \<Longrightarrow> ucast_to w a = a"
  by (simp add: ucast_to_def)

lemma ushr_exact [simp]: "s < w \<Longrightarrow> ushr w dbg a s = Some (a div 2 ^ s)"
  by (simp add: ushr_def)

lemma and_not_mask:
  assumes "a < 2 ^ 64" "k < 64"
  shows "and_not a (2 ^ k - 1) = a - a mod 2 ^ k"
proof -
  let ?a = "word_of_nat a :: u64"
  have u: "unat ?a = a" using assms(1) by (simp add: unsigned_of_nat take_bit_nat_eq_self)
  have m: "(word_of_nat (2 ^ k - 1) :: u64) = mask k" by (simp add: mask_eq_exp_minus_1)
  have "?a AND NOT (mask k) = ?a - take_bit k ?a"
  proof -
    have "(?a AND NOT (mask k)) + take_bit k ?a = (?a AND NOT (mask k)) OR take_bit k ?a"
      by (rule disjunctive_add) (auto simp: bit_simps)
    also have "\<dots> = ?a" by (rule bit_word_eqI) (auto simp: bit_simps)
    finally show ?thesis by (simp add: eq_diff_eq)
  qed
  moreover have "unat (take_bit k ?a) = a mod 2 ^ k"
    by (metis unsigned_take_bit_eq u take_bit_eq_mod)
  moreover have "take_bit k ?a \<le> ?a"
    unfolding word_le_nat_alt using u by (simp add: unsigned_take_bit_eq take_bit_nat_less_eq_self)
  ultimately show ?thesis unfolding and_not_def m using u by (simp add: unat_sub)
qed

lemma uadd_bound: "uadd w dbg a b = Some c \<Longrightarrow> c < 2 ^ w"
  by (auto simp: uadd_def split: if_splits)

lemma uadd_overflow_panics: "2 ^ w \<le> a + b \<Longrightarrow> uadd w True a b = Panic"
  by (simp add: uadd_def)

lemma uadd_overflow_wraps: "2 ^ w \<le> a + b \<Longrightarrow> uadd w False a b = Some ((a + b) mod 2 ^ w)"
  by (simp add: uadd_def)

lemma wp_uaddI [wp_intros]: "a + b < 2 ^ w \<Longrightarrow> Q (a + b) \<Longrightarrow> wp (uadd w dbg a b) Q"
  by simp

lemma wp_usubI [wp_intros]: "b \<le> a \<Longrightarrow> Q (a - b) \<Longrightarrow> wp (usub w dbg a b) Q"
  by simp

lemma wp_umulI [wp_intros]: "a * b < 2 ^ w \<Longrightarrow> Q (a * b) \<Longrightarrow> wp (umul w dbg a b) Q"
  by simp

section \<open>Comparisons\<close>

text \<open>\<open>Ord::cmp\<close>, a three-way comparison.\<close>

datatype Ordering = Ordering_Less | Ordering_Equal | Ordering_Greater

definition rust_cmp :: "'a :: linorder \<Rightarrow> 'a \<Rightarrow> Ordering" where
  "rust_cmp a b = (if a < b then Ordering_Less else if a = b then Ordering_Equal else Ordering_Greater)"

lemma rust_cmp_iff [simp]:
  "rust_cmp a b = Ordering_Less \<longleftrightarrow> a < b" "rust_cmp a b = Ordering_Equal \<longleftrightarrow> a = b" "rust_cmp a b = Ordering_Greater \<longleftrightarrow> b < a"
  by (auto simp: rust_cmp_def)

section \<open>Slices\<close>

definition index :: "'a list \<Rightarrow> nat \<Rightarrow> 'a option" where
  "index xs i = (if i < length xs then Some (xs ! i) else Panic)"

definition slice :: "'a list \<Rightarrow> nat \<Rightarrow> nat \<Rightarrow> 'a list option" where
  "slice xs a b = (if a \<le> b \<and> b \<le> length xs then Some (take (b - a) (drop a xs)) else Panic)"

definition slice_from :: "'a list \<Rightarrow> nat \<Rightarrow> 'a list option" where
  "slice_from xs a = (if a \<le> length xs then Some (drop a xs) else Panic)"

definition store :: "'a list \<Rightarrow> nat \<Rightarrow> 'a \<Rightarrow> 'a list option" where
  "store xs i v = (if i < length xs then Some (xs[i := v]) else Panic)"

lemma index_in [simp]: "i < length xs \<Longrightarrow> index xs i = Some (xs ! i)"
  by (simp add: index_def)

lemma slice_in [simp]: "a \<le> b \<Longrightarrow> b \<le> length xs \<Longrightarrow> slice xs a b = Some (take (b - a) (drop a xs))"
  by (simp add: slice_def)

lemma slice_from_in [simp]: "a \<le> length xs \<Longrightarrow> slice_from xs a = Some (drop a xs)"
  by (simp add: slice_from_def)

lemma store_in [simp]: "i < length xs \<Longrightarrow> store xs i v = Some (xs[i := v])"
  by (simp add: store_def)

lemma wp_indexI [wp_intros]: "i < length xs \<Longrightarrow> Q (xs ! i) \<Longrightarrow> wp (index xs i) Q"
  by simp

lemma wp_sliceI [wp_intros]:
  "a \<le> b \<Longrightarrow> b \<le> length xs \<Longrightarrow> Q (take (b - a) (drop a xs)) \<Longrightarrow> wp (slice xs a b) Q"
  by simp

lemma wp_slice_fromI [wp_intros]: "a \<le> length xs \<Longrightarrow> Q (drop a xs) \<Longrightarrow> wp (slice_from xs a) Q"
  by simp

lemma wp_storeI [wp_intros]: "i < length xs \<Longrightarrow> Q (xs[i := v]) \<Longrightarrow> wp (store xs i v) Q"
  by simp

lemma index_SomeD: "index xs i = Some x \<Longrightarrow> i < length xs \<and> x = xs ! i"
  by (auto simp: index_def split: if_splits)

lemma slice_SomeD: "slice xs a b = Some ys \<Longrightarrow> a \<le> b \<and> b \<le> length xs \<and> ys = take (b - a) (drop a xs)"
  by (auto simp: slice_def split: if_splits)

lemma slice_length: "slice xs a b = Some ys \<Longrightarrow> length ys = b - a"
  by (auto simp: slice_def split: if_splits)

lemmas wlp_prims [wlp_intros] =
  wlp_any [where m = "uadd w dbg a b" for w dbg a b] wlp_any [where m = "usub w dbg a b" for w dbg a b]
  wlp_any [where m = "umul w dbg a b" for w dbg a b] wlp_any [where m = "index xs i" for xs i]
  wlp_any [where m = "slice xs a b" for xs a b] wlp_any [where m = "slice_from xs a" for xs a]
  wlp_any [where m = "store xs i v" for xs i v]

section \<open>Byte order\<close>

fun nat_to_le :: "nat \<Rightarrow> nat \<Rightarrow> bytes" where
  "nat_to_le 0 x = []"
| "nat_to_le (Suc n) x = word_of_nat (x mod 256) # nat_to_le n (x div 256)"

fun le_to_nat :: "bytes \<Rightarrow> nat" where
  "le_to_nat [] = 0"
| "le_to_nat (b # bs) = unat b + 256 * le_to_nat bs"

lemma length_nat_to_le [simp]: "length (nat_to_le n x) = n"
  by (induction n arbitrary: x) simp_all

lemma unat_word_of_nat_mod8 [simp]: "unat (word_of_nat (x mod 256) :: u8) = x mod 256"
  by (simp add: unsigned_of_nat take_bit_eq_mod)

lemma le_to_nat_nat_to_le: "le_to_nat (nat_to_le n x) = x mod 256 ^ n"
proof (induction n arbitrary: x)
  case 0
  then show ?case by simp
next
  case (Suc n)
  have "x mod 256 ^ Suc n = x mod 256 + 256 * (x div 256 mod 256 ^ n)"
    using mod_mult2_eq [of x 256 "256 ^ n"] by simp
  with Suc show ?case by simp
qed

lemma le_to_nat_bound: "le_to_nat bs < 256 ^ length bs"
proof (induction bs)
  case Nil
  then show ?case by simp
next
  case (Cons b bs)
  have "unat b < 256" using unsigned_less [of b] by simp
  with Cons show ?case by simp
qed

lemma nat_to_le_le_to_nat: "nat_to_le (length bs) (le_to_nat bs) = bs"
proof (induction bs)
  case Nil
  then show ?case by simp
next
  case (Cons b bs)
  have "unat b < 256" using unsigned_less [of b] by simp
  then have "(unat b + 256 * le_to_nat bs) mod 256 = unat b"
    and "(unat b + 256 * le_to_nat bs) div 256 = le_to_nat bs"
    by simp_all
  with Cons show ?case by simp
qed

lemma nat_to_le_inject:
  "nat_to_le n x = nat_to_le n y \<longleftrightarrow> x mod 256 ^ n = y mod 256 ^ n"
proof
  assume "nat_to_le n x = nat_to_le n y"
  then show "x mod 256 ^ n = y mod 256 ^ n"
    by (metis le_to_nat_nat_to_le)
next
  assume "x mod 256 ^ n = y mod 256 ^ n"
  then show "nat_to_le n x = nat_to_le n y"
    by (metis le_to_nat_nat_to_le length_nat_to_le nat_to_le_le_to_nat)
qed

text \<open>
  The target a crate is compiled for: its byte order, its pointer width and whether debug
  assertions (and overflow checks) are on.
\<close>

record target =
  big_endian :: bool
  pointer64 :: bool
  debug_assertions :: bool

definition to_ne_bytes :: "bool \<Rightarrow> nat \<Rightarrow> nat \<Rightarrow> bytes" where
  "to_ne_bytes be n x = (if be then rev (nat_to_le n x) else nat_to_le n x)"

definition from_bytes :: "bool \<Rightarrow> bytes \<Rightarrow> nat" where
  "from_bytes be bs = le_to_nat (if be then rev bs else bs)"

lemma length_to_ne_bytes [simp]: "length (to_ne_bytes be n x) = n"
  by (simp add: to_ne_bytes_def)

lemma from_bytes_to_ne_bytes: "from_bytes be (to_ne_bytes be n x) = x mod 256 ^ n"
  by (simp add: from_bytes_def to_ne_bytes_def le_to_nat_nat_to_le)

lemma from_bytes_bound: "from_bytes be bs < 256 ^ length bs"
  using le_to_nat_bound [of "if be then rev bs else bs"] by (simp add: from_bytes_def split: if_splits)

section \<open>Lists\<close>

lemma take_drop_append_exact:
  "length a = n \<Longrightarrow> length b = m \<Longrightarrow> take m (drop n (a @ b @ c)) = b"
  by simp

lemma drop_append_exact: "length a = n \<Longrightarrow> drop n (a @ b) = b"
  by simp

lemma nth_append_middle: "length a = n \<Longrightarrow> (a @ x # b) ! n = x"
  by (simp add: nth_append)

lemma all_less_Suc_iff: "(\<forall>i < Suc n. P i) \<longleftrightarrow> P n \<and> (\<forall>i < n. P i)"
  using less_Suc_eq by auto

end
