(* ===== verification/EventHeader_Types.thy ===== *)
theory EventHeader_Types
  imports Rust_Prelude
begin

unbundle bit_operations_syntax

text \<open>
  The crate \<open>eventheader_types\<close>: the numeric newtypes of \<open>enums.rs\<close> (flags, extension kinds,
  field encodings and formats) and the two header structs of \<open>descriptors.rs\<close>.

  Each newtype \<open>struct T(u8)\<close> or \<open>struct T(u16)\<close> is the word it wraps, so \<open>from_int\<close>, \<open>as_int\<close>
  and the \<open>From\<close> conversions are the identity; the prefix of a name is the Rust type
  (\<open>FieldEncoding_Struct\<close> is \<open>FieldEncoding::Struct\<close>). The lemmas say how the flag bits of an
  encoding byte are set, tested and removed, and what a packed header looks like in memory.
\<close>

section \<open>HeaderFlags\<close>

type_synonym HeaderFlags = u8

definition HeaderFlags_has_flag :: "HeaderFlags \<Rightarrow> HeaderFlags \<Rightarrow> bool" where
  "HeaderFlags_has_flag self flag = (self AND flag \<noteq> 0)"

definition HeaderFlags_None :: HeaderFlags where
  [enum_consts]: "HeaderFlags_None = 0"

definition HeaderFlags_Pointer64 :: HeaderFlags where
  [enum_consts]: "HeaderFlags_Pointer64 = 1"

definition HeaderFlags_LittleEndian :: HeaderFlags where
  [enum_consts]: "HeaderFlags_LittleEndian = 2"

definition HeaderFlags_Extension :: HeaderFlags where
  [enum_consts]: "HeaderFlags_Extension = 4"

definition HeaderFlags_Default :: "target \<Rightarrow> HeaderFlags" where
  "HeaderFlags_Default t =
     (if pointer64 t then HeaderFlags_Pointer64 else HeaderFlags_None)
     OR (if \<not> big_endian t then HeaderFlags_LittleEndian else HeaderFlags_None)"

definition HeaderFlags_DefaultWithExtension :: "target \<Rightarrow> HeaderFlags" where
  "HeaderFlags_DefaultWithExtension t = HeaderFlags_Default t OR HeaderFlags_Extension"

section \<open>ExtensionKind\<close>

type_synonym ExtensionKind = u16

definition ExtensionKind_has_flag :: "ExtensionKind \<Rightarrow> ExtensionKind \<Rightarrow> bool" where
  "ExtensionKind_has_flag self flag = (self AND flag \<noteq> 0)"

definition ExtensionKind_Invalid :: ExtensionKind where
  [enum_consts]: "ExtensionKind_Invalid = 0"

definition ExtensionKind_Metadata :: ExtensionKind where
  [enum_consts]: "ExtensionKind_Metadata = 1"

definition ExtensionKind_ActivityId :: ExtensionKind where
  [enum_consts]: "ExtensionKind_ActivityId = 2"

definition ExtensionKind_ChainFlag :: u16 where
  [enum_consts]: "ExtensionKind_ChainFlag = 0x8000"

definition ExtensionKind_ValueMask :: u16 where
  [enum_consts]: "ExtensionKind_ValueMask = 0x7FFF"

section \<open>FieldEncoding\<close>

type_synonym FieldEncoding = u8

definition FieldEncoding_ValueMask :: u8 where
  [enum_consts]: "FieldEncoding_ValueMask = 0x1F"

definition FieldEncoding_FlagMask :: u8 where
  [enum_consts]: "FieldEncoding_FlagMask = 0xE0"

definition FieldEncoding_CArrayFlag :: u8 where
  [enum_consts]: "FieldEncoding_CArrayFlag = 0x20"

definition FieldEncoding_VArrayFlag :: u8 where
  [enum_consts]: "FieldEncoding_VArrayFlag = 0x40"

definition FieldEncoding_ChainFlag :: u8 where
  [enum_consts]: "FieldEncoding_ChainFlag = 0x80"

definition FieldEncoding_without_flags :: "FieldEncoding \<Rightarrow> FieldEncoding" where
  "FieldEncoding_without_flags self = self AND FieldEncoding_ValueMask"

definition FieldEncoding_with_flags :: "FieldEncoding \<Rightarrow> u8 \<Rightarrow> FieldEncoding" where
  "FieldEncoding_with_flags self flags = self OR flags"

definition FieldEncoding_without_chain_flag :: "FieldEncoding \<Rightarrow> FieldEncoding" where
  "FieldEncoding_without_chain_flag self = self AND NOT FieldEncoding_ChainFlag"

definition FieldEncoding_array_flags :: "FieldEncoding \<Rightarrow> u8" where
  "FieldEncoding_array_flags self = self AND (FieldEncoding_CArrayFlag OR FieldEncoding_VArrayFlag)"

definition FieldEncoding_is_array :: "FieldEncoding \<Rightarrow> bool" where
  "FieldEncoding_is_array self = (0 \<noteq> self AND (FieldEncoding_CArrayFlag OR FieldEncoding_VArrayFlag))"

definition FieldEncoding_is_constant_length_array :: "FieldEncoding \<Rightarrow> bool" where
  "FieldEncoding_is_constant_length_array self = (0 \<noteq> self AND FieldEncoding_CArrayFlag)"

definition FieldEncoding_is_variable_length_array :: "FieldEncoding \<Rightarrow> bool" where
  "FieldEncoding_is_variable_length_array self = (0 \<noteq> self AND FieldEncoding_VArrayFlag)"

definition FieldEncoding_has_chain_flag :: "FieldEncoding \<Rightarrow> bool" where
  "FieldEncoding_has_chain_flag self = (0 \<noteq> self AND FieldEncoding_ChainFlag)"

definition FieldEncoding_Invalid :: FieldEncoding where
  [enum_consts]: "FieldEncoding_Invalid = 0"

definition FieldEncoding_Struct :: FieldEncoding where
  [enum_consts]: "FieldEncoding_Struct = 1"

definition FieldEncoding_Value8 :: FieldEncoding where
  [enum_consts]: "FieldEncoding_Value8 = 2"

definition FieldEncoding_Value16 :: FieldEncoding where
  [enum_consts]: "FieldEncoding_Value16 = 3"

definition FieldEncoding_Value32 :: FieldEncoding where
  [enum_consts]: "FieldEncoding_Value32 = 4"

definition FieldEncoding_Value64 :: FieldEncoding where
  [enum_consts]: "FieldEncoding_Value64 = 5"

definition FieldEncoding_Value128 :: FieldEncoding where
  [enum_consts]: "FieldEncoding_Value128 = 6"

definition FieldEncoding_ZStringChar8 :: FieldEncoding where
  [enum_consts]: "FieldEncoding_ZStringChar8 = 7"

definition FieldEncoding_ZStringChar16 :: FieldEncoding where
  [enum_consts]: "FieldEncoding_ZStringChar16 = 8"

definition FieldEncoding_ZStringChar32 :: FieldEncoding where
  [enum_consts]: "FieldEncoding_ZStringChar32 = 9"

definition FieldEncoding_StringLength16Char8 :: FieldEncoding where
  [enum_consts]: "FieldEncoding_StringLength16Char8 = 10"

definition FieldEncoding_StringLength16Char16 :: FieldEncoding where
  [enum_consts]: "FieldEncoding_StringLength16Char16 = 11"

definition FieldEncoding_StringLength16Char32 :: FieldEncoding where
  [enum_consts]: "FieldEncoding_StringLength16Char32 = 12"

definition FieldEncoding_BinaryLength16Char8 :: FieldEncoding where
  [enum_consts]: "FieldEncoding_BinaryLength16Char8 = 13"

section \<open>FieldFormat\<close>

type_synonym FieldFormat = u8

definition FieldFormat_ValueMask :: u8 where
  [enum_consts]: "FieldFormat_ValueMask = 0x7F"

definition FieldFormat_ChainFlag :: u8 where
  [enum_consts]: "FieldFormat_ChainFlag = 0x80"

definition FieldFormat_without_flags :: "FieldFormat \<Rightarrow> FieldFormat" where
  "FieldFormat_without_flags self = self AND FieldFormat_ValueMask"

definition FieldFormat_has_chain_flag :: "FieldFormat \<Rightarrow> bool" where
  "FieldFormat_has_chain_flag self = (0 \<noteq> self AND FieldFormat_ChainFlag)"

definition FieldFormat_Default :: FieldFormat where
  [enum_consts]: "FieldFormat_Default = 0"

definition FieldFormat_UnsignedInt :: FieldFormat where
  [enum_consts]: "FieldFormat_UnsignedInt = 1"

definition FieldFormat_SignedInt :: FieldFormat where
  [enum_consts]: "FieldFormat_SignedInt = 2"

definition FieldFormat_HexInt :: FieldFormat where
  [enum_consts]: "FieldFormat_HexInt = 3"

definition FieldFormat_HexBytes :: FieldFormat where
  [enum_consts]: "FieldFormat_HexBytes = 9"

definition FieldFormat_String8 :: FieldFormat where
  [enum_consts]: "FieldFormat_String8 = 10"

section \<open>EventHeader and EventHeaderExtension\<close>

record EventHeader =
  eh_flags :: HeaderFlags
  eh_version :: u8
  eh_id :: u16
  eh_tag :: u16
  eh_opcode :: u8
  eh_level :: u8

definition Opcode_Info :: u8 where
  [enum_consts]: "Opcode_Info = 0"

definition Level_Invalid :: u8 where
  [enum_consts]: "Level_Invalid = 0"

definition EventHeader_new :: "target \<Rightarrow> u8 \<Rightarrow> bool \<Rightarrow> EventHeader" where
  "EventHeader_new t lvl has_extension =
     \<lparr>eh_flags = (if has_extension then HeaderFlags_DefaultWithExtension t else HeaderFlags_Default t),
      eh_version = 0, eh_id = 0, eh_tag = 0, eh_opcode = Opcode_Info, eh_level = lvl\<rparr>"

definition EventHeader_from_parts :: "HeaderFlags \<Rightarrow> u8 \<Rightarrow> u16 \<Rightarrow> u16 \<Rightarrow> u8 \<Rightarrow> u8 \<Rightarrow> EventHeader" where
  "EventHeader_from_parts f v i tg opc lvl =
     \<lparr>eh_flags = f, eh_version = v, eh_id = i, eh_tag = tg, eh_opcode = opc, eh_level = lvl\<rparr>"

text \<open>
  Both structs are \<open>repr(C)\<close> with naturally aligned fields and no padding, so their memory image,
  which \<open>append_bytes\<close> copies, is the concatenation of their fields in the target's byte order.
\<close>

definition EventHeader_bytes :: "target \<Rightarrow> EventHeader \<Rightarrow> bytes" where
  "EventHeader_bytes t h =
     [eh_flags h, eh_version h] @ to_ne_bytes (big_endian t) 2 (unat (eh_id h))
     @ to_ne_bytes (big_endian t) 2 (unat (eh_tag h)) @ [eh_opcode h, eh_level h]"

definition size_of_EventHeader :: nat where
  [simp]: "size_of_EventHeader = 8"

record EventHeaderExtension =
  ext_size :: u16
  ext_kind :: ExtensionKind

definition EventHeaderExtension_from_parts :: "u16 \<Rightarrow> ExtensionKind \<Rightarrow> bool \<Rightarrow> EventHeaderExtension" where
  "EventHeaderExtension_from_parts sz kind chain =
     \<lparr>ext_size = sz, ext_kind = (if chain then kind OR ExtensionKind_ChainFlag else kind)\<rparr>"

definition EventHeaderExtension_bytes :: "target \<Rightarrow> EventHeaderExtension \<Rightarrow> bytes" where
  "EventHeaderExtension_bytes t x =
     to_ne_bytes (big_endian t) 2 (unat (ext_size x)) @ to_ne_bytes (big_endian t) 2 (unat (ext_kind x))"

definition size_of_EventHeaderExtension :: nat where
  [simp]: "size_of_EventHeaderExtension = 4"

lemmas field_encoding_defs =
  FieldEncoding_without_flags_def FieldEncoding_with_flags_def FieldEncoding_without_chain_flag_def
  FieldEncoding_array_flags_def FieldEncoding_is_array_def FieldEncoding_is_constant_length_array_def
  FieldEncoding_is_variable_length_array_def FieldEncoding_has_chain_flag_def
  FieldFormat_without_flags_def FieldFormat_has_chain_flag_def

section \<open>Bit facts of the encoding and format bytes\<close>

text \<open>
  A byte has eight bits, so a statement about the bits of one byte is a statement about eight
  propositions; \<open>u8_eq_iff\<close> reduces byte equality to it.
\<close>

lemma u8_eq_iff: "(a :: u8) = b \<longleftrightarrow> (\<forall>n \<in> {0, 1, 2, 3, 4, 5, 6, 7}. bit a n = bit b n)"
proof
  assume h: "\<forall>n \<in> {0, 1, 2, 3, 4, 5, 6, 7}. bit a n = bit b n"
  have "bit a n = bit b n" if "n < 8" for n
  proof -
    from that have "n \<in> {0, 1, 2, 3, 4, 5, 6, 7}" by auto
    with h show ?thesis by blast
  qed
  then show "a = b" by (intro bit_word_eqI) simp
qed simp

lemma is_array_iff_flags:
  "FieldEncoding_is_array e \<longleftrightarrow>
     FieldEncoding_is_constant_length_array e \<or> FieldEncoding_is_variable_length_array e"
  by (auto simp: field_encoding_defs enum_consts u8_eq_iff bit_simps)

lemma without_chain_flag_keeps_value [simp]:
  "FieldEncoding_without_flags (FieldEncoding_without_chain_flag e) = FieldEncoding_without_flags e"
  by (simp add: field_encoding_defs enum_consts u8_eq_iff bit_simps)

lemma without_chain_flag_keeps_is_array [simp]:
  "FieldEncoding_is_array (FieldEncoding_without_chain_flag e) = FieldEncoding_is_array e"
  by (simp add: field_encoding_defs enum_consts u8_eq_iff bit_simps)

lemma without_chain_flag_clears [simp]:
  "\<not> FieldEncoding_has_chain_flag (FieldEncoding_without_chain_flag e)"
  by (simp add: field_encoding_defs enum_consts u8_eq_iff bit_simps)

lemma scalar_without_flags:
  "\<not> FieldEncoding_is_array e \<Longrightarrow> \<not> FieldEncoding_has_chain_flag e \<Longrightarrow>
   FieldEncoding_without_flags e = e"
  by (auto simp: field_encoding_defs enum_consts u8_eq_iff bit_simps)

lemma format_without_flags_bound: "unat (FieldFormat_without_flags f) < 128"
proof -
  have "unat (f AND 0x7F) \<le> unat (0x7F :: u8)"
    by (rule word_and_le1 [THEN word_le_nat_alt [THEN iffD1]])
  then show ?thesis by (simp add: field_encoding_defs enum_consts)
qed

lemma length_EventHeader_bytes [simp]: "length (EventHeader_bytes t h) = size_of_EventHeader"
  by (simp add: EventHeader_bytes_def)

lemma length_EventHeaderExtension_bytes [simp]:
  "length (EventHeaderExtension_bytes t x) = size_of_EventHeaderExtension"
  by (simp add: EventHeaderExtension_bytes_def)

lemma has_flag_DefaultWithExtension [simp]:
  "HeaderFlags_has_flag (HeaderFlags_DefaultWithExtension t) HeaderFlags_Extension"
  by (simp add: HeaderFlags_has_flag_def HeaderFlags_DefaultWithExtension_def HeaderFlags_Default_def
      enum_consts)

lemma has_flag_LittleEndian_Default [simp]:
  "HeaderFlags_has_flag (HeaderFlags_DefaultWithExtension t) HeaderFlags_LittleEndian \<longleftrightarrow> \<not> big_endian t"
  by (simp add: HeaderFlags_has_flag_def HeaderFlags_DefaultWithExtension_def HeaderFlags_Default_def
      enum_consts)

end
