(* ===== verification/Byte_Reader.thy ===== *)
theory Byte_Reader
  imports EventHeader_Types
begin

text \<open>
  \<open>tracepoint_decode/src/byte_reader.rs\<close>: the \<open>PerfByteReader\<close>, a flag saying whether the source
  is big-endian, and its readers. \<open>source[..n].try_into().unwrap()\<close> panics when the slice is
  shorter than \<open>n\<close>, which is the \<open>Panic\<close> branch here; \<open>debug_assert!\<close> states the same condition, so
  it adds nothing. The \<open>fix_*\<close> functions swap a value already read in host order.
\<close>

record PerfByteReader =
  source_big_endian :: bool

definition PerfByteReader_new :: "bool \<Rightarrow> PerfByteReader" where
  "PerfByteReader_new be = \<lparr>source_big_endian = be\<rparr>"

definition byte_swap_needed :: "target \<Rightarrow> PerfByteReader \<Rightarrow> bool" where
  "byte_swap_needed t r = (source_big_endian r \<noteq> big_endian t)"

definition read_n :: "nat \<Rightarrow> PerfByteReader \<Rightarrow> bytes \<Rightarrow> nat option" where
  "read_n n r source =
     (case slice source 0 n of None \<Rightarrow> Panic | Some a \<Rightarrow> Some (from_bytes (source_big_endian r) a))"

definition read_u16 :: "PerfByteReader \<Rightarrow> bytes \<Rightarrow> u16 option" where
  "read_u16 r source = map_option word_of_nat (read_n 2 r source)"

definition read_u32 :: "PerfByteReader \<Rightarrow> bytes \<Rightarrow> u32 option" where
  "read_u32 r source = map_option word_of_nat (read_n 4 r source)"

definition read_u64 :: "PerfByteReader \<Rightarrow> bytes \<Rightarrow> u64 option" where
  "read_u64 r source = map_option word_of_nat (read_n 8 r source)"

definition read_i16 :: "PerfByteReader \<Rightarrow> bytes \<Rightarrow> int option" where
  "read_i16 r source = map_option (\<lambda>x. sint (word_of_nat x :: u16)) (read_n 2 r source)"

definition read_i32 :: "PerfByteReader \<Rightarrow> bytes \<Rightarrow> int option" where
  "read_i32 r source = map_option (\<lambda>x. sint (word_of_nat x :: u32)) (read_n 4 r source)"

definition read_i64 :: "PerfByteReader \<Rightarrow> bytes \<Rightarrow> int option" where
  "read_i64 r source = map_option (\<lambda>x. sint (word_of_nat x :: u64)) (read_n 8 r source)"

definition swap_bytes :: "nat \<Rightarrow> nat \<Rightarrow> nat" where
  "swap_bytes n x = le_to_nat (rev (nat_to_le n x))"

definition fix_n :: "nat \<Rightarrow> target \<Rightarrow> PerfByteReader \<Rightarrow> nat \<Rightarrow> nat" where
  "fix_n n t r x = (if source_big_endian r = big_endian t then x else swap_bytes n x)"

definition fix_u16 :: "target \<Rightarrow> PerfByteReader \<Rightarrow> u16 \<Rightarrow> u16" where
  "fix_u16 t r v = word_of_nat (fix_n 2 t r (unat v))"

definition fix_u32 :: "target \<Rightarrow> PerfByteReader \<Rightarrow> u32 \<Rightarrow> u32" where
  "fix_u32 t r v = word_of_nat (fix_n 4 t r (unat v))"

definition fix_u64 :: "target \<Rightarrow> PerfByteReader \<Rightarrow> u64 \<Rightarrow> u64" where
  "fix_u64 t r v = word_of_nat (fix_n 8 t r (unat v))"

lemmas reader_defs = read_u16_def read_u32_def read_u64_def read_i16_def read_i32_def read_i64_def

lemma source_big_endian_new [simp]: "source_big_endian (PerfByteReader_new be) = be"
  by (simp add: PerfByteReader_new_def)

lemma read_n_in [simp]:
  "n \<le> length source \<Longrightarrow> read_n n r source = Some (from_bytes (source_big_endian r) (take n source))"
  by (simp add: read_n_def)

lemma read_n_panics_iff: "read_n n r source = Panic \<longleftrightarrow> length source < n"
  by (auto simp: read_n_def slice_def)

lemma read_n_bound: "read_n n r source = Some x \<Longrightarrow> x < 256 ^ n"
proof -
  assume "read_n n r source = Some x"
  then have "x = from_bytes (source_big_endian r) (take n source)" and "n \<le> length source"
    by (auto simp: read_n_def slice_def split: if_splits)
  then show ?thesis using from_bytes_bound [of "source_big_endian r" "take n source"] by simp
qed

lemma read_u16_in [simp]:
  "2 \<le> length source \<Longrightarrow>
   read_u16 r source = Some (word_of_nat (from_bytes (source_big_endian r) (take 2 source)))"
  by (simp add: read_u16_def)

lemma wp_read_u16I [wp_intros]: "2 \<le> length source \<Longrightarrow> (\<And>v. Q v) \<Longrightarrow> wp (read_u16 r source) Q"
  by simp

lemma read_n_encoded:
  "read_n n (PerfByteReader_new be) (to_ne_bytes be n x @ rest) = Some (x mod 256 ^ n)"
  by (simp add: from_bytes_to_ne_bytes)

lemma read_u16_encoded:
  "read_u16 (PerfByteReader_new be) (to_ne_bytes be 2 (unat v) @ rest) = Some v"
proof -
  have "unat v < 65536" using unsigned_less [of v] by simp
  then show ?thesis by (simp add: read_u16_def read_n_encoded)
qed

lemma read_u32_encoded:
  "read_u32 (PerfByteReader_new be) (to_ne_bytes be 4 (unat v) @ rest) = Some v"
proof -
  have "unat v < 256 ^ 4" using unsigned_less [of v] by simp
  then show ?thesis by (simp add: read_u32_def read_n_encoded)
qed

lemma read_u64_encoded:
  "read_u64 (PerfByteReader_new be) (to_ne_bytes be 8 (unat v) @ rest) = Some v"
proof -
  have "unat v < 256 ^ 8" using unsigned_less [of v] by simp
  then show ?thesis by (simp add: read_u64_def read_n_encoded)
qed

lemma swap_bytes_involutive: "swap_bytes n (swap_bytes n x) = x mod 256 ^ n"
proof -
  have "nat_to_le n (le_to_nat (rev (nat_to_le n x))) = rev (nat_to_le n x)"
    by (metis length_nat_to_le length_rev nat_to_le_le_to_nat)
  then show ?thesis by (simp add: swap_bytes_def le_to_nat_nat_to_le)
qed

text \<open>
  Reading bytes in host order and then fixing the value is the same as reading them in the
  source's order directly: the two ways the code has of decoding a number agree.
\<close>

lemma fix_n_host_read:
  assumes "length bs = n"
  shows "fix_n n t r (from_bytes (big_endian t) bs) = from_bytes (source_big_endian r) bs"
proof (cases "source_big_endian r = big_endian t")
  case True
  then show ?thesis by (simp add: fix_n_def)
next
  case False
  have "nat_to_le n (le_to_nat bs) = bs" "nat_to_le n (le_to_nat (rev bs)) = rev bs"
    using assms nat_to_le_le_to_nat [of bs] nat_to_le_le_to_nat [of "rev bs"] by simp_all
  with False show ?thesis by (auto simp: fix_n_def swap_bytes_def from_bytes_def)
qed

end
