(* ===== verification/Perf_Item.thy ===== *)
theory Perf_Item
  imports Byte_Reader
begin

unbundle bit_operations_syntax

text \<open>
  \<open>tracepoint_decode/src/perf_item.rs\<close>: \<open>PerfItemMetadata\<close> (how an item of an event is encoded)
  and \<open>PerfItemValue\<close> (its metadata and its bytes), their constructors with the debug assertions
  they make, and the accessors that read an element out of the bytes. \<open>dbg\<close> is the build's
  \<open>debug_assertions\<close> flag. The lemmas show that the packed encoding byte gives back what it was made
  from, and that an accessor succeeds exactly inside the item's bytes.
\<close>

definition FieldEncoding_ArrayFlagMask :: u8 where
  [enum_consts]: "FieldEncoding_ArrayFlagMask = 0x60"

record PerfItemMetadata =
  im_element_count :: u16
  im_field_tag :: u16
  im_type_size :: u8
  encoding_and_array_flag_and_is_scalar :: FieldEncoding
  im_format :: FieldFormat
  im_byte_reader :: PerfByteReader

definition PerfItemMetadata_null :: PerfItemMetadata where
  "PerfItemMetadata_null =
     \<lparr>im_element_count = 0, im_field_tag = 0, im_type_size = 0,
      encoding_and_array_flag_and_is_scalar = FieldEncoding_Invalid,
      im_format = FieldFormat_Default, im_byte_reader = PerfByteReader_new False\<rparr>"

definition PerfItemMetadata_new ::
  "bool \<Rightarrow> PerfByteReader \<Rightarrow> FieldEncoding \<Rightarrow> FieldFormat \<Rightarrow> bool \<Rightarrow> u8 \<Rightarrow> u16 \<Rightarrow> u16 \<Rightarrow> PerfItemMetadata option" where
  "PerfItemMetadata_new dbg reader enc fmt is_scalar type_size element_count field_tag = do {
     debug_assert dbg (\<not> FieldEncoding_has_chain_flag enc);
     debug_assert dbg (\<not> FieldFormat_has_chain_flag fmt);
     debug_assert dbg (FieldEncoding_array_flags enc \<noteq> FieldEncoding_ArrayFlagMask);
     debug_assert dbg (if is_scalar then element_count = 1 else FieldEncoding_is_array enc);
     debug_assert dbg (FieldEncoding_without_flags enc = FieldEncoding_Struct \<longrightarrow> type_size = 0 \<and> fmt \<noteq> 0);
     let is_scalar_flag = (if is_scalar then FieldEncoding_ChainFlag else 0);
     Some \<lparr>im_element_count = element_count, im_field_tag = field_tag, im_type_size = type_size,
           encoding_and_array_flag_and_is_scalar = FieldEncoding_with_flags enc is_scalar_flag,
           im_format = fmt, im_byte_reader = reader\<rparr>
   }"

definition im_encoding :: "PerfItemMetadata \<Rightarrow> FieldEncoding" where
  "im_encoding m = FieldEncoding_without_flags (encoding_and_array_flag_and_is_scalar m)"

definition im_array_flag :: "PerfItemMetadata \<Rightarrow> u8" where
  "im_array_flag m = FieldEncoding_array_flags (encoding_and_array_flag_and_is_scalar m)"

definition im_is_scalar :: "PerfItemMetadata \<Rightarrow> bool" where
  "im_is_scalar m = FieldEncoding_has_chain_flag (encoding_and_array_flag_and_is_scalar m)"

definition im_is_element :: "PerfItemMetadata \<Rightarrow> bool" where
  "im_is_element m =
     (let enc = encoding_and_array_flag_and_is_scalar m
      in 0 \<noteq> enc AND FieldEncoding_ChainFlag \<and> 0 \<noteq> enc AND FieldEncoding_ArrayFlagMask)"

definition im_struct_field_count :: "PerfItemMetadata \<Rightarrow> u8" where
  "im_struct_field_count m = im_format m"

record PerfItemValue =
  iv_bytes :: bytes
  iv_metadata :: PerfItemMetadata

definition PerfItemValue_new :: "bool \<Rightarrow> bytes \<Rightarrow> PerfItemMetadata \<Rightarrow> PerfItemValue option" where
  "PerfItemValue_new dbg bs m = do {
     debug_assert dbg (im_type_size m \<noteq> 0 \<and> bs \<noteq> [] \<longrightarrow>
        length bs = unat (im_type_size m) * unat (im_element_count m));
     debug_assert dbg (im_encoding m = FieldEncoding_Struct \<longrightarrow> bs = []);
     Some \<lparr>iv_bytes = bs, iv_metadata = m\<rparr>
   }"

text \<open>
  The accessors: \<open>to_u8x1\<close> to \<open>to_u8x16\<close> take the \<open>SIZE\<close> bytes of element \<open>index\<close>;
  \<open>to_u16\<close> and its relatives read a number from \<open>bytes[index * SIZE..]\<close>.
\<close>

definition to_u8xn :: "bool \<Rightarrow> nat \<Rightarrow> PerfItemValue \<Rightarrow> nat \<Rightarrow> bytes option" where
  "to_u8xn dbg SIZE v i = do {
     debug_assert dbg (length (iv_bytes v) div SIZE > i);
     slice (iv_bytes v) (i * SIZE) (i * SIZE + SIZE)
   }"

definition to_u8 :: "bool \<Rightarrow> PerfItemValue \<Rightarrow> nat \<Rightarrow> u8 option" where
  "to_u8 dbg v i = do {
     debug_assert dbg (length (iv_bytes v) > i);
     index (iv_bytes v) i
   }"

definition to_i8 :: "bool \<Rightarrow> PerfItemValue \<Rightarrow> nat \<Rightarrow> int option" where
  "to_i8 dbg v i = do {
     debug_assert dbg (length (iv_bytes v) > i);
     b \<leftarrow> index (iv_bytes v) i;
     Some (sint b)
   }"

definition to_u16 :: "bool \<Rightarrow> PerfItemValue \<Rightarrow> nat \<Rightarrow> u16 option" where
  "to_u16 dbg v i = do {
     debug_assert dbg (length (iv_bytes v) div 2 > i);
     s \<leftarrow> slice_from (iv_bytes v) (i * 2);
     read_u16 (im_byte_reader (iv_metadata v)) s
   }"

definition to_i16 :: "bool \<Rightarrow> PerfItemValue \<Rightarrow> nat \<Rightarrow> int option" where
  "to_i16 dbg v i = do {
     debug_assert dbg (length (iv_bytes v) div 2 > i);
     s \<leftarrow> slice_from (iv_bytes v) (i * 2);
     read_i16 (im_byte_reader (iv_metadata v)) s
   }"

definition to_u32 :: "bool \<Rightarrow> PerfItemValue \<Rightarrow> nat \<Rightarrow> u32 option" where
  "to_u32 dbg v i = do {
     debug_assert dbg (length (iv_bytes v) div 4 > i);
     s \<leftarrow> slice_from (iv_bytes v) (i * 4);
     read_u32 (im_byte_reader (iv_metadata v)) s
   }"

definition to_i32 :: "bool \<Rightarrow> PerfItemValue \<Rightarrow> nat \<Rightarrow> int option" where
  "to_i32 dbg v i = do {
     debug_assert dbg (length (iv_bytes v) div 4 > i);
     s \<leftarrow> slice_from (iv_bytes v) (i * 4);
     read_i32 (im_byte_reader (iv_metadata v)) s
   }"

definition to_u64 :: "bool \<Rightarrow> PerfItemValue \<Rightarrow> nat \<Rightarrow> u64 option" where
  "to_u64 dbg v i = do {
     debug_assert dbg (length (iv_bytes v) div 8 > i);
     s \<leftarrow> slice_from (iv_bytes v) (i * 8);
     read_u64 (im_byte_reader (iv_metadata v)) s
   }"

definition to_i64 :: "bool \<Rightarrow> PerfItemValue \<Rightarrow> nat \<Rightarrow> int option" where
  "to_i64 dbg v i = do {
     debug_assert dbg (length (iv_bytes v) div 8 > i);
     s \<leftarrow> slice_from (iv_bytes v) (i * 8);
     read_i64 (im_byte_reader (iv_metadata v)) s
   }"

section \<open>The packed encoding byte\<close>

lemma PerfItemMetadata_new_release:
  "PerfItemMetadata_new False r enc fmt sc ts n tg =
     Some \<lparr>im_element_count = n, im_field_tag = tg, im_type_size = ts,
           encoding_and_array_flag_and_is_scalar =
             FieldEncoding_with_flags enc (if sc then FieldEncoding_ChainFlag else 0),
           im_format = fmt, im_byte_reader = r\<rparr>"
  by (simp add: PerfItemMetadata_new_def debug_assert_def)

lemma PerfItemMetadata_new_fields:
  assumes "PerfItemMetadata_new dbg r enc fmt sc ts n tg = Some m"
  shows "im_element_count m = n" "im_field_tag m = tg" "im_type_size m = ts" "im_format m = fmt"
    "im_byte_reader m = r" "im_encoding m = FieldEncoding_without_flags enc"
    "im_array_flag m = FieldEncoding_array_flags enc"
proof -
  have m: "m = \<lparr>im_element_count = n, im_field_tag = tg, im_type_size = ts,
           encoding_and_array_flag_and_is_scalar =
             FieldEncoding_with_flags enc (if sc then FieldEncoding_ChainFlag else 0),
           im_format = fmt, im_byte_reader = r\<rparr>"
    using assms by (auto simp: PerfItemMetadata_new_def Let_def bind_eq_Some_conv)
  show "im_element_count m = n" "im_field_tag m = tg" "im_type_size m = ts" "im_format m = fmt"
    "im_byte_reader m = r"
    by (simp_all add: m)
  show "im_encoding m = FieldEncoding_without_flags enc"
    "im_array_flag m = FieldEncoding_array_flags enc"
    by (auto simp: m im_encoding_def im_array_flag_def field_encoding_defs enum_consts u8_eq_iff bit_simps)
qed

lemma PerfItemMetadata_new_scalar:
  assumes "PerfItemMetadata_new dbg r enc fmt sc ts n tg = Some m"
    and "\<not> FieldEncoding_has_chain_flag enc"
  shows "im_is_scalar m = sc" "im_is_element m = (sc \<and> FieldEncoding_is_array enc)"
proof -
  have m: "encoding_and_array_flag_and_is_scalar m =
      FieldEncoding_with_flags enc (if sc then FieldEncoding_ChainFlag else 0)"
    using assms(1) by (auto simp: PerfItemMetadata_new_def Let_def bind_eq_Some_conv)
  from assms(2) show "im_is_scalar m = sc" "im_is_element m = (sc \<and> FieldEncoding_is_array enc)"
    by (auto simp: m im_is_scalar_def im_is_element_def Let_def field_encoding_defs enum_consts
        u8_eq_iff bit_simps)
qed

section \<open>Reading elements\<close>

lemma to_u8xn_iff:
  assumes "0 < SIZE"
  shows "to_u8xn dbg SIZE v i = Some b \<longleftrightarrow>
     i < length (iv_bytes v) div SIZE \<and> b = take SIZE (drop (i * SIZE) (iv_bytes v))"
proof -
  have "i < length (iv_bytes v) div SIZE \<longleftrightarrow> i * SIZE + SIZE \<le> length (iv_bytes v)"
    using assms by (metis Suc_le_eq add.commute less_eq_div_iff_mult_less_eq mult_Suc)
  then show ?thesis
    by (auto simp: to_u8xn_def debug_assert_def slice_def)
qed

lemma to_u16_in:
  assumes "i < length (iv_bytes v) div 2"
  shows "to_u16 dbg v i =
    Some (word_of_nat (from_bytes (source_big_endian (im_byte_reader (iv_metadata v)))
                                  (take 2 (drop (i * 2) (iv_bytes v)))))"
proof -
  from assms have "i * 2 + 2 \<le> length (iv_bytes v)" by linarith
  with assms show ?thesis by (simp add: to_u16_def debug_assert_def)
qed

lemma to_u32_in:
  assumes "i < length (iv_bytes v) div 4"
  shows "to_u32 dbg v i =
    Some (word_of_nat (from_bytes (source_big_endian (im_byte_reader (iv_metadata v)))
                                  (take 4 (drop (i * 4) (iv_bytes v)))))"
proof -
  from assms have "i * 4 + 4 \<le> length (iv_bytes v)" by linarith
  with assms show ?thesis by (simp add: to_u32_def read_u32_def debug_assert_def)
qed

end
