(* ===== verification/Enumerator.thy ===== *)
theory Enumerator
  imports Perf_Item
begin

unbundle bit_operations_syntax

text \<open>
  \<open>tracepoint_decode/src/enumerator.rs\<close>: the decoder of EventHeader events. The context
  \<open>EventHeaderEnumeratorContext\<close> is the record \<open>ctx\<close>; each method that takes \<open>&mut self\<close> is a
  function from a context to the updated one. \<open>d\<close> is the event's bytes (\<open>event_data\<close>) and \<open>dbg\<close>
  the build's debug-assertions flag, which also decides what arithmetic overflow does. A result
  \<open>None\<close> is a panic. Only \<open>skip_struct_metadata\<close> is bounded by fuel, one unit per byte of the event;
  running out is \<open>None\<close> as well, so a theorem that it returns \<open>Some\<close> says that the loop ends.
\<close>

section \<open>States\<close>

datatype SubState =
    Sub_Error | Sub_AfterLastItem | Sub_BeforeFirstItem | Sub_ValueMetadata | Sub_ValueScalar
  | Sub_ValueSimpleArrayElement | Sub_ValueComplexArrayElement | Sub_ArrayBegin | Sub_ArrayEnd
  | Sub_StructBegin | Sub_StructEnd

datatype EventHeaderEnumeratorState =
    State_Error | State_AfterLastItem | State_BeforeFirstItem | State_Value | State_ArrayBegin
  | State_ArrayEnd | State_StructBegin | State_StructEnd

datatype EventHeaderEnumeratorError =
    Success | InvalidParameter | NotSupported | ImplementationLimit | InvalidData | StackOverflow
  | NotEventHeader

text \<open>The derived \<open>Ord\<close> of the state enum compares discriminants.\<close>

fun state_as_u8 :: "EventHeaderEnumeratorState \<Rightarrow> nat" where
  "state_as_u8 State_Error = 0"
| "state_as_u8 State_AfterLastItem = 1"
| "state_as_u8 State_BeforeFirstItem = 2"
| "state_as_u8 State_Value = 3"
| "state_as_u8 State_ArrayBegin = 4"
| "state_as_u8 State_ArrayEnd = 5"
| "state_as_u8 State_StructBegin = 6"
| "state_as_u8 State_StructEnd = 7"

lemma state_as_u8_inject: "state_as_u8 a = state_as_u8 b \<longleftrightarrow> a = b"
  by (cases a; cases b) simp_all

instantiation EventHeaderEnumeratorState :: linorder
begin

definition less_eq_EventHeaderEnumeratorState ::
  "EventHeaderEnumeratorState \<Rightarrow> EventHeaderEnumeratorState \<Rightarrow> bool" where
  "less_eq_EventHeaderEnumeratorState a b = (state_as_u8 a \<le> state_as_u8 b)"

definition less_EventHeaderEnumeratorState ::
  "EventHeaderEnumeratorState \<Rightarrow> EventHeaderEnumeratorState \<Rightarrow> bool" where
  "less_EventHeaderEnumeratorState a b = (state_as_u8 a < state_as_u8 b)"

instance
  by standard
    (auto simp: less_eq_EventHeaderEnumeratorState_def less_EventHeaderEnumeratorState_def
      state_as_u8_inject)

end

definition can_move_next :: "EventHeaderEnumeratorState \<Rightarrow> bool" where
  "can_move_next s = (State_BeforeFirstItem \<le> s)"

definition can_item_info :: "EventHeaderEnumeratorState \<Rightarrow> bool" where
  "can_item_info s = (State_Value \<le> s)"

section \<open>The context\<close>

record StackEntry =
  next_offset :: nat
  name_offset :: nat
  name_len :: nat
  array_index :: nat
  array_count :: nat
  remaining_field_count :: nat

definition StackEntry_ZERO :: StackEntry where
  "StackEntry_ZERO = \<lparr>next_offset = 0, name_offset = 0, name_len = 0, array_index = 0,
                      array_count = 0, remaining_field_count = 0\<rparr>"

record FieldType =
  ft_encoding :: FieldEncoding
  ft_format :: FieldFormat
  ft_tag :: u16

record ctx =
  header :: EventHeader
  keyword :: u64
  meta_start :: nat
  meta_end :: nat
  activity_id_start :: nat
  activity_id_len :: nat
  byte_reader :: PerfByteReader
  event_name_len :: nat
  data_start :: nat
  data_pos_raw :: nat
  move_next_remaining :: nat
  stack_top :: StackEntry
  stack_index :: nat
  state :: EventHeaderEnumeratorState
  substate :: SubState
  last_error :: EventHeaderEnumeratorError
  element_size :: nat
  field_type :: FieldType
  data_pos_cooked :: nat
  item_size_raw :: nat
  item_size_cooked :: nat
  stack :: "StackEntry list"

definition READ_FIELD_ERROR :: FieldEncoding where
  [enum_consts]: "READ_FIELD_ERROR = FieldEncoding_Invalid"

definition MOVE_NEXT_LIMIT_DEFAULT :: nat where
  "MOVE_NEXT_LIMIT_DEFAULT = 4096"

definition STRUCT_NEST_LIMIT :: nat where
  [simp]: "STRUCT_NEST_LIMIT = 8"

definition ctx_new :: ctx where
  "ctx_new =
     \<lparr>header = \<lparr>eh_flags = HeaderFlags_None, eh_version = 0, eh_id = 0, eh_tag = 0,
                eh_opcode = Opcode_Info, eh_level = Level_Invalid\<rparr>,
      keyword = 0, meta_start = 0, meta_end = 0, activity_id_start = 0, activity_id_len = 0,
      byte_reader = PerfByteReader_new False, event_name_len = 0, data_start = 0,
      data_pos_raw = 0, move_next_remaining = 0, stack_top = StackEntry_ZERO, stack_index = 0,
      state = State_Error, substate = Sub_Error, last_error = Success, element_size = 0,
      field_type = \<lparr>ft_encoding = FieldEncoding_Invalid, ft_format = FieldFormat_Default, ft_tag = 0\<rparr>,
      data_pos_cooked = 0, item_size_raw = 0, item_size_cooked = 0,
      stack = replicate 8 StackEntry_ZERO\<rparr>"

abbreviation cur_enc :: "ctx \<Rightarrow> FieldEncoding" where
  "cur_enc c \<equiv> ft_encoding (field_type c)"

definition upd_top :: "(StackEntry \<Rightarrow> StackEntry) \<Rightarrow> ctx \<Rightarrow> ctx" where
  "upd_top f c = c\<lparr>stack_top := f (stack_top c)\<rparr>"

section \<open>State changes\<close>

definition set_state :: "EventHeaderEnumeratorState \<Rightarrow> SubState \<Rightarrow> ctx \<Rightarrow> ctx" where
  "set_state st sub c = c\<lparr>state := st, substate := sub\<rparr>"

definition set_end_state :: "EventHeaderEnumeratorState \<Rightarrow> SubState \<Rightarrow> ctx \<Rightarrow> ctx" where
  "set_end_state st sub c =
     c\<lparr>data_pos_cooked := data_pos_raw c, item_size_raw := 0, item_size_cooked := 0,
       state := st, substate := sub\<rparr>"

definition set_error_state :: "EventHeaderEnumeratorError \<Rightarrow> ctx \<Rightarrow> bool \<times> ctx" where
  "set_error_state e c = (False, c\<lparr>last_error := e, state := State_Error, substate := Sub_Error\<rparr>)"

definition reset_impl :: "bool \<Rightarrow> nat \<Rightarrow> ctx \<Rightarrow> ctx option" where
  "reset_impl dbg move_next_limit c = do {
     n1 \<leftarrow> uadd 32 dbg (meta_start c) (event_name_len c);
     n2 \<leftarrow> uadd 32 dbg n1 1;
     let c = c\<lparr>data_pos_raw := data_start c, move_next_remaining := move_next_limit\<rparr>;
     let c = upd_top (\<lambda>e. e\<lparr>next_offset := n2, remaining_field_count := 255\<rparr>) c;
     let c = set_state State_BeforeFirstItem Sub_BeforeFirstItem (c\<lparr>stack_index := 0\<rparr>);
     Some (c\<lparr>last_error := Success\<rparr>)
   }"

section \<open>Reading field metadata\<close>

text \<open>
  The loop \<open>while name_end < meta_end && event_data[name_end] != 0 { name_end += 1 }\<close>. The sum
  cannot overflow: \<open>name_end < meta_end\<close> and \<open>meta_end\<close> is a \<open>u32\<close>.
\<close>

function scan_name_end :: "bytes \<Rightarrow> nat \<Rightarrow> nat \<Rightarrow> nat option" where
  "scan_name_end d m p =
     (if p < m then do {
        b \<leftarrow> index d p;
        if b \<noteq> 0 then scan_name_end d m (Suc p) else Some p
      } else Some p)"
  by pat_completeness auto
termination
  by (relation "measure (\<lambda>(d, m, p). m - p)") auto

declare scan_name_end.simps [simp del]

definition read_field_type :: "bool \<Rightarrow> bytes \<Rightarrow> nat \<Rightarrow> ctx \<Rightarrow> (FieldType \<times> ctx) option" where
  "read_field_type dbg d type_offset c = do {
     debug_assert dbg (meta_end c > type_offset);
     enc \<leftarrow> index d type_offset;
     pos \<leftarrow> uadd 32 dbg type_offset 1;
     (encoding, format, tag, pos) \<leftarrow>
       (if FieldEncoding_has_chain_flag enc then
          (if meta_end c = pos then Some (READ_FIELD_ERROR, FieldFormat_Default, 0, pos)
           else do {
             fmt \<leftarrow> index d pos;
             pos \<leftarrow> uadd 32 dbg pos 1;
             (if FieldFormat_has_chain_flag fmt then do {
                left \<leftarrow> usub 32 dbg (meta_end c) pos;
                (if left < 2 then Some (READ_FIELD_ERROR, fmt, 0, pos)
                 else do {
                   s \<leftarrow> slice_from d pos;
                   t \<leftarrow> read_u16 (byte_reader c) s;
                   pos \<leftarrow> uadd 32 dbg pos 2;
                   Some (enc, fmt, t, pos)
                 })
              } else Some (enc, fmt, 0, pos))
           })
        else Some (enc, FieldFormat_Default, 0, pos));
     Some (\<lparr>ft_encoding = FieldEncoding_without_chain_flag encoding,
            ft_format = FieldFormat_without_flags format, ft_tag = tag\<rparr>,
           upd_top (\<lambda>e. e\<lparr>next_offset := pos\<rparr>) c)
   }"

definition read_field_name_and_type :: "bool \<Rightarrow> bytes \<Rightarrow> ctx \<Rightarrow> (FieldType \<times> ctx) option" where
  "read_field_name_and_type dbg d c = do {
     let name_begin = name_offset (stack_top c);
     debug_assert dbg (meta_end c \<ge> name_begin);
     name_end \<leftarrow> scan_name_end d (meta_end c) name_begin;
     left \<leftarrow> usub 32 dbg (meta_end c) name_end;
     (if left < 2
      then Some (\<lparr>ft_encoding = READ_FIELD_ERROR, ft_format = FieldFormat_Default, ft_tag = 0\<rparr>, c)
      else do {
        len \<leftarrow> usub 32 dbg name_end name_begin;
        let c = upd_top (\<lambda>e. e\<lparr>name_len := ucast_to 16 len\<rparr>) c;
        off \<leftarrow> uadd 32 dbg name_end 1;
        read_field_type dbg d off c
      })
   }"

section \<open>Starting an item\<close>

definition start_struct :: "bool \<Rightarrow> ctx \<Rightarrow> ctx option" where
  "start_struct dbg c = do {
     debug_assert dbg (FieldEncoding_without_flags (ft_encoding (field_type c)) = FieldEncoding_Struct);
     let c = c\<lparr>element_size := 0, item_size_raw := 0, data_pos_cooked := data_pos_raw c,
               item_size_cooked := 0\<rparr>;
     Some (set_state State_StructBegin Sub_StructBegin c)
   }"

text \<open>The encodings whose elements have a fixed size, with that size.\<close>

definition fixed_element_size :: "FieldEncoding \<Rightarrow> nat option" where
  "fixed_element_size e =
     (if e = FieldEncoding_Value8 then Some 1
      else if e = FieldEncoding_Value16 then Some 2
      else if e = FieldEncoding_Value32 then Some 4
      else if e = FieldEncoding_Value64 then Some 8
      else if e = FieldEncoding_Value128 then Some 16
      else None)"

definition is_complex_value :: "FieldEncoding \<Rightarrow> bool" where
  "is_complex_value e =
     (e \<in> {FieldEncoding_ZStringChar8, FieldEncoding_ZStringChar16, FieldEncoding_ZStringChar32,
           FieldEncoding_StringLength16Char8, FieldEncoding_StringLength16Char16,
           FieldEncoding_StringLength16Char32, FieldEncoding_BinaryLength16Char8})"

definition start_array :: "bool \<Rightarrow> nat \<Rightarrow> ctx \<Rightarrow> (bool \<times> ctx) option" where
  "start_array dbg event_data_len c = do {
     let c = c\<lparr>element_size := 0, item_size_raw := 0, data_pos_cooked := data_pos_raw c,
               item_size_cooked := 0\<rparr>;
     let c = set_state State_ArrayBegin Sub_ArrayBegin c;
     let e = FieldEncoding_without_flags (ft_encoding (field_type c));
     (if e = FieldEncoding_Struct then Some (True, c)
      else case fixed_element_size e of
        Some sz \<Rightarrow> do {
          let c = c\<lparr>element_size := sz\<rparr>;
          remaining_len \<leftarrow> usub 32 dbg event_data_len (data_pos_raw c);
          array_len \<leftarrow> umul 32 dbg (array_count (stack_top c)) (element_size c);
          (if remaining_len < array_len then Some (set_error_state InvalidData c)
           else Some (True, c\<lparr>item_size_cooked := array_len, item_size_raw := array_len\<rparr>))
        }
      | None \<Rightarrow>
          if is_complex_value e then Some (True, c)
          else if e = FieldEncoding_Invalid then Some (set_error_state InvalidData c)
          else Some (set_error_state NotSupported c))
   }"

definition start_value_simple :: "bool \<Rightarrow> ctx \<Rightarrow> ctx option" where
  "start_value_simple dbg c = do {
     debug_assert dbg (array_index (stack_top c) < array_count (stack_top c));
     debug_assert dbg (FieldEncoding_is_array (ft_encoding (field_type c)));
     debug_assert dbg (FieldEncoding_without_flags (ft_encoding (field_type c)) \<noteq> FieldEncoding_Struct);
     debug_assert dbg (element_size c \<noteq> 0);
     debug_assert dbg (item_size_cooked c = element_size c);
     debug_assert dbg (item_size_raw c = element_size c);
     debug_assert dbg (state c = State_Value);
     Some (c\<lparr>data_pos_cooked := data_pos_raw c\<rparr>)
   }"

definition start_value_fixed_length :: "bool \<Rightarrow> bytes \<Rightarrow> nat \<Rightarrow> ctx \<Rightarrow> (bool \<times> ctx) option" where
  "start_value_fixed_length dbg d sz c = do {
     let c = c\<lparr>element_size := sz\<rparr>;
     remaining_len \<leftarrow> usub 32 dbg (ucast_to 32 (length d)) (data_pos_raw c);
     (if sz > remaining_len
      then Some (set_error_state InvalidData (c\<lparr>item_size_cooked := 0, item_size_raw := 0\<rparr>))
      else Some (True, c\<lparr>item_size_cooked := sz, item_size_raw := sz\<rparr>))
   }"

text \<open>
  \<open>start_value_zstring8\<close>, \<open>16\<close> and \<open>32\<close> differ only in \<open>ELEMENT_SIZE\<close>: they look for the first
  aligned element whose bytes are all zero (\<open>from_ne_bytes\<close> is zero iff every byte is).
\<close>

function find_zero_element :: "nat \<Rightarrow> bytes \<Rightarrow> nat \<Rightarrow> nat \<Rightarrow> nat option option" where
  "find_zero_element esz d end_pos pos =
     (if pos < end_pos \<and> 0 < esz then do {
        w \<leftarrow> slice d pos (pos + esz);
        if \<forall>b \<in> set w. b = 0 then Some (Some pos) else find_zero_element esz d end_pos (pos + esz)
      } else Some None)"
  by pat_completeness auto
termination
  by (relation "measure (\<lambda>(esz, d, end_pos, pos). end_pos - pos)") auto

declare find_zero_element.simps [simp del]

definition start_value_zstring :: "bool \<Rightarrow> nat \<Rightarrow> bytes \<Rightarrow> ctx \<Rightarrow> ctx option" where
  "start_value_zstring dbg esz d c = do {
     e \<leftarrow> usub 64 dbg (length d) esz;
     r \<leftarrow> find_zero_element esz d (e + 1) (data_pos_raw c);
     case r of
       Some pos \<Rightarrow> do {
         cooked \<leftarrow> usub 32 dbg (ucast_to 32 pos) (data_pos_raw c);
         raw \<leftarrow> uadd 32 dbg cooked esz;
         Some (c\<lparr>item_size_cooked := cooked, item_size_raw := raw\<rparr>)
       }
     | None \<Rightarrow> do {
         n \<leftarrow> usub 32 dbg (ucast_to 32 (length d)) (data_pos_raw c);
         Some (c\<lparr>item_size_cooked := n, item_size_raw := n\<rparr>)
       }
   }"

definition start_value_string :: "bool \<Rightarrow> bytes \<Rightarrow> nat \<Rightarrow> ctx \<Rightarrow> ctx option" where
  "start_value_string dbg d char_size_shift c = do {
     remaining \<leftarrow> usub 32 dbg (ucast_to 32 (length d)) (data_pos_raw c);
     (if remaining < 2 then Some (c\<lparr>item_size_raw := 2\<rparr>)
      else do {
        cooked_pos \<leftarrow> uadd 32 dbg (data_pos_raw c) 2;
        s \<leftarrow> slice_from d (data_pos_raw c);
        cch \<leftarrow> read_u16 (byte_reader c) s;
        let cooked = ucast_to 32 (unat cch * 2 ^ char_size_shift);
        raw \<leftarrow> uadd 32 dbg cooked 2;
        Some (c\<lparr>data_pos_cooked := cooked_pos, item_size_cooked := cooked, item_size_raw := raw\<rparr>)
      })
   }"

definition start_value :: "bool \<Rightarrow> bytes \<Rightarrow> ctx \<Rightarrow> (bool \<times> ctx) option" where
  "start_value dbg d c = do {
     remaining_len \<leftarrow> usub 32 dbg (ucast_to 32 (length d)) (data_pos_raw c);
     debug_assert dbg (state c = State_Value);
     (if dbg then do {
        b \<leftarrow> index d (name_offset (stack_top c) + name_len (stack_top c) + 1);
        debug_assert dbg (ft_encoding (field_type c) = FieldEncoding_without_chain_flag b)
      } else Some ());
     let c = c\<lparr>data_pos_cooked := data_pos_raw c, element_size := 0\<rparr>;
     let e = FieldEncoding_without_flags (ft_encoding (field_type c));
     (case fixed_element_size e of
        Some sz \<Rightarrow> start_value_fixed_length dbg d sz c
      | None \<Rightarrow>
          if is_complex_value e then do {
            c \<leftarrow> (if e = FieldEncoding_ZStringChar8 then start_value_zstring dbg 1 d c
                  else if e = FieldEncoding_ZStringChar16 then start_value_zstring dbg 2 d c
                  else if e = FieldEncoding_ZStringChar32 then start_value_zstring dbg 4 d c
                  else if e = FieldEncoding_StringLength16Char16 then start_value_string dbg d 1 c
                  else if e = FieldEncoding_StringLength16Char32 then start_value_string dbg d 2 c
                  else start_value_string dbg d 0 c);
            (if remaining_len < item_size_raw c
             then Some (set_error_state InvalidData (c\<lparr>item_size_cooked := 0, item_size_raw := 0\<rparr>))
             else Some (True, c))
          }
          else do {
            debug_assert dbg (e \<noteq> FieldEncoding_Struct);
            Some (set_error_state InvalidData (c\<lparr>item_size_cooked := 0, item_size_raw := 0\<rparr>))
          })
   }"

section \<open>Moving to the next property\<close>

text \<open>
  \<open>next_property\<close> has two halves: there is another field of the current struct (or of the event),
  which it reads and decodes; or there is none, and it leaves the struct or ends the event.
\<close>

definition next_property_decode :: "bool \<Rightarrow> bytes \<Rightarrow> ctx \<Rightarrow> (bool \<times> ctx) option" where
  "next_property_decode dbg d c =
     (if cur_enc c = READ_FIELD_ERROR then Some (set_error_state InvalidData c)
      else if \<not> FieldEncoding_is_array (cur_enc c) then do {
        let c = upd_top (\<lambda>e. e\<lparr>array_count := 1\<rparr>) c;
        (if FieldEncoding_Struct \<noteq> cur_enc c
         then start_value dbg d (set_state State_Value Sub_ValueScalar c)
         else if ft_format (field_type c) = FieldFormat_Default then Some (set_error_state InvalidData c)
         else do {
           c \<leftarrow> start_struct dbg c;
           Some (True, c)
         })
      }
      else if FieldEncoding_is_variable_length_array (cur_enc c) then do {
        left \<leftarrow> usub 64 dbg (length d) (data_pos_raw c);
        (if left < 2 then Some (set_error_state InvalidData c)
         else do {
           s \<leftarrow> slice_from d (data_pos_raw c);
           n \<leftarrow> read_u16 (byte_reader c) s;
           p \<leftarrow> uadd 32 dbg (data_pos_raw c) 2;
           let c = upd_top (\<lambda>e. e\<lparr>array_count := unat n\<rparr>) (c\<lparr>data_pos_raw := p\<rparr>);
           start_array dbg (ucast_to 32 (length d)) c
         })
      }
      else if FieldEncoding_is_constant_length_array (cur_enc c) then do {
        left \<leftarrow> usub 32 dbg (meta_end c) (next_offset (stack_top c));
        (if left < 2 then Some (set_error_state InvalidData c)
         else do {
           s \<leftarrow> slice_from d (next_offset (stack_top c));
           n \<leftarrow> read_u16 (byte_reader c) s;
           no \<leftarrow> uadd 32 dbg (next_offset (stack_top c)) 2;
           let c = upd_top (\<lambda>e. e\<lparr>array_count := unat n, next_offset := no\<rparr>) c;
           (if unat n = 0 then Some (set_error_state InvalidData c)
            else start_array dbg (ucast_to 32 (length d)) c)
         })
      }
      else Some (set_error_state NotSupported c))"

definition next_property_field :: "bool \<Rightarrow> bytes \<Rightarrow> ctx \<Rightarrow> (bool \<times> ctx) option" where
  "next_property_field dbg d c = do {
     r \<leftarrow> usub 8 dbg (remaining_field_count (stack_top c)) 1;
     let c = upd_top (\<lambda>e. e\<lparr>remaining_field_count := r, array_index := 0,
                            name_offset := next_offset e\<rparr>) c;
     (ft, c) \<leftarrow> read_field_name_and_type dbg d c;
     next_property_decode dbg d (c\<lparr>field_type := ft\<rparr>)
   }"

definition next_property_end :: "bool \<Rightarrow> bytes \<Rightarrow> ctx \<Rightarrow> (bool \<times> ctx) option" where
  "next_property_end dbg d c =
     (if stack_index c \<noteq> 0 then do {
        si \<leftarrow> usub 8 dbg (stack_index c) 1;
        let child_metadata_offset = next_offset (stack_top c);
        top \<leftarrow> index (stack c) si;
        let c = c\<lparr>stack_index := si, stack_top := top\<rparr>;
        o1 \<leftarrow> uadd 32 dbg (name_offset top) (name_len top);
        o2 \<leftarrow> uadd 32 dbg o1 1;
        (ft, c) \<leftarrow> read_field_type dbg d o2 c;
        let c = c\<lparr>field_type := ft\<rparr>;
        debug_assert dbg (FieldEncoding_Struct = FieldEncoding_without_flags (ft_encoding ft));
        let c = c\<lparr>element_size := 0\<rparr>;
        debug_assert dbg (array_index (stack_top c) < array_count (stack_top c));
        i1 \<leftarrow> uadd 16 dbg (array_index (stack_top c)) 1;
        let c = (if i1 = array_count (stack_top c)
                 then upd_top (\<lambda>e. e\<lparr>next_offset := child_metadata_offset\<rparr>) c else c);
        Some (True, set_end_state State_StructEnd Sub_StructEnd c)
      }
      else if next_offset (stack_top c) \<noteq> meta_end c then Some (set_error_state NotSupported c)
      else Some (False, set_end_state State_AfterLastItem Sub_AfterLastItem c))"

definition next_property :: "bool \<Rightarrow> bytes \<Rightarrow> ctx \<Rightarrow> (bool \<times> ctx) option" where
  "next_property dbg d c =
     (if remaining_field_count (stack_top c) \<noteq> 0 \<and> next_offset (stack_top c) \<noteq> meta_end c
      then next_property_field dbg d c else next_property_end dbg d c)"

text \<open>
  \<open>skip_struct_metadata\<close>: the loop over the fields of a struct whose array is empty. The counter
  \<open>remaining_field_count\<close> is a \<open>u8\<close> local. \<open>fuel\<close> bounds the iterations.
\<close>

fun skip_struct_loop :: "bool \<Rightarrow> bytes \<Rightarrow> nat \<Rightarrow> nat \<Rightarrow> ctx \<Rightarrow> (bool \<times> ctx) option" where
  "skip_struct_loop dbg d 0 remaining c = None"
| "skip_struct_loop dbg d (Suc fuel) remaining c =
     (if remaining = 0 \<or> next_offset (stack_top c) = meta_end c then Some (True, c)
      else do {
        let c = upd_top (\<lambda>e. e\<lparr>name_offset := next_offset e\<rparr>) c;
        (typ, c) \<leftarrow> read_field_name_and_type dbg d c;
        (if ft_encoding typ = READ_FIELD_ERROR then Some (set_error_state InvalidData c)
         else do {
           remaining \<leftarrow> (if FieldEncoding_Struct = FieldEncoding_without_flags (ft_encoding typ)
                         then uadd 8 dbg remaining (unat (ft_format typ)) else Some remaining);
           (if \<not> FieldEncoding_is_constant_length_array (ft_encoding typ) then do {
              remaining \<leftarrow> usub 8 dbg remaining 1;
              skip_struct_loop dbg d fuel remaining c
            }
            else if \<not> FieldEncoding_is_variable_length_array (ft_encoding typ) then do {
              left \<leftarrow> usub 32 dbg (meta_end c) (next_offset (stack_top c));
              (if left < 2 then Some (set_error_state InvalidData c)
               else do {
                 no \<leftarrow> uadd 32 dbg (next_offset (stack_top c)) 2;
                 let c = upd_top (\<lambda>e. e\<lparr>next_offset := no\<rparr>) c;
                 remaining \<leftarrow> usub 8 dbg remaining 1;
                 skip_struct_loop dbg d fuel remaining c
               })
            }
            else Some (set_error_state NotSupported c))
         })
      })"

definition skip_struct_metadata :: "bool \<Rightarrow> bytes \<Rightarrow> ctx \<Rightarrow> (bool \<times> ctx) option" where
  "skip_struct_metadata dbg d c = do {
     debug_assert dbg (FieldEncoding_without_flags (ft_encoding (field_type c)) = FieldEncoding_Struct);
     skip_struct_loop dbg d (Suc (length d)) (unat (ft_format (field_type c))) c
   }"

section \<open>move_next\<close>

definition move_next_step :: "bool \<Rightarrow> bytes \<Rightarrow> ctx \<Rightarrow> (bool \<times> ctx) option" where
  "move_next_step dbg d c =
     (case substate c of
        Sub_BeforeFirstItem \<Rightarrow> do {
          debug_assert dbg (state c = State_BeforeFirstItem);
          next_property dbg d c
        }
      | Sub_ValueScalar \<Rightarrow> do {
          debug_assert dbg (state c = State_Value);
          debug_assert dbg (FieldEncoding_without_flags (cur_enc c) \<noteq> FieldEncoding_Struct);
          debug_assert dbg (\<not> FieldEncoding_is_array (cur_enc c));
          (if dbg then do {
             left \<leftarrow> usub 32 dbg (ucast_to 32 (length d)) (data_pos_raw c);
             debug_assert dbg (left \<ge> item_size_raw c)
           } else Some ());
          p \<leftarrow> uadd 32 dbg (data_pos_raw c) (item_size_raw c);
          next_property dbg d (c\<lparr>data_pos_raw := p\<rparr>)
        }
      | Sub_ValueSimpleArrayElement \<Rightarrow> do {
          debug_assert dbg (state c = State_Value);
          debug_assert dbg (FieldEncoding_without_flags (cur_enc c) \<noteq> FieldEncoding_Struct);
          debug_assert dbg (FieldEncoding_is_array (cur_enc c));
          debug_assert dbg (array_index (stack_top c) < array_count (stack_top c));
          debug_assert dbg (element_size c \<noteq> 0);
          (if dbg then do {
             left \<leftarrow> usub 32 dbg (ucast_to 32 (length d)) (data_pos_raw c);
             debug_assert dbg (left \<ge> item_size_raw c)
           } else Some ());
          p \<leftarrow> uadd 32 dbg (data_pos_raw c) (item_size_raw c);
          i \<leftarrow> uadd 16 dbg (array_index (stack_top c)) 1;
          let c = upd_top (\<lambda>e. e\<lparr>array_index := i\<rparr>) (c\<lparr>data_pos_raw := p\<rparr>);
          (if array_count (stack_top c) = array_index (stack_top c)
           then Some (True, set_end_state State_ArrayEnd Sub_ArrayEnd c)
           else do {
             c \<leftarrow> start_value_simple dbg c;
             Some (True, c)
           })
        }
      | Sub_ValueComplexArrayElement \<Rightarrow> do {
          debug_assert dbg (state c = State_Value);
          debug_assert dbg (FieldEncoding_without_flags (cur_enc c) \<noteq> FieldEncoding_Struct);
          debug_assert dbg (FieldEncoding_is_array (cur_enc c));
          debug_assert dbg (array_index (stack_top c) < array_count (stack_top c));
          debug_assert dbg (element_size c = 0);
          (if dbg then do {
             left \<leftarrow> usub 32 dbg (ucast_to 32 (length d)) (data_pos_raw c);
             debug_assert dbg (left \<ge> item_size_raw c)
           } else Some ());
          p \<leftarrow> uadd 32 dbg (data_pos_raw c) (item_size_raw c);
          i \<leftarrow> uadd 16 dbg (array_index (stack_top c)) 1;
          let c = upd_top (\<lambda>e. e\<lparr>array_index := i\<rparr>) (c\<lparr>data_pos_raw := p\<rparr>);
          (if array_count (stack_top c) = array_index (stack_top c)
           then Some (True, set_end_state State_ArrayEnd Sub_ArrayEnd c)
           else start_value dbg d c)
        }
      | Sub_ArrayBegin \<Rightarrow> do {
          debug_assert dbg (state c = State_ArrayBegin);
          debug_assert dbg (FieldEncoding_is_array (cur_enc c));
          debug_assert dbg (array_index (stack_top c) = 0);
          (if array_count (stack_top c) = 0
           then Some (True, set_end_state State_ArrayEnd Sub_ArrayEnd c)
           else if element_size c \<noteq> 0 then do {
             debug_assert dbg (FieldEncoding_without_flags (cur_enc c) \<noteq> FieldEncoding_Struct);
             let c = c\<lparr>item_size_cooked := element_size c, item_size_raw := element_size c\<rparr>;
             let c = set_state State_Value Sub_ValueSimpleArrayElement c;
             c \<leftarrow> start_value_simple dbg c;
             Some (True, c)
           }
           else if FieldEncoding_without_flags (cur_enc c) \<noteq> FieldEncoding_Struct
           then start_value dbg d (set_state State_Value Sub_ValueComplexArrayElement c)
           else do {
             c \<leftarrow> start_struct dbg c;
             Some (True, c)
           })
        }
      | Sub_ArrayEnd \<Rightarrow> do {
          debug_assert dbg (state c = State_ArrayEnd);
          debug_assert dbg (FieldEncoding_is_array (cur_enc c));
          debug_assert dbg (array_count (stack_top c) = array_index (stack_top c));
          (if FieldEncoding_without_flags (cur_enc c) = FieldEncoding_Struct
              \<and> array_count (stack_top c) = 0
           then do {
             (ok, c) \<leftarrow> skip_struct_metadata dbg d c;
             (if \<not> ok then Some (False, c) else next_property dbg d c)
           }
           else next_property dbg d c)
        }
      | Sub_StructBegin \<Rightarrow> do {
          debug_assert dbg (state c = State_StructBegin);
          (if stack_index c \<ge> STRUCT_NEST_LIMIT then Some (set_error_state StackOverflow c)
           else do {
             st \<leftarrow> store (stack c) (stack_index c) (stack_top c);
             let c = c\<lparr>stack := st, stack_index := stack_index c + 1\<rparr>;
             let c = upd_top (\<lambda>e. e\<lparr>remaining_field_count := unat (ft_format (field_type c))\<rparr>) c;
             next_property dbg d c
           })
        }
      | Sub_StructEnd \<Rightarrow> do {
          debug_assert dbg (state c = State_StructEnd);
          debug_assert dbg (FieldEncoding_without_flags (cur_enc c) = FieldEncoding_Struct);
          debug_assert dbg (item_size_raw c = 0);
          i \<leftarrow> uadd 16 dbg (array_index (stack_top c)) 1;
          let c = upd_top (\<lambda>e. e\<lparr>array_index := i\<rparr>) c;
          (if array_count (stack_top c) \<noteq> array_index (stack_top c) then do {
             debug_assert dbg (FieldEncoding_is_array (cur_enc c));
             debug_assert dbg (array_index (stack_top c) < array_count (stack_top c));
             c \<leftarrow> start_struct dbg c;
             Some (True, c)
           }
           else if FieldEncoding_is_array (cur_enc c)
           then Some (True, set_end_state State_ArrayEnd Sub_ArrayEnd c)
           else next_property dbg d c)
        }
      | _ \<Rightarrow> do {
          debug_assert dbg False;
          Some (False, c)
        })"

definition move_next_impl :: "bool \<Rightarrow> bytes \<Rightarrow> ctx \<Rightarrow> (bool \<times> ctx) option" where
  "move_next_impl dbg d c = do {
     debug_assert dbg (can_move_next (state c));
     (if move_next_remaining c = 0 then Some (set_error_state ImplementationLimit c)
      else move_next_step dbg d (c\<lparr>move_next_remaining := move_next_remaining c - 1\<rparr>))
   }"

section \<open>What the steps leave alone\<close>

text \<open>
  Nothing but \<open>enumerate\<close> changes the description of the event, and nothing but \<open>move_next\<close> and
  \<open>reset\<close> changes the count of permitted moves. \<open>static_part\<close> collects these fields.
\<close>

definition static_part ::
  "ctx \<Rightarrow> EventHeader \<times> u64 \<times> nat \<times> nat \<times> nat \<times> nat \<times> PerfByteReader \<times> nat \<times> nat" where
  "static_part c =
     (header c, keyword c, meta_start c, meta_end c, activity_id_start c, activity_id_len c,
      byte_reader c, event_name_len c, data_start c)"

definition frame_key :: "ctx \<Rightarrow> (EventHeader \<times> u64 \<times> nat \<times> nat \<times> nat \<times> nat \<times> PerfByteReader \<times> nat \<times> nat) \<times> nat" where
  "frame_key c = (static_part c, move_next_remaining c)"

abbreviation frame :: "ctx \<Rightarrow> ctx \<Rightarrow> bool" where
  "frame c c' \<equiv> frame_key c' = frame_key c"

lemma frame_key_updates [simp]:
  "frame_key (upd_top f c) = frame_key c"
  "frame_key (set_state st sub c) = frame_key c"
  "frame_key (set_end_state st sub c) = frame_key c"
  "frame_key (c\<lparr>field_type := ft\<rparr>) = frame_key c"
  "frame_key (c\<lparr>data_pos_raw := n\<rparr>) = frame_key c"
  "frame_key (c\<lparr>data_pos_cooked := n\<rparr>) = frame_key c"
  "frame_key (c\<lparr>element_size := n\<rparr>) = frame_key c"
  "frame_key (c\<lparr>item_size_raw := n\<rparr>) = frame_key c"
  "frame_key (c\<lparr>item_size_cooked := n\<rparr>) = frame_key c"
  "frame_key (c\<lparr>stack_index := n\<rparr>) = frame_key c"
  "frame_key (c\<lparr>stack_top := e\<rparr>) = frame_key c"
  "frame_key (c\<lparr>stack := s\<rparr>) = frame_key c"
  by (simp_all add: frame_key_def static_part_def upd_top_def set_state_def set_end_state_def)

lemma frame_key_set_error_state [simp]: "frame_key (snd (set_error_state e c)) = frame_key c"
  by (simp add: frame_key_def static_part_def set_error_state_def)

lemma frame_keyD:
  assumes "frame c c'"
  shows "meta_end c' = meta_end c" "meta_start c' = meta_start c" "byte_reader c' = byte_reader c"
    "event_name_len c' = event_name_len c" "data_start c' = data_start c"
    "move_next_remaining c' = move_next_remaining c" "static_part c' = static_part c"
  using assms by (simp_all add: frame_key_def static_part_def)

text \<open>
  Each function keeps the frame: an introduction rule per function, so that the rule for a caller
  follows from those of its callees.
\<close>

named_theorems frame_intros

lemma frame_introI:
  "wlp m (\<lambda>r. frame c (snd r)) \<Longrightarrow> (\<And>x c'. frame c c' \<Longrightarrow> Q (x, c')) \<Longrightarrow> wlp m Q"
  by (auto simp: wlp_def)

lemma frame_intro1I: "wlp m (frame c) \<Longrightarrow> (\<And>c'. frame c c' \<Longrightarrow> Q c') \<Longrightarrow> wlp m Q"
  by (auto simp: wlp_def)

lemma read_field_type_frame: "wlp (read_field_type dbg d off c) (\<lambda>r. frame c (snd r))"
  unfolding read_field_type_def by (intro wlp_intros wlp_any [where m = "read_u16 r s" for r s]) simp_all

lemmas [frame_intros] = frame_introI [OF read_field_type_frame]

lemma read_field_name_and_type_frame: "wlp (read_field_name_and_type dbg d c) (\<lambda>r. frame c (snd r))"
  unfolding read_field_name_and_type_def
  by (intro wlp_intros frame_intros wlp_any [where m = "scan_name_end d m p" for d m p]) simp_all

lemmas [frame_intros] = frame_introI [OF read_field_name_and_type_frame]

lemma start_struct_frame: "wlp (start_struct dbg c) (frame c)"
  unfolding start_struct_def by (intro wlp_intros) simp_all

lemmas [frame_intros] = frame_intro1I [OF start_struct_frame]

lemma start_array_frame: "wlp (start_array dbg n c) (\<lambda>r. frame c (snd r))"
  unfolding start_array_def by (intro wlp_intros) simp_all

lemmas [frame_intros] = frame_introI [OF start_array_frame]

lemma start_value_simple_frame: "wlp (start_value_simple dbg c) (frame c)"
  unfolding start_value_simple_def by (intro wlp_intros) simp_all

lemmas [frame_intros] = frame_intro1I [OF start_value_simple_frame]

lemma start_value_fixed_length_frame: "wlp (start_value_fixed_length dbg d sz c) (\<lambda>r. frame c (snd r))"
  unfolding start_value_fixed_length_def by (intro wlp_intros) simp_all

lemmas [frame_intros] = frame_introI [OF start_value_fixed_length_frame]

lemma start_value_zstring_frame: "wlp (start_value_zstring dbg esz d c) (frame c)"
  unfolding start_value_zstring_def
  by (intro wlp_intros wlp_any [where m = "find_zero_element esz d e p" for esz d e p]) simp_all

lemmas [frame_intros] = frame_intro1I [OF start_value_zstring_frame]

lemma start_value_string_frame: "wlp (start_value_string dbg d k c) (frame c)"
  unfolding start_value_string_def
  by (intro wlp_intros wlp_any [where m = "read_u16 r s" for r s]) simp_all

lemmas [frame_intros] = frame_intro1I [OF start_value_string_frame]

lemma start_value_frame: "wlp (start_value dbg d c) (\<lambda>r. frame c (snd r))"
  unfolding start_value_def by (intro wlp_intros frame_intros) simp_all

lemmas [frame_intros] = frame_introI [OF start_value_frame]

lemma next_property_decode_frame: "wlp (next_property_decode dbg d c) (\<lambda>r. frame c (snd r))"
  unfolding next_property_decode_def
  by (intro wlp_intros frame_intros wlp_any [where m = "read_u16 r s" for r s]) simp_all

lemmas [frame_intros] = frame_introI [OF next_property_decode_frame]

lemma next_property_field_frame: "wlp (next_property_field dbg d c) (\<lambda>r. frame c (snd r))"
  unfolding next_property_field_def by (intro wlp_intros frame_intros) simp_all

lemmas [frame_intros] = frame_introI [OF next_property_field_frame]

lemma next_property_end_frame: "wlp (next_property_end dbg d c) (\<lambda>r. frame c (snd r))"
  unfolding next_property_end_def by (intro wlp_intros frame_intros) simp_all

lemmas [frame_intros] = frame_introI [OF next_property_end_frame]

lemma next_property_frame: "wlp (next_property dbg d c) (\<lambda>r. frame c (snd r))"
  unfolding next_property_def by (intro wlp_intros frame_intros) simp_all

lemmas [frame_intros] = frame_introI [OF next_property_frame]

lemma skip_struct_loop_frame: "wlp (skip_struct_loop dbg d fuel r c) (\<lambda>r. frame c (snd r))"
proof (induction fuel arbitrary: r c)
  case 0
  then show ?case by (simp add: wlp_def)
next
  case (Suc fuel)
  note IH = frame_introI [OF Suc.IH]
  show ?case
    unfolding skip_struct_loop.simps by (intro wlp_intros frame_intros IH) simp_all
qed

lemma skip_struct_metadata_frame: "wlp (skip_struct_metadata dbg d c) (\<lambda>r. frame c (snd r))"
  unfolding skip_struct_metadata_def
  by (intro wlp_intros frame_introI [OF skip_struct_loop_frame]) simp_all

lemmas [frame_intros] = frame_introI [OF skip_struct_metadata_frame]

lemma move_next_step_frame: "wlp (move_next_step dbg d c) (\<lambda>r. frame c (snd r))"
  unfolding move_next_step_def
  by (cases "substate c"; simp only: SubState.case; intro wlp_intros frame_intros; simp)

end
