(* ===== verification/Enumerator_Api.thy ===== *)
theory Enumerator_Api
  imports Enumerator
begin

unbundle bit_operations_syntax

text \<open>
  The rest of \<open>tracepoint_decode/src/enumerator.rs\<close>: starting the enumeration of an event
  (\<open>enumerate_with_name_and_data\<close>), skipping to the next sibling, walking the metadata only, and
  the accessors of the event and of the current item. \<open>move_next_sibling_impl\<close> is a total function:
  every turn of its loop uses up one of the permitted moves.
\<close>

section \<open>Moving over siblings\<close>

lemma move_next_impl_frame:
  assumes "move_next_impl dbg d c = Some (b, c')"
  shows "static_part c' = static_part c"
    and "b \<Longrightarrow> move_next_remaining c' = move_next_remaining c - 1 \<and> 0 < move_next_remaining c"
proof -
  have "wlp (move_next_impl dbg d c) (\<lambda>(b, c').
      static_part c' = static_part c
      \<and> (b \<longrightarrow> move_next_remaining c' = move_next_remaining c - 1 \<and> 0 < move_next_remaining c))"
    unfolding move_next_impl_def
    by (intro wlp_intros frame_introI [OF move_next_step_frame])
      (simp_all add: set_error_state_def static_part_def frame_key_def)
  with assms show "static_part c' = static_part c"
    and "b \<Longrightarrow> move_next_remaining c' = move_next_remaining c - 1 \<and> 0 < move_next_remaining c"
    by (auto dest!: wlpD)
qed

lemma next_property_remaining:
  "next_property dbg d c = Some (b, c') \<Longrightarrow> move_next_remaining c' = move_next_remaining c"
  by (drule next_property_frame [THEN wlpD]) (simp add: frame_key_def)

text \<open>
  \<open>depth\<close> is an \<open>i32\<close> that counts open structs and arrays; the nesting limit keeps it far from its
  bounds, so it is an \<open>int\<close>. The first component of the loop body's result says whether the loop
  goes on.
\<close>

function move_next_sibling_loop :: "bool \<Rightarrow> bytes \<Rightarrow> int \<Rightarrow> ctx \<Rightarrow> (bool \<times> ctx) option" where
  "move_next_sibling_loop dbg d depth c =
     (if state c = State_ArrayBegin \<and> \<not> (element_size c = 0 \<or> move_next_remaining c = 0) then do {
        debug_assert dbg (substate c = Sub_ArrayBegin);
        debug_assert dbg (FieldEncoding_without_flags (cur_enc c) \<noteq> FieldEncoding_Struct);
        debug_assert dbg (FieldEncoding_is_array (cur_enc c));
        debug_assert dbg (array_index (stack_top c) = 0);
        n \<leftarrow> umul 32 dbg (array_count (stack_top c)) (element_size c);
        p \<leftarrow> uadd 32 dbg (data_pos_raw c) n;
        (moved, c') \<leftarrow> next_property dbg d
          (c\<lparr>data_pos_raw := p, move_next_remaining := move_next_remaining c - 1\<rparr>);
        (if \<not> moved \<or> depth \<le> 0 then Some (moved, c') else move_next_sibling_loop dbg d depth c')
      }
      else do {
        let depth' = (case state c of
            State_ArrayEnd \<Rightarrow> depth - 1
          | State_StructEnd \<Rightarrow> depth - 1
          | State_StructBegin \<Rightarrow> depth + 1
          | State_ArrayBegin \<Rightarrow> depth + 1
          | _ \<Rightarrow> depth);
        (moved, c') \<leftarrow> move_next_impl dbg d c;
        (if \<not> moved \<or> depth' \<le> 0 then Some (moved, c') else move_next_sibling_loop dbg d depth' c')
      })"
  by pat_completeness auto
termination
  by (relation "measure (\<lambda>(dbg, d, depth, c). move_next_remaining c)")
    (auto dest!: next_property_remaining move_next_impl_frame(2))

declare move_next_sibling_loop.simps [simp del]

definition move_next_sibling_impl :: "bool \<Rightarrow> bytes \<Rightarrow> ctx \<Rightarrow> (bool \<times> ctx) option" where
  "move_next_sibling_impl dbg d c = do {
     debug_assert dbg (can_move_next (state c));
     move_next_sibling_loop dbg d 0 c
   }"

section \<open>Metadata only\<close>

definition move_next_metadata_decode :: "bool \<Rightarrow> bytes \<Rightarrow> ctx \<Rightarrow> (bool \<times> ctx) option" where
  "move_next_metadata_decode dbg d c =
     (if cur_enc c = READ_FIELD_ERROR then Some (set_error_state InvalidData c)
      else if FieldEncoding_Struct = FieldEncoding_without_flags (cur_enc c)
              \<and> ft_format (field_type c) = FieldFormat_Default
      then Some (set_error_state InvalidData c)
      else if \<not> FieldEncoding_is_array (cur_enc c)
      then Some (True, set_state State_Value Sub_ValueMetadata (upd_top (\<lambda>e. e\<lparr>array_count := 1\<rparr>) c))
      else if FieldEncoding_is_variable_length_array (cur_enc c)
      then Some (True, set_state State_ArrayBegin Sub_ValueMetadata (upd_top (\<lambda>e. e\<lparr>array_count := 0\<rparr>) c))
      else if FieldEncoding_is_constant_length_array (cur_enc c) then do {
        left \<leftarrow> usub 32 dbg (meta_end c) (next_offset (stack_top c));
        (if left < 2 then Some (set_error_state InvalidData c)
         else do {
           s \<leftarrow> slice_from d (next_offset (stack_top c));
           n \<leftarrow> read_u16 (byte_reader c) s;
           no \<leftarrow> uadd 32 dbg (next_offset (stack_top c)) 2;
           let c = upd_top (\<lambda>e. e\<lparr>array_count := unat n, next_offset := no\<rparr>) c;
           (if unat n = 0 then Some (set_error_state InvalidData c)
            else Some (True, set_state State_ArrayBegin Sub_ValueMetadata c))
         })
      }
      else Some (set_error_state NotSupported c))"

definition move_next_metadata_field :: "bool \<Rightarrow> bytes \<Rightarrow> ctx \<Rightarrow> (bool \<times> ctx) option" where
  "move_next_metadata_field dbg d c = do {
     let c = upd_top (\<lambda>e. e\<lparr>name_offset := next_offset e\<rparr>) c;
     (ft, c) \<leftarrow> read_field_name_and_type dbg d c;
     move_next_metadata_decode dbg d (c\<lparr>field_type := ft\<rparr>)
   }"

definition move_next_metadata_impl :: "bool \<Rightarrow> bytes \<Rightarrow> ctx \<Rightarrow> (bool \<times> ctx) option" where
  "move_next_metadata_impl dbg d c = do {
     c \<leftarrow> (if substate c \<noteq> Sub_ValueMetadata then do {
             debug_assert dbg (state c = State_BeforeFirstItem);
             debug_assert dbg (substate c = Sub_BeforeFirstItem);
             let c = upd_top (\<lambda>e. e\<lparr>array_index := 0\<rparr>) c;
             let c = c\<lparr>data_pos_cooked := ucast_to 32 (length d), item_size_cooked := 0, element_size := 0\<rparr>;
             Some (set_state State_Value Sub_ValueMetadata c)
           } else Some c);
     debug_assert dbg (state c = State_Value \<or> state c = State_ArrayBegin);
     (if next_offset (stack_top c) \<noteq> meta_end c then move_next_metadata_field dbg d c
      else Some (False, set_end_state State_AfterLastItem Sub_AfterLastItem c))
   }"

section \<open>Starting an enumeration\<close>

definition is_ascii_digit :: "u8 \<Rightarrow> bool" where
  "is_ascii_digit ch \<longleftrightarrow> 0x30 \<le> ch \<and> ch \<le> 0x39"

definition is_ascii_lowercase :: "u8 \<Rightarrow> bool" where
  "is_ascii_lowercase ch \<longleftrightarrow> 0x61 \<le> ch \<and> ch \<le> 0x7A"

definition is_ascii_uppercase :: "u8 \<Rightarrow> bool" where
  "is_ascii_uppercase ch \<longleftrightarrow> 0x41 \<le> ch \<and> ch \<le> 0x5A"

text \<open>
  \<open>lowercase_hex_to_int\<close>: the nibble of a lowercase hex digit, and the loop. The shift drops the
  high nibble of \<open>val\<close> and the sum never carries, so the \<open>u64\<close> arithmetic is the word arithmetic.
\<close>

definition lowercase_hex_nibble :: "u8 \<Rightarrow> u8 option" where
  "lowercase_hex_nibble ch =
     (if is_ascii_digit ch then Some (ch - 0x30)
      else if 0x61 \<le> ch \<and> ch \<le> 0x66 then Some (ch - 0x61 + 10)
      else None)"

function lowercase_hex_loop :: "bytes \<Rightarrow> u64 \<Rightarrow> nat \<Rightarrow> u64 \<times> nat" where
  "lowercase_hex_loop str val pos =
     (if pos < length str then
        (case lowercase_hex_nibble (str ! pos) of
           None \<Rightarrow> (val, pos)
         | Some nibble \<Rightarrow> lowercase_hex_loop str (push_bit 4 val + ucast nibble) (Suc pos))
      else (val, pos))"
  by pat_completeness auto
termination
  by (relation "measure (\<lambda>(str, val, pos). length str - pos)") auto

declare lowercase_hex_loop.simps [simp del]

definition lowercase_hex_to_int :: "bytes \<Rightarrow> nat \<Rightarrow> u64 \<times> nat" where
  "lowercase_hex_to_int str start_pos = lowercase_hex_loop str 0 start_pos"

text \<open>The search for the last underscore: the position after it, if there is one.\<close>

fun find_attribs :: "bytes \<Rightarrow> nat \<Rightarrow> nat option" where
  "find_attribs name 0 = None"
| "find_attribs name (Suc p) = (if name ! p = 0x5F then Some (Suc p) else find_attribs name p)"

function skip_attrib_value :: "bytes \<Rightarrow> nat \<Rightarrow> nat" where
  "skip_attrib_value name pos =
     (if pos < length name \<and> (is_ascii_digit (name ! pos) \<or> is_ascii_lowercase (name ! pos))
      then skip_attrib_value name (Suc pos) else pos)"
  by pat_completeness auto
termination
  by (relation "measure (\<lambda>(name, pos). length name - pos)") auto

declare skip_attrib_value.simps [simp del]

lemma skip_attrib_value_ge: "pos \<le> skip_attrib_value name pos"
proof (induction name pos rule: skip_attrib_value.induct)
  case (1 name pos)
  then show ?case by (subst skip_attrib_value.simps) (auto simp: Suc_le_eq)
qed

lemma skip_attrib_value_decreases:
  "pos < length name \<Longrightarrow> length name - skip_attrib_value name (Suc pos) < length name - pos"
  using skip_attrib_value_ge [of "Suc pos" name] by linarith

function attribs_ok :: "bytes \<Rightarrow> nat \<Rightarrow> bool" where
  "attribs_ok name pos =
     (if pos < length name
      then is_ascii_uppercase (name ! pos) \<and> attribs_ok name (skip_attrib_value name (Suc pos))
      else True)"
  by pat_completeness auto
termination
  by (relation "measure (\<lambda>(name, pos). length name - pos)") (auto simp: skip_attrib_value_decreases)

declare attribs_ok.simps [simp del]

text \<open>
  The checks of the tracepoint name \<open>ProviderName_LxKx...\<close>: the level it names, the keyword, and
  the rest. \<open>None\<close> is \<open>Err(NotSupported)\<close>; \<open>self.keyword\<close> is written before the trailing
  attributes are checked, which \<open>Inl\<close> keeps apart.
\<close>

definition parse_tracepoint_name :: "bytes \<Rightarrow> u8 \<Rightarrow> (u64 option + u64)" where
  "parse_tracepoint_name name lvl =
     (case find_attribs name (length name) of
        None \<Rightarrow> Inl None
      | Some p \<Rightarrow>
          if p \<ge> length name \<or> name ! p \<noteq> 0x4C then Inl None
          else let (attrib_level, p) = lowercase_hex_to_int name (p + 1) in
            if attrib_level \<noteq> ucast lvl then Inl None
            else if p \<ge> length name \<or> 0x4B \<noteq> name ! p then Inl None
            else let (kw, p) = lowercase_hex_to_int name (p + 1) in
              if attribs_ok name p then Inr kw else Inl (Some kw))"

text \<open>The loop over the header extensions; the result is the position after the last one.\<close>

function parse_extensions ::
  "bool \<Rightarrow> bytes \<Rightarrow> nat \<Rightarrow> ctx \<Rightarrow> ((EventHeaderEnumeratorError + nat) \<times> ctx) option" where
  "parse_extensions dbg d pos c = do {
     left \<leftarrow> usub 64 dbg (length d) pos;
     (if left < size_of_EventHeaderExtension then Some (Inl InvalidData, c)
      else do {
        s1 \<leftarrow> slice_from d pos;
        sz \<leftarrow> read_u16 (byte_reader c) s1;
        s2 \<leftarrow> slice_from d (pos + 2);
        kind \<leftarrow> read_u16 (byte_reader c) s2;
        left \<leftarrow> usub 64 dbg (length d) (pos + 4);
        (if left < unat sz then Some (Inl InvalidData, c)
         else do {
           let k = kind AND ExtensionKind_ValueMask;
           r \<leftarrow> (if k = ExtensionKind_Invalid then Some (Inl InvalidData)
                 else if k = ExtensionKind_Metadata then
                   (if meta_start c \<noteq> 0 then Some (Inl InvalidData)
                    else do {
                      me \<leftarrow> uadd 32 dbg (ucast_to 32 (pos + 4)) (unat sz);
                      Some (Inr (c\<lparr>meta_start := ucast_to 32 (pos + 4), meta_end := me\<rparr>))
                    })
                 else if k = ExtensionKind_ActivityId then
                   (if activity_id_start c \<noteq> 0 \<or> (unat sz \<noteq> 16 \<and> unat sz \<noteq> 32)
                    then Some (Inl InvalidData)
                    else Some (Inr (c\<lparr>activity_id_start := ucast_to 32 (pos + 4),
                                      activity_id_len := ucast_to 8 (unat sz)\<rparr>)))
                 else Some (Inr c));
           (case r of
              Inl e \<Rightarrow> Some (Inl e, c)
            | Inr c \<Rightarrow>
                if \<not> ExtensionKind_has_flag kind ExtensionKind_ChainFlag
                then Some (Inr (pos + 4 + unat sz), c)
                else parse_extensions dbg d (pos + 4 + unat sz) c)
         })
      })
   }"
  by pat_completeness auto
termination
  by (relation "measure (\<lambda>(dbg, d, pos, c). length d - pos)")
    (auto simp: slice_from_def read_u16_def read_n_def slice_def split: if_splits)

declare parse_extensions.simps [simp del]

definition KNOWN_FLAGS :: u8 where
  "KNOWN_FLAGS = HeaderFlags_Pointer64 OR HeaderFlags_LittleEndian OR HeaderFlags_Extension"

text \<open>
  The eight header bytes are read at fixed positions, which the length check before covers.
\<close>

definition read_event_header :: "bytes \<Rightarrow> ctx \<Rightarrow> ctx option" where
  "read_event_header d c = do {
     fl \<leftarrow> index d 0;
     let r = PerfByteReader_new (\<not> HeaderFlags_has_flag fl HeaderFlags_LittleEndian);
     ver \<leftarrow> index d 1;
     s2 \<leftarrow> slice_from d 2;
     i \<leftarrow> read_u16 r s2;
     s4 \<leftarrow> slice_from d 4;
     tg \<leftarrow> read_u16 r s4;
     opc \<leftarrow> index d 6;
     lvl \<leftarrow> index d 7;
     Some (c\<lparr>header := \<lparr>eh_flags = fl, eh_version = ver, eh_id = i, eh_tag = tg, eh_opcode = opc,
                         eh_level = lvl\<rparr>, byte_reader := r\<rparr>)
   }"

text \<open>The end of \<open>enumerate_with_name_and_data\<close>: the event's name and the start of its data.\<close>

definition enumerate_finish ::
  "bool \<Rightarrow> bytes \<Rightarrow> nat \<Rightarrow> nat \<Rightarrow> ctx \<Rightarrow> ((EventHeaderEnumeratorError + unit) \<times> ctx) option" where
  "enumerate_finish dbg d move_next_limit event_pos c =
     (if meta_start c = 0 then Some (Inl NotSupported, c)
      else do {
        name_pos \<leftarrow> scan_name_end d (meta_end c) (meta_start c);
        (if name_pos \<ge> meta_end c then Some (Inl InvalidData, c)
         else do {
           c \<leftarrow> reset_impl dbg move_next_limit
                 (c\<lparr>event_name_len := ucast_to 16 (name_pos - meta_start c),
                    data_start := ucast_to 32 event_pos\<rparr>);
           Some (Inr (), c)
         })
      })"

definition enumerate_with_name_and_data ::
  "bool \<Rightarrow> bytes \<Rightarrow> bytes \<Rightarrow> nat \<Rightarrow> ctx \<Rightarrow> ((EventHeaderEnumeratorError + unit) \<times> ctx) option" where
  "enumerate_with_name_and_data dbg name d move_next_limit c =
     (if length d < size_of_EventHeader \<or> length d \<ge> 0x80000000 \<or> length name \<ge> 256
      then Some (Inl InvalidParameter, c)
      else do {
        c \<leftarrow> read_event_header d c;
        (if eh_flags (header c) \<noteq> eh_flags (header c) AND KNOWN_FLAGS
         then Some (Inl NotSupported, c)
         else case parse_tracepoint_name name (eh_level (header c)) of
           Inl None \<Rightarrow> Some (Inl NotSupported, c)
         | Inl (Some kw) \<Rightarrow> Some (Inl NotSupported, c\<lparr>keyword := kw\<rparr>)
         | Inr kw \<Rightarrow> do {
             let c = c\<lparr>keyword := kw, meta_start := 0, meta_end := 0, activity_id_start := 0,
                       activity_id_len := 0\<rparr>;
             (r, c) \<leftarrow> (if HeaderFlags_has_flag (eh_flags (header c)) HeaderFlags_Extension
                        then parse_extensions dbg d 8 c else Some (Inr 8, c));
             (case r of
                Inl e \<Rightarrow> Some (Inl e, c)
              | Inr event_pos \<Rightarrow> enumerate_finish dbg d move_next_limit event_pos c)
           })
      })"

section \<open>Accessors\<close>

definition raw_data_position :: "bytes \<Rightarrow> ctx \<Rightarrow> bytes option" where
  "raw_data_position d c = slice_from d (data_pos_raw c)"

record EventHeaderEventInfo =
  ei_tracepoint_name :: bytes
  ei_event_data :: bytes
  ei_name_start :: nat
  ei_name_len :: nat
  ei_activity_id_start :: nat
  ei_activity_id_len :: nat
  ei_header :: EventHeader
  ei_keyword :: u64

definition event_info :: "bytes \<Rightarrow> bytes \<Rightarrow> ctx \<Rightarrow> EventHeaderEventInfo" where
  "event_info name d c =
     \<lparr>ei_tracepoint_name = name, ei_event_data = d, ei_name_start = meta_start c,
      ei_name_len = event_name_len c, ei_activity_id_start = activity_id_start c,
      ei_activity_id_len = activity_id_len c, ei_header = header c, ei_keyword = keyword c\<rparr>"

definition ei_name_bytes :: "EventHeaderEventInfo \<Rightarrow> bytes option" where
  "ei_name_bytes i = slice (ei_event_data i) (ei_name_start i) (ei_name_start i + ei_name_len i)"

definition ei_provider_name :: "EventHeaderEventInfo \<Rightarrow> bytes" where
  "ei_provider_name i =
     (case find_attribs (ei_tracepoint_name i) (length (ei_tracepoint_name i)) of
        Some p \<Rightarrow> take (p - 1) (ei_tracepoint_name i)
      | None \<Rightarrow> ei_tracepoint_name i)"

function options_from :: "bytes \<Rightarrow> nat \<Rightarrow> bytes" where
  "options_from name pos =
     (if pos \<ge> length name then []
      else if is_ascii_uppercase (name ! pos) \<and> name ! pos \<noteq> 0x4C \<and> name ! pos \<noteq> 0x4B then drop pos name
      else options_from name (Suc pos))"
  by pat_completeness auto
termination
  by (relation "measure (\<lambda>(name, pos). length name - pos)") auto

declare options_from.simps [simp del]

definition ei_options :: "EventHeaderEventInfo \<Rightarrow> bytes" where
  "ei_options i =
     (case find_attribs (ei_tracepoint_name i) (length (ei_tracepoint_name i)) of
        Some p \<Rightarrow> options_from (ei_tracepoint_name i) p
      | None \<Rightarrow> [])"

definition ei_activity_id_section :: "EventHeaderEventInfo \<Rightarrow> bytes option" where
  "ei_activity_id_section i =
     slice (ei_event_data i) (ei_activity_id_start i) (ei_activity_id_start i + ei_activity_id_len i)"

definition ei_activity_id :: "EventHeaderEventInfo \<Rightarrow> bytes option option" where
  "ei_activity_id i =
     (if ei_activity_id_len i < 16 then Some None
      else map_option Some
        (slice (ei_event_data i) (ei_activity_id_start i) (ei_activity_id_start i + 16)))"

definition ei_related_activity_id :: "EventHeaderEventInfo \<Rightarrow> bytes option option" where
  "ei_related_activity_id i =
     (if ei_activity_id_len i < 32 then Some None
      else map_option Some
        (slice (ei_event_data i) (ei_activity_id_start i + 16) (ei_activity_id_start i + 32)))"

definition item_metadata_impl :: "bool \<Rightarrow> ctx \<Rightarrow> PerfItemMetadata option" where
  "item_metadata_impl dbg c = do {
     debug_assert dbg (can_item_info (state c));
     let is_scalar = (state c < State_ArrayBegin \<or> state c > State_ArrayEnd);
     PerfItemMetadata_new dbg (byte_reader c) (ft_encoding (field_type c)) (ft_format (field_type c))
       is_scalar (word_of_nat (element_size c))
       (if is_scalar then 1 else word_of_nat (array_count (stack_top c)))
       (ft_tag (field_type c))
   }"

record EventHeaderItemInfo =
  ii_event_data :: bytes
  ii_name_start :: nat
  ii_name_len :: nat
  ii_value :: PerfItemValue

definition item_info :: "bool \<Rightarrow> bytes \<Rightarrow> ctx \<Rightarrow> EventHeaderItemInfo option" where
  "item_info dbg d c = do {
     debug_assert dbg (can_item_info (state c));
     bs \<leftarrow> slice d (data_pos_cooked c) (data_pos_cooked c + item_size_cooked c);
     m \<leftarrow> item_metadata_impl dbg c;
     v \<leftarrow> PerfItemValue_new dbg bs m;
     Some \<lparr>ii_event_data = d, ii_name_start = name_offset (stack_top c),
           ii_name_len = name_len (stack_top c), ii_value = v\<rparr>
   }"

definition ii_name_bytes :: "EventHeaderItemInfo \<Rightarrow> bytes option" where
  "ii_name_bytes i = slice (ii_event_data i) (ii_name_start i) (ii_name_start i + ii_name_len i)"

end
