(* ===== verification/Enumerator_Safety.thy ===== *)
theory Enumerator_Safety
  imports Enumerator_Api
begin

unbundle bit_operations_syntax

text \<open>
  Safety of the decoder on arbitrary bytes: \<open>enum_inv d c\<close> is the invariant that relates a context
  to the event it enumerates, every operation keeps it, and no operation panics in a state that
  satisfies it. Since an index out of range, a failed debug assertion and an arithmetic overflow
  are all panics of the model, this covers memory safety of the reads, the internal assertions of
  the code and the absence of wrap-around at once.
\<close>

section \<open>The type of a field, as a pure function\<close>

definition field_type_at :: "nat \<Rightarrow> PerfByteReader \<Rightarrow> bytes \<Rightarrow> nat \<Rightarrow> FieldType \<times> nat" where
  "field_type_at me r d off =
     (let enc = d ! off in
      if FieldEncoding_has_chain_flag enc then
        if me = off + 1 then
          (\<lparr>ft_encoding = FieldEncoding_without_chain_flag READ_FIELD_ERROR,
            ft_format = FieldFormat_without_flags FieldFormat_Default, ft_tag = 0\<rparr>, off + 1)
        else let fmt = d ! (off + 1) in
          if FieldFormat_has_chain_flag fmt then
            if me - (off + 2) < 2 then
              (\<lparr>ft_encoding = FieldEncoding_without_chain_flag READ_FIELD_ERROR,
                ft_format = FieldFormat_without_flags fmt, ft_tag = 0\<rparr>, off + 2)
            else
              (\<lparr>ft_encoding = FieldEncoding_without_chain_flag enc,
                ft_format = FieldFormat_without_flags fmt,
                ft_tag = word_of_nat (from_bytes (source_big_endian r) (take 2 (drop (off + 2) d)))\<rparr>, off + 4)
          else
            (\<lparr>ft_encoding = FieldEncoding_without_chain_flag enc,
              ft_format = FieldFormat_without_flags fmt, ft_tag = 0\<rparr>, off + 2)
      else
        (\<lparr>ft_encoding = FieldEncoding_without_chain_flag enc,
          ft_format = FieldFormat_without_flags FieldFormat_Default, ft_tag = 0\<rparr>, off + 1))"

lemma read_field_type_eq:
  assumes "off < meta_end c" "meta_end c \<le> length d" "length d < 2 ^ 31"
  shows "read_field_type dbg d off c =
    Some (fst (field_type_at (meta_end c) (byte_reader c) d off),
          upd_top (\<lambda>e. e\<lparr>next_offset := snd (field_type_at (meta_end c) (byte_reader c) d off)\<rparr>) c)"
proof -
  have four: "off + 4 = Suc (Suc (Suc (Suc off)))" by simp
  from assms show ?thesis
    by (auto simp: read_field_type_def field_type_at_def Let_def debug_assert_def four)
qed

lemma field_type_at_bounds:
  assumes "off < me"
  shows "off < snd (field_type_at me r d off)" "snd (field_type_at me r d off) \<le> me"
  using assms by (auto simp: field_type_at_def Let_def)

lemma field_type_at_flags:
  "\<not> FieldEncoding_has_chain_flag (ft_encoding (fst (field_type_at me r d off)))"
  "\<not> FieldFormat_has_chain_flag (ft_format (fst (field_type_at me r d off)))"
proof -
  have "\<not> FieldFormat_has_chain_flag (FieldFormat_without_flags f)" for f
    by (simp add: field_encoding_defs enum_consts u8_eq_iff bit_simps)
  then show "\<not> FieldFormat_has_chain_flag (ft_format (fst (field_type_at me r d off)))"
    by (simp add: field_type_at_def Let_def)
  show "\<not> FieldEncoding_has_chain_flag (ft_encoding (fst (field_type_at me r d off)))"
    by (simp add: field_type_at_def Let_def)
qed

lemma field_type_at_encoding:
  "ft_encoding (fst (field_type_at me r d off)) = READ_FIELD_ERROR
   \<or> ft_encoding (fst (field_type_at me r d off)) = FieldEncoding_without_chain_flag (d ! off)"
  by (auto simp: field_type_at_def Let_def field_encoding_defs enum_consts)

section \<open>The scan for a name's end\<close>

lemma scan_name_end_spec:
  assumes "p \<le> m" "m \<le> length d"
  shows "\<exists>e. scan_name_end d m p = Some e \<and> p \<le> e \<and> e \<le> m \<and> (e < m \<longrightarrow> d ! e = 0)
             \<and> (\<forall>i. p \<le> i \<and> i < e \<longrightarrow> d ! i \<noteq> 0)"
  using assms
proof (induction d m p rule: scan_name_end.induct)
  case (1 d m p)
  show ?case
  proof (cases "p < m \<and> d ! p \<noteq> 0")
    case True
    then have step: "scan_name_end d m p = scan_name_end d m (Suc p)"
      using "1.prems" by (subst scan_name_end.simps) simp
    from True "1.IH" [of "d ! p"] "1.prems" obtain e where
      e: "scan_name_end d m (Suc p) = Some e" "Suc p \<le> e" "e \<le> m" "e < m \<longrightarrow> d ! e = 0"
        "\<forall>i. Suc p \<le> i \<and> i < e \<longrightarrow> d ! i \<noteq> 0"
      by auto
    have "\<forall>i. p \<le> i \<and> i < e \<longrightarrow> d ! i \<noteq> 0"
      using e(5) True by (metis Suc_leI le_neq_implies_less)
    with e step show ?thesis by auto
  next
    case False
    with "1.prems" have "scan_name_end d m p = Some p"
      by (subst scan_name_end.simps) auto
    with False "1.prems" show ?thesis by auto
  qed
qed

lemma wp_scan_name_endI [wp_intros]:
  assumes "p \<le> m" "m \<le> length d"
    and "\<And>e. p \<le> e \<Longrightarrow> e \<le> m \<Longrightarrow> (e < m \<Longrightarrow> d ! e = 0) \<Longrightarrow> Q e"
  shows "wp (scan_name_end d m p) Q"
  using scan_name_end_spec [OF assms(1,2)] assms(3) by (auto simp: wp_iff)

section \<open>The invariant\<close>

abbreviation type_offset :: "StackEntry \<Rightarrow> nat" where
  "type_offset e \<equiv> name_offset e + name_len e + 1"

abbreviation type_of_entry :: "bytes \<Rightarrow> ctx \<Rightarrow> StackEntry \<Rightarrow> FieldType" where
  "type_of_entry d c e \<equiv> fst (field_type_at (meta_end c) (byte_reader c) d (type_offset e))"

text \<open>What never changes while an event is enumerated.\<close>

definition static_ok :: "bytes \<Rightarrow> ctx \<Rightarrow> bool" where
  "static_ok d c \<longleftrightarrow>
     8 \<le> length d \<and> length d < 2 ^ 31 \<and> meta_start c + event_name_len c < meta_end c
     \<and> meta_end c \<le> length d \<and> meta_end c < meta_start c + 2 ^ 16 \<and> data_start c \<le> length d \<and> length (stack c) = 8"

text \<open>An entry of the struct stack: a struct field whose type can be read again.\<close>

definition entry_ok :: "bytes \<Rightarrow> ctx \<Rightarrow> StackEntry \<Rightarrow> bool" where
  "entry_ok d c e \<longleftrightarrow>
     type_offset e < meta_end c \<and> meta_start c \<le> name_offset e
     \<and> next_offset e \<le> meta_end c \<and> meta_start c \<le> next_offset e
     \<and> array_index e < array_count e \<and> array_count e < 2 ^ 16 \<and> remaining_field_count e < 2 ^ 8
     \<and> FieldEncoding_without_flags (ft_encoding (type_of_entry d c e)) = FieldEncoding_Struct
     \<and> (\<not> FieldEncoding_is_array (ft_encoding (type_of_entry d c e)) \<longrightarrow> array_count e = 1)"

text \<open>What \<open>next_property\<close> needs.\<close>

definition base_ok :: "bytes \<Rightarrow> ctx \<Rightarrow> bool" where
  "base_ok d c \<longleftrightarrow>
     static_ok d c \<and> stack_index c \<le> 8 \<and> data_pos_raw c \<le> length d
     \<and> next_offset (stack_top c) \<le> meta_end c \<and> meta_start c \<le> next_offset (stack_top c)
     \<and> remaining_field_count (stack_top c) < 2 ^ 8
     \<and> (\<forall>i < stack_index c. entry_ok d c (stack c ! i))"

text \<open>The current field: its type is the one its metadata gives.\<close>

definition typed_ok :: "bytes \<Rightarrow> ctx \<Rightarrow> bool" where
  "typed_ok d c \<longleftrightarrow>
     type_offset (stack_top c) < meta_end c \<and> meta_start c \<le> name_offset (stack_top c)
     \<and> field_type c = type_of_entry d c (stack_top c)
     \<and> ft_encoding (field_type c) \<noteq> READ_FIELD_ERROR
     \<and> array_count (stack_top c) < 2 ^ 16
     \<and> (\<not> FieldEncoding_is_array (cur_enc c) \<longrightarrow> array_count (stack_top c) = 1)"

text \<open>The current item: a field with a type, whose bytes lie in the event.\<close>

definition item_ok :: "bytes \<Rightarrow> ctx \<Rightarrow> bool" where
  "item_ok d c \<longleftrightarrow>
     typed_ok d c \<and> element_size c < 2 ^ 8 \<and> data_pos_cooked c + item_size_cooked c \<le> length d"

fun substate_ok :: "bytes \<Rightarrow> ctx \<Rightarrow> SubState \<Rightarrow> bool" where
  "substate_ok d c Sub_Error = (state c = State_Error \<and> data_pos_raw c \<le> length d)"
| "substate_ok d c Sub_AfterLastItem = (state c = State_AfterLastItem \<and> data_pos_raw c \<le> length d)"
| "substate_ok d c Sub_BeforeFirstItem = (state c = State_BeforeFirstItem \<and> base_ok d c)"
| "substate_ok d c Sub_ValueMetadata =
     ((state c = State_Value \<or> state c = State_ArrayBegin) \<and> base_ok d c \<and> item_ok d c
      \<and> (state c = State_ArrayBegin \<longrightarrow> FieldEncoding_is_array (cur_enc c))
      \<and> (FieldEncoding_without_flags (cur_enc c) = FieldEncoding_Struct \<longrightarrow> ft_format (field_type c) \<noteq> 0)
      \<and> array_index (stack_top c) = 0 \<and> element_size c = 0 \<and> item_size_cooked c = 0)"
| "substate_ok d c Sub_ValueScalar =
     (state c = State_Value \<and> base_ok d c \<and> item_ok d c
      \<and> \<not> FieldEncoding_is_array (cur_enc c)
      \<and> FieldEncoding_without_flags (cur_enc c) \<noteq> FieldEncoding_Struct
      \<and> data_pos_raw c + item_size_raw c \<le> length d
      \<and> (element_size c \<noteq> 0 \<longrightarrow> item_size_cooked c = element_size c))"
| "substate_ok d c Sub_ValueSimpleArrayElement =
     (state c = State_Value \<and> base_ok d c \<and> item_ok d c
      \<and> FieldEncoding_is_array (cur_enc c)
      \<and> FieldEncoding_without_flags (cur_enc c) \<noteq> FieldEncoding_Struct
      \<and> array_index (stack_top c) < array_count (stack_top c) \<and> element_size c \<noteq> 0
      \<and> item_size_raw c = element_size c \<and> item_size_cooked c = element_size c
      \<and> data_pos_raw c + (array_count (stack_top c) - array_index (stack_top c)) * element_size c
        \<le> length d)"
| "substate_ok d c Sub_ValueComplexArrayElement =
     (state c = State_Value \<and> base_ok d c \<and> item_ok d c
      \<and> FieldEncoding_is_array (cur_enc c)
      \<and> FieldEncoding_without_flags (cur_enc c) \<noteq> FieldEncoding_Struct
      \<and> fixed_element_size (FieldEncoding_without_flags (cur_enc c)) = None
      \<and> array_index (stack_top c) < array_count (stack_top c) \<and> element_size c = 0
      \<and> data_pos_raw c + item_size_raw c \<le> length d)"
| "substate_ok d c Sub_ArrayBegin =
     (state c = State_ArrayBegin \<and> base_ok d c \<and> item_ok d c
      \<and> FieldEncoding_is_array (cur_enc c) \<and> array_index (stack_top c) = 0
      \<and> data_pos_cooked c = data_pos_raw c
      \<and> (case fixed_element_size (FieldEncoding_without_flags (cur_enc c)) of
           Some sz \<Rightarrow> element_size c = sz \<and> item_size_cooked c = array_count (stack_top c) * sz
         | None \<Rightarrow> element_size c = 0 \<and> item_size_cooked c = 0))"
| "substate_ok d c Sub_ArrayEnd =
     (state c = State_ArrayEnd \<and> base_ok d c \<and> item_ok d c
      \<and> FieldEncoding_is_array (cur_enc c)
      \<and> array_count (stack_top c) = array_index (stack_top c) \<and> item_size_cooked c = 0
      \<and> (FieldEncoding_without_flags (cur_enc c) = FieldEncoding_Struct \<longrightarrow> element_size c = 0))"
| "substate_ok d c Sub_StructBegin =
     (state c = State_StructBegin \<and> base_ok d c \<and> item_ok d c
      \<and> FieldEncoding_without_flags (cur_enc c) = FieldEncoding_Struct
      \<and> array_index (stack_top c) < array_count (stack_top c)
      \<and> element_size c = 0 \<and> item_size_cooked c = 0)"
| "substate_ok d c Sub_StructEnd =
     (state c = State_StructEnd \<and> base_ok d c \<and> item_ok d c
      \<and> FieldEncoding_without_flags (cur_enc c) = FieldEncoding_Struct
      \<and> array_index (stack_top c) < array_count (stack_top c)
      \<and> element_size c = 0 \<and> item_size_raw c = 0 \<and> item_size_cooked c = 0)"

definition enum_inv :: "bytes \<Rightarrow> ctx \<Rightarrow> bool" where
  "enum_inv d c \<longleftrightarrow> static_ok d c \<and> substate_ok d c (substate c)"

text \<open>
  What a move promises: the invariant again, and a result that says whether there is an item.
\<close>

definition move_post :: "bytes \<Rightarrow> bool \<times> ctx \<Rightarrow> bool" where
  "move_post d r \<longleftrightarrow>
     enum_inv d (snd r) \<and> substate (snd r) \<noteq> Sub_ValueMetadata
     \<and> fst r = can_item_info (state (snd r))
     \<and> (\<not> fst r \<longrightarrow> state (snd r) = State_Error \<or> state (snd r) = State_AfterLastItem)"

lemmas inv_defs = static_ok_def base_ok_def typed_ok_def item_ok_def enum_inv_def move_post_def

lemma can_item_info_simps [simp]:
  "can_item_info State_Value" "can_item_info State_ArrayBegin" "can_item_info State_ArrayEnd"
  "can_item_info State_StructBegin" "can_item_info State_StructEnd"
  "\<not> can_item_info State_Error" "\<not> can_item_info State_AfterLastItem"
  "\<not> can_item_info State_BeforeFirstItem"
  by (simp_all add: can_item_info_def less_eq_EventHeaderEnumeratorState_def)

lemma can_move_next_simps [simp]:
  "can_move_next State_Value" "can_move_next State_ArrayBegin" "can_move_next State_ArrayEnd"
  "can_move_next State_StructBegin" "can_move_next State_StructEnd"
  "can_move_next State_BeforeFirstItem"
  "\<not> can_move_next State_Error" "\<not> can_move_next State_AfterLastItem"
  by (simp_all add: can_move_next_def less_eq_EventHeaderEnumeratorState_def)

lemma move_post_error [simp]:
  "move_post d (set_error_state e c) = (static_ok d c \<and> data_pos_raw c \<le> length d)"
  by (simp add: move_post_def enum_inv_def set_error_state_def static_ok_def)

section \<open>Reading\<close>

lemma wp_read_field_typeI:
  assumes "static_ok d c" "off < meta_end c"
    and "Q (fst (field_type_at (meta_end c) (byte_reader c) d off),
          upd_top (\<lambda>e. e\<lparr>next_offset := snd (field_type_at (meta_end c) (byte_reader c) d off)\<rparr>) c)"
  shows "wp (read_field_type dbg d off c) Q"
  using assms by (simp add: read_field_type_eq static_ok_def)

lemma static_ok_upd_top [simp]: "static_ok d (upd_top f c) = static_ok d c"
  by (simp add: static_ok_def upd_top_def)

lemma upd_top_simps [simp]:
  "stack_top (upd_top f c) = f (stack_top c)" "meta_end (upd_top f c) = meta_end c"
  "meta_start (upd_top f c) = meta_start c" "byte_reader (upd_top f c) = byte_reader c"
  "stack_index (upd_top f c) = stack_index c" "stack (upd_top f c) = stack c"
  "data_pos_raw (upd_top f c) = data_pos_raw c" "state (upd_top f c) = state c"
  "substate (upd_top f c) = substate c" "field_type (upd_top f c) = field_type c"
  "element_size (upd_top f c) = element_size c" "item_size_raw (upd_top f c) = item_size_raw c"
  "item_size_cooked (upd_top f c) = item_size_cooked c" "data_pos_cooked (upd_top f c) = data_pos_cooked c"
  "move_next_remaining (upd_top f c) = move_next_remaining c"
  "event_name_len (upd_top f c) = event_name_len c" "data_start (upd_top f c) = data_start c"
  "upd_top g (upd_top f c) = upd_top (g \<circ> f) c"
  by (simp_all add: upd_top_def)

text \<open>
  Reading a field: either the metadata is cut short, or the name and the type are there and the
  top of the stack now describes them.
\<close>

definition with_field :: "bytes \<Rightarrow> nat \<Rightarrow> ctx \<Rightarrow> ctx" where
  "with_field d n c =
     upd_top (\<lambda>e. e\<lparr>name_len := n,
       next_offset := snd (field_type_at (meta_end c) (byte_reader c) d
                             (name_offset (stack_top c) + n + 1))\<rparr>) c"

lemma wp_read_field_name_and_typeI:
  assumes st: "static_ok d c" and lo: "meta_start c \<le> name_offset (stack_top c)"
    and hi: "name_offset (stack_top c) \<le> meta_end c"
    and err: "\<And>ft. ft_encoding ft = READ_FIELD_ERROR \<Longrightarrow> Q (ft, c)"
    and ok: "\<And>n. name_offset (stack_top c) + n + 1 < meta_end c \<Longrightarrow>
        Q (type_of_entry d (with_field d n c) (stack_top (with_field d n c)), with_field d n c)"
  shows "wp (read_field_name_and_type dbg d c) Q"
proof -
  have len: "meta_end c \<le> length d" "length d < 2 ^ 31" "meta_end c < meta_start c + 2 ^ 16"
    using st by (simp_all add: static_ok_def)
  show ?thesis
    unfolding read_field_name_and_type_def
  proof (intro wp_intros)
    fix e
    assume e: "name_offset (stack_top c) \<le> e" "e \<le> meta_end c" "\<not> meta_end c - e < 2"
    let ?n = "e - name_offset (stack_top c)"
    have n: "ucast_to 16 ?n = ?n" "name_offset (stack_top c) + ?n + 1 < meta_end c" "e + 1 < meta_end c"
      using e lo len by (simp_all add: ucast_to_def)
    show "wp (read_field_type dbg d (e + 1)
        (upd_top (name_len_update (\<lambda>_. ucast_to 16 ?n)) c)) Q"
      by (rule wp_read_field_typeI) (use ok [OF n(2)] n e st in \<open>simp_all add: with_field_def comp_def\<close>)
  qed (use hi len err in auto)
qed

section \<open>Starting items\<close>

lemma find_zero_element_spec:
  assumes "0 < esz" "end_pos + esz \<le> length d + 1"
  shows "\<exists>r. find_zero_element esz d end_pos pos = Some r
      \<and> (\<forall>p. r = Some p \<longrightarrow> pos \<le> p \<and> p + esz \<le> length d)"
  using assms
proof (induction esz d end_pos pos rule: find_zero_element.induct)
  case (1 esz d end_pos pos)
  show ?case
  proof (cases "pos < end_pos")
    case True
    with "1.prems" have s: "slice d pos (pos + esz) = Some (take esz (drop pos d))" by simp
    let ?z = "\<forall>b \<in> set (take esz (drop pos d)). b = 0"
    show ?thesis
    proof (cases ?z)
      case z: True
      with s True "1.prems" have "find_zero_element esz d end_pos pos = Some (Some pos)"
        by (subst find_zero_element.simps) simp
      with True "1.prems" show ?thesis by auto
    next
      case z: False
      with s True "1.prems" have "find_zero_element esz d end_pos pos = find_zero_element esz d end_pos (pos + esz)"
        by (subst find_zero_element.simps) auto
      with "1.IH" [OF _ s z] True "1.prems" show ?thesis by auto
    qed
  next
    case False
    then have "find_zero_element esz d end_pos pos = Some None"
      by (subst find_zero_element.simps) simp
    then show ?thesis by auto
  qed
qed

lemma wp_start_value_fixed_lengthI:
  assumes "static_ok d c" "data_pos_raw c \<le> length d"
    and "Q (set_error_state InvalidData (c\<lparr>element_size := sz, item_size_cooked := 0, item_size_raw := 0\<rparr>))"
    and "data_pos_raw c + sz \<le> length d \<Longrightarrow>
         Q (True, c\<lparr>element_size := sz, item_size_cooked := sz, item_size_raw := sz\<rparr>)"
  shows "wp (start_value_fixed_length dbg d sz c) Q"
  unfolding start_value_fixed_length_def
  by (intro wp_intros) (use assms in \<open>auto simp: static_ok_def ucast_to_def\<close>)

lemma wp_start_value_zstringI:
  assumes "static_ok d c" "data_pos_raw c \<le> length d" "0 < esz" "esz \<le> 4"
    and ok: "\<And>k r. k \<le> r \<Longrightarrow> data_pos_raw c + r \<le> length d \<Longrightarrow>
         Q (c\<lparr>item_size_cooked := k, item_size_raw := r\<rparr>)"
  shows "wp (start_value_zstring dbg esz d c) Q"
proof -
  have len: "8 \<le> length d" "length d < 2 ^ 31" using assms(1) by (simp_all add: static_ok_def)
  have "length d - esz + 1 + esz \<le> length d + 1" using len assms(4) by simp
  from find_zero_element_spec [OF assms(3) this] obtain r where
    r: "find_zero_element esz d (length d - esz + 1) (data_pos_raw c) = Some r"
      "\<And>p. r = Some p \<Longrightarrow> data_pos_raw c \<le> p \<and> p + esz \<le> length d"
    by blast
  show ?thesis
  proof (cases r)
    case None
    have "Q (c\<lparr>item_size_cooked := length d - data_pos_raw c, item_size_raw := length d - data_pos_raw c\<rparr>)"
      by (rule ok) (use assms(2) in simp_all)
    then show ?thesis
      unfolding start_value_zstring_def using len assms r None by (simp add: wp_rules ucast_to_def)
  next
    case (Some p)
    with r(2) have p: "data_pos_raw c \<le> p" "p + esz \<le> length d" by simp_all
    have "Q (c\<lparr>item_size_cooked := p - data_pos_raw c, item_size_raw := p - data_pos_raw c + esz\<rparr>)"
      by (rule ok) (use p in simp_all)
    then show ?thesis
      unfolding start_value_zstring_def using len assms r Some p by (simp add: wp_rules ucast_to_def)
  qed
qed

lemma wp_start_value_stringI:
  assumes "static_ok d c" "data_pos_raw c \<le> length d" "k \<le> 2"
    and short: "length d < data_pos_raw c + 2 \<Longrightarrow> Q (c\<lparr>item_size_raw := 2\<rparr>)"
    and ok: "\<And>n. data_pos_raw c + 2 \<le> length d \<Longrightarrow>
         Q (c\<lparr>data_pos_cooked := data_pos_raw c + 2, item_size_cooked := n, item_size_raw := n + 2\<rparr>)"
  shows "wp (start_value_string dbg d k c) Q"
proof -
  have len: "length d < 2 ^ 31" using assms(1) by (simp add: static_ok_def)
  have shift: "ucast_to 32 (unat (v :: u16) * 2 ^ k) + 2 < 2 ^ 32" for v
  proof -
    have "unat v < 65536" using unsigned_less [of v] by simp
    moreover have "k = 0 \<or> k = 1 \<or> k = 2" using assms(3) by auto
    ultimately show ?thesis by (auto simp: ucast_to_def)
  qed
  show ?thesis
    unfolding start_value_string_def
    by (intro wp_intros) (use assms len shift in \<open>auto simp: ucast_to_def\<close>)
qed

text \<open>The parts of the invariant that an update of another field leaves alone.\<close>

lemma static_ok_updates [simp]:
  "static_ok d (c\<lparr>field_type := ft\<rparr>) = static_ok d c" "static_ok d (c\<lparr>element_size := n\<rparr>) = static_ok d c"
  "static_ok d (c\<lparr>data_pos_cooked := n\<rparr>) = static_ok d c" "static_ok d (c\<lparr>item_size_raw := n\<rparr>) = static_ok d c"
  "static_ok d (c\<lparr>item_size_cooked := n\<rparr>) = static_ok d c" "static_ok d (c\<lparr>data_pos_raw := n\<rparr>) = static_ok d c"
  "static_ok d (c\<lparr>stack_index := n\<rparr>) = static_ok d c" "static_ok d (c\<lparr>stack_top := e\<rparr>) = static_ok d c"
  "static_ok d (c\<lparr>move_next_remaining := n\<rparr>) = static_ok d c"
  "static_ok d (set_state st sub c) = static_ok d c" "static_ok d (set_end_state st sub c) = static_ok d c"
  by (simp_all add: static_ok_def set_state_def set_end_state_def)

lemma base_ok_updates [simp]:
  "base_ok d (c\<lparr>field_type := ft\<rparr>) = base_ok d c" "base_ok d (c\<lparr>element_size := n\<rparr>) = base_ok d c"
  "base_ok d (c\<lparr>data_pos_cooked := n\<rparr>) = base_ok d c" "base_ok d (c\<lparr>item_size_raw := n\<rparr>) = base_ok d c"
  "base_ok d (c\<lparr>item_size_cooked := n\<rparr>) = base_ok d c"
  "base_ok d (c\<lparr>move_next_remaining := n\<rparr>) = base_ok d c"
  "base_ok d (set_state st sub c) = base_ok d c" "base_ok d (set_end_state st sub c) = base_ok d c"
  by (simp_all add: base_ok_def set_state_def set_end_state_def static_ok_def entry_ok_def)

lemma base_ok_data_pos_raw:
  "base_ok d c \<Longrightarrow> n \<le> length d \<Longrightarrow> base_ok d (c\<lparr>data_pos_raw := n\<rparr>)"
  by (simp add: base_ok_def static_ok_def entry_ok_def)

lemma typed_ok_updates [simp]:
  "typed_ok d (c\<lparr>element_size := n\<rparr>) = typed_ok d c" "typed_ok d (c\<lparr>data_pos_cooked := n\<rparr>) = typed_ok d c"
  "typed_ok d (c\<lparr>item_size_raw := n\<rparr>) = typed_ok d c" "typed_ok d (c\<lparr>item_size_cooked := n\<rparr>) = typed_ok d c"
  "typed_ok d (c\<lparr>data_pos_raw := n\<rparr>) = typed_ok d c"
  "typed_ok d (c\<lparr>move_next_remaining := n\<rparr>) = typed_ok d c"
  "typed_ok d (set_state st sub c) = typed_ok d c" "typed_ok d (set_end_state st sub c) = typed_ok d c"
  by (simp_all add: typed_ok_def set_state_def set_end_state_def)

lemma set_state_simps [simp]:
  "meta_end (set_state st sub c) = meta_end c" "meta_start (set_state st sub c) = meta_start c"
  "byte_reader (set_state st sub c) = byte_reader c" "stack (set_state st sub c) = stack c"
  "stack_index (set_state st sub c) = stack_index c"
  "move_next_remaining (set_state st sub c) = move_next_remaining c"
  "state (set_state st sub c) = st" "substate (set_state st sub c) = sub"
  "field_type (set_state st sub c) = field_type c" "stack_top (set_state st sub c) = stack_top c"
  "data_pos_raw (set_state st sub c) = data_pos_raw c" "element_size (set_state st sub c) = element_size c"
  "item_size_raw (set_state st sub c) = item_size_raw c"
  "item_size_cooked (set_state st sub c) = item_size_cooked c"
  "data_pos_cooked (set_state st sub c) = data_pos_cooked c"
  by (simp_all add: set_state_def)

lemma set_end_state_simps [simp]:
  "meta_end (set_end_state st sub c) = meta_end c" "meta_start (set_end_state st sub c) = meta_start c"
  "byte_reader (set_end_state st sub c) = byte_reader c" "stack (set_end_state st sub c) = stack c"
  "stack_index (set_end_state st sub c) = stack_index c"
  "move_next_remaining (set_end_state st sub c) = move_next_remaining c"
  "state (set_end_state st sub c) = st" "substate (set_end_state st sub c) = sub"
  "field_type (set_end_state st sub c) = field_type c" "stack_top (set_end_state st sub c) = stack_top c"
  "data_pos_raw (set_end_state st sub c) = data_pos_raw c"
  "element_size (set_end_state st sub c) = element_size c"
  "item_size_raw (set_end_state st sub c) = 0" "item_size_cooked (set_end_state st sub c) = 0"
  "data_pos_cooked (set_end_state st sub c) = data_pos_raw c"
  by (simp_all add: set_end_state_def)

lemma base_ok_static [simp]: "base_ok d c \<Longrightarrow> static_ok d c"
  by (simp add: base_ok_def)

lemma base_ok_data_pos: "base_ok d c \<Longrightarrow> data_pos_raw c \<le> length d"
  by (simp add: base_ok_def)

lemma typed_ok_static_encoding:
  assumes "typed_ok d c"
  shows "cur_enc c = FieldEncoding_without_chain_flag (d ! type_offset (stack_top c))"
  using assms field_type_at_encoding [of "meta_end c" "byte_reader c" d "type_offset (stack_top c)"]
  by (auto simp: typed_ok_def)

lemma fixed_element_size_range: "fixed_element_size e = Some sz \<Longrightarrow> 0 < sz \<and> sz \<le> 16"
  by (auto simp: fixed_element_size_def split: if_splits)

lemma complex_not_struct [simp]: "\<not> is_complex_value FieldEncoding_Struct"
  by (simp add: is_complex_value_def enum_consts)

text \<open>
  A value starts well: in the scalar state and in the state of an element of an array of strings.
\<close>

definition value_start_ok :: "bytes \<Rightarrow> ctx \<Rightarrow> bool" where
  "value_start_ok d c \<longleftrightarrow>
     base_ok d c \<and> typed_ok d c \<and> state c = State_Value
     \<and> FieldEncoding_without_flags (cur_enc c) \<noteq> FieldEncoding_Struct
     \<and> (substate c = Sub_ValueScalar \<and> \<not> FieldEncoding_is_array (cur_enc c)
        \<or> substate c = Sub_ValueComplexArrayElement \<and> FieldEncoding_is_array (cur_enc c)
          \<and> array_index (stack_top c) < array_count (stack_top c)
          \<and> fixed_element_size (FieldEncoding_without_flags (cur_enc c)) = None)"

lemma value_complex_post:
  assumes "value_start_ok d c"
    and "fixed_element_size (FieldEncoding_without_flags (cur_enc c)) = None"
    and "data_pos_raw c + r \<le> length d" "p + k \<le> length d"
  shows "move_post d (True, c\<lparr>data_pos_cooked := p, element_size := 0,
                              item_size_cooked := k, item_size_raw := r\<rparr>)"
  using assms by (auto simp: value_start_ok_def move_post_def enum_inv_def item_ok_def)

lemma start_value_post:
  assumes v: "value_start_ok d c"
  shows "wp (start_value dbg d c) (move_post d)"
proof -
  have b: "base_ok d c" "typed_ok d c" "state c = State_Value"
    "FieldEncoding_without_flags (cur_enc c) \<noteq> FieldEncoding_Struct"
    using v by (simp_all add: value_start_ok_def)
  have st: "static_ok d c" "data_pos_raw c \<le> length d" "length d < 2 ^ 31"
    using b(1) by (simp_all add: base_ok_def static_ok_def)
  have off: "type_offset (stack_top c) < length d"
    using b st(1) by (simp add: typed_ok_def static_ok_def)
  have enc: "cur_enc c = FieldEncoding_without_chain_flag (d ! type_offset (stack_top c))"
    using b(2) by (rule typed_ok_static_encoding)
  have rem: "ucast_to 32 (length d) = length d" using st(3) by (simp add: ucast_to_def)
  show ?thesis
    unfolding start_value_def rem
    by (intro wp_intros wp_start_value_fixed_lengthI wp_start_value_zstringI wp_start_value_stringI)
      (use v b st off enc in \<open>auto dest: fixed_element_size_range
        simp: value_start_ok_def move_post_def [of d "(True, _)"] enum_inv_def item_ok_def\<close>)
qed

lemma start_array_post:
  assumes "base_ok d c" "typed_ok d c" "FieldEncoding_is_array (cur_enc c)"
    "array_index (stack_top c) = 0"
  shows "wp (start_array dbg (ucast_to 32 (length d)) c) (move_post d)"
proof -
  have st: "static_ok d c" "data_pos_raw c \<le> length d" "length d < 2 ^ 31"
    "array_count (stack_top c) < 2 ^ 16"
    using assms by (simp_all add: base_ok_def static_ok_def typed_ok_def)
  have rem: "ucast_to 32 (length d) = length d" using st(3) by (simp add: ucast_to_def)
  have mult: "array_count (stack_top c) * sz < 2 ^ 32" if "sz \<le> 16" for sz
  proof -
    have "array_count (stack_top c) * sz \<le> array_count (stack_top c) * 16" using that by simp
    also have "\<dots> < 2 ^ 32" using st(4) by simp
    finally show ?thesis .
  qed
  show ?thesis
    unfolding start_array_def rem
    by (intro wp_intros)
      (use assms st mult in \<open>auto dest: fixed_element_size_range
        simp: move_post_def [of d "(True, _)"] enum_inv_def item_ok_def fixed_element_size_def enum_consts
        split: if_splits\<close>)
qed

lemma wp_start_structI:
  assumes "base_ok d c" "typed_ok d c" "FieldEncoding_without_flags (cur_enc c) = FieldEncoding_Struct"
    "array_index (stack_top c) < array_count (stack_top c)"
  shows "wp (start_struct dbg c) (\<lambda>c'. wp (Some (True, c')) (move_post d))"
proof -
  have "data_pos_raw c \<le> length d" using assms(1) by (simp add: base_ok_def)
  with assms show ?thesis
    unfolding start_struct_def
    by (intro wp_intros) (auto simp: move_post_def enum_inv_def item_ok_def)
qed

section \<open>next_property\<close>

lemma base_ok_upd_topI:
  assumes "base_ok d c" "next_offset (f (stack_top c)) \<le> meta_end c"
    "meta_start c \<le> next_offset (f (stack_top c))" "remaining_field_count (f (stack_top c)) < 2 ^ 8"
  shows "base_ok d (upd_top f c)"
  using assms by (simp add: base_ok_def entry_ok_def)

lemma base_ok_with_field:
  assumes "base_ok d c" "meta_start c \<le> name_offset (stack_top c)"
    "name_offset (stack_top c) + n + 1 < meta_end c"
  shows "base_ok d (with_field d n c)"
  unfolding with_field_def
  by (rule base_ok_upd_topI) (use assms field_type_at_bounds [OF assms(3), of "byte_reader c" d]
      in \<open>auto simp: base_ok_def\<close>)

lemma with_field_simps [simp]:
  "meta_end (with_field d n c) = meta_end c" "meta_start (with_field d n c) = meta_start c"
  "byte_reader (with_field d n c) = byte_reader c" "data_pos_raw (with_field d n c) = data_pos_raw c"
  "static_ok d' (with_field d n c) = static_ok d' c"
  "name_offset (stack_top (with_field d n c)) = name_offset (stack_top c)"
  "name_len (stack_top (with_field d n c)) = n"
  "array_index (stack_top (with_field d n c)) = array_index (stack_top c)"
  by (simp_all add: with_field_def)

text \<open>
  The state in which a field has been read: the top of the stack names it, and its type is known
  or is the error mark.
\<close>

definition field_read_ok :: "bytes \<Rightarrow> ctx \<Rightarrow> bool" where
  "field_read_ok d c \<longleftrightarrow>
     base_ok d c \<and> array_index (stack_top c) = 0
     \<and> (cur_enc c \<noteq> READ_FIELD_ERROR \<longrightarrow>
          type_offset (stack_top c) < meta_end c \<and> meta_start c \<le> name_offset (stack_top c)
          \<and> field_type c = type_of_entry d c (stack_top c))"

lemma typed_ok_upd_top:
  assumes "field_read_ok d c" "cur_enc c \<noteq> READ_FIELD_ERROR"
    "name_offset (f (stack_top c)) = name_offset (stack_top c)"
    "name_len (f (stack_top c)) = name_len (stack_top c)"
    "array_count (f (stack_top c)) < 2 ^ 16"
    "\<not> FieldEncoding_is_array (cur_enc c) \<Longrightarrow> array_count (f (stack_top c)) = 1"
  shows "typed_ok d (upd_top f c)"
  using assms by (simp add: field_read_ok_def typed_ok_def)

lemma field_read_ok_data_pos_raw:
  "field_read_ok d c \<Longrightarrow> n \<le> length d \<Longrightarrow> field_read_ok d (c\<lparr>data_pos_raw := n\<rparr>)"
  by (auto simp: field_read_ok_def intro: base_ok_data_pos_raw)

lemma scalar_struct_encoding:
  assumes "field_read_ok d c" "cur_enc c \<noteq> READ_FIELD_ERROR" "\<not> FieldEncoding_is_array (cur_enc c)"
  shows "FieldEncoding_without_flags (cur_enc c) = cur_enc c"
proof (rule scalar_without_flags [OF assms(3)])
  have "field_type c = type_of_entry d c (stack_top c)"
    using assms by (simp add: field_read_ok_def)
  then show "\<not> FieldEncoding_has_chain_flag (cur_enc c)"
    by (metis field_type_at_flags(1))
qed

lemma next_property_decode_post:
  assumes fr: "field_read_ok d c"
  shows "wp (next_property_decode dbg d c) (move_post d)"
proof -
  have b: "base_ok d c" "static_ok d c" "data_pos_raw c \<le> length d" "length d < 2 ^ 31"
    "meta_end c \<le> length d" "next_offset (stack_top c) \<le> meta_end c"
    "meta_start c \<le> next_offset (stack_top c)" "remaining_field_count (stack_top c) < 2 ^ 8"
    "array_index (stack_top c) = 0"
    using fr by (simp_all add: field_read_ok_def base_ok_def static_ok_def)
  have u16: "unat (v :: u16) < 2 ^ 16" for v using unsigned_less [of v] by simp
  note sc = scalar_struct_encoding [OF fr]
  show ?thesis
    unfolding next_property_decode_def
    by (intro wp_intros start_value_post start_array_post wp_start_structI)
      (use fr b u16 sc in \<open>auto intro!: base_ok_upd_topI typed_ok_upd_top
        base_ok_data_pos_raw field_read_ok_data_pos_raw simp: value_start_ok_def\<close>)
qed

lemma next_property_field_post:
  assumes b: "base_ok d c" and r: "remaining_field_count (stack_top c) \<noteq> 0"
    "next_offset (stack_top c) \<noteq> meta_end c"
  shows "wp (next_property_field dbg d c) (move_post d)"
proof -
  have f: "static_ok d c" "next_offset (stack_top c) \<le> meta_end c"
    "meta_start c \<le> next_offset (stack_top c)" "remaining_field_count (stack_top c) < 2 ^ 8"
    using b by (simp_all add: base_ok_def)
  let ?c1 = "upd_top (\<lambda>e. e\<lparr>remaining_field_count := remaining_field_count (stack_top c) - 1,
      array_index := 0, name_offset := next_offset e\<rparr>) c"
  have b1: "base_ok d ?c1"
    by (rule base_ok_upd_topI) (use b f in simp_all)
  have err: "field_read_ok d (?c1\<lparr>field_type := ft\<rparr>)" if "ft_encoding ft = READ_FIELD_ERROR" for ft
    using that b1 by (simp add: field_read_ok_def)
  have ok: "field_read_ok d ((with_field d n ?c1)\<lparr>field_type :=
        type_of_entry d (with_field d n ?c1) (stack_top (with_field d n ?c1))\<rparr>)"
    if "name_offset (stack_top ?c1) + n + 1 < meta_end ?c1" for n
    using base_ok_with_field [OF b1 _ that] that f by (simp add: field_read_ok_def)
  show ?thesis
    unfolding next_property_field_def
    by (intro wp_intros wp_read_field_name_and_typeI next_property_decode_post)
      (use f r err ok in auto)
qed

lemma next_property_end_post:
  assumes b: "base_ok d c"
  shows "wp (next_property_end dbg d c) (move_post d)"
proof (cases "stack_index c = 0")
  case True
  with b show ?thesis
    unfolding next_property_end_def
    by (intro wp_intros) (auto simp: move_post_def [of d "(False, _)"] enum_inv_def base_ok_data_pos)
next
  case False
  define si where "si = stack_index c - 1"
  define top where "top = stack c ! si"
  have si: "usub 8 dbg (stack_index c) 1 = Some si" "si < length (stack c)" "si < stack_index c"
    using b False by (auto simp: si_def base_ok_def static_ok_def)
  have e: "entry_ok d c top" using b si(3) by (simp add: base_ok_def top_def)
  have st: "static_ok d c" "length d < 2 ^ 31" "meta_end c \<le> length d" "data_pos_raw c \<le> length d"
    "next_offset (stack_top c) \<le> meta_end c" "meta_start c \<le> next_offset (stack_top c)"
    using b by (simp_all add: base_ok_def static_ok_def)
  let ?c1 = "c\<lparr>stack_index := si, stack_top := top\<rparr>"
  have b1: "base_ok d ?c1"
    using b e si by (auto simp: base_ok_def entry_ok_def static_ok_def)
  have off: "type_offset top < meta_end c" using e by (simp add: entry_ok_def)
  have bd: "type_offset top < snd (field_type_at (meta_end c) (byte_reader c) d (type_offset top))"
    "snd (field_type_at (meta_end c) (byte_reader c) d (type_offset top)) \<le> meta_end c"
    using field_type_at_bounds [OF off] by simp_all
  let ?ft = "type_of_entry d c top"
  have enc: "ft_encoding ?ft \<noteq> READ_FIELD_ERROR"
  proof
    assume "ft_encoding ?ft = READ_FIELD_ERROR"
    with e have "FieldEncoding_without_flags READ_FIELD_ERROR = FieldEncoding_Struct"
      by (simp add: entry_ok_def)
    then show False by (simp add: field_encoding_defs enum_consts)
  qed
  have post: "move_post d (True, set_end_state State_StructEnd Sub_StructEnd c2)"
    if "c2 = ?c1\<lparr>stack_top := top\<lparr>next_offset := no\<rparr>, field_type := ?ft, element_size := 0\<rparr>"
      "no \<le> meta_end c" "meta_start c \<le> no" for c2 no
  proof -
    have "base_ok d (upd_top (\<lambda>e. e\<lparr>next_offset := no\<rparr>) ?c1)"
      by (rule base_ok_upd_topI) (use b1 that e in \<open>simp_all add: entry_ok_def\<close>)
    then have "base_ok d c2" using that(1) by (simp add: upd_top_def)
    moreover have "typed_ok d c2" using that e enc by (simp add: typed_ok_def entry_ok_def)
    ultimately show ?thesis
      using that e st by (simp add: move_post_def enum_inv_def item_ok_def entry_ok_def)
  qed
  have lim: "type_offset top < 2 ^ 31" "array_index top + 1 < 2 ^ 16"
    using e st by (auto simp: entry_ok_def)
  show ?thesis
    unfolding next_property_end_def si(1)
    by (intro wp_intros wp_read_field_typeI)
      (use False si e st bd lim off in \<open>auto simp: top_def [symmetric] entry_ok_def upd_top_def intro!: post\<close>)
qed

lemma next_property_post:
  "base_ok d c \<Longrightarrow> wp (next_property dbg d c) (move_post d)"
  unfolding next_property_def by (simp add: next_property_field_post next_property_end_post)

section \<open>skip_struct_metadata\<close>

text \<open>
  In a build without overflow checks the counter of fields to skip wraps around, and the loop
  still ends: every turn consumes at least two bytes of metadata. The debug build is different,
  see the root theory.
\<close>

lemma wp_uadd_release: "(\<And>x. x < 2 ^ w \<Longrightarrow> Q x) \<Longrightarrow> wp (uadd w False a b) Q"
  by (simp add: uadd_def)

lemma wp_usub_release: "a < 2 ^ w \<Longrightarrow> (\<And>x. x < 2 ^ w \<Longrightarrow> Q x) \<Longrightarrow> wp (usub w False a b) Q"
  by (simp add: usub_def)

definition skip_post :: "bytes \<Rightarrow> bool \<times> ctx \<Rightarrow> bool" where
  "skip_post d r \<longleftrightarrow> (if fst r then base_ok d (snd r) else move_post d r)"

lemma skip_post_error [simp]:
  "skip_post d (set_error_state e c) = (static_ok d c \<and> data_pos_raw c \<le> length d)"
  by (simp add: skip_post_def) (simp add: set_error_state_def)

lemma skip_struct_loop_post:
  assumes "base_ok d c" "remaining < 2 ^ 8" "meta_end c < next_offset (stack_top c) + fuel"
  shows "wp (skip_struct_loop False d fuel remaining c) (skip_post d)"
  using assms
proof (induction fuel arbitrary: remaining c)
  case 0
  then show ?case by (simp add: base_ok_def)
next
  case (Suc fuel)
  let ?c1 = "upd_top (\<lambda>e. e\<lparr>name_offset := next_offset e\<rparr>) c"
  have f: "static_ok d c" "next_offset (stack_top c) \<le> meta_end c" "length d < 2 ^ 31"
    "meta_start c \<le> next_offset (stack_top c)" "meta_end c \<le> length d"
    using Suc.prems(1) by (simp_all add: base_ok_def static_ok_def)
  have b1: "base_ok d ?c1"
    by (rule base_ok_upd_topI) (use Suc.prems(1) in \<open>simp_all add: base_ok_def\<close>)
  have step: "wp (skip_struct_loop False d fuel r (upd_top g (with_field d n ?c1))) (skip_post d)"
    if n: "next_offset (stack_top c) + n + 1 < meta_end c" and r: "r < 2 ^ 8"
      and g: "next_offset (stack_top (with_field d n ?c1)) \<le> next_offset (g (stack_top (with_field d n ?c1)))"
        "next_offset (g (stack_top (with_field d n ?c1))) \<le> meta_end c"
        "remaining_field_count (g (stack_top (with_field d n ?c1)))
           = remaining_field_count (stack_top (with_field d n ?c1))" for n r g
  proof -
    have bw: "base_ok d (with_field d n ?c1)"
      by (rule base_ok_with_field [OF b1]) (use n f in simp_all)
    have adv: "next_offset (stack_top c) + n + 1 < next_offset (stack_top (with_field d n ?c1))"
      using field_type_at_bounds(1) [of "next_offset (stack_top c) + n + 1" "meta_end c"] n
      by (simp add: with_field_def)
    have "base_ok d (upd_top g (with_field d n ?c1))"
      by (rule base_ok_upd_topI) (use bw g in \<open>auto simp: base_ok_def\<close>)
    then show ?thesis
      by (rule Suc.IH) (use r g adv Suc.prems(3) in auto)
  qed
  have step0: "wp (skip_struct_loop False d fuel r (with_field d n ?c1)) (skip_post d)"
    if "next_offset (stack_top c) + n + 1 < meta_end c" "r < 2 ^ 8" for n r
  proof -
    have "next_offset (stack_top (with_field d n ?c1)) \<le> meta_end c"
      using field_type_at_bounds(2) [of "next_offset (stack_top c) + n + 1" "meta_end c"] that
      by (simp add: with_field_def)
    with step [of n r id] that show ?thesis by (simp add: upd_top_def)
  qed
  have hi: "next_offset (stack_top (with_field d n ?c1)) \<le> meta_end c"
    if "next_offset (stack_top c) + n + 1 < meta_end c" for n
    using field_type_at_bounds(2) [of "next_offset (stack_top c) + n + 1" "meta_end c"] that
    by (simp add: with_field_def)
  show ?case
    unfolding skip_struct_loop.simps
    by (intro wp_SomeI wp_bindI wp_ifI wp_letI wp_case_prodI wp_uaddI [where w = 32]
        wp_usubI [where w = 32] wp_uadd_release [where w = 8] wp_usub_release [where w = 8]
        wp_read_field_name_and_typeI)
      (use Suc.prems f hi base_ok_data_pos [OF Suc.prems(1)] in \<open>auto simp: skip_post_def [of d "(True, _)"] intro!: step step0\<close>)
qed

lemma skip_struct_metadata_post:
  assumes "base_ok d c"
  shows "wp (skip_struct_metadata False d c) (skip_post d)"
proof -
  have "meta_end c \<le> length d" using assms by (simp add: base_ok_def static_ok_def)
  moreover have "unat (ft_format (field_type c)) < 2 ^ 8" using unsigned_less [of "ft_format (field_type c)"] by simp
  ultimately show ?thesis
    unfolding skip_struct_metadata_def
    by (intro wp_intros skip_struct_loop_post) (use assms in simp_all)
qed

section \<open>move_next\<close>

text \<open>
  The one thing a debug build can still stumble over: skipping the metadata of a struct whose array
  is empty, where the count of fields is an unchecked sum.
\<close>

definition skips_struct :: "ctx \<Rightarrow> bool" where
  "skips_struct c \<longleftrightarrow>
     substate c = Sub_ArrayEnd \<and> FieldEncoding_without_flags (cur_enc c) = FieldEncoding_Struct
     \<and> array_count (stack_top c) = 0"

lemma move_post_valueI:
  "substate_ok d c (substate c) \<Longrightarrow> static_ok d c \<Longrightarrow> can_item_info (state c) \<Longrightarrow>
   substate c \<noteq> Sub_ValueMetadata \<Longrightarrow> move_post d (True, c)"
  by (simp add: move_post_def enum_inv_def)

lemma base_ok_array_index [simp]: "base_ok d (upd_top (\<lambda>e. e\<lparr>array_index := i\<rparr>) c) = base_ok d c"
  by (simp add: base_ok_def entry_ok_def)

lemma typed_ok_array_index [simp]: "typed_ok d (upd_top (\<lambda>e. e\<lparr>array_index := i\<rparr>) c) = typed_ok d c"
  by (simp add: typed_ok_def)

lemma static_ok_lengths:
  assumes "static_ok d c"
  shows "length d < 2 ^ 31" "ucast_to 32 (length d) = length d" "length (stack c) = 8"
  using assms by (simp_all add: static_ok_def ucast_to_def)

lemma step_scalar_post:
  assumes "substate c = Sub_ValueScalar" "substate_ok d c Sub_ValueScalar" "static_ok d c"
  shows "wp (move_next_step dbg d c) (move_post d)"
  unfolding move_next_step_def assms(1) SubState.case static_ok_lengths(2) [OF assms(3)]
  by (intro wp_intros next_property_post base_ok_data_pos_raw)
    (use assms static_ok_lengths [OF assms(3)] in auto)

lemma le_mult_count: "(n::nat) \<noteq> 0 \<Longrightarrow> p + n * s \<le> l \<Longrightarrow> p + s \<le> l"
  by (cases n) simp_all

lemma step_simple_element_post:
  assumes "substate c = Sub_ValueSimpleArrayElement" "substate_ok d c Sub_ValueSimpleArrayElement"
    "static_ok d c"
  shows "wp (move_next_step dbg d c) (move_post d)"
proof -
  let ?n = "array_count (stack_top c) - array_index (stack_top c)"
  have idx: "array_index (stack_top c) < array_count (stack_top c)" "array_count (stack_top c) < 2 ^ 16"
    "data_pos_raw c + ?n * element_size c \<le> length d"
    using assms(2) by (simp_all add: item_ok_def typed_ok_def)
  obtain m where m: "?n = Suc m" using idx(1) by (metis Suc_diff_Suc)
  then have m': "array_count (stack_top c) - Suc (array_index (stack_top c)) = m" by simp
  have fit: "data_pos_raw c + element_size c + m * element_size c \<le> length d"
    using idx(3) unfolding m by simp
  have fit2: "data_pos_raw c + element_size c + element_size c \<le> length d"
    if "array_count (stack_top c) \<noteq> Suc (array_index (stack_top c))"
    by (rule le_mult_count [OF _ fit]) (use that idx(1) m' in simp)
  show ?thesis
    unfolding move_next_step_def assms(1) SubState.case static_ok_lengths(2) [OF assms(3)]
      start_value_simple_def
    by (intro wp_intros move_post_valueI)
      (use assms idx fit fit2 m' static_ok_lengths [OF assms(3)] in
        \<open>auto simp: item_ok_def intro!: base_ok_data_pos_raw\<close>)
qed

lemma step_complex_element_post:
  assumes "substate c = Sub_ValueComplexArrayElement" "substate_ok d c Sub_ValueComplexArrayElement"
    "static_ok d c"
  shows "wp (move_next_step dbg d c) (move_post d)"
  unfolding move_next_step_def assms(1) SubState.case static_ok_lengths(2) [OF assms(3)]
  by (intro wp_intros move_post_valueI start_value_post)
    (use assms static_ok_lengths [OF assms(3)] in
      \<open>auto simp: item_ok_def value_start_ok_def typed_ok_def [of d c] intro!: base_ok_data_pos_raw\<close>)

lemma step_array_begin_post:
  assumes "substate c = Sub_ArrayBegin" "substate_ok d c Sub_ArrayBegin" "static_ok d c"
  shows "wp (move_next_step dbg d c) (move_post d)"
proof -
  have fit: "data_pos_raw c + array_count (stack_top c) * element_size c \<le> length d"
    using assms(2) by (auto simp: item_ok_def base_ok_def split: option.splits)
  note one = le_mult_count [OF _ fit]
  show ?thesis
    unfolding move_next_step_def assms(1) SubState.case start_value_simple_def
    by (intro wp_intros move_post_valueI start_value_post wp_start_structI)
      (use assms fit one in \<open>auto simp: item_ok_def value_start_ok_def fixed_element_size_def enum_consts
        intro!: base_ok_data_pos_raw split: option.splits if_splits\<close>)
qed

lemma step_array_end_post:
  assumes "substate c = Sub_ArrayEnd" "substate_ok d c Sub_ArrayEnd" "\<not> (dbg \<and> skips_struct c)"
  shows "wp (move_next_step dbg d c) (move_post d)"
proof (cases "skips_struct c")
  case True
  with assms(3) have dbg: "dbg = False" by simp
  have b: "base_ok d c" using assms(2) by simp
  have "wp (skip_struct_metadata False d c) (\<lambda>x. wp (case x of (ok, c) \<Rightarrow>
      if \<not> ok then Some (False, c) else next_property False d c) (move_post d))"
    by (rule wp_mono [OF skip_struct_metadata_post [OF b]])
      (auto simp: skip_post_def next_property_post split: prod.splits if_splits)
  with True assms show ?thesis
    unfolding move_next_step_def assms(1) SubState.case dbg
    by (simp add: wp_bind skips_struct_def debug_assert_def)
next
  case False
  with assms(1) have "\<not> (FieldEncoding_without_flags (cur_enc c) = FieldEncoding_Struct
      \<and> array_count (stack_top c) = 0)"
    by (simp add: skips_struct_def)
  with assms(2) show ?thesis
    unfolding move_next_step_def assms(1) SubState.case
    by (auto simp: wp_rules next_property_post)
qed

lemma entry_ok_cong:
  "meta_end c' = meta_end c \<Longrightarrow> meta_start c' = meta_start c \<Longrightarrow> byte_reader c' = byte_reader c \<Longrightarrow>
   entry_ok d c' e = entry_ok d c e"
  by (simp add: entry_ok_def)

lemma base_ok_push:
  assumes b: "base_ok d c" and e: "entry_ok d c (stack_top c)" and i: "stack_index c < 8" and n: "n < 2 ^ 8"
  shows "base_ok d (upd_top (\<lambda>e. e\<lparr>remaining_field_count := n\<rparr>)
    (c\<lparr>stack := (stack c)[stack_index c := stack_top c], stack_index := stack_index c + 1\<rparr>))"
proof -
  let ?c = "upd_top (\<lambda>e. e\<lparr>remaining_field_count := n\<rparr>)
    (c\<lparr>stack := (stack c)[stack_index c := stack_top c], stack_index := stack_index c + 1\<rparr>)"
  have st: "static_ok d c" "length (stack c) = 8" using b by (simp_all add: base_ok_def static_ok_def)
  have "entry_ok d ?c (stack ?c ! j)" if "j < stack_index ?c" for j
  proof -
    have "entry_ok d c (stack ?c ! j)"
      using that b e i st by (cases "j = stack_index c") (simp_all add: base_ok_def)
    then show ?thesis by (subst entry_ok_cong [of _ c]) simp_all
  qed
  moreover have "static_ok d ?c" using st by (simp add: static_ok_def)
  ultimately show ?thesis
    unfolding base_ok_def using b i n by (simp add: base_ok_def)
qed

lemma struct_begin_entry_ok:
  assumes "substate_ok d c Sub_StructBegin"
  shows "entry_ok d c (stack_top c)"
proof -
  have f: "base_ok d c" "typed_ok d c" "array_index (stack_top c) < array_count (stack_top c)"
    "FieldEncoding_without_flags (cur_enc c) = FieldEncoding_Struct"
    using assms by (simp_all add: item_ok_def)
  have ft: "field_type c = type_of_entry d c (stack_top c)"
    using f(2) by (simp add: typed_ok_def)
  show ?thesis
    using f(1-3) f(4) [unfolded ft]
    unfolding base_ok_def typed_ok_def entry_ok_def ft [symmetric] by blast
qed

lemma step_struct_begin_post:
  assumes "substate c = Sub_StructBegin" "substate_ok d c Sub_StructBegin" "static_ok d c"
  shows "wp (move_next_step dbg d c) (move_post d)"
proof -
  have b: "base_ok d c" using assms(2) by simp
  have u8: "unat (ft_format (field_type c)) < 2 ^ 8"
    using unsigned_less [of "ft_format (field_type c)"] by simp
  note push = base_ok_push [OF b struct_begin_entry_ok [OF assms(2)] _ u8, simplified]
  show ?thesis
    unfolding move_next_step_def assms(1) SubState.case
    by (intro wp_intros next_property_post)
      (use assms static_ok_lengths [OF assms(3)] base_ok_data_pos [OF b] in \<open>auto intro!: push\<close>)
qed

lemma step_struct_end_post:
  assumes "substate c = Sub_StructEnd" "substate_ok d c Sub_StructEnd" "static_ok d c"
  shows "wp (move_next_step dbg d c) (move_post d)"
  unfolding move_next_step_def assms(1) SubState.case
  by (intro wp_intros move_post_valueI next_property_post wp_start_structI)
    (use assms in \<open>auto simp: item_ok_def typed_ok_def [of d c] base_ok_def [of d c]\<close>)

lemma move_next_step_post:
  assumes inv: "enum_inv d c" and can: "can_move_next (state c)"
    and sub: "substate c \<noteq> Sub_ValueMetadata" and skip: "\<not> (dbg \<and> skips_struct c)"
  shows "wp (move_next_step dbg d c) (move_post d)"
proof (cases "substate c")
  case Sub_BeforeFirstItem
  with inv show ?thesis
    unfolding move_next_step_def by (simp add: wp_rules next_property_post enum_inv_def)
qed (use inv can sub skip in \<open>simp_all add: enum_inv_def step_scalar_post step_simple_element_post
    step_complex_element_post step_array_begin_post step_array_end_post step_struct_begin_post
    step_struct_end_post\<close>)

end
