(* ===== verification/Enumerator_Run.thy ===== *)
theory Enumerator_Run
  imports Enumerator_Safety
begin

unbundle bit_operations_syntax

text \<open>
  Running the decoder. The client's loop \<open>while e.move_next() { ... }\<close> is \<open>drain\<close>; the locale
  \<open>cursor\<close> is the contract such a loop relies on (a call keeps the invariant, does not panic, and a
  call that moves to an item uses up some of a budget), and it is interpreted for the three ways to
  move: \<open>move_next\<close>, \<open>move_next_sibling\<close> and \<open>move_next_metadata\<close>.
\<close>

section \<open>The cursor interface\<close>

fun drain :: "('s \<Rightarrow> (bool \<times> 's) option) \<Rightarrow> nat \<Rightarrow> 's \<Rightarrow> ('s list \<times> 's) option" where
  "drain step 0 s = None"
| "drain step (Suc n) s = do {
     (moved, s') \<leftarrow> step s;
     (if moved then do {
        (items, last) \<leftarrow> drain step n s';
        Some (s' # items, last)
      } else Some ([], s'))
   }"

locale cursor =
  fixes step :: "'s \<Rightarrow> (bool \<times> 's) option"
    and inv :: "'s \<Rightarrow> bool"
    and on_item :: "'s \<Rightarrow> bool"
    and stopped :: "'s \<Rightarrow> bool"
    and budget :: "'s \<Rightarrow> nat"
  assumes step_safe: "inv s \<Longrightarrow> wp (step s) (\<lambda>(moved, s').
      if moved then inv s' \<and> on_item s' \<and> budget s' < budget s else stopped s')"
begin

lemma drain_total:
  assumes "inv s" "budget s < n"
  shows "wp (drain step n s) (\<lambda>(items, last).
      (\<forall>x \<in> set items. inv x \<and> on_item x) \<and> stopped last \<and> length items \<le> budget s)"
  using assms
proof (induction n arbitrary: s)
  case 0
  then show ?case by simp
next
  case (Suc n)
  obtain moved s' where st: "step s = Some (moved, s')"
    and post: "if moved then inv s' \<and> on_item s' \<and> budget s' < budget s else stopped s'"
    using step_safe [OF Suc.prems(1)] by (auto simp: wp_iff)
  show ?case
  proof (cases moved)
    case True
    with post Suc.prems have "wp (drain step n s') (\<lambda>(items, last).
        (\<forall>x \<in> set items. inv x \<and> on_item x) \<and> stopped last \<and> length items \<le> budget s')"
      by (intro Suc.IH) auto
    with True st post show ?thesis by (auto simp: wp_iff)
  next
    case False
    with st post show ?thesis by simp
  qed
qed

lemma drain_fuel_irrelevant:
  assumes "inv s" "budget s < n" "budget s < m"
  shows "drain step n s = drain step m s"
  using assms
proof (induction n arbitrary: s m)
  case 0
  then show ?case by simp
next
  case (Suc n)
  obtain moved s' where st: "step s = Some (moved, s')"
    and post: "if moved then inv s' \<and> on_item s' \<and> budget s' < budget s else stopped s'"
    using step_safe [OF Suc.prems(1)] by (auto simp: wp_iff)
  obtain m' where m: "m = Suc m'" using Suc.prems(3) by (cases m) auto
  show ?case
  proof (cases moved)
    case True
    with post Suc.prems m have "drain step n s' = drain step m' s'"
      by (intro Suc.IH) auto
    with True st m show ?thesis by simp
  next
    case False
    with st m show ?thesis by simp
  qed
qed

end

section \<open>move_next\<close>

text \<open>A context in which \<open>move_next\<close> may be called.\<close>

definition item_inv :: "bytes \<Rightarrow> ctx \<Rightarrow> bool" where
  "item_inv d c \<longleftrightarrow> enum_inv d c \<and> can_move_next (state c) \<and> substate c \<noteq> Sub_ValueMetadata"

abbreviation on_item :: "ctx \<Rightarrow> bool" where
  "on_item c \<equiv> can_item_info (state c)"

abbreviation stopped :: "ctx \<Rightarrow> bool" where
  "stopped c \<equiv> state c = State_Error \<or> state c = State_AfterLastItem"

lemma move_next_remaining_inv [simp]:
  "static_ok d (c\<lparr>move_next_remaining := n\<rparr>) = static_ok d c"
  "base_ok d (c\<lparr>move_next_remaining := n\<rparr>) = base_ok d c"
  "typed_ok d (c\<lparr>move_next_remaining := n\<rparr>) = typed_ok d c"
  "item_ok d (c\<lparr>move_next_remaining := n\<rparr>) = item_ok d c"
  by (simp_all add: static_ok_def base_ok_def typed_ok_def item_ok_def entry_ok_def)

lemma enum_inv_remaining [simp]:
  "enum_inv d (c\<lparr>move_next_remaining := n\<rparr>) = enum_inv d c"
  by (cases "substate c") (simp_all add: enum_inv_def split: option.split)

lemma can_item_info_move: "can_item_info s \<Longrightarrow> can_move_next s"
  by (cases s) simp_all

lemma move_post_item_inv: "move_post d (True, c) \<Longrightarrow> item_inv d c"
  by (simp add: move_post_def item_inv_def can_item_info_move)

lemma enum_inv_data_pos: "enum_inv d c \<Longrightarrow> data_pos_raw c \<le> length d"
  by (cases "substate c") (auto simp: enum_inv_def base_ok_data_pos)

lemma move_next_impl_post:
  assumes "item_inv d c" "\<not> (dbg \<and> skips_struct c)"
  shows "wp (move_next_impl dbg d c) (move_post d)"
proof -
  have "wp (move_next_step dbg d (c\<lparr>move_next_remaining := n\<rparr>)) (move_post d)" for n
    by (rule move_next_step_post) (use assms in \<open>simp_all add: item_inv_def skips_struct_def\<close>)
  with assms enum_inv_data_pos [of d c] show ?thesis
    by (auto simp: move_next_impl_def wp_rules item_inv_def enum_inv_data_pos enum_inv_def)
qed

interpretation move_next: cursor "move_next_impl False d" "item_inv d" on_item stopped move_next_remaining for d
proof
  fix c assume inv: "item_inv d c"
  then have "wp (move_next_impl False d c) (move_post d)" by (rule move_next_impl_post) simp
  then obtain b c' where r: "move_next_impl False d c = Some (b, c')" "move_post d (b, c')"
    by (auto simp: wp_iff)
  with move_next_impl_frame(2) [OF r(1)] show "wp (move_next_impl False d c) (\<lambda>(moved, s').
      if moved then item_inv d s' \<and> on_item s' \<and> move_next_remaining s' < move_next_remaining c
      else stopped s')"
    by (auto simp: move_post_item_inv move_post_def)
qed

section \<open>move_next_sibling\<close>

definition sibling_post :: "bytes \<Rightarrow> ctx \<Rightarrow> bool \<times> ctx \<Rightarrow> bool" where
  "sibling_post d c r \<longleftrightarrow>
     move_post d r \<and> (fst r \<longrightarrow> move_next_remaining (snd r) < move_next_remaining c)"

lemma item_inv_array_begin:
  assumes "item_inv d c" "state c = State_ArrayBegin"
  shows "substate c = Sub_ArrayBegin"
  using assms by (cases "substate c") (simp_all add: item_inv_def enum_inv_def)

lemma item_inv_simple_array:
  assumes "item_inv d c" "state c = State_ArrayBegin" "element_size c \<noteq> 0"
  shows "base_ok d c" "array_index (stack_top c) = 0" "FieldEncoding_is_array (cur_enc c)"
    "FieldEncoding_without_flags (cur_enc c) \<noteq> FieldEncoding_Struct"
    "data_pos_raw c + array_count (stack_top c) * element_size c \<le> length d" "length d < 2 ^ 31"
  using assms(1,3) item_inv_array_begin [OF assms(1,2)]
  by (auto simp: item_inv_def enum_inv_def item_ok_def static_ok_def fixed_element_size_def
      enum_consts split: option.splits if_splits)

lemma sibling_move_next:
  assumes "item_inv d c"
  shows "wp (move_next_impl False d c) (sibling_post d c)"
proof -
  from move_next_impl_post [OF assms, of False] obtain b c' where
    r: "move_next_impl False d c = Some (b, c')" "move_post d (b, c')" by (auto simp: wp_iff)
  with move_next_impl_frame(2) [OF r(1)] show ?thesis
    by (auto simp: sibling_post_def)
qed

lemma sibling_fast_path:
  assumes "item_inv d c" "state c = State_ArrayBegin" "element_size c \<noteq> 0" "move_next_remaining c \<noteq> 0"
  shows "wp (next_property dbg d
      (c\<lparr>data_pos_raw := data_pos_raw c + array_count (stack_top c) * element_size c,
         move_next_remaining := move_next_remaining c - 1\<rparr>)) (sibling_post d c)"
    (is "wp (next_property dbg d ?c) _")
proof -
  note f = item_inv_simple_array [OF assms(1-3)]
  have "base_ok d (c\<lparr>data_pos_raw := data_pos_raw c + array_count (stack_top c) * element_size c\<rparr>)"
    by (rule base_ok_data_pos_raw) (use f in simp_all)
  then have "base_ok d ?c" by (simp add: base_ok_def static_ok_def entry_ok_def)
  from next_property_post [OF this, of dbg] obtain b c' where
    r: "next_property dbg d ?c = Some (b, c')" "move_post d (b, c')" by (auto simp: wp_iff)
  with next_property_remaining [OF r(1)] assms(4) show ?thesis
    by (simp add: sibling_post_def)
qed

lemma move_next_sibling_loop_post:
  assumes "item_inv d c"
  shows "wp (move_next_sibling_loop False d depth c) (sibling_post d c)"
  using assms
proof (induction "move_next_remaining c" arbitrary: depth c rule: less_induct)
  case less
  have again: "wp (move_next_sibling_loop False d dep c') (sibling_post d c)"
    if "sibling_post d c (True, c')" for dep c'
  proof -
    from that have "item_inv d c'" "move_next_remaining c' < move_next_remaining c"
      by (auto simp: sibling_post_def move_post_item_inv)
    then have "wp (move_next_sibling_loop False d dep c') (sibling_post d c')"
      by (intro less.hyps)
    then show ?thesis
      by (rule wp_mono) (use \<open>move_next_remaining c' < _\<close> in \<open>auto simp: sibling_post_def\<close>)
  qed
  show ?case
  proof (cases "state c = State_ArrayBegin \<and> \<not> (element_size c = 0 \<or> move_next_remaining c = 0)")
    case True
    note f = item_inv_simple_array [OF less.prems]
    show ?thesis
      unfolding move_next_sibling_loop.simps [of False d depth c] if_P [OF True]
      by (intro wp_intros wp_mono [OF sibling_fast_path [of d c]])
        (use True f less.prems in \<open>auto split: prod.splits intro!: again\<close>)
  next
    case False
    show ?thesis
      unfolding move_next_sibling_loop.simps [of False d depth c] if_not_P [OF False]
      by (intro wp_intros wp_mono [OF sibling_move_next [OF less.prems]])
        (auto split: prod.splits intro!: again)
  qed
qed

lemma move_next_sibling_impl_post:
  "item_inv d c \<Longrightarrow> wp (move_next_sibling_impl False d c) (sibling_post d c)"
  by (simp add: move_next_sibling_impl_def wp_rules move_next_sibling_loop_post)

interpretation move_next_sibling:
  cursor "move_next_sibling_impl False d" "item_inv d" on_item stopped move_next_remaining for d
proof
  fix c assume "item_inv d c"
  from move_next_sibling_impl_post [OF this] show "wp (move_next_sibling_impl False d c) (\<lambda>(moved, s').
      if moved then item_inv d s' \<and> on_item s' \<and> move_next_remaining s' < move_next_remaining c
      else stopped s')"
    by (rule wp_mono) (auto simp: sibling_post_def move_post_item_inv, auto simp: move_post_def)
qed

section \<open>move_next_metadata\<close>

text \<open>A context in which \<open>move_next_metadata\<close> may be called.\<close>

definition metadata_inv :: "bytes \<Rightarrow> ctx \<Rightarrow> bool" where
  "metadata_inv d c \<longleftrightarrow>
     enum_inv d c \<and> (substate c = Sub_BeforeFirstItem \<or> substate c = Sub_ValueMetadata)"

abbreviation metadata_left :: "ctx \<Rightarrow> nat" where
  "metadata_left c \<equiv> meta_end c - next_offset (stack_top c)"

definition metadata_post :: "bytes \<Rightarrow> ctx \<Rightarrow> bool \<times> ctx \<Rightarrow> bool" where
  "metadata_post d c r \<longleftrightarrow>
     (if fst r then metadata_inv d (snd r) \<and> on_item (snd r) \<and> metadata_left (snd r) < metadata_left c
      else enum_inv d (snd r) \<and> stopped (snd r))"

lemma metadata_post_error [simp]:
  "metadata_post d c (set_error_state e c') = (static_ok d c' \<and> data_pos_raw c' \<le> length d)"
  by (simp add: metadata_post_def set_error_state_def enum_inv_def static_ok_def)

text \<open>The part of a metadata context that does not depend on the current field.\<close>

definition metadata_base :: "bytes \<Rightarrow> ctx \<Rightarrow> bool" where
  "metadata_base d c \<longleftrightarrow> base_ok d c \<and> element_size c = 0 \<and> item_size_cooked c = 0
     \<and> data_pos_cooked c \<le> length d \<and> array_index (stack_top c) = 0"

lemma metadata_itemI:
  assumes "base_ok d c" "element_size c = 0" "item_size_cooked c = 0" "data_pos_cooked c \<le> length d"
    "array_index (stack_top c) = 0" "typed_ok d c" "state c = State_Value \<or> state c = State_ArrayBegin"
    "substate c = Sub_ValueMetadata" "state c = State_ArrayBegin \<Longrightarrow> FieldEncoding_is_array (cur_enc c)"
    "FieldEncoding_without_flags (cur_enc c) = FieldEncoding_Struct \<Longrightarrow> ft_format (field_type c) \<noteq> 0"
    "metadata_left c < metadata_left c0"
  shows "metadata_post d c0 (True, c)"
  using assms by (auto simp: metadata_post_def metadata_inv_def enum_inv_def item_ok_def)

lemma with_field_frame [simp]:
  "element_size (with_field d n c) = element_size c"
  "item_size_cooked (with_field d n c) = item_size_cooked c"
  "data_pos_cooked (with_field d n c) = data_pos_cooked c"
  "array_index (stack_top (with_field d n c)) = array_index (stack_top c)"
  by (simp_all add: with_field_def)

lemma move_next_metadata_decode_post:
  assumes fr: "field_read_ok d c" and m: "metadata_base d c"
    and adv: "cur_enc c \<noteq> READ_FIELD_ERROR \<Longrightarrow> metadata_left c < metadata_left c0"
  shows "wp (move_next_metadata_decode dbg d c) (metadata_post d c0)"
proof -
  have b: "base_ok d c" "static_ok d c" "length d < 2 ^ 31" "meta_end c \<le> length d"
    "next_offset (stack_top c) \<le> meta_end c" "meta_start c \<le> next_offset (stack_top c)"
    "remaining_field_count (stack_top c) < 2 ^ 8" "array_index (stack_top c) = 0"
    "data_pos_raw c \<le> length d"
    using fr by (simp_all add: field_read_ok_def base_ok_def static_ok_def)
  have u16: "unat (v :: u16) < 2 ^ 16" for v using unsigned_less [of v] by simp
  show ?thesis
    unfolding move_next_metadata_decode_def
    by (intro wp_intros metadata_itemI)
      (use fr b u16 m adv in \<open>auto intro!: base_ok_upd_topI typed_ok_upd_top
        simp: metadata_base_def enum_consts\<close>)
qed

lemma move_next_metadata_field_post:
  assumes m: "metadata_base d c" and more: "next_offset (stack_top c) \<noteq> meta_end c"
  shows "wp (move_next_metadata_field dbg d c) (metadata_post d c)"
proof -
  have f: "base_ok d c" "static_ok d c" "next_offset (stack_top c) \<le> meta_end c"
    "meta_start c \<le> next_offset (stack_top c)" "array_index (stack_top c) = 0"
    using m by (simp_all add: metadata_base_def base_ok_def)
  let ?c1 = "upd_top (\<lambda>e. e\<lparr>name_offset := next_offset e\<rparr>) c"
  have b1: "base_ok d ?c1"
    by (rule base_ok_upd_topI) (use f in \<open>simp_all add: base_ok_def\<close>)
  have "wp (move_next_metadata_decode dbg d (?c1\<lparr>field_type := ft\<rparr>)) (metadata_post d c)"
    if "ft_encoding ft = READ_FIELD_ERROR" for ft
    by (rule move_next_metadata_decode_post)
      (use that b1 f m in \<open>simp_all add: field_read_ok_def metadata_base_def\<close>)
  moreover have "wp (move_next_metadata_decode dbg d ((with_field d n ?c1)\<lparr>field_type :=
      type_of_entry d (with_field d n ?c1) (stack_top (with_field d n ?c1))\<rparr>)) (metadata_post d c)"
    if n: "name_offset (stack_top ?c1) + n + 1 < meta_end ?c1" for n
  proof (rule move_next_metadata_decode_post)
    have bw: "base_ok d (with_field d n ?c1)" by (rule base_ok_with_field [OF b1 _ n]) (use f in simp)
    then show "field_read_ok d ((with_field d n ?c1)\<lparr>field_type :=
        type_of_entry d (with_field d n ?c1) (stack_top (with_field d n ?c1))\<rparr>)"
      using n f by (simp add: field_read_ok_def)
    from bw show "metadata_base d ((with_field d n ?c1)\<lparr>field_type :=
        type_of_entry d (with_field d n ?c1) (stack_top (with_field d n ?c1))\<rparr>)"
      using m by (simp add: metadata_base_def)
    have "next_offset (stack_top c) < next_offset (stack_top (with_field d n ?c1))"
      "next_offset (stack_top (with_field d n ?c1)) \<le> meta_end c"
      using field_type_at_bounds [of "next_offset (stack_top c) + n + 1" "meta_end c" "byte_reader c" d] n
      by (simp_all add: with_field_def)
    then show "metadata_left ((with_field d n ?c1)\<lparr>field_type :=
        type_of_entry d (with_field d n ?c1) (stack_top (with_field d n ?c1))\<rparr>) < metadata_left c"
      using more f(3) by (auto simp: with_field_def)
  qed
  ultimately show ?thesis
    unfolding move_next_metadata_field_def
    by (intro wp_intros wp_read_field_name_and_typeI) (use f in auto)
qed

lemma move_next_metadata_impl_post:
  assumes "metadata_inv d c"
  shows "wp (move_next_metadata_impl dbg d c) (metadata_post d c)"
proof -
  have st: "static_ok d c" "ucast_to 32 (length d) = length d"
    using assms static_ok_lengths by (auto simp: metadata_inv_def enum_inv_def)
  let ?c1 = "set_state State_Value Sub_ValueMetadata
     ((upd_top (\<lambda>e. e\<lparr>array_index := 0\<rparr>) c)\<lparr>data_pos_cooked := length d, item_size_cooked := 0,
        element_size := 0\<rparr>)"
  show ?thesis
  proof (cases "substate c = Sub_ValueMetadata")
    case True
    with assms have m: "metadata_base d c" "state c = State_Value \<or> state c = State_ArrayBegin"
      by (simp_all add: metadata_inv_def enum_inv_def metadata_base_def item_ok_def)
    with True st enum_inv_data_pos [of d c] assms show ?thesis
      using move_next_metadata_field_post [OF m(1)]
      by (simp add: move_next_metadata_impl_def wp_rules metadata_post_def [of d c "(False, _)"]
          enum_inv_def metadata_inv_def)
  next
    case False
    with assms have b: "substate c = Sub_BeforeFirstItem" "state c = State_BeforeFirstItem" "base_ok d c"
      by (auto simp: metadata_inv_def enum_inv_def)
    then have m: "metadata_base d ?c1" by (simp add: metadata_base_def)
    have "metadata_post d ?c1 = metadata_post d c"
      by (rule ext) (simp add: metadata_post_def)
    with move_next_metadata_field_post [OF m] b st show ?thesis
      by (simp add: move_next_metadata_impl_def wp_rules metadata_post_def [of d c "(False, _)"]
          enum_inv_def Let_def base_ok_data_pos)
  qed
qed

interpretation move_next_metadata:
  cursor "move_next_metadata_impl dbg d" "metadata_inv d" on_item stopped metadata_left for dbg d
proof
  fix c assume "metadata_inv d c"
  from move_next_metadata_impl_post [OF this] show "wp (move_next_metadata_impl dbg d c) (\<lambda>(moved, s').
      if moved then metadata_inv d s' \<and> on_item s' \<and> metadata_left s' < metadata_left c else stopped s')"
    by (rule wp_mono) (auto simp: metadata_post_def split: if_splits)
qed

section \<open>Starting an enumeration\<close>

definition started :: "bytes \<Rightarrow> nat \<Rightarrow> ctx \<Rightarrow> bool" where
  "started d limit c \<longleftrightarrow>
     enum_inv d c \<and> substate c = Sub_BeforeFirstItem \<and> move_next_remaining c = limit \<and> last_error c = Success
     \<and> next_offset (stack_top c) = meta_start c + event_name_len c + 1"

lemma started_item_inv: "started d limit c \<Longrightarrow> item_inv d c"
  by (auto simp: started_def item_inv_def enum_inv_def)

lemma started_metadata_inv: "started d limit c \<Longrightarrow> metadata_inv d c"
  by (simp add: started_def metadata_inv_def)

lemma reset_impl_post:
  assumes "static_ok d c"
  shows "wp (reset_impl dbg limit c) (\<lambda>c'. started d limit c' \<and> static_part c' = static_part c)"
proof -
  have f: "meta_start c + event_name_len c < meta_end c" "meta_end c \<le> length d" "length d < 2 ^ 31"
    using assms by (simp_all add: static_ok_def)
  show ?thesis
    unfolding reset_impl_def
    by (intro wp_intros)
      (use f assms in \<open>auto simp: started_def enum_inv_def base_ok_def static_ok_def upd_top_def
        set_state_def static_part_def\<close>)
qed

text \<open>What the loop over the header extensions keeps.\<close>

definition ext_ok :: "bytes \<Rightarrow> ctx \<Rightarrow> bool" where
  "ext_ok d c \<longleftrightarrow>
     length (stack c) = 8
     \<and> (meta_start c \<noteq> 0 \<longrightarrow> meta_start c \<le> meta_end c \<and> meta_end c \<le> length d
          \<and> meta_end c < meta_start c + 2 ^ 16)
     \<and> activity_id_start c + activity_id_len c \<le> length d"

definition ext_post :: "bytes \<Rightarrow> (EventHeaderEnumeratorError + nat) \<times> ctx \<Rightarrow> bool" where
  "ext_post d r \<longleftrightarrow> ext_ok d (snd r) \<and> (\<forall>p. fst r = Inr p \<longrightarrow> p \<le> length d)"

lemma parse_extensions_post:
  assumes "ext_ok d c" "pos \<le> length d" "length d < 2 ^ 31"
  shows "wp (parse_extensions dbg d pos c) (ext_post d)"
  using assms(1,2)
proof (induction "length d - pos" arbitrary: pos c rule: less_induct)
  case less
  have u16: "unat (v :: u16) < 2 ^ 16" for v using unsigned_less [of v] by simp
  have again: "wp (parse_extensions dbg d (pos + 4 + n) c') (ext_post d)"
    if "ext_ok d c'" "pos + 4 + n \<le> length d" for n c'
    by (rule less.hyps) (use that in simp_all)
  show ?case
    unfolding parse_extensions.simps [of dbg d pos c]
    by (intro wp_intros)
      (use less.prems assms(3) u16 in
        \<open>auto simp: ext_post_def ext_ok_def ucast_to_def intro!: again split: if_splits\<close>)
qed

lemma read_event_header_eq:
  assumes "8 \<le> length d"
  shows "read_event_header d c = (let be = \<not> HeaderFlags_has_flag (d ! 0) HeaderFlags_LittleEndian in
     Some (c\<lparr>header := \<lparr>eh_flags = d ! 0, eh_version = d ! 1,
               eh_id = word_of_nat (from_bytes be (take 2 (drop 2 d))),
               eh_tag = word_of_nat (from_bytes be (take 2 (drop 4 d))),
               eh_opcode = d ! 6, eh_level = d ! 7\<rparr>,
             byte_reader := PerfByteReader_new be\<rparr>))"
proof -
  from assms have "0 < length d" by linarith
  with assms show ?thesis by (simp add: read_event_header_def index_def Let_def)
qed

definition enumerate_post ::
  "bytes \<Rightarrow> nat \<Rightarrow> (EventHeaderEnumeratorError + unit) \<times> ctx \<Rightarrow> bool" where
  "enumerate_post d limit r \<longleftrightarrow>
     length (stack (snd r)) = 8
     \<and> (fst r = Inr () \<longrightarrow> started d limit (snd r)
          \<and> activity_id_start (snd r) + activity_id_len (snd r) \<le> length d)"

lemma static_part_stack: "static_part c = static_part c' \<Longrightarrow>
   stack c = stack c \<and> activity_id_start c = activity_id_start c' \<and> activity_id_len c = activity_id_len c'"
  by (simp add: static_part_def)

lemma started_stack: "started d limit c \<Longrightarrow> length (stack c) = 8"
  by (simp add: started_def enum_inv_def static_ok_def)

lemma enumerate_finish_post:
  assumes e: "ext_ok d c" "p \<le> length d" and d: "8 \<le> length d" "length d < 2 ^ 31"
  shows "wp (enumerate_finish dbg d limit p c) (enumerate_post d limit)"
proof (cases "meta_start c = 0")
  case True
  with e show ?thesis by (simp add: enumerate_finish_def enumerate_post_def ext_ok_def)
next
  case False
  then have f: "meta_start c \<le> meta_end c" "meta_end c \<le> length d" "meta_end c < meta_start c + 2 ^ 16"
    "length (stack c) = 8" "activity_id_start c + activity_id_len c \<le> length d" "ucast_to 32 p = p"
    using e d(2) by (simp_all add: ext_ok_def)
  have r: "wp (reset_impl dbg limit (c\<lparr>event_name_len := n - meta_start c, data_start := p\<rparr>))
      (\<lambda>c'. enumerate_post d limit (Inr (), c'))"
    if "meta_start c \<le> n" "n < meta_end c" for n
  proof (rule wp_mono [OF reset_impl_post])
    show "static_ok d (c\<lparr>event_name_len := n - meta_start c, data_start := p\<rparr>)"
      using that f d e(2) by (simp add: static_ok_def)
  qed (use f in \<open>auto simp: enumerate_post_def started_stack dest: static_part_stack\<close>)
  show ?thesis
    unfolding enumerate_finish_def
    by (intro wp_intros)
      (use f False in \<open>auto simp: enumerate_post_def [of d limit "(Inl _, _)"] intro!: r\<close>)
qed

lemma enumerate_with_name_and_data_post:
  assumes "length (stack c) = 8"
  shows "wp (enumerate_with_name_and_data dbg name d limit c) (enumerate_post d limit)"
proof (cases "length d < size_of_EventHeader \<or> length d \<ge> 0x80000000 \<or> length name \<ge> 256")
  case True
  with assms show ?thesis by (simp add: enumerate_with_name_and_data_def enumerate_post_def)
next
  case False
  then have d: "8 \<le> length d" "length d < 2 ^ 31" by (simp_all add: size_of_EventHeader_def)
  let ?post = "\<lambda>x. wp (case x of (r, c) \<Rightarrow> case r of Inl e \<Rightarrow> Some (Inl e, c)
     | Inr p \<Rightarrow> enumerate_finish dbg d limit p c) (enumerate_post d limit)"
  have tail: "?post x" if "ext_post d x" for x
    using that d
    by (cases x) (auto simp: ext_post_def enumerate_post_def [of d limit "(Inl _, _)"] ext_ok_def
        split: sum.split intro!: enumerate_finish_post)
  have ext: "wp (parse_extensions dbg d 8 c) ?post" if "ext_ok d c" for c
    by (rule wp_mono [OF parse_extensions_post]) (use that d tail in auto)
  have noext: "wp (enumerate_finish dbg d limit 8 c) (enumerate_post d limit)" if "ext_ok d c" for c
    by (rule enumerate_finish_post) (use that d in simp_all)
  from False assms d show ?thesis
    unfolding enumerate_with_name_and_data_def
    by (simp add: read_event_header_eq Let_def wp_bind)
      (auto simp: enumerate_post_def [of d limit "(Inl _, _)"] ext_ok_def Let_def wp_bind
        intro!: ext noext split: sum.split option.split)
qed

section \<open>The current item\<close>

lemma on_item_cases:
  assumes "enum_inv d c" "on_item c"
  shows "base_ok d c" "item_ok d c"
    "state c = State_ArrayBegin \<or> state c = State_ArrayEnd \<Longrightarrow> FieldEncoding_is_array (cur_enc c)"
    "FieldEncoding_without_flags (cur_enc c) = FieldEncoding_Struct \<Longrightarrow>
       element_size c = 0 \<and> item_size_cooked c = 0"
    "element_size c \<noteq> 0 \<Longrightarrow> item_size_cooked c \<noteq> 0 \<Longrightarrow>
       item_size_cooked c = element_size c *
         (if state c = State_ArrayBegin \<or> state c = State_ArrayEnd then array_count (stack_top c) else 1)"
  using assms
  by (cases "substate c"; auto simp: enum_inv_def fixed_element_size_def enum_consts
      split: option.splits if_splits)+

lemma item_name_in_range:
  assumes "enum_inv d c" "on_item c"
  shows "meta_start c \<le> name_offset (stack_top c)"
    "name_offset (stack_top c) + name_len (stack_top c) < length d"
    "data_pos_cooked c + item_size_cooked c \<le> length d"
  using on_item_cases(1,2) [OF assms] by (auto simp: item_ok_def typed_ok_def base_ok_def static_ok_def)

text \<open>
  The reserved encodings that the decoder lets through: both array flags, and an array of structs
  that have no fields. A debug build notices them only in \<open>PerfItemMetadata::new\<close>.
\<close>

definition reserved_encoding :: "ctx \<Rightarrow> bool" where
  "reserved_encoding c \<longleftrightarrow>
     FieldEncoding_array_flags (cur_enc c) = FieldEncoding_ArrayFlagMask
     \<or> (FieldEncoding_without_flags (cur_enc c) = FieldEncoding_Struct \<and> ft_format (field_type c) = 0)"

lemma is_scalar_iff: "(s < State_ArrayBegin \<or> s > State_ArrayEnd) \<longleftrightarrow>
   \<not> (s = State_ArrayBegin \<or> s = State_ArrayEnd)"
  by (cases s) (simp_all add: less_EventHeaderEnumeratorState_def)

lemma item_metadata_impl_post:
  assumes inv: "enum_inv d c" "on_item c" and r: "\<not> (dbg \<and> reserved_encoding c)"
  shows "wp (item_metadata_impl dbg c) (\<lambda>m.
      im_encoding m = FieldEncoding_without_flags (cur_enc c) \<and> im_format m = ft_format (field_type c)
      \<and> im_field_tag m = ft_tag (field_type c) \<and> im_byte_reader m = byte_reader c
      \<and> unat (im_type_size m) = element_size c
      \<and> unat (im_element_count m) =
          (if state c = State_ArrayBegin \<or> state c = State_ArrayEnd then array_count (stack_top c) else 1))"
proof -
  note c = on_item_cases [OF inv]
  have t: "typed_ok d c" "element_size c < 2 ^ 8" "array_count (stack_top c) < 2 ^ 16"
    using c(2) by (auto simp: item_ok_def typed_ok_def)
  have fl: "\<not> FieldEncoding_has_chain_flag (cur_enc c)" "\<not> FieldFormat_has_chain_flag (ft_format (field_type c))"
    using t(1) field_type_at_flags by (auto simp: typed_ok_def)
  have u: "unat (word_of_nat (element_size c) :: u8) = element_size c"
    "unat (word_of_nat (array_count (stack_top c)) :: u16) = array_count (stack_top c)"
    using t by (simp_all add: unsigned_of_nat take_bit_nat_eq_self)
  let ?arr = "state c = State_ArrayBegin \<or> state c = State_ArrayEnd"
  let ?n = "if \<not> ?arr then 1 else word_of_nat (array_count (stack_top c)) :: u16"
  have "\<exists>m. PerfItemMetadata_new dbg (byte_reader c) (cur_enc c) (ft_format (field_type c)) (\<not> ?arr)
      (word_of_nat (element_size c)) ?n (ft_tag (field_type c)) = Some m"
    using fl r c(3,4) by (auto simp: PerfItemMetadata_new_def debug_assert_def reserved_encoding_def)
  then obtain m where m: "PerfItemMetadata_new dbg (byte_reader c) (cur_enc c) (ft_format (field_type c))
      (\<not> ?arr) (word_of_nat (element_size c)) ?n (ft_tag (field_type c)) = Some m"
    by blast
  show ?thesis
    using PerfItemMetadata_new_fields [OF m] m u inv(2)
    by (simp add: item_metadata_impl_def Let_def is_scalar_iff debug_assert_def)
qed

lemma item_info_post:
  assumes inv: "enum_inv d c" "on_item c" and r: "\<not> (dbg \<and> reserved_encoding c)"
  shows "wp (item_info dbg d c) (\<lambda>i.
      ii_name_bytes i = Some (take (name_len (stack_top c)) (drop (name_offset (stack_top c)) d))
      \<and> iv_bytes (ii_value i) = take (item_size_cooked c) (drop (data_pos_cooked c) d)
      \<and> item_metadata_impl dbg c = Some (iv_metadata (ii_value i)))"
proof -
  note c = on_item_cases [OF inv] and rng = item_name_in_range [OF inv]
  obtain m where m: "item_metadata_impl dbg c = Some m"
    "im_encoding m = FieldEncoding_without_flags (cur_enc c)" "unat (im_type_size m) = element_size c"
    "unat (im_element_count m) =
      (if state c = State_ArrayBegin \<or> state c = State_ArrayEnd then array_count (stack_top c) else 1)"
    using item_metadata_impl_post [OF assms] by (auto simp: wp_iff)
  let ?bs = "take (item_size_cooked c) (drop (data_pos_cooked c) d)"
  have len: "length ?bs = item_size_cooked c" using rng(3) by simp
  have ts: "im_type_size m \<noteq> 0 \<longleftrightarrow> element_size c \<noteq> 0" using m(3) by (metis unat_eq_zero)
  have "PerfItemValue_new dbg ?bs m = Some \<lparr>iv_bytes = ?bs, iv_metadata = m\<rparr>"
    using c(4,5) m len ts by (auto simp: PerfItemValue_new_def debug_assert_def)
  then show ?thesis
    using m(1) rng inv(2)
    by (simp add: item_info_def ii_name_bytes_def debug_assert_def)
qed

section \<open>Sessions\<close>

text \<open>
  The contexts a program can have, in a build without debug assertions. A context is made once and
  used for any number of events; \<open>session d c\<close> says that \<open>c\<close> enumerates the event \<open>d\<close> after any
  calls that respect the documented preconditions. An event that is refused leaves a context that
  can be used again.
\<close>

inductive context_of :: "ctx \<Rightarrow> bool"
  and session :: "bytes \<Rightarrow> ctx \<Rightarrow> bool"
where
  context_new: "context_of ctx_new"
| context_refused: "context_of c \<Longrightarrow> enumerate_with_name_and_data False name d limit c = Some (Inl e, c')
    \<Longrightarrow> context_of c'"
| context_reuse: "session d c \<Longrightarrow> context_of c"
| session_start: "context_of c \<Longrightarrow> enumerate_with_name_and_data False name d limit c = Some (Inr (), c')
    \<Longrightarrow> session d c'"
| session_next: "session d c \<Longrightarrow> can_move_next (state c) \<Longrightarrow> substate c \<noteq> Sub_ValueMetadata
    \<Longrightarrow> move_next_impl False d c = Some (b, c') \<Longrightarrow> session d c'"
| session_sibling: "session d c \<Longrightarrow> can_move_next (state c) \<Longrightarrow> substate c \<noteq> Sub_ValueMetadata
    \<Longrightarrow> move_next_sibling_impl False d c = Some (b, c') \<Longrightarrow> session d c'"
| session_metadata: "session d c \<Longrightarrow> substate c = Sub_BeforeFirstItem \<or> substate c = Sub_ValueMetadata
    \<Longrightarrow> move_next_metadata_impl False d c = Some (b, c') \<Longrightarrow> session d c'"
| session_reset: "session d c \<Longrightarrow> reset_impl False limit c = Some c' \<Longrightarrow> session d c'"

inductive_cases session_cases: "session d c"

lemma enum_inv_static: "enum_inv d c \<Longrightarrow> static_ok d c"
  by (simp add: enum_inv_def)

lemma context_session_inv:
  "context_of c \<Longrightarrow> length (stack c) = 8"
  "session d c \<Longrightarrow> enum_inv d c"
proof (induction rule: context_of_session.inducts)
  case context_new
  then show ?case by (simp add: ctx_new_def)
next
  case (context_refused c name d limit e c')
  then show ?case
    using enumerate_with_name_and_data_post [of c False name d limit] by (simp add: enumerate_post_def)
next
  case (context_reuse d c)
  then show ?case by (simp add: enum_inv_def static_ok_def)
next
  case (session_start c name d limit c')
  then show ?case
    using enumerate_with_name_and_data_post [of c False name d limit]
    by (simp add: enumerate_post_def started_def)
next
  case (session_next d c b c')
  then show ?case
    using move_next_impl_post [of d c False] by (simp add: item_inv_def move_post_def)
next
  case (session_sibling d c b c')
  then show ?case
    using move_next_sibling_impl_post [of d c] by (simp add: item_inv_def sibling_post_def move_post_def)
next
  case (session_metadata d c b c')
  then show ?case
    using move_next_metadata_impl_post [of d c False]
    by (auto simp: metadata_inv_def metadata_post_def split: if_splits)
next
  case (session_reset d c limit c')
  then show ?case
    using reset_impl_post [OF enum_inv_static, of d c False limit] by (simp add: started_def)
qed

section \<open>Properties\<close>

text \<open>
  A small event for the witnesses: the event \<open>E\<close> of the tracepoint \<open>P_L5K1\<close> with a byte \<open>a\<close> whose
  value is 42.
\<close>

definition sample_name :: bytes where
  "sample_name = [0x50, 0x5F, 0x4C, 0x35, 0x4B, 0x31]"

definition sample_event :: bytes where
  "sample_event = [6, 0, 0, 0, 0, 0, 0, 5,  5, 0, 1, 0,  0x45, 0, 0x61, 0, 2,  42]"

definition sample_ctx :: ctx where
  "sample_ctx = snd (the (enumerate_with_name_and_data False sample_name sample_event 10 ctx_new))"

lemma sample_started:
  "enumerate_with_name_and_data False sample_name sample_event 10 ctx_new = Some (Inr (), sample_ctx)"
proof -
  have "map_option fst (enumerate_with_name_and_data False sample_name sample_event 10 ctx_new)
      = Some (Inr ())"
    by code_simp
  then show ?thesis by (auto simp: sample_ctx_def)
qed

lemma sample_session: "session sample_event sample_ctx"
  by (rule session_start [OF context_new sample_started])

lemma sample_states: "state sample_ctx = State_BeforeFirstItem" "substate sample_ctx = Sub_BeforeFirstItem"
  "move_next_remaining sample_ctx = 10"
  by code_simp+

lemma item_info_safe: "enum_inv d c \<Longrightarrow> on_item c \<Longrightarrow> item_info False d c \<noteq> Panic"
  by (rule wp_not_panic [OF item_info_post]) simp_all

lemma enumerate_started:
  assumes "length (stack c0) = 8" "enumerate_with_name_and_data dbg name d limit c0 = Some (Inr (), c)"
  shows "started d limit c"
  using enumerate_with_name_and_data_post [OF assms(1), of dbg name d limit] assms(2)
  by (simp add: enumerate_post_def)

text \<open>
  C3. Memory safety of the decoder on arbitrary bytes. In every state that a program can reach by
  calls that respect their documented preconditions, whatever the bytes of the event are, no
  operation panics: no read out of range, and every loop ends. The current item always has a name
  and bytes that lie inside the event.
\<close>

theorem session_operations_safe:
  assumes "session d c"
  shows "(can_move_next (state c) \<and> substate c \<noteq> Sub_ValueMetadata \<longrightarrow>
        move_next_impl False d c \<noteq> Panic \<and> move_next_sibling_impl False d c \<noteq> Panic)
    \<and> (substate c = Sub_BeforeFirstItem \<or> substate c = Sub_ValueMetadata \<longrightarrow>
        move_next_metadata_impl False d c \<noteq> Panic)
    \<and> reset_impl False limit c \<noteq> Panic \<and> raw_data_position d c \<noteq> Panic
    \<and> (can_item_info (state c) \<longrightarrow> (\<exists>i bs. item_info False d c = Some i \<and> ii_name_bytes i = Some bs
        \<and> iv_bytes (ii_value i) = take (item_size_cooked c) (drop (data_pos_cooked c) d)
        \<and> data_pos_cooked c + item_size_cooked c \<le> length d))"
proof (intro conjI impI)
  note inv = context_session_inv(2) [OF assms]
  show "move_next_metadata_impl False d c \<noteq> Panic"
    if "substate c = Sub_BeforeFirstItem \<or> substate c = Sub_ValueMetadata"
    by (rule wp_not_panic [OF move_next_metadata_impl_post]) (use inv that in \<open>simp add: metadata_inv_def\<close>)
  show "reset_impl False limit c \<noteq> Panic"
    by (rule wp_not_panic [OF reset_impl_post [OF enum_inv_static [OF inv]]])
  show "raw_data_position d c \<noteq> Panic"
    using enum_inv_data_pos [OF inv] by (simp add: raw_data_position_def)
  show "\<exists>i bs. item_info False d c = Some i \<and> ii_name_bytes i = Some bs
        \<and> iv_bytes (ii_value i) = take (item_size_cooked c) (drop (data_pos_cooked c) d)
        \<and> data_pos_cooked c + item_size_cooked c \<le> length d" if "can_item_info (state c)"
    using item_info_post [OF inv that, of False] item_name_in_range(3) [OF inv that] by (auto simp: wp_iff)
  assume "can_move_next (state c) \<and> substate c \<noteq> Sub_ValueMetadata"
  with inv have i: "item_inv d c" by (simp add: item_inv_def)
  show "move_next_impl False d c \<noteq> Panic" by (rule wp_not_panic [OF move_next_impl_post [OF i]]) simp
  show "move_next_sibling_impl False d c \<noteq> Panic"
    by (rule wp_not_panic [OF move_next_sibling_impl_post [OF i]])
qed

theorem session_operations_safe_witness:
  "move_next_impl False sample_event sample_ctx \<noteq> Panic"
  using session_operations_safe [OF sample_session] by (simp add: sample_states)



text \<open>
  C30. The loop \<open>while e.move_next()\<close> ends: it visits at most as many items as the limit allows, each
  of them can be read, and the enumerator is then after the last item or in the error state.
\<close>

theorem move_next_loop_ends:
  assumes "length (stack c0) = 8"
    and "enumerate_with_name_and_data dbg name d limit c0 = Some (Inr (), c)"
  shows "\<exists>items last. drain (move_next_impl False d) (Suc limit) c = Some (items, last)
    \<and> length items \<le> limit \<and> (\<forall>x \<in> set items. can_item_info (state x) \<and> item_info False d x \<noteq> Panic)
    \<and> (state last = State_AfterLastItem \<or> state last = State_Error)"
proof -
  have st: "started d limit c" by (rule enumerate_started [OF assms])
  have "wp (drain (move_next_impl False d) (Suc limit) c) (\<lambda>(items, last).
      (\<forall>x \<in> set items. item_inv d x \<and> on_item x) \<and> stopped last \<and> length items \<le> move_next_remaining c)"
    by (rule move_next.drain_total [OF started_item_inv [OF st]]) (use st in \<open>simp add: started_def\<close>)
  moreover have "item_info False d x \<noteq> Panic" if "item_inv d x" "on_item x" for x
    by (rule item_info_safe) (use that in \<open>simp_all add: item_inv_def\<close>)
  ultimately show ?thesis using st by (auto simp: wp_iff started_def)
qed

theorem move_next_loop_ends_witness:
  "\<exists>items last. drain (move_next_impl False sample_event) 11 sample_ctx = Some (items, last)
    \<and> length items \<le> 10"
  using move_next_loop_ends [OF _ sample_started] by (auto simp: ctx_new_def)

text \<open>
  The same for the loop \<open>while e.move_next_sibling()\<close>, which skips the contents of structs and
  arrays.
\<close>

theorem move_next_sibling_loop_ends:
  assumes "length (stack c0) = 8"
    and "enumerate_with_name_and_data dbg name d limit c0 = Some (Inr (), c)"
  shows "\<exists>items last. drain (move_next_sibling_impl False d) (Suc limit) c = Some (items, last)
    \<and> length items \<le> limit \<and> (\<forall>x \<in> set items. can_item_info (state x) \<and> item_info False d x \<noteq> Panic)
    \<and> (state last = State_AfterLastItem \<or> state last = State_Error)"
proof -
  have st: "started d limit c" by (rule enumerate_started [OF assms])
  have "wp (drain (move_next_sibling_impl False d) (Suc limit) c) (\<lambda>(items, last).
      (\<forall>x \<in> set items. item_inv d x \<and> on_item x) \<and> stopped last \<and> length items \<le> move_next_remaining c)"
    by (rule move_next_sibling.drain_total [OF started_item_inv [OF st]]) (use st in \<open>simp add: started_def\<close>)
  moreover have "item_info False d x \<noteq> Panic" if "item_inv d x" "on_item x" for x
    by (rule item_info_safe) (use that in \<open>simp_all add: item_inv_def\<close>)
  ultimately show ?thesis using st by (auto simp: wp_iff started_def)
qed

theorem move_next_sibling_loop_ends_witness:
  "\<exists>items last. drain (move_next_sibling_impl False sample_event) 11 sample_ctx = Some (items, last)
    \<and> length items \<le> 10"
  using move_next_sibling_loop_ends [OF _ sample_started] by (auto simp: ctx_new_def)

text \<open>
  The loop \<open>while e.move_next_metadata()\<close> ends in both builds without a limit of its own: every
  call uses up metadata, so there are fewer fields than metadata bytes.
\<close>

theorem move_next_metadata_loop_ends:
  assumes "length (stack c0) = 8"
    and "enumerate_with_name_and_data dbg name d limit c0 = Some (Inr (), c)"
  shows "\<exists>items last. drain (move_next_metadata_impl dbg d) (Suc (length d)) c = Some (items, last)
    \<and> length items < meta_end c - meta_start c
    \<and> (\<forall>x \<in> set items. can_item_info (state x) \<and> item_info False d x \<noteq> Panic)
    \<and> (state last = State_AfterLastItem \<or> state last = State_Error)"
proof -
  have st: "started d limit c" by (rule enumerate_started [OF assms])
  then have b: "base_ok d c" "meta_end c \<le> length d" "meta_start c < meta_end c" 
    by (auto simp: started_def enum_inv_def static_ok_def)
  have no: "meta_start c < next_offset (stack_top c)"
    using st by (simp add: started_def)
  have "wp (drain (move_next_metadata_impl dbg d) (Suc (length d)) c) (\<lambda>(items, last).
      (\<forall>x \<in> set items. metadata_inv d x \<and> on_item x) \<and> stopped last \<and> length items \<le> metadata_left c)"
    by (rule move_next_metadata.drain_total [OF started_metadata_inv [OF st]]) (use b in simp)
  moreover have "item_info False d x \<noteq> Panic" if "metadata_inv d x" "on_item x" for x
    by (rule item_info_safe) (use that in \<open>simp_all add: metadata_inv_def\<close>)
  moreover have "metadata_left c < meta_end c - meta_start c" using no b by linarith
  ultimately show ?thesis by (fastforce simp: wp_iff)
qed

theorem move_next_metadata_loop_ends_witness:
  "\<exists>items last. drain (move_next_metadata_impl False sample_event) (Suc (length sample_event)) sample_ctx
      = Some (items, last) \<and> length items < meta_end sample_ctx - meta_start sample_ctx"
  using move_next_metadata_loop_ends [OF _ sample_started] by (auto simp: ctx_new_def)

end
