(* ===== verification/Wire_Format.thy ===== *)
theory Wire_Format
  imports Enumerator_Run
begin

unbundle bit_operations_syntax

text \<open>
  The format of an EventHeader event as an abstract specification, and the functional correctness of
  the decoder with respect to it. \<open>field\<close> is a field of an event; \<open>meta_bytes\<close> and \<open>data_bytes\<close> are
  its metadata and its payload, and \<open>items_of\<close> is the sequence of items a reader of the event is to
  see. \<open>fields_decode\<close> says that the enumerator, started on bytes laid out this way, visits exactly
  these items.
\<close>

section \<open>The format\<close>

text \<open>How an element of an encoding is stored, and where its value starts in what is stored.\<close>

definition zstring_size :: "FieldEncoding \<Rightarrow> nat option" where
  "zstring_size e =
     (if e = FieldEncoding_ZStringChar8 then Some 1
      else if e = FieldEncoding_ZStringChar16 then Some 2
      else if e = FieldEncoding_ZStringChar32 then Some 4
      else None)"

definition counted_shift :: "FieldEncoding \<Rightarrow> nat option" where
  "counted_shift e =
     (if e = FieldEncoding_StringLength16Char8 \<or> e = FieldEncoding_BinaryLength16Char8 then Some 0
      else if e = FieldEncoding_StringLength16Char16 then Some 1
      else if e = FieldEncoding_StringLength16Char32 then Some 2
      else None)"

definition elem_raw :: "bool \<Rightarrow> FieldEncoding \<Rightarrow> bytes \<Rightarrow> bytes" where
  "elem_raw be e v =
     (case counted_shift e of
        Some sh \<Rightarrow> to_ne_bytes be 2 (length v div 2 ^ sh) @ v
      | None \<Rightarrow> (case zstring_size e of Some n \<Rightarrow> v @ replicate n 0 | None \<Rightarrow> v))"

definition elem_offset :: "FieldEncoding \<Rightarrow> nat" where
  "elem_offset e = (case counted_shift e of Some _ \<Rightarrow> 2 | None \<Rightarrow> 0)"

definition elem_ok :: "FieldEncoding \<Rightarrow> bytes \<Rightarrow> bool" where
  "elem_ok e v \<longleftrightarrow>
     (case fixed_element_size e of
        Some sz \<Rightarrow> length v = sz
      | None \<Rightarrow>
          (case counted_shift e of
             Some sh \<Rightarrow> \<exists>n < 65536. length v = n * 2 ^ sh
           | None \<Rightarrow>
               (case zstring_size e of
                  Some sz \<Rightarrow> \<exists>vs. v = concat vs \<and> (\<forall>x \<in> set vs. length x = sz \<and> (\<exists>b \<in> set x. b \<noteq> 0))
                | None \<Rightarrow> False)))"

datatype field =
    Scalar bytes FieldEncoding FieldFormat u16 bytes
  | Array bytes FieldEncoding FieldFormat u16 "bytes list"
  | Struct bytes u16 "field list"

definition type_bytes :: "bool \<Rightarrow> u8 \<Rightarrow> u8 \<Rightarrow> u16 \<Rightarrow> bytes" where
  "type_bytes be e fmt tag =
     (if tag \<noteq> 0 then [0x80 OR e, 0x80 OR fmt] @ to_ne_bytes be 2 (unat tag)
      else if fmt \<noteq> 0 then [0x80 OR e, fmt]
      else [e])"

fun meta_bytes :: "bool \<Rightarrow> field \<Rightarrow> bytes" where
  "meta_bytes be (Scalar name e fmt tag v) = name @ [0] @ type_bytes be e fmt tag"
| "meta_bytes be (Array name e fmt tag vs) = name @ [0] @ type_bytes be (e OR FieldEncoding_VArrayFlag) fmt tag"
| "meta_bytes be (Struct name tag fs) =
     name @ [0] @ type_bytes be FieldEncoding_Struct (word_of_nat (length fs)) tag
     @ concat (map (meta_bytes be) fs)"

fun data_bytes :: "bool \<Rightarrow> field \<Rightarrow> bytes" where
  "data_bytes be (Scalar name e fmt tag v) = elem_raw be e v"
| "data_bytes be (Array name e fmt tag vs) =
     to_ne_bytes be 2 (length vs) @ concat (map (elem_raw be e) vs)"
| "data_bytes be (Struct name tag fs) = concat (map (data_bytes be) fs)"

text \<open>
  A field that a reader can be expected to understand: names without NUL, formats without the chain
  flag, values that fit their encoding, structs of 1 to 127 fields.
\<close>

fun field_ok :: "field \<Rightarrow> bool" where
  "field_ok (Scalar name e fmt tag v) = (0 \<notin> set name \<and> fmt < 128 \<and> elem_ok e v)"
| "field_ok (Array name e fmt tag vs) =
     (0 \<notin> set name \<and> fmt < 128 \<and> length vs < 65536 \<and> (\<forall>v \<in> set vs. elem_ok e v)
      \<and> (fixed_element_size e \<noteq> None \<or> is_complex_value e))"
| "field_ok (Struct name tag fs) =
     (0 \<notin> set name \<and> fs \<noteq> [] \<and> length fs < 128 \<and> (\<forall>f \<in> set fs. field_ok f))"

fun depth :: "field \<Rightarrow> nat" where
  "depth (Scalar name e fmt tag v) = 0"
| "depth (Array name e fmt tag vs) = 0"
| "depth (Struct name tag fs) = Suc (fold max (map depth fs) 0)"

text \<open>
  An item as its reader sees it: the state, the field's name, encoding, format and tag, the number
  of elements, and the bytes of the value.
\<close>

type_synonym item = "EventHeaderEnumeratorState \<times> bytes \<times> FieldEncoding \<times> FieldFormat \<times> u16 \<times> nat \<times> bytes"

fun items_of :: "field \<Rightarrow> item list" where
  "items_of (Scalar name e fmt tag v) = [(State_Value, name, e, fmt, tag, 1, v)]"
| "items_of (Array name e fmt tag vs) =
     [(State_ArrayBegin, name, e, fmt, tag, length vs,
       if fixed_element_size e \<noteq> None then concat vs else [])]
     @ map (\<lambda>v. (State_Value, name, e, fmt, tag, 1, v)) vs
     @ [(State_ArrayEnd, name, e, fmt, tag, length vs, [])]"
| "items_of (Struct name tag fs) =
     [(State_StructBegin, name, FieldEncoding_Struct, word_of_nat (length fs), tag, 1, [])]
     @ concat (map items_of fs)
     @ [(State_StructEnd, name, FieldEncoding_Struct, word_of_nat (length fs), tag, 1, [])]"

definition view :: "bytes \<Rightarrow> ctx \<Rightarrow> item" where
  "view d c =
     (state c, take (name_len (stack_top c)) (drop (name_offset (stack_top c)) d),
      FieldEncoding_without_flags (cur_enc c), ft_format (field_type c), ft_tag (field_type c),
      if state c = State_ArrayBegin \<or> state c = State_ArrayEnd then array_count (stack_top c) else 1,
      take (item_size_cooked c) (drop (data_pos_cooked c) d))"

section \<open>Bytes at a position\<close>

definition at :: "bytes \<Rightarrow> nat \<Rightarrow> bytes \<Rightarrow> bool" where
  "at d p xs \<longleftrightarrow> p + length xs \<le> length d \<and> take (length xs) (drop p d) = xs"

lemma at_append: "at d p (xs @ ys) \<longleftrightarrow> at d p xs \<and> at d (p + length xs) ys"
proof
  assume a: "at d p (xs @ ys)"
  then have "take (length xs + length ys) (drop p d) = xs @ ys" by (simp add: at_def)
  then have "take (length xs) (drop p d) = xs" "take (length ys) (drop (length xs) (drop p d)) = ys"
    by (metis append_eq_conv_conj min.absorb1 le_add1 take_take)
      (metis \<open>take (length xs + length ys) (drop p d) = xs @ ys\<close> append_eq_conv_conj add_diff_cancel_left' take_drop drop_take)
  with a show "at d p xs \<and> at d (p + length xs) ys" by (simp add: at_def add.commute)
next
  assume "at d p xs \<and> at d (p + length xs) ys"
  then show "at d p (xs @ ys)"
    by (simp add: at_def take_add add.commute)
qed

lemma at_Nil [simp]: "at d p [] \<longleftrightarrow> p \<le> length d"
  by (simp add: at_def)

lemma at_Cons: "at d p (x # xs) \<longleftrightarrow> p < length d \<and> d ! p = x \<and> at d (Suc p) xs"
proof -
  have "at d p [x] \<longleftrightarrow> p < length d \<and> d ! p = x"
    by (auto simp: at_def take_Suc_conv_app_nth hd_drop_conv_nth take_Suc)
  then show ?thesis using at_append [of d p "[x]" xs] by simp
qed

lemma at_length: "at d p xs \<Longrightarrow> p + length xs \<le> length d"
  by (simp add: at_def)

lemma at_take: "at d p xs \<Longrightarrow> take (length xs) (drop p d) = xs"
  by (simp add: at_def)

lemma at_nth: "at d p xs \<Longrightarrow> i < length xs \<Longrightarrow> d ! (p + i) = xs ! i"
  by (metis at_def add_leD1 nth_drop nth_take)

section \<open>Names and types\<close>

lemma u8_less_128: "(e :: u8) < 128 \<longleftrightarrow> \<not> bit e 7"
proof -
  have "unat e < 256" using unsigned_less [of e] by simp
  then have "unat e div 128 \<in> {0, 1}" by auto
  moreover have "unat e < 128 \<longleftrightarrow> unat e div 128 = 0" by auto
  ultimately have "unat e < 128 \<longleftrightarrow> even (unat e div 128)" by auto
  moreover have "bit (unat e) 7 \<longleftrightarrow> bit e 7" by (simp add: bit_unsigned_iff)
  moreover have "bit (unat e) 7 \<longleftrightarrow> odd (unat e div 128)" by (simp add: bit_iff_odd)
  ultimately show ?thesis unfolding word_less_nat_alt by auto
qed

lemma chain_flag_facts:
  "(e :: u8) < 128 \<Longrightarrow> \<not> FieldEncoding_has_chain_flag e"
  "e < 128 \<Longrightarrow> FieldEncoding_without_chain_flag e = e"
  "FieldEncoding_has_chain_flag (0x80 OR e)"
  "e < 128 \<Longrightarrow> FieldEncoding_without_chain_flag (0x80 OR e) = e"
  "e < 128 \<Longrightarrow> \<not> FieldFormat_has_chain_flag e"
  "e < 128 \<Longrightarrow> FieldFormat_without_flags e = e"
  "FieldFormat_has_chain_flag (0x80 OR e)"
  "e < 128 \<Longrightarrow> FieldFormat_without_flags (0x80 OR e) = e"
  by (auto simp: u8_less_128 field_encoding_defs enum_consts u8_eq_iff bit_simps)

lemma length_type_bytes:
  "length (type_bytes be e fmt tag) = (if tag \<noteq> 0 then 4 else if fmt \<noteq> 0 then 2 else 1)"
  by (simp add: type_bytes_def)

lemma from_bytes_at_u16:
  "at d p (to_ne_bytes be 2 (unat (tag :: u16))) \<Longrightarrow> word_of_nat (from_bytes be (take 2 (drop p d))) = tag"
proof -
  assume "at d p (to_ne_bytes be 2 (unat tag))"
  then have t: "take 2 (drop p d) = to_ne_bytes be 2 (unat tag)"
    using at_take [of d p "to_ne_bytes be 2 (unat tag)"] by simp
  have "unat tag < 65536" using unsigned_less [of tag] by simp
  with t show ?thesis by (simp add: from_bytes_to_ne_bytes)
qed

lemma field_type_at_type_bytes:
  assumes a: "at d p (type_bytes be e fmt tag)" and e: "e < 128" "fmt < 128"
    and me: "p + length (type_bytes be e fmt tag) \<le> me" and r: "source_big_endian r = be"
  shows "field_type_at me r d p =
    (\<lparr>ft_encoding = e, ft_format = fmt, ft_tag = tag\<rparr>, p + length (type_bytes be e fmt tag))"
proof (cases "tag = 0")
  case True
  with a e me show ?thesis
    by (cases "fmt = 0")
      (auto simp: type_bytes_def at_Cons field_type_at_def Let_def chain_flag_facts enum_consts)
next
  case False
  then have a': "at d p [0x80 OR e, 0x80 OR fmt]" "at d (p + 2) (to_ne_bytes be 2 (unat tag))"
    using a at_append [of d p "[0x80 OR e, 0x80 OR fmt]" "to_ne_bytes be 2 (unat tag)"]
    by (simp_all add: type_bytes_def)
  then have d: "d ! p = 0x80 OR e" "d ! (p + 1) = 0x80 OR fmt" by (simp_all add: at_Cons)
  have me4: "me \<noteq> p + 1" "\<not> me - (p + 2) < 2" using False me by (simp_all add: length_type_bytes)
  have len: "length (type_bytes be e fmt tag) = 4" using False by (simp add: length_type_bytes)
  show ?thesis
    unfolding field_type_at_def Let_def d len r from_bytes_at_u16 [OF a'(2)]
    by (simp only: me4 chain_flag_facts e simp_thms if_True if_False)
qed

lemma scan_name_end_at:
  assumes "at d p (name @ [0])" "0 \<notin> set name" "p + length name < m" "m \<le> length d"
  shows "scan_name_end d m p = Some (p + length name)"
proof -
  from scan_name_end_spec [of p m d] assms(3,4) obtain e where
    e: "scan_name_end d m p = Some e" "p \<le> e" "e \<le> m" "e < m \<longrightarrow> d ! e = 0"
      "\<forall>i. p \<le> i \<and> i < e \<longrightarrow> d ! i \<noteq> 0"
    by auto
  have z: "d ! (p + length name) = 0" using at_nth [OF assms(1), of "length name"] by simp
  have "\<not> e < p + length name"
  proof
    assume lt: "e < p + length name"
    then have "e < m" using assms(3) by simp
    with e have "d ! e = 0" by simp
    moreover have "d ! (p + (e - p)) = (name @ [0]) ! (e - p)"
      by (rule at_nth [OF assms(1)]) (use lt in simp)
    moreover have i: "e - p < length name" using lt e(2) by linarith
    ultimately have "name ! (e - p) = 0" using e(2) by (simp add: nth_append)
    with i show False using assms(2) by (metis nth_mem)
  qed
  moreover have "\<not> p + length name < e" using z e(5) by auto
  ultimately have "e = p + length name" by simp
  with e(1) show ?thesis by simp
qed

lemma read_field_at:
  assumes b: "static_ok d c" and off: "name_offset (stack_top c) = off" "meta_start c \<le> off"
    and a: "at d off (name @ [0] @ type_bytes be e fmt tag)"
    and me: "off + length name + 1 + length (type_bytes be e fmt tag) \<le> meta_end c"
    and e: "0 \<notin> set name" "e < 128" "fmt < 128" and r: "source_big_endian (byte_reader c) = be"
  shows "read_field_name_and_type False d c =
    Some (\<lparr>ft_encoding = e, ft_format = fmt, ft_tag = tag\<rparr>,
      upd_top (\<lambda>x. x\<lparr>name_len := length name,
        next_offset := off + length name + 1 + length (type_bytes be e fmt tag)\<rparr>) c)"
proof -
  have st: "meta_end c \<le> length d" "length d < 2 ^ 31" "meta_end c < meta_start c + 2 ^ 16"
    using b by (simp_all add: static_ok_def)
  have tl: "0 < length (type_bytes be e fmt tag)" by (simp add: length_type_bytes)
  have an: "at d off (name @ [0])" "at d (off + length name + 1) (type_bytes be e fmt tag)"
    using a by (simp_all add: at_append at_Cons)
  have sc: "scan_name_end d (meta_end c) off = Some (off + length name)"
    by (rule scan_name_end_at [OF an(1) e(1)]) (use me tl st in simp_all)
  have n: "ucast_to 16 (length name) = length name" using me tl st off by simp
  note ft = field_type_at_type_bytes [OF an(2) e(2,3) me r]
  have l2: "\<not> meta_end c - (off + length name) < 2" using me tl by linarith
  show ?thesis
    using sc n ft l2 me tl st off
    by (simp add: read_field_name_and_type_def debug_assert_def read_field_type_eq comp_def add.assoc)
qed

section \<open>Values\<close>

lemma encoding_classes:
  "fixed_element_size e = Some sz \<Longrightarrow> counted_shift e = None \<and> zstring_size e = None"
  "counted_shift e = Some sh \<Longrightarrow> fixed_element_size e = None \<and> zstring_size e = None \<and> sh \<le> 2"
  "zstring_size e = Some n \<Longrightarrow> fixed_element_size e = None \<and> counted_shift e = None \<and> 0 < n"
  by (auto simp: fixed_element_size_def counted_shift_def zstring_size_def enum_consts split: if_splits)

lemma complex_classes:
  "is_complex_value e \<longleftrightarrow> counted_shift e \<noteq> None \<or> zstring_size e \<noteq> None"
  by (auto simp: is_complex_value_def counted_shift_def zstring_size_def)

lemma find_zero_at:
  assumes "at d pos (concat vs @ replicate esz 0)" "\<forall>x \<in> set vs. length x = esz \<and> (\<exists>b \<in> set x. b \<noteq> 0)"
    and "0 < esz" "end_pos + esz = length d + 1"
  shows "find_zero_element esz d end_pos pos = Some (Some (pos + length (concat vs)))"
  using assms
proof (induction vs arbitrary: pos)
  case Nil
  then have z: "take esz (drop pos d) = replicate esz 0" "pos + esz \<le> length d"
    by (simp_all add: at_def)
  have "pos < end_pos" using z(2) Nil.prems(3,4) by linarith
  with z Nil.prems(3) show ?case by (subst find_zero_element.simps) (simp add: slice_def)
next
  case (Cons x vs)
  then have x: "length x = esz" "\<exists>b \<in> set x. b \<noteq> 0" by simp_all
  from Cons.prems(1) x have a: "at d pos x" "at d (pos + esz) (concat vs @ replicate esz 0)"
    using at_append [of d pos x "concat vs @ replicate esz 0"] by simp_all
  have l: "pos + esz \<le> length d" using at_length [OF a(1)] x(1) by simp
  have w: "take esz (drop pos d) = x" using at_take [OF a(1)] x(1) by simp
  have "pos < end_pos" using l Cons.prems(3,4) by linarith
  with l w x Cons.prems(3)
  have "find_zero_element esz d end_pos pos = find_zero_element esz d end_pos (pos + esz)"
    by (subst find_zero_element.simps) (auto simp: slice_def)
  also have "\<dots> = Some (Some (pos + esz + length (concat vs)))"
    by (rule Cons.IH) (use a Cons.prems in simp_all)
  finally show ?case using x(1) by simp
qed

definition elem_size :: "FieldEncoding \<Rightarrow> nat" where
  "elem_size e = (case fixed_element_size e of Some sz \<Rightarrow> sz | None \<Rightarrow> 0)"

lemma start_value_at:
  assumes st: "static_ok d c" and e: "e = FieldEncoding_without_flags (cur_enc c)"
    and ok: "elem_ok e v" and a: "at d (data_pos_raw c) (elem_raw be e v)"
    and r: "source_big_endian (byte_reader c) = be"
  shows "start_value False d c =
    Some (True, c\<lparr>data_pos_cooked := data_pos_raw c + elem_offset e, element_size := elem_size e,
      item_size_raw := length (elem_raw be e v), item_size_cooked := length v\<rparr>)"
proof -
  have len: "ucast_to 32 (length d) = length d" "length d < 2 ^ 31" using static_ok_lengths [OF st] by simp_all
  have l: "data_pos_raw c + length (elem_raw be e v) \<le> length d" by (rule at_length [OF a])
  consider (fixed) sz where "fixed_element_size e = Some sz" | (counted) sh where "counted_shift e = Some sh"
    | (zstr) n where "zstring_size e = Some n"
    using ok by (auto simp: elem_ok_def split: option.splits)
  then show ?thesis
  proof cases
    case fixed
    with ok l len encoding_classes(1) [OF fixed] show ?thesis
      by (auto simp: start_value_def e [symmetric] start_value_fixed_length_def elem_ok_def elem_raw_def
          elem_offset_def elem_size_def debug_assert_def Let_def)
  next
    case counted
    note cl = encoding_classes(2) [OF counted]
    with ok counted obtain n where n: "n < 65536" "length v = n * 2 ^ sh" by (auto simp: elem_ok_def)
    then have nn: "length v div 2 ^ sh = n" by simp
    have raw: "elem_raw be e v = to_ne_bytes be 2 n @ v" using counted nn by (simp add: elem_raw_def)
    from a raw have "at d (data_pos_raw c) (to_ne_bytes be 2 n)" by (simp add: at_append)
    then have rd: "from_bytes be (take 2 (drop (data_pos_raw c) d)) = n"
      using at_take [of d "data_pos_raw c" "to_ne_bytes be 2 n"] n(1) by (simp add: from_bytes_to_ne_bytes)
    have u: "unat (word_of_nat n :: u16) = n" using n(1) by (simp add: unsigned_of_nat take_bit_nat_eq_self)
    have cx: "is_complex_value e" using counted by (simp add: complex_classes)
    have l2: "data_pos_raw c + 2 + n * 2 ^ sh \<le> length d" using l raw n(2) by simp
    have str: "start_value_string False d sh c' =
        Some (c'\<lparr>data_pos_cooked := data_pos_raw c + 2, item_size_cooked := n * 2 ^ sh,
                item_size_raw := n * 2 ^ sh + 2\<rparr>)"
      if "data_pos_raw c' = data_pos_raw c" "byte_reader c' = byte_reader c" for c'
      using that len l2 rd u r by (simp add: start_value_string_def debug_assert_def Let_def)
    show ?thesis
      using str [of "c\<lparr>data_pos_cooked := data_pos_raw c, element_size := 0\<rparr>"] counted cl cx len l2 n(2) raw
      by (auto simp: start_value_def e [symmetric] elem_offset_def elem_size_def debug_assert_def
          counted_shift_def Let_def enum_consts split: if_splits)
  next
    case zstr
    note cl = encoding_classes(3) [OF zstr]
    with ok zstr obtain vs where vs: "v = concat vs" "\<forall>x \<in> set vs. length x = n \<and> (\<exists>b \<in> set x. b \<noteq> 0)"
      by (auto simp: elem_ok_def)
    have raw: "elem_raw be e v = v @ replicate n 0" using zstr cl by (simp add: elem_raw_def)
    have cx: "is_complex_value e" using zstr by (simp add: complex_classes)
    have l2: "data_pos_raw c + length v + n \<le> length d" using l raw by simp
    have fz: "find_zero_element n d (length d - n + 1) (data_pos_raw c) = Some (Some (data_pos_raw c + length v))"
      unfolding vs(1) by (rule find_zero_at) (use a raw vs cl l2 in auto)
    have str: "start_value_zstring False n d c' =
        Some (c'\<lparr>item_size_cooked := length v, item_size_raw := length v + n\<rparr>)"
      if "data_pos_raw c' = data_pos_raw c" for c'
      using that len l2 fz by (simp add: start_value_zstring_def)
    show ?thesis
      using str [of "c\<lparr>data_pos_cooked := data_pos_raw c, element_size := 0\<rparr>"] zstr cl cx len l2 raw
      by (auto simp: start_value_def e [symmetric] elem_offset_def elem_size_def debug_assert_def
          zstring_size_def Let_def enum_consts split: if_splits)
  qed
qed

section \<open>Runs\<close>

text \<open>
  Every move ends in a call of \<open>next_property\<close> or stays inside an array. \<open>run d n c\<close> is what a loop of
  \<open>move_next\<close> calls sees when it is about to call \<open>next_property\<close> on \<open>c\<close>, and \<open>leads d c xs c'\<close> says
  that such a loop sees the items \<open>xs\<close> and is then about to call \<open>next_property\<close> on \<open>c'\<close>.
\<close>

abbreviation visit :: "bytes \<Rightarrow> nat \<Rightarrow> ctx \<Rightarrow> (ctx list \<times> ctx) option" where
  "visit d \<equiv> drain (move_next_impl False d)"

definition run :: "bytes \<Rightarrow> nat \<Rightarrow> ctx \<Rightarrow> (ctx list \<times> ctx) option" where
  "run d n c = do {
     (moved, s) \<leftarrow> next_property False d c;
     (if moved then do {
        (items, last) \<leftarrow> visit d n s;
        Some (s # items, last)
      } else Some ([], s))
   }"

definition prepend :: "'a list \<Rightarrow> ('a list \<times> 'b) option \<Rightarrow> ('a list \<times> 'b) option" where
  "prepend xs r = map_option (\<lambda>(ys, z). (xs @ ys, z)) r"

lemma prepend_simps [simp]:
  "prepend [] r = r" "prepend xs (prepend ys r) = prepend (xs @ ys) r"
  "prepend xs None = None" "prepend xs (Some (ys, z)) = Some (xs @ ys, z)"
  by (cases r; force simp: prepend_def)+

lemma visit_run: "move_next_impl False d s = next_property False d c \<Longrightarrow> visit d (Suc n) s = run d n c"
  by (simp add: run_def)

definition leads :: "bytes \<Rightarrow> ctx \<Rightarrow> item list \<Rightarrow> ctx \<Rightarrow> bool" where
  "leads d c xs c' \<longleftrightarrow>
     (\<exists>ss. map (view d) ss = xs \<and> (\<forall>n. run d (length ss + n) c = prepend ss (run d n c')))"

lemma leads_refl: "leads d c [] c"
  unfolding leads_def by (rule exI [of _ "[]"]) simp

lemma leads_trans:
  assumes "leads d c xs c'" "leads d c' ys c''"
  shows "leads d c (xs @ ys) c''"
proof -
  from assms obtain ss tt where ss: "map (view d) ss = xs" "\<And>n. run d (length ss + n) c = prepend ss (run d n c')"
    and tt: "map (view d) tt = ys" "\<And>n. run d (length tt + n) c' = prepend tt (run d n c'')"
    unfolding leads_def by blast
  have "run d (length (ss @ tt) + n) c = prepend (ss @ tt) (run d n c'')" for n
    using ss(2) [of "length tt + n"] tt(2) [of n] by (simp add: add.assoc)
  with ss(1) tt(1) show ?thesis unfolding leads_def by (intro exI [of _ "ss @ tt"]) simp
qed

text \<open>Moves that stay inside a field.\<close>

inductive chain :: "bytes \<Rightarrow> ctx \<Rightarrow> ctx list \<Rightarrow> ctx \<Rightarrow> bool" for d where
  chain_last: "move_next_impl False d s = next_property False d c' \<Longrightarrow> chain d s [s] c'"
| chain_more: "move_next_impl False d s = Some (True, s') \<Longrightarrow> chain d s' ss c' \<Longrightarrow> chain d s (s # ss) c'"

inductive_cases chain_emptyE: "chain d s [] c'"

lemma chain_visit:
  assumes "chain d s ss c'"
  shows "prepend [s] (visit d (length ss + n) s) = prepend ss (run d n c')"
  using assms
proof (induction)
  case (chain_last s c')
  then show ?case by (simp add: run_def)
next
  case (chain_more s s' ss c')
  have "visit d (length (s # ss) + n) s = prepend [s'] (visit d (length ss + n) s')"
    using chain_more.hyps(1) by (auto simp: prepend_def split: option.split bind_splits)
  with chain_more.IH show ?case by simp
qed

lemma leads_chain:
  assumes "next_property False d c = Some (True, s)" "chain d s ss c'"
  shows "leads d c (map (view d) ss) c'"
proof -
  have "run d (length ss + n) c = prepend [s] (visit d (length ss + n) s)" for n
    using assms(1) by (auto simp: run_def prepend_def split: option.split bind_splits)
  with chain_visit [OF assms(2)] show ?thesis
    unfolding leads_def by (intro exI [of _ ss]) simp
qed

lemma leads_single:
  assumes "next_property False d c = Some (True, s)" "move_next_impl False d s = next_property False d c'"
  shows "leads d c [view d s] c'"
  using leads_chain [OF assms(1) chain_last [OF assms(2)]] by simp

section \<open>Encodings of values\<close>

definition value_encoding :: "FieldEncoding \<Rightarrow> bool" where
  "value_encoding e \<longleftrightarrow> fixed_element_size e \<noteq> None \<or> is_complex_value e"

lemma elem_ok_value_encoding: "elem_ok e v \<Longrightarrow> value_encoding e"
  by (auto simp: elem_ok_def value_encoding_def complex_classes split: option.splits)

lemma value_encoding_facts:
  assumes "value_encoding e"
  shows "e < 128" "FieldEncoding_without_flags e = e" "\<not> FieldEncoding_is_array e"
    "e \<noteq> FieldEncoding_Struct" "e \<noteq> READ_FIELD_ERROR" "e \<noteq> FieldEncoding_Invalid"
    "e OR FieldEncoding_VArrayFlag < 128" "FieldEncoding_without_flags (e OR FieldEncoding_VArrayFlag) = e"
    "FieldEncoding_is_array (e OR FieldEncoding_VArrayFlag)"
    "FieldEncoding_is_variable_length_array (e OR FieldEncoding_VArrayFlag)"
    "e OR FieldEncoding_VArrayFlag \<noteq> READ_FIELD_ERROR"
  using assms
  by (auto simp: value_encoding_def fixed_element_size_def is_complex_value_def enum_consts field_encoding_defs
      split: if_splits)

lemma elem_value_at:
  assumes "at d p (elem_raw be e v)"
  shows "take (length v) (drop (p + elem_offset e) d) = v"
proof -
  have "at d (p + elem_offset e) v"
    using assms by (auto simp: elem_raw_def elem_offset_def at_append split: option.splits)
  then show ?thesis by (rule at_take)
qed

lemma read_u16_at:
  assumes "at d p (to_ne_bytes be 2 n)" "n < 65536" "source_big_endian r = be"
  shows "slice_from d p = Some (drop p d)" "read_u16 r (drop p d) = Some (word_of_nat n)"
proof -
  have l: "p + 2 \<le> length d" using at_length [OF assms(1)] by simp
  then show "slice_from d p = Some (drop p d)" by simp
  from l assms(2,3) show "read_u16 r (drop p d) = Some (word_of_nat n)"
    using at_take [OF assms(1)] by (simp add: from_bytes_to_ne_bytes)
qed

section \<open>Elements of an array\<close>

text \<open>\<open>inner s s'\<close>: \<open>s'\<close> is at another element of the field that \<open>s\<close> is at.\<close>

definition inner :: "ctx \<Rightarrow> ctx \<Rightarrow> bool" where
  "inner s s' \<longleftrightarrow>
     static_part s' = static_part s \<and> stack s' = stack s \<and> stack_index s' = stack_index s
     \<and> field_type s' = field_type s
     \<and> stack_top s' = (stack_top s)\<lparr>array_index := array_index (stack_top s')\<rparr>"

lemma inner_trans: "inner a b \<Longrightarrow> inner b c \<Longrightarrow> inner a c"
  unfolding inner_def by (metis StackEntry.update_convs(4) StackEntry.surjective StackEntry.select_convs(4) StackEntry.fold_congs(4))

definition elem_state :: "bytes \<Rightarrow> bool \<Rightarrow> FieldEncoding \<Rightarrow> ctx \<Rightarrow> bytes \<Rightarrow> bool" where
  "elem_state d be e s v \<longleftrightarrow>
     enum_inv d s \<and> source_big_endian (byte_reader s) = be \<and> value_encoding e
     \<and> substate s = (if fixed_element_size e \<noteq> None then Sub_ValueSimpleArrayElement
                     else Sub_ValueComplexArrayElement)
     \<and> cur_enc s = e OR FieldEncoding_VArrayFlag
     \<and> element_size s = elem_size e \<and> item_size_raw s = length (elem_raw be e v)
     \<and> take (item_size_cooked s) (drop (data_pos_cooked s) d) = v"

lemma enum_inv_substate: "enum_inv d s \<Longrightarrow> substate_ok d s (substate s)"
  by (simp add: enum_inv_def)

lemma elem_state_facts:
  assumes "elem_state d be e s v"
  shows "enum_inv d s" "base_ok d s" "static_ok d s" "item_inv d s" "state s = State_Value"
    "array_index (stack_top s) < array_count (stack_top s)" "array_count (stack_top s) < 2 ^ 16"
    "data_pos_raw s + item_size_raw s \<le> length d" "length d < 2 ^ 31" "ucast_to 32 (length d) = length d"
    "FieldEncoding_without_flags (cur_enc s) = e"
    "fixed_element_size e = Some sz \<Longrightarrow> element_size s = sz \<and> item_size_raw s = sz \<and> item_size_cooked s = sz"
proof -
  note en = value_encoding_facts [of e]
  from assms show st: "enum_inv d s" "static_ok d s" by (simp_all add: elem_state_def enum_inv_static)
  show "FieldEncoding_without_flags (cur_enc s) = e" using assms en by (simp add: elem_state_def)
  have sub: "substate_ok d s (substate s)" using st(1) by (simp only: enum_inv_def)
  then show b: "base_ok d s" "state s = State_Value"
    and idx: "array_index (stack_top s) < array_count (stack_top s)" "array_count (stack_top s) < 2 ^ 16"
    using assms by (auto simp: elem_state_def item_ok_def typed_ok_def split: if_splits)
  show "item_inv d s" "length d < 2 ^ 31" "ucast_to 32 (length d) = length d"
    using assms b st static_ok_lengths [OF st(2)] by (auto simp: item_inv_def elem_state_def)
  obtain n where n: "array_count (stack_top s) - array_index (stack_top s) = Suc n"
    using idx(1) by (metis Suc_diff_Suc)
  show "data_pos_raw s + item_size_raw s \<le> length d"
    using sub assms n by (auto simp: elem_state_def split: if_splits)
  show "element_size s = sz \<and> item_size_raw s = sz \<and> item_size_cooked s = sz" if "fixed_element_size e = Some sz"
    using that sub assms by (auto simp: elem_state_def elem_size_def)
qed

lemma elem_step:
  assumes el: "elem_state d be e s v" and more: "array_index (stack_top s) + 1 < array_count (stack_top s)"
    and v': "elem_ok e v'" "at d (data_pos_raw s + item_size_raw s) (elem_raw be e v')"
    and n: "0 < move_next_remaining s"
  shows "\<exists>s'. move_next_impl False d s = Some (True, s') \<and> elem_state d be e s' v' \<and> inner s s'
    \<and> data_pos_raw s' = data_pos_raw s + item_size_raw s
    \<and> array_index (stack_top s') = array_index (stack_top s) + 1
    \<and> move_next_remaining s' = move_next_remaining s - 1"
proof -
  note f = elem_state_facts [OF el]
  let ?c = "upd_top (\<lambda>x. x\<lparr>array_index := array_index (stack_top s) + 1\<rparr>)
    (s\<lparr>move_next_remaining := move_next_remaining s - 1, data_pos_raw := data_pos_raw s + item_size_raw s\<rparr>)"
  let ?s' = "?c\<lparr>data_pos_cooked := data_pos_raw ?c + elem_offset e, element_size := elem_size e,
      item_size_raw := length (elem_raw be e v'), item_size_cooked := length v'\<rparr>"
  have mv: "move_next_impl False d s = Some (True, ?s')"
  proof (cases "fixed_element_size e")
    case (Some sz)
    have sub: "substate s = Sub_ValueSimpleArrayElement" using el Some by (simp add: elem_state_def)
    have v: "length v' = sz" "elem_raw be e v' = v'" "elem_offset e = 0" "elem_size e = sz"
      using v'(1) Some encoding_classes(1) [OF Some]
      by (simp_all add: elem_ok_def elem_raw_def elem_offset_def elem_size_def)
    note sz = f(12) [OF Some]
    have rec: "?s' = ?c\<lparr>data_pos_cooked := data_pos_raw ?c\<rparr>"
      using v sz by (simp add: upd_top_def)
    show ?thesis unfolding rec move_next_impl_def move_next_step_def
      using sub n f more by (simp add: debug_assert_def start_value_simple_def upd_top_def Let_def)
  next
    case None
    have sub: "substate s = Sub_ValueComplexArrayElement" using el None by (simp add: elem_state_def)
    have "start_value False d ?c = Some (True, ?s')"
      by (rule start_value_at) (use f v' el in \<open>simp_all add: elem_state_def static_ok_def\<close>)
    then show ?thesis unfolding move_next_impl_def move_next_step_def
      using sub n f more by (simp add: debug_assert_def upd_top_def Let_def)
  qed
  have "move_post d (True, ?s')"
    using move_next_impl_post [OF f(4), of False] mv by simp
  then have "enum_inv d ?s'" by (simp add: move_post_def)
  moreover have "take (length v') (drop (data_pos_raw s + item_size_raw s + elem_offset e) d) = v'"
    by (rule elem_value_at [OF v'(2)])
  ultimately have "elem_state d be e ?s' v'" using el by (simp add: elem_state_def)
  moreover have "inner s ?s'" by (simp add: inner_def static_part_def upd_top_def)
  ultimately show ?thesis using mv by (intro exI [of _ ?s']) simp
qed

text \<open>The last element is followed by the end of the array, and that by the next field.\<close>

definition array_end :: "bytes \<Rightarrow> bool \<Rightarrow> FieldEncoding \<Rightarrow> ctx \<Rightarrow> bool" where
  "array_end d be e s \<longleftrightarrow>
     enum_inv d s \<and> source_big_endian (byte_reader s) = be \<and> value_encoding e \<and> substate s = Sub_ArrayEnd
     \<and> cur_enc s = e OR FieldEncoding_VArrayFlag"

lemma elem_last:
  assumes el: "elem_state d be e s v" and last: "array_index (stack_top s) + 1 = array_count (stack_top s)"
    and n: "0 < move_next_remaining s"
  shows "\<exists>s'. move_next_impl False d s = Some (True, s') \<and> array_end d be e s' \<and> inner s s'
    \<and> data_pos_raw s' = data_pos_raw s + item_size_raw s
    \<and> move_next_remaining s' = move_next_remaining s - 1"
proof -
  note f = elem_state_facts [OF el]
  let ?s' = "set_end_state State_ArrayEnd Sub_ArrayEnd (upd_top (\<lambda>x. x\<lparr>array_index := array_index (stack_top s) + 1\<rparr>)
    (s\<lparr>move_next_remaining := move_next_remaining s - 1, data_pos_raw := data_pos_raw s + item_size_raw s\<rparr>))"
  have mv: "move_next_impl False d s = Some (True, ?s')"
    unfolding move_next_impl_def move_next_step_def
    using el n f last by (auto simp: elem_state_def debug_assert_def upd_top_def Let_def)
  have "move_post d (True, ?s')"
    using move_next_impl_post [OF f(4), of False] mv by simp
  then have "enum_inv d ?s'" by (simp add: move_post_def)
  then have "array_end d be e ?s'" using el by (simp add: elem_state_def array_end_def)
  moreover have "inner s ?s'" by (simp add: inner_def static_part_def upd_top_def set_end_state_def)
  ultimately show ?thesis using mv by (intro exI [of _ ?s']) simp
qed

lemma array_end_next:
  assumes a: "array_end d be e s" and n: "0 < move_next_remaining s"
  shows "chain d s [s] (s\<lparr>move_next_remaining := move_next_remaining s - 1\<rparr>)" "base_ok d s"
    "state s = State_ArrayEnd" "item_size_cooked s = 0"
proof -
  have "enum_inv d s" using a by (simp add: array_end_def)
  then have sub: "substate_ok d s (substate s)" by (rule enum_inv_substate)
  then show "base_ok d s" "state s = State_ArrayEnd" "item_size_cooked s = 0"
    using a by (simp_all add: array_end_def)
  have "FieldEncoding_without_flags (cur_enc s) \<noteq> FieldEncoding_Struct"
    using a value_encoding_facts [of e] by (simp add: array_end_def)
  with a n show "chain d s [s] (s\<lparr>move_next_remaining := move_next_remaining s - 1\<rparr>)"
    by (intro chain_last) (auto simp: array_end_def move_next_impl_def move_next_step_def debug_assert_def)
qed

lemma elem_chain:
  assumes "elem_state d be e s v" "array_count (stack_top s) = array_index (stack_top s) + 1 + length vs"
    and "\<forall>x \<in> set vs. elem_ok e x" "at d (data_pos_raw s + item_size_raw s) (concat (map (elem_raw be e) vs))"
    and "length vs + 2 \<le> move_next_remaining s"
  shows "\<exists>ss z. chain d s (s # ss @ [z]) (z\<lparr>move_next_remaining := move_next_remaining z - 1\<rparr>)
    \<and> length ss = length vs \<and> (\<forall>i < length vs. elem_state d be e (ss ! i) (vs ! i) \<and> inner s (ss ! i))
    \<and> array_end d be e z \<and> inner s z
    \<and> data_pos_raw z = data_pos_raw s + item_size_raw s + length (concat (map (elem_raw be e) vs))
    \<and> move_next_remaining z = move_next_remaining s - length vs - 1"
  using assms
proof (induction vs arbitrary: s v)
  case Nil
  then obtain z where z: "move_next_impl False d s = Some (True, z)" "array_end d be e z" "inner s z"
    "data_pos_raw z = data_pos_raw s + item_size_raw s" "move_next_remaining z = move_next_remaining s - 1"
    using elem_last [OF Nil.prems(1)] by auto
  with Nil.prems(5) array_end_next(1) [OF z(2)] have "chain d s (s # [] @ [z]) (z\<lparr>move_next_remaining := move_next_remaining z - 1\<rparr>)"
    by (auto intro: chain_more)
  with z show ?case by (intro exI [of _ "[]"] exI [of _ z]) simp
next
  case (Cons x vs)
  have a: "at d (data_pos_raw s + item_size_raw s) (elem_raw be e x)"
    "at d (data_pos_raw s + item_size_raw s + length (elem_raw be e x)) (concat (map (elem_raw be e) vs))"
    using Cons.prems(4) by (simp_all add: at_append)
  obtain s' where s': "move_next_impl False d s = Some (True, s')" "elem_state d be e s' x" "inner s s'"
    "data_pos_raw s' = data_pos_raw s + item_size_raw s" "array_index (stack_top s') = array_index (stack_top s) + 1"
    "move_next_remaining s' = move_next_remaining s - 1"
    using elem_step [OF Cons.prems(1) _ _ a(1)] Cons.prems by auto
  have cnt: "array_count (stack_top s') = array_count (stack_top s)"
    using s'(3) unfolding inner_def by (metis StackEntry.simps(11) StackEntry.ext_inject StackEntry.surjective StackEntry.update_convs(4))
  have sz: "item_size_raw s' = length (elem_raw be e x)" using s'(2) by (simp add: elem_state_def)
  have "\<exists>ss z. chain d s' (s' # ss @ [z]) (z\<lparr>move_next_remaining := move_next_remaining z - 1\<rparr>)
    \<and> length ss = length vs \<and> (\<forall>i < length vs. elem_state d be e (ss ! i) (vs ! i) \<and> inner s' (ss ! i))
    \<and> array_end d be e z \<and> inner s' z
    \<and> data_pos_raw z = data_pos_raw s' + item_size_raw s' + length (concat (map (elem_raw be e) vs))
    \<and> move_next_remaining z = move_next_remaining s' - length vs - 1"
    by (rule Cons.IH [OF s'(2)]) (use cnt s' sz a(2) Cons.prems in simp_all)
  then obtain ss z where ih: "chain d s' (s' # ss @ [z]) (z\<lparr>move_next_remaining := move_next_remaining z - 1\<rparr>)"
    "length ss = length vs" "\<forall>i < length vs. elem_state d be e (ss ! i) (vs ! i) \<and> inner s' (ss ! i)"
    "array_end d be e z" "inner s' z"
    "data_pos_raw z = data_pos_raw s' + item_size_raw s' + length (concat (map (elem_raw be e) vs))"
    "move_next_remaining z = move_next_remaining s' - length vs - 1"
    by blast
  have "chain d s (s # (s' # ss) @ [z]) (z\<lparr>move_next_remaining := move_next_remaining z - 1\<rparr>)"
    using chain_more [OF s'(1) ih(1)] by simp
  moreover have "\<forall>i < length (x # vs). elem_state d be e ((s' # ss) ! i) ((x # vs) ! i) \<and> inner s ((s' # ss) ! i)"
    using ih(3) s'(2,3) inner_trans [OF s'(3)] by (auto simp: nth_Cons split: nat.split)
  ultimately show ?case
    using ih s' sz inner_trans [OF s'(3) ih(5)]
    by (intro exI [of _ "s' # ss"] exI [of _ z]) auto
qed

section \<open>Fields\<close>

text \<open>The context after the metadata of a field has been read.\<close>

definition field_ctx :: "bool \<Rightarrow> bytes \<Rightarrow> u8 \<Rightarrow> u8 \<Rightarrow> u16 \<Rightarrow> ctx \<Rightarrow> ctx" where
  "field_ctx be name e fmt tag c =
     (upd_top (\<lambda>x. x\<lparr>remaining_field_count := remaining_field_count x - 1, array_index := 0,
        name_offset := next_offset x, name_len := length name,
        next_offset := next_offset x + length name + 1 + length (type_bytes be e fmt tag)\<rparr>) c)
     \<lparr>field_type := \<lparr>ft_encoding = e, ft_format = fmt, ft_tag = tag\<rparr>\<rparr>"

text \<open>What a field needs: its metadata at the next offset, and room in the context.\<close>

definition field_meta_at :: "bytes \<Rightarrow> bool \<Rightarrow> bytes \<Rightarrow> u8 \<Rightarrow> u8 \<Rightarrow> u16 \<Rightarrow> ctx \<Rightarrow> bool" where
  "field_meta_at d be name e fmt tag c \<longleftrightarrow>
     base_ok d c \<and> source_big_endian (byte_reader c) = be \<and> 0 < remaining_field_count (stack_top c)
     \<and> at d (next_offset (stack_top c)) (name @ [0] @ type_bytes be e fmt tag)
     \<and> next_offset (stack_top c) + length name + 1 + length (type_bytes be e fmt tag) \<le> meta_end c
     \<and> 0 \<notin> set name \<and> e < 128 \<and> fmt < 128"

lemma next_property_at:
  assumes m: "field_meta_at d be name e fmt tag c"
  shows "next_property False d c = next_property_decode False d (field_ctx be name e fmt tag c)"
proof -
  let ?off = "next_offset (stack_top c)"
  let ?c1 = "upd_top (\<lambda>x. x\<lparr>remaining_field_count := remaining_field_count (stack_top c) - 1, array_index := 0,
      name_offset := next_offset x\<rparr>) c"
  have b: "static_ok d c" "meta_start c \<le> ?off" "remaining_field_count (stack_top c) < 2 ^ 8"
    using m by (simp_all add: field_meta_at_def base_ok_def)
  have "read_field_name_and_type False d ?c1 =
    Some (\<lparr>ft_encoding = e, ft_format = fmt, ft_tag = tag\<rparr>,
      upd_top (\<lambda>x. x\<lparr>name_len := length name,
        next_offset := ?off + length name + 1 + length (type_bytes be e fmt tag)\<rparr>) ?c1)"
    by (rule read_field_at) (use m b in \<open>simp_all add: field_meta_at_def\<close>)
  moreover have "?off \<noteq> meta_end c" "remaining_field_count (stack_top c) \<noteq> 0"
    using m by (auto simp: field_meta_at_def)
  ultimately show ?thesis
    by (simp add: next_property_def next_property_field_def field_ctx_def upd_top_def)
qed

lemma field_ctx_simps [simp]:
  "static_part (field_ctx be name e fmt tag c) = static_part c" "stack (field_ctx be name e fmt tag c) = stack c"
  "stack_index (field_ctx be name e fmt tag c) = stack_index c"
  "data_pos_raw (field_ctx be name e fmt tag c) = data_pos_raw c"
  "move_next_remaining (field_ctx be name e fmt tag c) = move_next_remaining c"
  "field_type (field_ctx be name e fmt tag c) = \<lparr>ft_encoding = e, ft_format = fmt, ft_tag = tag\<rparr>"
  "byte_reader (field_ctx be name e fmt tag c) = byte_reader c" "meta_end (field_ctx be name e fmt tag c) = meta_end c"
  "static_ok d (field_ctx be name e fmt tag c) = static_ok d c"
  "name_offset (stack_top (field_ctx be name e fmt tag c)) = next_offset (stack_top c)"
  "name_len (stack_top (field_ctx be name e fmt tag c)) = length name"
  "array_index (stack_top (field_ctx be name e fmt tag c)) = 0"
  "remaining_field_count (stack_top (field_ctx be name e fmt tag c)) = remaining_field_count (stack_top c) - 1"
  "next_offset (stack_top (field_ctx be name e fmt tag c)) =
     next_offset (stack_top c) + length name + 1 + length (type_bytes be e fmt tag)"
  by (simp_all add: field_ctx_def static_part_def upd_top_def static_ok_def)

lemma field_name_at:
  assumes "field_meta_at d be name e fmt tag c"
  shows "take (length name) (drop (next_offset (stack_top c)) d) = name"
  using assms at_append [of d "next_offset (stack_top c)" name "[0] @ type_bytes be e fmt tag"]
  by (simp add: field_meta_at_def at_take)

lemma static_part_updates [simp]:
  "static_part (upd_top f c) = static_part c" "static_part (set_state st sub c) = static_part c"
  "static_part (set_end_state st sub c) = static_part c" "static_part (c\<lparr>data_pos_raw := n\<rparr>) = static_part c"
  "static_part (c\<lparr>data_pos_cooked := n\<rparr>) = static_part c" "static_part (c\<lparr>element_size := n\<rparr>) = static_part c"
  "static_part (c\<lparr>item_size_raw := n\<rparr>) = static_part c" "static_part (c\<lparr>item_size_cooked := n\<rparr>) = static_part c"
  "static_part (c\<lparr>move_next_remaining := n\<rparr>) = static_part c" "static_part (c\<lparr>stack := st'\<rparr>) = static_part c"
  "static_part (c\<lparr>stack_index := n\<rparr>) = static_part c" "static_part (c\<lparr>stack_top := e\<rparr>) = static_part c"
  "static_part (c\<lparr>field_type := ft\<rparr>) = static_part c"
  by (simp_all add: static_part_def upd_top_def set_state_def set_end_state_def)

text \<open>\<open>c'\<close> is \<open>c\<close> after some fields of the same struct (or of the event) have been read.\<close>

definition moved_on :: "bytes \<Rightarrow> ctx \<Rightarrow> ctx \<Rightarrow> nat \<Rightarrow> nat \<Rightarrow> nat \<Rightarrow> nat \<Rightarrow> bool" where
  "moved_on d c c' meta_len data_len nf moves \<longleftrightarrow>
     base_ok d c' \<and> static_part c' = static_part c \<and> stack_index c' = stack_index c
     \<and> take (stack_index c) (stack c') = take (stack_index c) (stack c)
     \<and> next_offset (stack_top c') = next_offset (stack_top c) + meta_len
     \<and> data_pos_raw c' = data_pos_raw c + data_len
     \<and> remaining_field_count (stack_top c') = remaining_field_count (stack_top c) - nf
     \<and> move_next_remaining c' = move_next_remaining c - moves"

lemma moved_on_trans:
  assumes "moved_on d c c' m1 l1 f1 n1" "moved_on d c' c'' m2 l2 f2 n2"
  shows "moved_on d c c'' (m1 + m2) (l1 + l2) (f1 + f2) (n1 + n2)"
  using assms by (simp add: moved_on_def)

lemma static_part_fields:
  assumes "static_part c' = static_part c"
  shows "meta_end c' = meta_end c" "byte_reader c' = byte_reader c" "meta_start c' = meta_start c"
  using assms by (simp_all add: static_part_def)

lemma scalar_decodes:
  assumes m: "field_meta_at d be name e fmt tag c" and v: "elem_ok e v" "at d (data_pos_raw c) (elem_raw be e v)"
    and n: "0 < move_next_remaining c"
  shows "\<exists>c'. leads d c (items_of (Scalar name e fmt tag v)) c'
    \<and> moved_on d c c' (length name + 1 + length (type_bytes be e fmt tag)) (length (elem_raw be e v)) 1 1"
proof -
  have b: "base_ok d c" "static_ok d c" "source_big_endian (byte_reader c) = be" "data_pos_raw c \<le> length d"
    using m by (simp_all add: field_meta_at_def base_ok_def)
  note en = value_encoding_facts [OF elem_ok_value_encoding [OF v(1)]]
  let ?c = "set_state State_Value Sub_ValueScalar (upd_top (\<lambda>x. x\<lparr>array_count := 1\<rparr>) (field_ctx be name e fmt tag c))"
  let ?s = "?c\<lparr>data_pos_cooked := data_pos_raw ?c + elem_offset e, element_size := elem_size e,
      item_size_raw := length (elem_raw be e v), item_size_cooked := length v\<rparr>"
  have "start_value False d ?c = Some (True, ?s)"
    by (rule start_value_at) (use b v en in simp_all)
  then have nx: "next_property False d c = Some (True, ?s)"
    by (simp add: next_property_at [OF m] next_property_decode_def en en(4) [symmetric] Let_def)
  let ?c' = "?s\<lparr>move_next_remaining := move_next_remaining c - 1, data_pos_raw := data_pos_raw c + length (elem_raw be e v)\<rparr>"
  have l: "data_pos_raw c + length (elem_raw be e v) \<le> length d" by (rule at_length [OF v(2)])
  have "move_post d (True, ?s)" using next_property_post [OF b(1), of False] nx by simp
  then have "base_ok d ?s" by (simp add: move_post_def enum_inv_def)
  then have "base_ok d ?c'" using l by (simp add: base_ok_def static_ok_def entry_ok_def)
  moreover have "move_next_impl False d ?s = next_property False d ?c'"
    using n l static_ok_lengths [OF b(2)]
    by (simp add: move_next_impl_def move_next_step_def debug_assert_def)
  moreover have "view d ?s = (State_Value, name, e, fmt, tag, 1, v)"
    using field_name_at [OF m] elem_value_at [OF v(2)] en by (simp add: view_def)
  ultimately have "leads d c (items_of (Scalar name e fmt tag v)) ?c'" "base_ok d ?c'"
    using leads_single [OF nx] by auto
  then show ?thesis
    by (intro exI [of _ ?c']) (simp add: moved_on_def)
qed

lemma inner_fields:
  assumes "inner s s'"
  shows "field_type s' = field_type s" "name_offset (stack_top s') = name_offset (stack_top s)"
    "name_len (stack_top s') = name_len (stack_top s)" "next_offset (stack_top s') = next_offset (stack_top s)"
    "array_count (stack_top s') = array_count (stack_top s)"
    "remaining_field_count (stack_top s') = remaining_field_count (stack_top s)"
    "stack s' = stack s" "stack_index s' = stack_index s" "static_part s' = static_part s"
proof -
  have t: "stack_top s' = (stack_top s)\<lparr>array_index := array_index (stack_top s')\<rparr>"
    using assms by (simp add: inner_def)
  show "name_offset (stack_top s') = name_offset (stack_top s)"
    "name_len (stack_top s') = name_len (stack_top s)" "next_offset (stack_top s') = next_offset (stack_top s)"
    "array_count (stack_top s') = array_count (stack_top s)"
    "remaining_field_count (stack_top s') = remaining_field_count (stack_top s)"
    by (subst t, simp)+
qed (use assms in \<open>simp_all add: inner_def\<close>)

text \<open>What the items of an array have in common, \<open>s\<close> being its first.\<close>

lemma elem_view:
  assumes "elem_state d be e s' v" "inner s s'"
    "take (name_len (stack_top s)) (drop (name_offset (stack_top s)) d) = name"
    "field_type s = \<lparr>ft_encoding = e OR FieldEncoding_VArrayFlag, ft_format = fmt, ft_tag = tag\<rparr>"
  shows "view d s' = (State_Value, name, e, fmt, tag, 1, v)"
  using assms elem_state_facts(5,11) [OF assms(1)] inner_fields [OF assms(2)]
  by (simp add: view_def elem_state_def)

lemma array_end_view:
  assumes "array_end d be e z" "inner s z" "0 < move_next_remaining z"
    "take (name_len (stack_top s)) (drop (name_offset (stack_top s)) d) = name"
    "field_type s = \<lparr>ft_encoding = e OR FieldEncoding_VArrayFlag, ft_format = fmt, ft_tag = tag\<rparr>"
  shows "view d z = (State_ArrayEnd, name, e, fmt, tag, array_count (stack_top s), [])"
  using assms array_end_next(3,4) [OF assms(1,3)] inner_fields [OF assms(2)] value_encoding_facts(8) [of e]
  by (simp add: view_def array_end_def)

text \<open>From the beginning of an array to its first element, or to its end.\<close>

definition array_begin :: "bytes \<Rightarrow> bool \<Rightarrow> FieldEncoding \<Rightarrow> nat \<Rightarrow> ctx \<Rightarrow> bool" where
  "array_begin d be e n s \<longleftrightarrow>
     enum_inv d s \<and> source_big_endian (byte_reader s) = be \<and> value_encoding e \<and> substate s = Sub_ArrayBegin
     \<and> cur_enc s = e OR FieldEncoding_VArrayFlag \<and> element_size s = elem_size e
     \<and> array_count (stack_top s) = n \<and> array_index (stack_top s) = 0"

lemma array_begin_facts:
  assumes "array_begin d be e n s"
  shows "base_ok d s" "static_ok d s" "item_inv d s" "state s = State_ArrayBegin"
    "FieldEncoding_without_flags (cur_enc s) = e"
proof -
  have i: "enum_inv d s" using assms by (simp add: array_begin_def)
  note sub = enum_inv_substate [OF i] and st = enum_inv_static [OF i]
  show "static_ok d s" by (rule st)
  show "base_ok d s" "state s = State_ArrayBegin" using sub assms by (simp_all add: array_begin_def)
  then show "item_inv d s" using i assms by (simp add: item_inv_def array_begin_def)
  show "FieldEncoding_without_flags (cur_enc s) = e"
    using assms value_encoding_facts [of e] by (simp add: array_begin_def)
qed

lemma array_begin_empty:
  assumes a: "array_begin d be e 0 s" and n: "0 < move_next_remaining s"
  shows "\<exists>z. move_next_impl False d s = Some (True, z) \<and> array_end d be e z \<and> inner s z
    \<and> data_pos_raw z = data_pos_raw s \<and> move_next_remaining z = move_next_remaining s - 1"
proof -
  note f = array_begin_facts [OF a]
  let ?z = "set_end_state State_ArrayEnd Sub_ArrayEnd (s\<lparr>move_next_remaining := move_next_remaining s - 1\<rparr>)"
  have mv: "move_next_impl False d s = Some (True, ?z)"
    using a n by (simp add: move_next_impl_def move_next_step_def array_begin_def debug_assert_def)
  have "move_post d (True, ?z)" using move_next_impl_post [OF f(3), of False] mv by simp
  then have "enum_inv d ?z" by (simp add: move_post_def)
  then have "array_end d be e ?z" using a by (simp add: array_begin_def array_end_def)
  with mv show ?thesis
    by (intro exI [of _ ?z]) (simp add: inner_def static_part_def set_end_state_def)
qed

lemma array_begin_first:
  assumes a: "array_begin d be e (Suc n) s" and v: "elem_ok e v" "at d (data_pos_raw s) (elem_raw be e v)"
    and n: "0 < move_next_remaining s"
  shows "\<exists>s'. move_next_impl False d s = Some (True, s') \<and> elem_state d be e s' v \<and> inner s s'
    \<and> data_pos_raw s' = data_pos_raw s \<and> array_index (stack_top s') = 0
    \<and> move_next_remaining s' = move_next_remaining s - 1"
proof -
  note f = array_begin_facts [OF a]
  let ?sub = "if fixed_element_size e \<noteq> None then Sub_ValueSimpleArrayElement else Sub_ValueComplexArrayElement"
  let ?c = "set_state State_Value ?sub (s\<lparr>move_next_remaining := move_next_remaining s - 1\<rparr>)"
  let ?s' = "?c\<lparr>data_pos_cooked := data_pos_raw ?c + elem_offset e, element_size := elem_size e,
      item_size_raw := length (elem_raw be e v), item_size_cooked := length v\<rparr>"
  have e: "value_encoding e" "FieldEncoding_without_flags e = e" "e \<noteq> FieldEncoding_Struct"
    using a value_encoding_facts [of e] by (simp_all add: array_begin_def)
  have mv: "move_next_impl False d s = Some (True, ?s')"
  proof (cases "fixed_element_size e")
    case (Some sz)
    have v: "length v = sz" "elem_raw be e v = v" "elem_offset e = 0" "elem_size e = sz"
      using v(1) Some encoding_classes(1) [OF Some]
      by (simp_all add: elem_ok_def elem_raw_def elem_offset_def elem_size_def)
    with fixed_element_size_range [OF Some] a n Some show ?thesis
      by (simp add: move_next_impl_def move_next_step_def array_begin_def debug_assert_def Let_def
          start_value_simple_def set_state_def)
  next
    case None
    have "start_value False d ?c = Some (True, ?s')"
      by (rule start_value_at) (use f v a in \<open>simp_all add: array_begin_def\<close>)
    then show ?thesis
      using a n None f(5) e by (simp add: move_next_impl_def move_next_step_def array_begin_def debug_assert_def
          elem_size_def)
  qed
  have "move_post d (True, ?s')" using move_next_impl_post [OF f(3), of False] mv by simp
  then have "enum_inv d ?s'" by (simp add: move_post_def)
  then have "elem_state d be e ?s' v"
    using a elem_value_at [OF v(2)] by (simp add: array_begin_def elem_state_def)
  with mv a show ?thesis
    by (intro exI [of _ ?s']) (simp add: inner_def static_part_def set_state_def array_begin_def)
qed

lemma array_chain:
  assumes a: "array_begin d be e (length vs) s" and v: "\<forall>x \<in> set vs. elem_ok e x"
    and r: "at d (data_pos_raw s) (concat (map (elem_raw be e) vs))" and n: "length vs + 2 \<le> move_next_remaining s"
    and name: "take (name_len (stack_top s)) (drop (name_offset (stack_top s)) d) = name"
    and ft: "field_type s = \<lparr>ft_encoding = e OR FieldEncoding_VArrayFlag, ft_format = fmt, ft_tag = tag\<rparr>"
  shows "\<exists>ss z. chain d s (s # ss) (z\<lparr>move_next_remaining := move_next_remaining z - 1\<rparr>)
    \<and> map (view d) ss = map (\<lambda>v. (State_Value, name, e, fmt, tag, 1, v)) vs
        @ [(State_ArrayEnd, name, e, fmt, tag, length vs, [])]
    \<and> base_ok d z \<and> inner s z \<and> data_pos_raw z = data_pos_raw s + length (concat (map (elem_raw be e) vs))
    \<and> move_next_remaining z = move_next_remaining s - length vs - 1"
proof (cases vs)
  case Nil
  with a n obtain z where z: "move_next_impl False d s = Some (True, z)" "array_end d be e z" "inner s z"
    "data_pos_raw z = data_pos_raw s" "move_next_remaining z = move_next_remaining s - 1"
    using array_begin_empty [of d be e s] by auto
  have zn: "0 < move_next_remaining z" using z(5) n by simp
  have "view d z = (State_ArrayEnd, name, e, fmt, tag, 0, [])"
    using array_end_view [OF z(2,3) zn name ft] a Nil by (simp add: array_begin_def)
  with z Nil chain_more [OF z(1) array_end_next(1) [OF z(2) zn]] array_end_next(2) [OF z(2) zn] show ?thesis
    by (intro exI [of _ "[z]"] exI [of _ z]) simp
next
  case (Cons x vs')
  have r': "at d (data_pos_raw s) (elem_raw be e x)"
    "at d (data_pos_raw s + length (elem_raw be e x)) (concat (map (elem_raw be e) vs'))"
    using r Cons by (simp_all add: at_append)
  obtain s' where s': "move_next_impl False d s = Some (True, s')" "elem_state d be e s' x" "inner s s'"
    "data_pos_raw s' = data_pos_raw s" "array_index (stack_top s') = 0"
    "move_next_remaining s' = move_next_remaining s - 1"
    using array_begin_first [of d be e "length vs'" s x] a v r'(1) n Cons by auto
  have sz: "item_size_raw s' = length (elem_raw be e x)" using s'(2) by (simp add: elem_state_def)
  have cnt: "array_count (stack_top s') = length vs" using inner_fields(5) [OF s'(3)] a by (simp add: array_begin_def)
  have "\<exists>ss z. chain d s' (s' # ss @ [z]) (z\<lparr>move_next_remaining := move_next_remaining z - 1\<rparr>)
    \<and> length ss = length vs' \<and> (\<forall>i < length vs'. elem_state d be e (ss ! i) (vs' ! i) \<and> inner s' (ss ! i))
    \<and> array_end d be e z \<and> inner s' z
    \<and> data_pos_raw z = data_pos_raw s' + item_size_raw s' + length (concat (map (elem_raw be e) vs'))
    \<and> move_next_remaining z = move_next_remaining s' - length vs' - 1"
    by (rule elem_chain [OF s'(2)]) (use cnt s' sz r'(2) v n Cons in simp_all)
  then obtain ss z where z: "chain d s' (s' # ss @ [z]) (z\<lparr>move_next_remaining := move_next_remaining z - 1\<rparr>)"
    "length ss = length vs'" "\<forall>i < length vs'. elem_state d be e (ss ! i) (vs' ! i) \<and> inner s' (ss ! i)"
    "array_end d be e z" "inner s' z"
    "data_pos_raw z = data_pos_raw s' + item_size_raw s' + length (concat (map (elem_raw be e) vs'))"
    "move_next_remaining z = move_next_remaining s' - length vs' - 1"
    by blast
  have zn: "0 < move_next_remaining z" using z(7) s'(6) n Cons by simp
  note iz = inner_trans [OF s'(3) z(5)]
  have "map (view d) ss = map (\<lambda>v. (State_Value, name, e, fmt, tag, 1, v)) vs'"
    using z(2,3) inner_trans [OF s'(3)] elem_view [OF _ _ name ft] by (intro nth_equalityI) auto
  moreover have "view d s' = (State_Value, name, e, fmt, tag, 1, x)" by (rule elem_view [OF s'(2,3) name ft])
  moreover have "view d z = (State_ArrayEnd, name, e, fmt, tag, length vs, [])"
    using array_end_view [OF z(4) iz zn name ft] a by (simp add: array_begin_def)
  ultimately show ?thesis
    using z s' sz iz chain_more [OF s'(1) z(1)] array_end_next(2) [OF z(4) zn] Cons
    by (intro exI [of _ "s' # ss @ [z]"] exI [of _ z]) auto
qed

lemma elem_raw_fixed:
  assumes "fixed_element_size e = Some sz" "\<forall>x \<in> set vs. elem_ok e x"
  shows "map (elem_raw be e) vs = vs" "length (concat vs) = length vs * sz"
proof -
  have "elem_raw be e x = x" for x using encoding_classes(1) [OF assms(1)] by (simp add: elem_raw_def)
  then show "map (elem_raw be e) vs = vs" by (intro map_idI) simp
  from assms show "length (concat vs) = length vs * sz"
    by (induction vs) (simp_all add: elem_ok_def)
qed

lemma start_array_at:
  assumes st: "static_ok d c" and e: "value_encoding e" "cur_enc c = e OR FieldEncoding_VArrayFlag"
    and c: "array_count (stack_top c) = length vs" "length vs < 65536" "\<forall>x \<in> set vs. elem_ok e x"
    and r: "at d (data_pos_raw c) (concat (map (elem_raw be e) vs))"
  shows "start_array False (length d) c = Some (True, set_state State_ArrayBegin Sub_ArrayBegin
     (c\<lparr>element_size := elem_size e, item_size_raw := length vs * elem_size e,
        data_pos_cooked := data_pos_raw c, item_size_cooked := length vs * elem_size e\<rparr>))"
proof -
  note en = value_encoding_facts [OF e(1)]
  have len: "length d < 2 ^ 31" by (rule static_ok_lengths [OF st])
  show ?thesis
  proof (cases "fixed_element_size e")
    case (Some sz)
    note fx = elem_raw_fixed [OF Some c(3)]
    have "data_pos_raw c + length vs * sz \<le> length d" using at_length [OF r] fx by simp
    with Some len c(1) e(2) en show ?thesis
      by (auto simp: start_array_def Let_def elem_size_def set_state_def)
  next
    case None
    with e en show ?thesis
      by (auto simp: start_array_def Let_def elem_size_def set_state_def value_encoding_def)
  qed
qed

lemma array_decodes:
  assumes m: "field_meta_at d be name (e OR FieldEncoding_VArrayFlag) fmt tag c" and e: "value_encoding e"
    and v: "\<forall>x \<in> set vs. elem_ok e x" "length vs < 65536"
    and r: "at d (data_pos_raw c) (to_ne_bytes be 2 (length vs) @ concat (map (elem_raw be e) vs))"
    and n: "length vs + 2 \<le> move_next_remaining c"
  shows "\<exists>c'. leads d c (items_of (Array name e fmt tag vs)) c'
    \<and> moved_on d c c' (length name + 1 + length (type_bytes be (e OR FieldEncoding_VArrayFlag) fmt tag))
        (2 + length (concat (map (elem_raw be e) vs))) 1 (length vs + 2)"
proof -
  have b: "base_ok d c" "static_ok d c" "source_big_endian (byte_reader c) = be"
    using m by (simp_all add: field_meta_at_def)
  note en = value_encoding_facts [OF e] and len = static_ok_lengths [OF b(2)]
  have r': "at d (data_pos_raw c) (to_ne_bytes be 2 (length vs))"
    "at d (data_pos_raw c + 2) (concat (map (elem_raw be e) vs))" using r by (simp_all add: at_append)
  note cnt = read_u16_at [OF r'(1) v(2) b(3)]
  have l2: "data_pos_raw c + 2 \<le> length d" using at_length [OF r'(1)] by simp
  have u: "unat (word_of_nat (length vs) :: u16) = length vs"
    using v(2) by (simp add: unsigned_of_nat take_bit_nat_eq_self)
  let ?c1 = "upd_top (\<lambda>x. x\<lparr>array_count := length vs\<rparr>)
    ((field_ctx be name (e OR FieldEncoding_VArrayFlag) fmt tag c)\<lparr>data_pos_raw := data_pos_raw c + 2\<rparr>)"
  let ?s = "set_state State_ArrayBegin Sub_ArrayBegin
     (?c1\<lparr>element_size := elem_size e, item_size_raw := length vs * elem_size e,
        data_pos_cooked := data_pos_raw ?c1, item_size_cooked := length vs * elem_size e\<rparr>)"
  have "start_array False (length d) ?c1 = Some (True, ?s)"
    by (rule start_array_at) (use b e v r' in simp_all)
  moreover have "\<not> length d - data_pos_raw c < 2" using l2 by linarith
  ultimately have nx: "next_property False d c = Some (True, ?s)"
    using l2 cnt u len en
    by (simp add: next_property_at [OF m] next_property_decode_def)
  have "move_post d (True, ?s)" using next_property_post [OF b(1), of False] nx by simp
  then have a: "array_begin d be e (length vs) ?s"
    using b e by (simp add: array_begin_def move_post_def)
  have ft: "field_type ?s = \<lparr>ft_encoding = e OR FieldEncoding_VArrayFlag, ft_format = fmt, ft_tag = tag\<rparr>" by simp
  have name: "take (name_len (stack_top ?s)) (drop (name_offset (stack_top ?s)) d) = name"
    using field_name_at [OF m] by simp
  have "at d (data_pos_raw ?s) (concat (map (elem_raw be e) vs))" "length vs + 2 \<le> move_next_remaining ?s"
    using r'(2) n by simp_all
  from array_chain [OF a v(1) this name ft] obtain ss z where
    z: "chain d ?s (?s # ss) (z\<lparr>move_next_remaining := move_next_remaining z - 1\<rparr>)"
      "map (view d) ss = map (\<lambda>v. (State_Value, name, e, fmt, tag, 1, v)) vs
        @ [(State_ArrayEnd, name, e, fmt, tag, length vs, [])]"
      "base_ok d z" "inner ?s z" "data_pos_raw z = data_pos_raw c + 2 + length (concat (map (elem_raw be e) vs))"
      "move_next_remaining z = move_next_remaining c - length vs - 1"
    by auto
  have vs: "view d ?s = (State_ArrayBegin, name, e, fmt, tag, length vs,
       if fixed_element_size e \<noteq> None then concat vs else [])"
  proof (cases "fixed_element_size e")
    case (Some sz)
    note fx = elem_raw_fixed [OF Some v(1)]
    have "take (length (concat vs)) (drop (data_pos_raw c + 2) d) = concat vs"
      using at_take [OF r'(2)] fx by simp
    with Some fx name en show ?thesis by (simp add: view_def elem_size_def)
  next
    case None
    with name en show ?thesis by (simp add: view_def elem_size_def)
  qed
  have "leads d c (items_of (Array name e fmt tag vs)) (z\<lparr>move_next_remaining := move_next_remaining z - 1\<rparr>)"
    using leads_chain [OF nx z(1)] vs z(2) by simp
  then show ?thesis
    using z inner_fields [OF z(4)]
    by (intro exI [of _ "z\<lparr>move_next_remaining := move_next_remaining z - 1\<rparr>"]) (simp add: moved_on_def)
qed

section \<open>Structs\<close>

lemma struct_count_facts:
  assumes "0 < n" "n < 128"
  shows "(word_of_nat n :: u8) < 128" "(word_of_nat n :: u8) \<noteq> 0" "unat (word_of_nat n :: u8) = n"
proof -
  show u: "unat (word_of_nat n :: u8) = n" using assms by (simp add: unsigned_of_nat take_bit_nat_eq_self)
  then show "(word_of_nat n :: u8) < 128" using assms by (simp add: word_less_nat_alt)
  from u assms show "(word_of_nat n :: u8) \<noteq> 0" by (metis less_numeral_extra(3) unat_0)
qed

lemma struct_encoding_facts [simp]:
  "FieldEncoding_Struct < 128" "\<not> FieldEncoding_is_array FieldEncoding_Struct"
  "FieldEncoding_without_flags FieldEncoding_Struct = FieldEncoding_Struct"
  "FieldEncoding_Struct \<noteq> READ_FIELD_ERROR"
  by (simp_all add: enum_consts field_encoding_defs)

text \<open>Entering a struct: the context on which the fields of the struct are read.\<close>

definition struct_ctx :: "ctx \<Rightarrow> ctx" where
  "struct_ctx s =
     upd_top (\<lambda>x. x\<lparr>remaining_field_count := unat (ft_format (field_type s))\<rparr>)
       (s\<lparr>move_next_remaining := move_next_remaining s - 1,
          stack := (stack s)[stack_index s := stack_top s], stack_index := stack_index s + 1\<rparr>)"

lemma struct_begins:
  assumes m: "field_meta_at d be name FieldEncoding_Struct (word_of_nat k) tag c" and k: "0 < k" "k < 128"
    and n: "0 < move_next_remaining c" and si: "stack_index c < 8"
  shows "\<exists>s. leads d c [(State_StructBegin, name, FieldEncoding_Struct, word_of_nat k, tag, 1, [])] (struct_ctx s)
    \<and> enum_inv d s \<and> substate s = Sub_StructBegin \<and> static_part s = static_part c \<and> stack s = stack c
    \<and> stack_index s = stack_index c \<and> data_pos_raw s = data_pos_raw c
    \<and> move_next_remaining s = move_next_remaining c \<and> array_index (stack_top s) = 0
    \<and> array_count (stack_top s) = 1
    \<and> stack_top s = (stack_top (field_ctx be name FieldEncoding_Struct (word_of_nat k) tag c))\<lparr>array_count := 1\<rparr>
    \<and> field_type s = \<lparr>ft_encoding = FieldEncoding_Struct, ft_format = word_of_nat k, ft_tag = tag\<rparr>"
proof -
  have b: "base_ok d c" "static_ok d c" using m by (simp_all add: field_meta_at_def)
  note kf = struct_count_facts [OF k]
  let ?c1 = "upd_top (\<lambda>x. x\<lparr>array_count := 1\<rparr>) (field_ctx be name FieldEncoding_Struct (word_of_nat k) tag c)"
  let ?s = "set_state State_StructBegin Sub_StructBegin (?c1\<lparr>element_size := 0, item_size_raw := 0,
      data_pos_cooked := data_pos_raw ?c1, item_size_cooked := 0\<rparr>)"
  have nx: "next_property False d c = Some (True, ?s)"
    using kf by (simp add: next_property_at [OF m] next_property_decode_def Let_def start_struct_def
        debug_assert_def enum_consts(1) FieldFormat_Default_def)
  have inv: "enum_inv d ?s"
    using next_property_post [OF b(1), of False] nx by (simp add: move_post_def)
  have "move_next_impl False d ?s = next_property False d (struct_ctx ?s)"
    using n si static_ok_lengths(3) [OF b(2)]
    by (simp add: move_next_impl_def move_next_step_def debug_assert_def struct_ctx_def Let_def)
  from leads_single [OF nx this] field_name_at [OF m]
  have "leads d c [(State_StructBegin, name, FieldEncoding_Struct, word_of_nat k, tag, 1, [])] (struct_ctx ?s)"
    by (simp add: view_def)
  with inv show ?thesis by (intro exI [of _ ?s]) (simp add: upd_top_def)
qed

lemma struct_ends:
  assumes s: "enum_inv d s" "substate s = Sub_StructBegin" "stack_index s < 8" "array_index (stack_top s) = 0"
      "array_count (stack_top s) = 1" "cur_enc s = FieldEncoding_Struct"
    and c: "moved_on d (struct_ctx s) c M D (unat (ft_format (field_type s))) N" "0 < move_next_remaining c"
  shows "\<exists>c'. leads d c [(State_StructEnd, take (name_len (stack_top s)) (drop (name_offset (stack_top s)) d),
        FieldEncoding_Struct, ft_format (field_type s), ft_tag (field_type s), 1, [])] c'
    \<and> base_ok d c' \<and> static_part c' = static_part s \<and> stack_index c' = stack_index s
    \<and> take (stack_index s) (stack c') = take (stack_index s) (stack s)
    \<and> next_offset (stack_top c') = next_offset (stack_top c) \<and> data_pos_raw c' = data_pos_raw c
    \<and> remaining_field_count (stack_top c') = remaining_field_count (stack_top s)
    \<and> move_next_remaining c' = move_next_remaining c - 1"
proof -
  let ?si = "stack_index s"
  have sub: "substate_ok d s Sub_StructBegin" using enum_inv_substate [OF s(1)] s(2) by simp
  then have ty: "type_offset (stack_top s) < meta_end s" "field_type s = type_of_entry d s (stack_top s)"
    by (simp_all add: item_ok_def typed_ok_def)
  have st: "length (stack s) = 8" "meta_end s \<le> length d" "length d < 2 ^ 31"
    using s(1) by (simp_all add: enum_inv_def static_ok_def)
  have bc: "base_ok d c" "static_part c = static_part s" "stack_index c = ?si + 1"
    "take (?si + 1) (stack c) = take (?si + 1) ((stack s)[?si := stack_top s])"
    "remaining_field_count (stack_top c) = 0"
    using c(1) by (simp_all add: moved_on_def struct_ctx_def)
  note sp = static_part_fields [OF bc(2)]
  have len: "length (stack c) = 8" using bc(1) by (simp add: base_ok_def static_ok_def)
  have top: "stack c ! ?si = stack_top s"
    using arg_cong [OF bc(4), of "\<lambda>l. l ! ?si"] s(3) st(1) len by simp
  have tk: "take ?si (stack c) = take ?si (stack s)"
    using arg_cong [OF bc(4), of "take ?si"] by (simp add: min_def)
  let ?c1 = "c\<lparr>stack_index := ?si, stack_top := stack_top s\<rparr>"
  let ?s' = "set_end_state State_StructEnd Sub_StructEnd
     (c\<lparr>stack_index := ?si, field_type := field_type s, element_size := 0,
        stack_top := (stack_top s)\<lparr>next_offset := next_offset (stack_top c)\<rparr>\<rparr>)"
  have rd: "read_field_type False d (type_offset (stack_top s)) ?c1 =
      Some (field_type s, upd_top (\<lambda>e. e\<lparr>next_offset := snd (field_type_at (meta_end s) (byte_reader s) d
        (type_offset (stack_top s)))\<rparr>) ?c1)"
    using read_field_type_eq [of "type_offset (stack_top s)" ?c1 d False] ty st sp by simp
  have nx: "next_property False d c = Some (True, ?s')"
    using bc s top rd ty(1) st len
    by (simp add: next_property_def next_property_end_def debug_assert_def upd_top_def)
  have "enum_inv d ?s'" using next_property_post [OF bc(1), of False] nx by (simp add: move_post_def)
  then have b': "base_ok d ?s'" by (simp add: enum_inv_def)
  let ?c' = "upd_top (\<lambda>e. e\<lparr>array_index := 1\<rparr>) (?s'\<lparr>move_next_remaining := move_next_remaining c - 1\<rparr>)"
  have "move_next_impl False d ?s' = next_property False d ?c'"
    using c(2) s by (simp add: move_next_impl_def move_next_step_def debug_assert_def)
  from leads_single [OF nx this] s(6)
  have "leads d c [(State_StructEnd, take (name_len (stack_top s)) (drop (name_offset (stack_top s)) d),
        FieldEncoding_Struct, ft_format (field_type s), ft_tag (field_type s), 1, [])] ?c'"
    by (simp add: view_def)
  with b' bc(2) tk show ?thesis
    by (intro exI [of _ ?c']) simp
qed

section \<open>Lists of fields\<close>

text \<open>What the decoder needs to find for a list of fields.\<close>

definition fields_at :: "bytes \<Rightarrow> bool \<Rightarrow> field list \<Rightarrow> ctx \<Rightarrow> bool" where
  "fields_at d be fs c \<longleftrightarrow>
     base_ok d c \<and> source_big_endian (byte_reader c) = be
     \<and> at d (next_offset (stack_top c)) (concat (map (meta_bytes be) fs))
     \<and> next_offset (stack_top c) + length (concat (map (meta_bytes be) fs)) \<le> meta_end c
     \<and> at d (data_pos_raw c) (concat (map (data_bytes be) fs))
     \<and> length fs \<le> remaining_field_count (stack_top c)
     \<and> (\<forall>f \<in> set fs. field_ok f \<and> stack_index c + depth f \<le> 8)
     \<and> length (concat (map items_of fs)) \<le> move_next_remaining c"

definition fields_decode :: "bytes \<Rightarrow> bool \<Rightarrow> field list \<Rightarrow> ctx \<Rightarrow> bool" where
  "fields_decode d be fs c \<longleftrightarrow>
     (\<exists>c'. leads d c (concat (map items_of fs)) c'
        \<and> moved_on d c c' (length (concat (map (meta_bytes be) fs))) (length (concat (map (data_bytes be) fs)))
            (length fs) (length (concat (map items_of fs))))"

lemma moved_on_refl: "base_ok d c \<Longrightarrow> moved_on d c c 0 0 0 0"
  by (simp add: moved_on_def)

lemma fields_decode_list:
  assumes "\<And>f c. f \<in> set fs \<Longrightarrow> fields_at d be [f] c \<Longrightarrow> fields_decode d be [f] c" "fields_at d be fs c"
  shows "fields_decode d be fs c"
  using assms
proof (induction fs arbitrary: c)
  case Nil
  then show ?case unfolding fields_decode_def fields_at_def
    by (intro exI [of _ c]) (simp add: leads_refl moved_on_refl)
next
  case (Cons f fs)
  have "fields_at d be [f] c" using Cons.prems(2) by (simp add: fields_at_def at_append)
  then have "fields_decode d be [f] c" by (rule Cons.prems(1) [rotated]) simp
  then obtain c1 where c1: "leads d c (items_of f) c1"
    "moved_on d c c1 (length (meta_bytes be f)) (length (data_bytes be f)) 1 (length (items_of f))"
    by (auto simp: fields_decode_def)
  have "fields_at d be fs c1"
    using Cons.prems(2) c1(2) static_part_fields [of c1 c]
    by (auto simp: fields_at_def moved_on_def at_append)
  then have "fields_decode d be fs c1" using Cons.IH Cons.prems(1) by simp
  then obtain c2 where c2: "leads d c1 (concat (map items_of fs)) c2"
    "moved_on d c1 c2 (length (concat (map (meta_bytes be) fs))) (length (concat (map (data_bytes be) fs)))
      (length fs) (length (concat (map items_of fs)))"
    by (auto simp: fields_decode_def)
  from leads_trans [OF c1(1) c2(1)] moved_on_trans [OF c1(2) c2(2)] show ?case
    unfolding fields_decode_def by (intro exI [of _ c2]) simp
qed

lemma fold_max_le: "f \<in> set fs \<Longrightarrow> g f \<le> fold max (map g fs) (n :: nat)"
proof (induction fs arbitrary: n)
  case (Cons x fs)
  have "m \<le> fold max (map g fs) m" for m
    by (induction fs arbitrary: m) (auto intro: le_trans [OF max.cobounded2])
  with Cons show ?case by (auto intro: le_trans [OF max.cobounded1])
qed simp

lemma struct_ctx_ok:
  assumes s: "enum_inv d s" "substate s = Sub_StructBegin" "stack_index s < 8"
  shows "base_ok d (struct_ctx s)"
proof -
  have sub: "substate_ok d s Sub_StructBegin" using enum_inv_substate [OF s(1)] s(2) by simp
  have u8: "unat (ft_format (field_type s)) < 2 ^ 8"
    using unsigned_less [of "ft_format (field_type s)"] by simp
  have "base_ok d s" using sub by simp
  from base_ok_push [OF this struct_begin_entry_ok [OF sub] s(3) u8] show ?thesis
    by (simp add: struct_ctx_def base_ok_def static_ok_def entry_ok_def)
qed

lemma struct_decodes:
  assumes at: "fields_at d be [Struct name tag fs] c"
    and IH: "\<And>c. fields_at d be fs c \<Longrightarrow> fields_decode d be fs c"
  shows "fields_decode d be [Struct name tag fs] c"
proof -
  let ?k = "length fs" and ?st = "type_bytes be FieldEncoding_Struct (word_of_nat (length fs)) tag"
  let ?h = "length name + 1 + length ?st" and ?M = "length (concat (map (meta_bytes be) fs))"
    and ?D = "length (concat (map (data_bytes be) fs))" and ?N = "length (concat (map items_of fs))"
  have ok: "fs \<noteq> []" "?k < 128" "0 \<notin> set name" "\<forall>f \<in> set fs. field_ok f"
    using at by (simp_all add: fields_at_def)
  then have k: "0 < ?k" by simp
  note kf = struct_count_facts [OF k ok(2)]
  have c: "base_ok d c" "stack_index c < 8" "?N + 2 \<le> move_next_remaining c" "source_big_endian (byte_reader c) = be"
    "1 \<le> remaining_field_count (stack_top c)"
    using at by (auto simp: fields_at_def)
  have a: "at d (next_offset (stack_top c)) (name @ [0] @ ?st)"
    "at d (next_offset (stack_top c) + ?h) (concat (map (meta_bytes be) fs))"
    "next_offset (stack_top c) + ?h + ?M \<le> meta_end c" "at d (data_pos_raw c) (concat (map (data_bytes be) fs))"
    using at by (simp_all add: fields_at_def at_append at_Cons add.assoc)
  have "field_meta_at d be name FieldEncoding_Struct (word_of_nat ?k) tag c"
    using c a kf ok by (simp add: field_meta_at_def)
  note m = this
  from struct_begins [OF m k ok(2) _ c(2)] c(3) obtain s where
    l1: "leads d c [(State_StructBegin, name, FieldEncoding_Struct, word_of_nat ?k, tag, 1, [])] (struct_ctx s)"
    and s: "enum_inv d s" "substate s = Sub_StructBegin" "static_part s = static_part c" "stack s = stack c"
      "stack_index s = stack_index c" "data_pos_raw s = data_pos_raw c"
      "move_next_remaining s = move_next_remaining c" "array_index (stack_top s) = 0" "array_count (stack_top s) = 1"
      "stack_top s = (stack_top (field_ctx be name FieldEncoding_Struct (word_of_nat ?k) tag c))\<lparr>array_count := 1\<rparr>"
      "field_type s = \<lparr>ft_encoding = FieldEncoding_Struct, ft_format = word_of_nat ?k, ft_tag = tag\<rparr>"
    by auto
  note sp = static_part_fields [OF s(3)]
  have si: "stack_index s < 8" using s(5) c(2) by simp
  have dep: "stack_index c + 1 + depth f \<le> 8" if "f \<in> set fs" for f
    using at fold_max_le [OF that, of depth 0] by (simp add: fields_at_def)
  have "fields_at d be fs (struct_ctx s)"
    unfolding fields_at_def using struct_ctx_ok [OF s(1,2) si] sp c s(5-7,10,11) a ok(4) dep kf(3)
    by (auto simp: struct_ctx_def add.assoc)
  from IH [OF this] obtain c1 where l2: "leads d (struct_ctx s) (concat (map items_of fs)) c1"
    and m1: "moved_on d (struct_ctx s) c1 ?M ?D ?k ?N"
    by (auto simp: fields_decode_def)
  have n1: "0 < move_next_remaining c1" using m1 s(7) c(3) by (simp add: moved_on_def struct_ctx_def)
  have nm: "take (name_len (stack_top s)) (drop (name_offset (stack_top s)) d) = name"
    using field_name_at [OF m] s(10) by simp
  have m1': "moved_on d (struct_ctx s) c1 ?M ?D (unat (ft_format (field_type s))) ?N"
    using m1 s(11) kf(3) by simp
  have enc: "cur_enc s = FieldEncoding_Struct" using s(11) by simp
  from struct_ends [OF s(1,2) si s(8,9) enc m1' n1] obtain c' where
    l3: "leads d c1 [(State_StructEnd, name, FieldEncoding_Struct, word_of_nat ?k, tag, 1, [])] c'"
    and c': "base_ok d c'" "static_part c' = static_part s" "stack_index c' = stack_index s"
      "take (stack_index s) (stack c') = take (stack_index s) (stack s)"
      "next_offset (stack_top c') = next_offset (stack_top c1)" "data_pos_raw c' = data_pos_raw c1"
      "remaining_field_count (stack_top c') = remaining_field_count (stack_top s)"
      "move_next_remaining c' = move_next_remaining c1 - 1"
    using nm s(11) by auto
  have "leads d c (items_of (Struct name tag fs)) c'"
    using leads_trans [OF l1 leads_trans [OF l2 l3]] by simp
  moreover have "moved_on d c c' (?h + ?M) ?D 1 (?N + 2)"
    using c' m1 s by (simp add: moved_on_def struct_ctx_def)
  ultimately show ?thesis
    unfolding fields_decode_def by (intro exI [of _ c']) (simp add: add.assoc)
qed

lemma field_decodes: "fields_at d be [f] c \<Longrightarrow> fields_decode d be [f] c"
proof (induction f arbitrary: c)
  case (Scalar name e fmt tag v)
  note en = value_encoding_facts [OF elem_ok_value_encoding [of e v]]
  from Scalar en have "field_meta_at d be name e fmt tag c" "elem_ok e v"
    "at d (data_pos_raw c) (elem_raw be e v)" "0 < move_next_remaining c"
    by (auto simp: fields_at_def field_meta_at_def)
  from scalar_decodes [OF this] show ?case by (simp add: fields_decode_def)
next
  case (Array name e fmt tag vs)
  then have ve: "value_encoding e" by (simp add: fields_at_def value_encoding_def)
  note en = value_encoding_facts [OF ve]
  from Array en have "field_meta_at d be name (e OR FieldEncoding_VArrayFlag) fmt tag c"
    by (auto simp: fields_at_def field_meta_at_def)
  moreover from Array have "\<forall>x \<in> set vs. elem_ok e x" "length vs < 65536"
    "at d (data_pos_raw c) (to_ne_bytes be 2 (length vs) @ concat (map (elem_raw be e) vs))"
    "length vs + 2 \<le> move_next_remaining c"
    by (auto simp: fields_at_def)
  ultimately show ?case using array_decodes [OF _ ve] by (simp add: fields_decode_def)
next
  case (Struct name tag fs)
  show ?case
  proof (rule struct_decodes [OF Struct.prems])
    fix c assume "fields_at d be fs c"
    then show "fields_decode d be fs c" by (rule fields_decode_list [rotated]) (rule Struct.IH)
  qed
qed

lemma fields_decode_all: "fields_at d be fs c \<Longrightarrow> fields_decode d be fs c"
  by (rule fields_decode_list) (simp_all add: field_decodes)

end
