(* ===== verification/Tracepoint.thy ===== *)
theory Tracepoint
  imports Rust_Prelude
begin

unbundle bit_operations_syntax

text \<open>
  \<open>tracepoint/src/native.rs\<close> and \<open>tracepoint/src/descriptors.rs\<close>, in the configuration with the
  \<open>user_events\<close> feature on Linux: the \<open>user_events_data\<close> file, the registration of a tracepoint and
  the writing of an event. The kernel is a parameter: \<open>linux\<close> holds one function per system call
  the code makes, on a state \<open>'w\<close> of its own; a failed call returns \<open>Inl errno\<close>. The functions here
  are the calls of a single thread; \<open>Tracepoint_Concurrency\<close> has their atomic steps interleaved.
  An \<open>EventDataDescriptor\<close> is the block of bytes it points to.
\<close>

section \<open>Blocks of data\<close>

type_synonym EventDataDescriptor = bytes

definition EventDataDescriptor_zero :: EventDataDescriptor where
  "EventDataDescriptor_zero = []"

definition EventDataDescriptor_is_empty :: "EventDataDescriptor \<Rightarrow> bool" where
  "EventDataDescriptor_is_empty b = (length b = 0)"

definition EventDataDescriptor_from_bytes :: "bytes \<Rightarrow> EventDataDescriptor" where
  "EventDataDescriptor_from_bytes v = v"

text \<open>
  A value of a \<open>Copy\<close> type is the list of its bytes in memory, and a slice of such values is a list
  of them; the default of the character types is all zero bits.
\<close>

definition is_default :: "bytes \<Rightarrow> bool" where
  "is_default v = (\<forall>b \<in> set v. b = 0)"

fun cstr_scan :: "bytes list \<Rightarrow> nat \<Rightarrow> nat" where
  "cstr_scan [] len = len"
| "cstr_scan (v # vs) len = (if is_default v then len else cstr_scan vs (len + 1))"

definition EventDataDescriptor_from_cstr :: "bytes list \<Rightarrow> EventDataDescriptor" where
  "EventDataDescriptor_from_cstr v =
     (let v = (if length v > 65535 then take 65535 v else v)
      in concat (take (cstr_scan v 0) v))"

definition EventDataDescriptor_from_slice :: "bytes list \<Rightarrow> EventDataDescriptor" where
  "EventDataDescriptor_from_slice v = concat (if 65535 < length v then take 65535 v else v)"

section \<open>The kernel interface\<close>

record user_reg =
  reg_size :: u32
  enable_bit :: u8
  enable_size :: u8
  reg_flags :: u16
  enable_addr :: u64
  reg_name_args :: bytes

record user_unreg =
  unreg_size :: u32
  disable_bit :: u8
  reserved1 :: u8
  reserved2 :: u16
  disable_addr :: u64

record 'w linux =
  linux_open :: "bytes \<Rightarrow> 'w \<Rightarrow> (int + int) \<times> 'w"
  linux_close :: "int \<Rightarrow> 'w \<Rightarrow> 'w"
  linux_mounts :: "'w \<Rightarrow> (int + bytes list) \<times> 'w"
  linux_ioctl_reg :: "int \<Rightarrow> u64 \<Rightarrow> user_reg \<Rightarrow> 'w \<Rightarrow> (int + u32) \<times> 'w"
  linux_ioctl_unreg :: "int \<Rightarrow> u64 \<Rightarrow> user_unreg \<Rightarrow> 'w \<Rightarrow> (int + unit) \<times> 'w"
  linux_writev :: "int \<Rightarrow> EventDataDescriptor list \<Rightarrow> 'w \<Rightarrow> (int + unit) \<times> 'w"

definition get_failure_errno :: "bool \<Rightarrow> int \<Rightarrow> int option" where
  "get_failure_errno dbg errno = do {
     debug_assert dbg (errno > 0);
     Some errno
   }"

section \<open>The user\_events\_data file\<close>

definition EAGAIN_ERROR :: int where
  "EAGAIN_ERROR = -11"

definition ENOTSUP :: int where
  "ENOTSUP = 95"

definition is_space_char :: "u8 \<Rightarrow> bool" where
  "is_space_char ch = (ch = 0x20 \<or> ch = 0x09)"

definition is_nonspace_char :: "u8 \<Rightarrow> bool" where
  "is_nonspace_char ch = (ch \<noteq> 0 \<and> \<not> is_space_char ch)"

text \<open>The five loops \<open>while is_..._char(line[line_pos]) { line_pos += 1 }\<close>.\<close>

function skip_while :: "(u8 \<Rightarrow> bool) \<Rightarrow> bytes \<Rightarrow> nat \<Rightarrow> nat option" where
  "skip_while p line pos = do {
     ch \<leftarrow> index line pos;
     (if p ch then skip_while p line (Suc pos) else Some pos)
   }"
  by pat_completeness auto
termination
  by (relation "measure (\<lambda>(p, line, pos). length line - pos)") (auto simp: index_def split: if_splits)

declare skip_while.simps [simp del]

definition tracefs_name :: bytes where
  "tracefs_name = [0x74, 0x72, 0x61, 0x63, 0x65, 0x66, 0x73]"

definition debugfs_name :: bytes where
  "debugfs_name = [0x64, 0x65, 0x62, 0x75, 0x67, 0x66, 0x73]"

text \<open>\<open>/user_events_data\<close> and \<open>/tracing/user_events_data\<close>, with the final NUL.\<close>

definition user_events_suffix :: bytes where
  "user_events_suffix =
     [0x2F, 0x75, 0x73, 0x65, 0x72, 0x5F, 0x65, 0x76, 0x65, 0x6E, 0x74, 0x73, 0x5F, 0x64, 0x61, 0x74, 0x61, 0]"

definition debugfs_suffix :: bytes where
  "debugfs_suffix = [0x2F, 0x74, 0x72, 0x61, 0x63, 0x69, 0x6E, 0x67] @ user_events_suffix"

definition usual_path :: bytes where
  "usual_path =
     [0x2F, 0x73, 0x79, 0x73, 0x2F, 0x6B, 0x65, 0x72, 0x6E, 0x65, 0x6C,
      0x2F, 0x74, 0x72, 0x61, 0x63, 0x69, 0x6E, 0x67] @ user_events_suffix"

definition copy_from_slice :: "'a list \<Rightarrow> nat \<Rightarrow> nat \<Rightarrow> 'a list \<Rightarrow> 'a list option" where
  "copy_from_slice dst a b v =
     (if a \<le> b \<and> b \<le> length dst \<and> length v = b - a then Some (take a dst @ v @ drop b dst) else Panic)"

text \<open>
  The body of the loop over \<open>/proc/mounts\<close>: \<open>line\<close> is the whole line buffer after \<open>fgets\<close>, \<open>path\<close>
  the path buffer. The result says whether to go on with the next line.
\<close>

definition mount_line :: "bool \<Rightarrow> bytes \<Rightarrow> bytes \<Rightarrow> (bool \<times> bytes) option" where
  "mount_line dbg line path = do {
     p \<leftarrow> skip_while is_nonspace_char line 0;
     mount_begin \<leftarrow> skip_while is_space_char line p;
     mount_end \<leftarrow> skip_while is_nonspace_char line mount_begin;
     fs_begin \<leftarrow> skip_while is_space_char line mount_end;
     fs_end \<leftarrow> skip_while is_nonspace_char line fs_begin;
     ch \<leftarrow> index line fs_end;
     (if \<not> is_space_char ch then Some (True, path)
      else do {
        fs \<leftarrow> slice line fs_begin fs_end;
        first \<leftarrow> index path 0;
        (if fs = tracefs_name \<or> (first = 0 \<and> fs = debugfs_name) then do {
           let path_suffix = (if fs = tracefs_name then user_events_suffix else debugfs_suffix);
           let keep_looking = (fs \<noteq> tracefs_name);
           mount_len \<leftarrow> usub 64 dbg mount_end mount_begin;
           let path_len = mount_len + length path_suffix;
           (if path_len > length path then Some (True, path)
            else do {
              m \<leftarrow> slice line mount_begin mount_end;
              path \<leftarrow> copy_from_slice path 0 mount_len m;
              path \<leftarrow> copy_from_slice path mount_len path_len path_suffix;
              Some (keep_looking, path)
            })
         }
         else Some (True, path))
      })
   }"

fun mount_lines :: "bool \<Rightarrow> bytes list \<Rightarrow> bytes \<Rightarrow> bytes option" where
  "mount_lines dbg [] path = Some path"
| "mount_lines dbg (line # ls) path = do {
     (go_on, path) \<leftarrow> mount_line dbg line path;
     (if go_on then mount_lines dbg ls path else Some path)
   }"

definition open_wronly :: "'w linux \<Rightarrow> bytes \<Rightarrow> 'w \<Rightarrow> ((int + int) \<times> 'w) option" where
  "open_wronly os path0 w = do {
     rust_assert (path0 \<noteq> [] \<and> last path0 = 0);
     Some (linux_open os path0 w)
   }"

text \<open>The first half of \<open>update\<close>: a file descriptor, or the negated \<open>errno\<close>.\<close>

definition open_user_events_data :: "bool \<Rightarrow> 'w linux \<Rightarrow> 'w \<Rightarrow> (int \<times> 'w) option" where
  "open_user_events_data dbg os w = do {
     (r, w) \<leftarrow> open_wronly os usual_path w;
     (case r of
        Inr new_file \<Rightarrow> Some (new_file, w)
      | Inl _ \<Rightarrow> do {
          let (mounts, w) = linux_mounts os w;
          (case mounts of
             Inl errno \<Rightarrow> do {
               e \<leftarrow> get_failure_errno dbg errno;
               Some (- e, w)
             }
           | Inr lines \<Rightarrow> do {
               path \<leftarrow> mount_lines dbg lines (replicate 274 0);
               first \<leftarrow> index path 0;
               (if first = 0 then Some (- ENOTSUP, w)
                else do {
                  (r, w) \<leftarrow> open_wronly os path w;
                  (case r of
                     Inr new_file \<Rightarrow> Some (new_file, w)
                   | Inl errno \<Rightarrow> do {
                       e \<leftarrow> get_failure_errno dbg errno;
                       Some (- e, w)
                     })
                })
             })
        })
   }"

text \<open>
  One turn of the compare-exchange loop: the value is stored, or the current one is kept, or the
  loop tries again with the current one as the expected value.
\<close>

datatype cas_outcome = Cas_Stored int | Cas_Kept int | Cas_Retry int

definition update_cas :: "int \<Rightarrow> int \<Rightarrow> int \<Rightarrow> cas_outcome" where
  "update_cas current old new =
     (if current = old then Cas_Stored new
      else if current \<ge> 0 \<or> new < 0 then Cas_Kept current
      else Cas_Retry current)"

text \<open>
  The whole of \<open>update\<close> with nobody else at the variable: the second turn finds the value that the
  first one read, so the loop makes at most two turns. The result is the return value, the new
  \<open>file_or_error\<close> and the kernel's state.
\<close>

definition update :: "bool \<Rightarrow> 'w linux \<Rightarrow> int \<Rightarrow> 'w \<Rightarrow> (int \<times> int \<times> 'w) option" where
  "update dbg os file_or_error w = do {
     (new, w) \<leftarrow> open_user_events_data dbg os w;
     (case update_cas file_or_error EAGAIN_ERROR new of
        Cas_Stored v \<Rightarrow> Some (v, v, w)
      | Cas_Kept v \<Rightarrow> Some (v, file_or_error, if new \<ge> 0 then linux_close os new w else w)
      | Cas_Retry old \<Rightarrow>
          (case update_cas file_or_error old new of
             Cas_Stored v \<Rightarrow> Some (v, v, w)
           | _ \<Rightarrow> Panic))
   }"

definition data_file_get :: "bool \<Rightarrow> 'w linux \<Rightarrow> int \<Rightarrow> 'w \<Rightarrow> (int \<times> int \<times> 'w) option" where
  "data_file_get dbg os file_or_error w =
     (if file_or_error = EAGAIN_ERROR then update dbg os file_or_error w
      else Some (file_or_error, file_or_error, w))"

definition data_file_close :: "'w linux \<Rightarrow> int \<Rightarrow> 'w \<Rightarrow> int \<times> 'w" where
  "data_file_close os file_or_error w =
     (EAGAIN_ERROR, if file_or_error \<ge> 0 then linux_close os file_or_error w else w)"

section \<open>Tracepoints\<close>

record TracepointState =
  enable_status :: u32
  write_index :: u32
  enable_status_addr :: u64

definition UNREGISTERED_WRITE_INDEX :: u32 where
  "UNREGISTERED_WRITE_INDEX = 0xFFFFFFFF"

definition BUSY_WRITE_INDEX :: u32 where
  "BUSY_WRITE_INDEX = 0xFFFFFFFE"

definition HIGHEST_VALID_WRITE_INDEX :: u32 where
  "HIGHEST_VALID_WRITE_INDEX = 0xFFFFFFFD"

definition ioc :: "target \<Rightarrow> u64 \<Rightarrow> u64 \<Rightarrow> u64 \<Rightarrow> u64" where
  "ioc tgt dir typ nr =
     push_bit 30 dir OR push_bit 8 typ OR push_bit 0 nr
     OR push_bit 16 (if pointer64 tgt then 8 else 4)"

definition DIAG_IOCSREG :: "target \<Rightarrow> u64" where
  "DIAG_IOCSREG tgt = ioc tgt (1 OR 2) 0x2A 0"

definition DIAG_IOCSUNREG :: "target \<Rightarrow> u64" where
  "DIAG_IOCSUNREG tgt = ioc tgt 1 0x2A 2"

definition TracepointState_new :: "u32 \<Rightarrow> u64 \<Rightarrow> TracepointState" where
  "TracepointState_new initial_enable_status addr =
     \<lparr>enable_status = initial_enable_status, write_index = UNREGISTERED_WRITE_INDEX,
      enable_status_addr = addr\<rparr>"

definition enabled :: "TracepointState \<Rightarrow> bool" where
  "enabled t = (0 \<noteq> enable_status t)"

definition unregister :: "target \<Rightarrow> 'w linux \<Rightarrow> int \<Rightarrow> TracepointState \<Rightarrow> 'w \<Rightarrow> (int \<times> TracepointState \<times> 'w) option" where
  "unregister tgt os file t w = do {
     let old_write_index = write_index t;
     let t = t\<lparr>write_index := BUSY_WRITE_INDEX\<rparr>;
     (if old_write_index = BUSY_WRITE_INDEX then Some (16, t, w)
      else do {
        (error, w) \<leftarrow>
          (if old_write_index = UNREGISTERED_WRITE_INDEX then Some (116, w)
           else do {
             let unreg = \<lparr>unreg_size = 16, disable_bit = 0, reserved1 = 0, reserved2 = 0,
                          disable_addr = enable_status_addr t\<rparr>;
             let (r, w) = linux_ioctl_unreg os file (DIAG_IOCSUNREG tgt) unreg w;
             (case r of
                Inl errno \<Rightarrow> do {
                  e \<leftarrow> get_failure_errno (debug_assertions tgt) errno;
                  Some (e, w)
                }
              | Inr _ \<Rightarrow> Some (0, w))
           });
        debug_assert (debug_assertions tgt) (write_index t = BUSY_WRITE_INDEX);
        Some (error, t\<lparr>write_index := UNREGISTERED_WRITE_INDEX\<rparr>, w)
      })
   }"

text \<open>The result is the error code, the tracepoint, the new \<open>file_or_error\<close> and the kernel's state.\<close>

definition register_with_flags ::
  "target \<Rightarrow> 'w linux \<Rightarrow> int \<Rightarrow> bytes \<Rightarrow> u16 \<Rightarrow> TracepointState \<Rightarrow> 'w
    \<Rightarrow> (int \<times> TracepointState \<times> int \<times> 'w) option" where
  "register_with_flags tgt os file name_args flags t w = do {
     let old_write_index = write_index t;
     let t = t\<lparr>write_index := BUSY_WRITE_INDEX\<rparr>;
     rust_assert (old_write_index = UNREGISTERED_WRITE_INDEX);
     (user_events_data, file, w) \<leftarrow> data_file_get (debug_assertions tgt) os file w;
     (error, new_write_index, w) \<leftarrow>
       (if user_events_data < 0 then Some (- user_events_data, UNREGISTERED_WRITE_INDEX, w)
        else do {
          let reg = \<lparr>reg_size = 28, enable_bit = 0, enable_size = 4, reg_flags = flags,
                     enable_addr = enable_status_addr t, reg_name_args = name_args\<rparr>;
          let (r, w) = linux_ioctl_reg os user_events_data (DIAG_IOCSREG tgt) reg w;
          (case r of
             Inl errno \<Rightarrow> do {
               e \<leftarrow> get_failure_errno (debug_assertions tgt) errno;
               Some (e, UNREGISTERED_WRITE_INDEX, w)
             }
           | Inr idx \<Rightarrow> do {
               debug_assert (debug_assertions tgt) (idx \<le> HIGHEST_VALID_WRITE_INDEX);
               Some (0, idx, w)
             })
        });
     debug_assert (debug_assertions tgt) (write_index t = BUSY_WRITE_INDEX);
     Some (error, t\<lparr>write_index := new_write_index\<rparr>, file, w)
   }"

definition register ::
  "target \<Rightarrow> 'w linux \<Rightarrow> int \<Rightarrow> bytes \<Rightarrow> TracepointState \<Rightarrow> 'w \<Rightarrow> (int \<times> TracepointState \<times> int \<times> 'w) option" where
  "register tgt os file name_args t w = register_with_flags tgt os file name_args 0 t w"

text \<open>\<open>writev\<close> puts the headers into the first block, sends all blocks and clears the first again.\<close>

definition writev :: "target \<Rightarrow> 'w linux \<Rightarrow> int \<Rightarrow> EventDataDescriptor list \<Rightarrow> bytes \<Rightarrow> 'w \<Rightarrow> (int \<times> 'w) option" where
  "writev tgt os file data headers w = do {
     data \<leftarrow> store data 0 headers;
     let (r, w) = linux_writev os file data w;
     (case r of
        Inl errno \<Rightarrow> do {
          e \<leftarrow> get_failure_errno (debug_assertions tgt) errno;
          Some (e, w)
        }
      | Inr _ \<Rightarrow> Some (0, w))
   }"

definition write_event ::
  "target \<Rightarrow> 'w linux \<Rightarrow> int \<Rightarrow> TracepointState \<Rightarrow> EventDataDescriptor list \<Rightarrow> 'w \<Rightarrow> (int \<times> 'w) option" where
  "write_event tgt os file t data w = do {
     (if debug_assertions tgt then do {
        d0 \<leftarrow> index data 0;
        debug_assert True (EventDataDescriptor_is_empty d0)
      } else Some ());
     (if enable_status t = 0 \<or> write_index t > HIGHEST_VALID_WRITE_INDEX then Some (9, w)
      else writev tgt os file data (to_ne_bytes (big_endian tgt) 4 (unat (write_index t))) w)
   }"

definition write_with_headers ::
  "target \<Rightarrow> 'w linux \<Rightarrow> int \<Rightarrow> TracepointState \<Rightarrow> EventDataDescriptor list \<Rightarrow> bytes \<Rightarrow> 'w \<Rightarrow> (int \<times> 'w) option" where
  "write_with_headers tgt os file t data headers w = do {
     (if debug_assertions tgt then do {
        d0 \<leftarrow> index data 0;
        debug_assert True (EventDataDescriptor_is_empty d0);
        debug_assert True (length headers \<ge> 4)
      } else Some ());
     (if enable_status t = 0 \<or> write_index t > HIGHEST_VALID_WRITE_INDEX then Some (9, w)
      else do {
        headers \<leftarrow> copy_from_slice headers 0 4 (to_ne_bytes (big_endian tgt) 4 (unat (write_index t)));
        writev tgt os file data headers w
      })
   }"

section \<open>Parsing the mounts\<close>

lemma skip_while_stops:
  assumes "pos \<le> z" "z < length line" "\<not> p (line ! z)"
  shows "\<exists>e. skip_while p line pos = Some e \<and> pos \<le> e \<and> e \<le> z \<and> \<not> p (line ! e)
    \<and> (\<forall>i. pos \<le> i \<and> i < e \<longrightarrow> p (line ! i))"
  using assms
proof (induction p line pos rule: skip_while.induct)
  case (1 p line pos)
  show ?case
  proof (cases "p (line ! pos)")
    case True
    with "1.prems" have "pos < z" by (metis le_neq_implies_less)
    with True "1.prems" have step: "skip_while p line pos = skip_while p line (Suc pos)"
      by (subst skip_while.simps) simp
    from "1.IH" [of "line ! pos"] True "1.prems" \<open>pos < z\<close> obtain e where
      e: "skip_while p line (Suc pos) = Some e" "Suc pos \<le> e" "e \<le> z" "\<not> p (line ! e)"
        "\<forall>i. Suc pos \<le> i \<and> i < e \<longrightarrow> p (line ! i)"
      by auto
    have "\<forall>i. pos \<le> i \<and> i < e \<longrightarrow> p (line ! i)"
      using e(5) True by (metis Suc_leI le_neq_implies_less)
    with e step show ?thesis by auto
  next
    case False
    with "1.prems" have "skip_while p line pos = Some pos"
      by (subst skip_while.simps) simp
    with False "1.prems" show ?thesis by auto
  qed
qed

lemma wp_skip_whileI:
  assumes "pos \<le> z" "z < length line" "\<not> p (line ! z)"
    and "\<And>e. pos \<le> e \<Longrightarrow> e \<le> z \<Longrightarrow> Q e"
  shows "wp (skip_while p line pos) Q"
  using skip_while_stops [of pos z line p] assms by (auto simp: wp_iff)

lemma not_space_nul [simp]: "\<not> is_space_char 0" "\<not> is_nonspace_char 0"
  by (simp_all add: is_space_char_def is_nonspace_char_def)

text \<open>The path buffer always ends with a NUL, as \<open>open_wronly\<close> asserts.\<close>

definition path_ok :: "bytes \<Rightarrow> bool" where
  "path_ok path \<longleftrightarrow> length path = 274 \<and> path ! 273 = 0"

lemma suffix_lengths [simp]: "length user_events_suffix = 18" "length debugfs_suffix = 26"
  by (simp_all add: user_events_suffix_def debugfs_suffix_def)

lemma suffix_last: "user_events_suffix ! 17 = 0" "debugfs_suffix ! 25 = 0"
  by (simp_all add: user_events_suffix_def debugfs_suffix_def)

lemma copy_from_slice_in [simp]:
  "a \<le> b \<Longrightarrow> b \<le> length dst \<Longrightarrow> length v = b - a \<Longrightarrow>
   copy_from_slice dst a b v = Some (take a dst @ v @ drop b dst)"
  by (simp add: copy_from_slice_def)

lemma path_ok_copy:
  assumes p: "path_ok path" and m: "length m = n" "n + length sfx \<le> 274" and l: "sfx \<noteq> []" "last sfx = 0"
  shows "path_ok (m @ sfx @ drop (n + length sfx) path)"
proof (cases "n + length sfx = 274")
  case True
  then have "273 - n = length sfx - 1" "n \<le> 273" using l(1) by (cases sfx; simp)+
  with True assms show ?thesis by (simp add: path_ok_def nth_append last_conv_nth)
next
  case False
  with m have "\<not> 273 < n + length sfx" "\<not> 273 - n < length sfx" by linarith+
  with m p show ?thesis by (simp add: path_ok_def nth_append)
qed

lemma mount_line_safe:
  assumes "0 \<in> set line" "path_ok path"
  shows "wp (mount_line dbg line path) (\<lambda>(go_on, path'). path_ok path')"
proof -
  from assms(1) obtain z where z: "z < length line" "line ! z = 0" by (auto simp: in_set_conv_nth)
  have ok: "path_ok (take (b - a) (drop a line) @ sfx @ drop (length sfx + b - a) path)"
    if "a \<le> b" "b \<le> z" "\<not> 274 < b + length sfx - a" "sfx = user_events_suffix \<or> sfx = debugfs_suffix"
    for a b sfx
  proof -
    have "path_ok (take (b - a) (drop a line) @ sfx @ drop ((b - a) + length sfx) path)"
      by (rule path_ok_copy) (use assms(2) that z in \<open>auto simp: user_events_suffix_def debugfs_suffix_def\<close>)
    with that show ?thesis by (simp add: add.commute)
  qed
  have len: "length path = 274" using assms(2) by (simp add: path_ok_def)
  then have "path \<noteq> []" by auto
  with z len assms(2) ok [of _ _ user_events_suffix] ok [of _ _ debugfs_suffix] show ?thesis
    unfolding mount_line_def
    by (intro wp_intros wp_skip_whileI [where z = z])
      (auto simp: tracefs_name_def debugfs_name_def)
qed

lemma mount_lines_safe:
  assumes "\<forall>line \<in> set ls. 0 \<in> set line" "path_ok path"
  shows "wp (mount_lines dbg ls path) path_ok"
  using assms
proof (induction ls arbitrary: path)
  case (Cons line ls)
  then have "wp (mount_line dbg line path) (\<lambda>(go_on, path'). path_ok path')"
    by (intro mount_line_safe) simp_all
  then obtain go_on path' where "mount_line dbg line path = Some (go_on, path')" "path_ok path'"
    by (auto simp: wp_iff)
  with Cons show ?case by simp
qed simp

section \<open>Calls of one thread\<close>

text \<open>
  What the code relies on of the kernel and of libc: a failed call sets a positive \<open>errno\<close>, a file
  descriptor is not negative, \<open>fgets\<close> ends the line with a NUL, and a write index is not one of the
  two values the code reserves.
\<close>

definition kernel_ok :: "'w linux \<Rightarrow> bool" where
  "kernel_ok os \<longleftrightarrow>
     (\<forall>p w e w'. linux_open os p w = (Inl e, w') \<longrightarrow> 0 < e)
     \<and> (\<forall>p w f w'. linux_open os p w = (Inr f, w') \<longrightarrow> 0 \<le> f)
     \<and> (\<forall>w e w'. linux_mounts os w = (Inl e, w') \<longrightarrow> 0 < e)
     \<and> (\<forall>w ls w'. linux_mounts os w = (Inr ls, w') \<longrightarrow> (\<forall>l \<in> set ls. 0 \<in> set l))
     \<and> (\<forall>f c r w e w'. linux_ioctl_reg os f c r w = (Inl e, w') \<longrightarrow> 0 < e)
     \<and> (\<forall>f c r w i w'. linux_ioctl_reg os f c r w = (Inr i, w') \<longrightarrow> i \<le> HIGHEST_VALID_WRITE_INDEX)
     \<and> (\<forall>f c r w e w'. linux_ioctl_unreg os f c r w = (Inl e, w') \<longrightarrow> 0 < e)
     \<and> (\<forall>f d w e w'. linux_writev os f d w = (Inl e, w') \<longrightarrow> 0 < e)"

lemma kernel_okD:
  assumes "kernel_ok os"
  shows "linux_open os p w = (Inl e, w') \<Longrightarrow> 0 < e" "linux_open os p w = (Inr f, w') \<Longrightarrow> 0 \<le> f"
    "linux_mounts os w = (Inl e, w') \<Longrightarrow> 0 < e"
    "linux_mounts os w = (Inr ls, w') \<Longrightarrow> \<forall>l \<in> set ls. 0 \<in> set l"
    "linux_ioctl_reg os fd c r w = (Inl e, w') \<Longrightarrow> 0 < e"
    "linux_ioctl_reg os fd c r w = (Inr i, w') \<Longrightarrow> i \<le> HIGHEST_VALID_WRITE_INDEX"
    "linux_ioctl_unreg os fd c ur w = (Inl e, w') \<Longrightarrow> 0 < e"
    "linux_writev os fd d w = (Inl e, w') \<Longrightarrow> 0 < e"
  using assms unfolding kernel_ok_def by meson+

lemma wp_get_failure_errno [simp]: "0 < e \<Longrightarrow> get_failure_errno dbg e = Some e"
  by (simp add: get_failure_errno_def debug_assert_def)

lemma path_ok_open: "path_ok path \<Longrightarrow> path \<noteq> [] \<and> last path = 0"
  by (cases "path = []") (simp_all add: path_ok_def last_conv_nth)

lemma open_user_events_data_safe:
  assumes k: "kernel_ok os"
  shows "wp (open_user_events_data dbg os w) (\<lambda>(r, w'). True)"
proof -
  note kd = kernel_okD [OF k]
  have u: "usual_path \<noteq> [] \<and> last usual_path = 0" by (simp add: usual_path_def user_events_suffix_def)
  have p0: "path_ok (replicate 274 0)" by (simp add: path_ok_def)
  have m: "wp (mount_lines dbg ls (replicate 274 0)) Q"
    if "\<forall>l \<in> set ls. 0 \<in> set l" "\<And>path. path_ok path \<Longrightarrow> Q path" for ls Q
    by (rule wp_mono [OF mount_lines_safe [OF that(1) p0]]) (rule that(2))
  have len: "path_ok path \<Longrightarrow> index path 0 = Some (path ! 0)" for path
    by (simp add: index_def path_ok_def)
  show ?thesis
    unfolding open_user_events_data_def open_wronly_def
    by (cases "linux_open os usual_path w"; cases "linux_mounts os (snd (linux_open os usual_path w))")
      (use u path_ok_open len in \<open>auto simp: wp_rules intro!: m split: sum.split prod.split
        dest!: kd\<close>)
qed

lemma data_file_get_safe:
  assumes "kernel_ok os"
  shows "wp (data_file_get dbg os fd w) (\<lambda>(r, fd', w'). fd' \<noteq> EAGAIN_ERROR \<longrightarrow> r = fd')"
proof -
  obtain r w' where o: "open_user_events_data dbg os w = Some (r, w')"
    using open_user_events_data_safe [OF assms, of dbg w] by (auto simp: wp_iff)
  then show ?thesis
    by (simp add: data_file_get_def update_def update_cas_def)
qed

lemma register_post:
  assumes k: "kernel_ok os" and u: "write_index t = UNREGISTERED_WRITE_INDEX"
  shows "wp (register_with_flags tgt os fd name_args flags t w) (\<lambda>(error, t', file', w').
      (if error = 0 then write_index t' \<le> HIGHEST_VALID_WRITE_INDEX
       else write_index t' = UNREGISTERED_WRITE_INDEX)
      \<and> enable_status t' = enable_status t \<and> enable_status_addr t' = enable_status_addr t)"
proof -
  obtain r fd' w' where g: "data_file_get (debug_assertions tgt) os fd w = Some (r, fd', w')"
    using data_file_get_safe [OF k, of "debug_assertions tgt" fd w]
    by (auto simp: wp_iff)
  note kd = kernel_okD [OF k]
  show ?thesis
    unfolding register_with_flags_def
    by (cases "linux_ioctl_reg os r (DIAG_IOCSREG tgt) \<lparr>reg_size = 28, enable_bit = 0, enable_size = 4,
          reg_flags = flags, enable_addr = enable_status_addr t, reg_name_args = name_args\<rparr> w'")
      (use u g in \<open>auto simp: wp_rules Let_def split: sum.split dest: kd\<close>)
qed

lemma unregister_post:
  assumes k: "kernel_ok os"
  shows "wp (unregister tgt os file t w) (\<lambda>(error, t', w').
      if write_index t = BUSY_WRITE_INDEX then error = 16 \<and> t' = t \<and> w' = w
      else write_index t' = UNREGISTERED_WRITE_INDEX
        \<and> (write_index t = UNREGISTERED_WRITE_INDEX \<longrightarrow> error = 116 \<and> w' = w))"
proof -
  note kd = kernel_okD [OF k]
  show ?thesis
    unfolding unregister_def
    by (cases "linux_ioctl_unreg os file (DIAG_IOCSUNREG tgt) \<lparr>unreg_size = 16, disable_bit = 0,
          reserved1 = 0, reserved2 = 0, disable_addr = enable_status_addr t\<rparr> w")
      (auto simp: wp_rules Let_def split: sum.split dest: kd)
qed

text \<open>
  What \<open>write_with_headers\<close> hands to the kernel: all blocks in one call, the first one being the
  headers with the write index in their first four bytes.
\<close>

definition sent_blocks :: "target \<Rightarrow> u32 \<Rightarrow> bytes \<Rightarrow> EventDataDescriptor list \<Rightarrow> EventDataDescriptor list" where
  "sent_blocks tgt idx headers data =
     (to_ne_bytes (big_endian tgt) 4 (unat idx) @ drop 4 headers) # tl data"

lemma list_update_hd: "data \<noteq> [] \<Longrightarrow> data[0 := x] = x # tl data"
  by (cases data) simp_all

lemma write_with_headers_post:
  assumes k: "kernel_ok os" and d: "data \<noteq> []" "hd data = []" and h: "4 \<le> length headers"
  shows "write_with_headers tgt os file t data headers w =
    (if enable_status t = 0 \<or> write_index t > HIGHEST_VALID_WRITE_INDEX then Some (9, w)
     else case linux_writev os file (sent_blocks tgt (write_index t) headers data) w of
       (Inl e, w') \<Rightarrow> Some (e, w') | (Inr _, w') \<Rightarrow> Some (0, w'))"
proof -
  note kd = kernel_okD(8) [OF k]
  have "data ! 0 = []" using d by (cases data) simp_all
  with d h show ?thesis
    by (cases "linux_writev os file (sent_blocks tgt (write_index t) headers data) w")
      (auto simp: write_with_headers_def writev_def sent_blocks_def list_update_hd index_def store_def
        EventDataDescriptor_is_empty_def debug_assert_def split: sum.split dest: kd)
qed

text \<open>A kernel that grants every request and keeps what it was sent.\<close>

definition sample_kernel :: "bytes list linux" where
  "sample_kernel =
     \<lparr>linux_open = (\<lambda>path w. (Inr 3, w)), linux_close = (\<lambda>fd w. w), linux_mounts = (\<lambda>w. (Inr [], w)),
      linux_ioctl_reg = (\<lambda>fd code reg w. (Inr 7, w)), linux_ioctl_unreg = (\<lambda>fd code unreg w. (Inr (), w)),
      linux_writev = (\<lambda>fd blocks w. (Inr (), w @ [concat blocks]))\<rparr>"

lemma sample_kernel_ok: "kernel_ok sample_kernel"
  by (simp add: kernel_ok_def sample_kernel_def HIGHEST_VALID_WRITE_INDEX_def)

end
