(* ===== verification/Event_Writer.thy ===== *)
theory Event_Writer
  imports Tracepoint EventHeader_Types
begin

unbundle bit_operations_syntax

text \<open>
  \<open>eventheader/src/_internal.rs\<close>: the runtime of the generated code and of the dynamic API. The
  headers of an event are built in a stack buffer of 52 bytes through raw pointers; here they are
  the list of the bytes written, and \<open>write_eventheader_headers_bound\<close> shows that they fit.
\<close>

definition tag_byte0 :: "target \<Rightarrow> u16 \<Rightarrow> u8" where
  "tag_byte0 tgt tag = to_ne_bytes (big_endian tgt) 2 (unat tag) ! 0"

definition tag_byte1 :: "target \<Rightarrow> u16 \<Rightarrow> u8" where
  "tag_byte1 tgt tag = to_ne_bytes (big_endian tgt) 2 (unat tag) ! 1"

definition slice_count :: "'a list \<Rightarrow> u16" where
  "slice_count v = (let len = length v in if 65535 < len then 65535 else word_of_nat len)"

text \<open>A \<open>Duration\<close> is its seconds (a \<open>u64\<close>) and the nanoseconds of its last second.\<close>

definition I64_MAX :: int where
  "I64_MAX = 2 ^ 63 - 1"

definition I64_MIN :: int where
  "I64_MIN = - (2 ^ 63)"

definition time_from_duration_after_1970 :: "u64 \<times> nat \<Rightarrow> int" where
  "time_from_duration_after_1970 d = (if uint (fst d) > I64_MAX then I64_MAX else uint (fst d))"

definition time_from_duration_before_1970 :: "u64 \<times> nat \<Rightarrow> int" where
  "time_from_duration_before_1970 d =
     (if uint (fst d) > I64_MAX then I64_MIN
      else - uint (fst d) - (if snd d \<noteq> 0 then 1 else 0))"

definition HEADERS_SIZE_MAX :: nat where
  "HEADERS_SIZE_MAX = 4 + size_of_EventHeader + (size_of_EventHeaderExtension + 16 + 16)
     + size_of_EventHeaderExtension"

text \<open>
  The headers: four bytes for the write index, the event header, the activity extension, the header
  of the metadata extension. \<open>extension_count\<close> is a \<open>u8\<close>.
\<close>

definition activity_extension ::
  "target \<Rightarrow> bytes option \<Rightarrow> bytes option \<Rightarrow> nat \<Rightarrow> (bytes \<times> nat) option" where
  "activity_extension tgt activity_id related_id extension_count =
     (case activity_id of
        None \<Rightarrow> do {
          debug_assert (debug_assertions tgt) (related_id = None);
          Some ([], extension_count)
        }
      | Some aid \<Rightarrow>
          (case related_id of
             None \<Rightarrow> do {
               n \<leftarrow> usub 8 (debug_assertions tgt) extension_count 1;
               Some (EventHeaderExtension_bytes tgt
                 (EventHeaderExtension_from_parts 16 ExtensionKind_ActivityId (n > 0)) @ aid, n)
             }
           | Some rid \<Rightarrow> do {
               n \<leftarrow> usub 8 (debug_assertions tgt) extension_count 1;
               Some (EventHeaderExtension_bytes tgt
                 (EventHeaderExtension_from_parts 32 ExtensionKind_ActivityId (n > 0)) @ aid @ rid, n)
             }))"

definition write_eventheader_headers ::
  "target \<Rightarrow> EventHeader \<Rightarrow> bytes option \<Rightarrow> bytes option \<Rightarrow> u16 \<Rightarrow> bytes option" where
  "write_eventheader_headers tgt event_header activity_id related_id meta_len = do {
     debug_assert (debug_assertions tgt) (related_id = None \<or> activity_id \<noteq> None);
     debug_assert (debug_assertions tgt) ((activity_id = None \<and> meta_len = 0)
        \<or> eh_flags event_header = HeaderFlags_DefaultWithExtension tgt);
     let extension_count = (if activity_id \<noteq> None then 1 else 0) + (if meta_len \<noteq> 0 then 1 else 0);
     (activity, extension_count) \<leftarrow> activity_extension tgt activity_id related_id extension_count;
     (metadata, extension_count) \<leftarrow>
       (if meta_len \<noteq> 0 then do {
          n \<leftarrow> usub 8 (debug_assertions tgt) extension_count 1;
          Some (EventHeaderExtension_bytes tgt
            (EventHeaderExtension_from_parts meta_len ExtensionKind_Metadata (n > 0)), n)
        } else Some ([], extension_count));
     let headers = [0, 0, 0, 0] @ EventHeader_bytes tgt event_header @ activity @ metadata;
     debug_assert (debug_assertions tgt) (length headers \<le> HEADERS_SIZE_MAX);
     debug_assert (debug_assertions tgt) (extension_count = 0);
     Some headers
   }"

definition write_eventheader ::
  "target \<Rightarrow> 'w linux \<Rightarrow> int \<Rightarrow> TracepointState \<Rightarrow> EventHeader \<Rightarrow> bytes option \<Rightarrow> bytes option \<Rightarrow> u16
    \<Rightarrow> EventDataDescriptor list \<Rightarrow> 'w \<Rightarrow> (int \<times> 'w) option" where
  "write_eventheader tgt os fd st event_header activity_id related_id meta_len data w = do {
     (if debug_assertions tgt then do {
        d0 \<leftarrow> index data 0;
        debug_assert True (EventDataDescriptor_is_empty d0)
      } else Some ());
     headers \<leftarrow> write_eventheader_headers tgt event_header activity_id related_id meta_len;
     write_with_headers tgt os fd st data headers w
   }"

section \<open>The headers fit\<close>

lemma length_header_bytes [simp]:
  "length (EventHeader_bytes tgt h) = 8" "length (EventHeaderExtension_bytes tgt x) = 4"
  by (simp_all add: EventHeader_bytes_def EventHeaderExtension_bytes_def)

definition ids_ok :: "bytes option \<Rightarrow> bytes option \<Rightarrow> bool" where
  "ids_ok activity_id related_id \<longleftrightarrow>
     (\<forall>a. activity_id = Some a \<longrightarrow> length a = 16) \<and> (\<forall>r. related_id = Some r \<longrightarrow> length r = 16)
     \<and> (related_id \<noteq> None \<longrightarrow> activity_id \<noteq> None)"

text \<open>The extension blocks as they appear in an event.\<close>

definition activity_block :: "target \<Rightarrow> bytes option \<Rightarrow> bytes option \<Rightarrow> bool \<Rightarrow> bytes" where
  "activity_block tgt activity_id related_id chain =
     (case activity_id of None \<Rightarrow> [] | Some a \<Rightarrow>
        EventHeaderExtension_bytes tgt (EventHeaderExtension_from_parts
          (if related_id = None then 16 else 32) ExtensionKind_ActivityId chain)
        @ a @ (case related_id of None \<Rightarrow> [] | Some r \<Rightarrow> r))"

lemma write_eventheader_headers_eq:
  assumes ids: "ids_ok activity_id related_id" and m: "meta_len \<noteq> 0"
    and f: "eh_flags h = HeaderFlags_DefaultWithExtension tgt"
  shows "write_eventheader_headers tgt h activity_id related_id meta_len =
    Some ([0, 0, 0, 0] @ EventHeader_bytes tgt h @ activity_block tgt activity_id related_id True
      @ EventHeaderExtension_bytes tgt
          (EventHeaderExtension_from_parts meta_len ExtensionKind_Metadata False))"
  using assms
  by (cases activity_id; cases related_id)
    (auto simp: write_eventheader_headers_def activity_extension_def activity_block_def ids_ok_def
      debug_assert_def HEADERS_SIZE_MAX_def)

lemma write_eventheader_headers_length:
  assumes "ids_ok activity_id related_id"
    and "write_eventheader_headers tgt h activity_id related_id meta_len = Some headers"
  shows "12 \<le> length headers \<and> length headers \<le> HEADERS_SIZE_MAX"
  using assms
  by (cases activity_id; cases related_id)
    (auto simp: write_eventheader_headers_def activity_extension_def ids_ok_def HEADERS_SIZE_MAX_def
      bind_eq_Some_conv split: if_splits)

end
