(* ===== verification/Event_Decode.thy ===== *)
theory Event_Decode
  imports Wire_Format Event_Writer
begin

unbundle bit_operations_syntax

text \<open>
  The decoder on a whole event. \<open>event_bytes\<close> is an event with its header, its activity extension and
  its metadata extension, as the writer lays it out; \<open>event_decodes\<close> says that enumerating it gives
  back the event's name, activity ids and fields.
\<close>

section \<open>Events\<close>

definition metadata_bytes :: "bool \<Rightarrow> bytes \<Rightarrow> field list \<Rightarrow> bytes" where
  "metadata_bytes be name fs = name @ [0] @ concat (map (meta_bytes be) fs)"

definition payload_bytes :: "bool \<Rightarrow> field list \<Rightarrow> bytes" where
  "payload_bytes be fs = concat (map (data_bytes be) fs)"

definition event_bytes :: "target \<Rightarrow> EventHeader \<Rightarrow> bytes option \<Rightarrow> bytes option \<Rightarrow> bytes \<Rightarrow> bytes \<Rightarrow> bytes" where
  "event_bytes tgt h activity_id related_id meta payload =
     EventHeader_bytes tgt h @ activity_block tgt activity_id related_id True
     @ EventHeaderExtension_bytes tgt
         (EventHeaderExtension_from_parts (word_of_nat (length meta)) ExtensionKind_Metadata False)
     @ meta @ payload"

lemma at_middle: "at (xs @ ys @ zs) (length xs) ys"
  by (simp add: at_def)

section \<open>Extensions\<close>

text \<open>One turn of the loop over the extensions, on an extension that is there.\<close>

lemma read_extension_at:
  assumes a: "at d pos (EventHeaderExtension_bytes tgt x)" and l: "pos + 4 + unat (ext_size x) \<le> length d"
    and r: "source_big_endian rd = big_endian tgt"
  shows "slice_from d pos = Some (drop pos d)" "read_u16 rd (drop pos d) = Some (ext_size x)"
    "slice_from d (pos + 2) = Some (drop (pos + 2) d)" "read_u16 rd (drop (pos + 2) d) = Some (ext_kind x)"
    "usub 64 dbg (length d) pos = Some (length d - pos)" "\<not> length d - pos < 4"
    "usub 64 dbg (length d) (pos + 4) = Some (length d - (pos + 4))" "\<not> length d - (pos + 4) < unat (ext_size x)"
proof -
  have a': "at d pos (to_ne_bytes (big_endian tgt) 2 (unat (ext_size x)))"
    "at d (pos + 2) (to_ne_bytes (big_endian tgt) 2 (unat (ext_kind x)))"
    using a by (simp_all add: EventHeaderExtension_bytes_def at_append)
  have u: "unat (v :: u16) < 65536" for v using unsigned_less [of v] by simp
  from read_u16_at [OF a'(1) u r] read_u16_at [OF a'(2) u r]
  show "slice_from d pos = Some (drop pos d)" "read_u16 rd (drop pos d) = Some (ext_size x)"
    "slice_from d (pos + 2) = Some (drop (pos + 2) d)" "read_u16 rd (drop (pos + 2) d) = Some (ext_kind x)"
    by simp_all
  show "\<not> length d - pos < 4" "\<not> length d - (pos + 4) < unat (ext_size x)" using l by linarith+
  show "usub 64 dbg (length d) pos = Some (length d - pos)"
    "usub 64 dbg (length d) (pos + 4) = Some (length d - (pos + 4))" using l by simp_all
qed

lemma extension_kind_facts:
  "ExtensionKind_Metadata AND ExtensionKind_ValueMask = ExtensionKind_Metadata"
  "(ExtensionKind_ActivityId OR ExtensionKind_ChainFlag) AND ExtensionKind_ValueMask = ExtensionKind_ActivityId"
  "\<not> ExtensionKind_has_flag ExtensionKind_Metadata ExtensionKind_ChainFlag"
  "ExtensionKind_has_flag (ExtensionKind_ActivityId OR ExtensionKind_ChainFlag) ExtensionKind_ChainFlag"
  "ExtensionKind_Metadata \<noteq> ExtensionKind_Invalid" "ExtensionKind_ActivityId \<noteq> ExtensionKind_Invalid"
  "ExtensionKind_ActivityId \<noteq> ExtensionKind_Metadata"
  by (simp_all add: enum_consts ExtensionKind_has_flag_def)

lemma metadata_extension_at:
  assumes a: "at d pos (EventHeaderExtension_bytes tgt (EventHeaderExtension_from_parts sz ExtensionKind_Metadata False))"
    and l: "pos + 4 + unat sz \<le> length d" "length d < 2 ^ 31"
    and r: "source_big_endian (byte_reader c) = big_endian tgt" and m: "meta_start c = 0"
  shows "parse_extensions dbg d pos c = Some (Inr (pos + 4 + unat sz),
    c\<lparr>meta_start := pos + 4, meta_end := pos + 4 + unat sz\<rparr>)"
proof -
  let ?x = "EventHeaderExtension_from_parts sz ExtensionKind_Metadata False"
  have x: "ext_size ?x = sz" "ext_kind ?x = ExtensionKind_Metadata"
    by (simp_all add: EventHeaderExtension_from_parts_def)
  note rd = read_extension_at [OF a _ r, unfolded x, OF l(1)]
  have u: "ucast_to 32 (pos + 4) = pos + 4" "uadd 32 dbg (pos + 4) (unat sz) = Some (pos + 4 + unat sz)"
    using l by simp_all
  show ?thesis
    unfolding parse_extensions.simps [of dbg d pos c] rd(1-5) size_of_EventHeaderExtension_def bind.bind_lunit
      if_not_P [OF rd(6)] rd(7) if_not_P [OF rd(8)] u
    by (simp add: extension_kind_facts m u)
qed

lemma activity_extension_at:
  assumes a: "at d pos (EventHeaderExtension_bytes tgt (EventHeaderExtension_from_parts sz ExtensionKind_ActivityId True))"
    and l: "pos + 4 + unat sz \<le> length d" "length d < 2 ^ 31" "unat sz = 16 \<or> unat sz = 32"
    and r: "source_big_endian (byte_reader c) = big_endian tgt" and m: "activity_id_start c = 0"
  shows "parse_extensions dbg d pos c =
    parse_extensions dbg d (pos + 4 + unat sz) (c\<lparr>activity_id_start := pos + 4, activity_id_len := unat sz\<rparr>)"
proof -
  let ?x = "EventHeaderExtension_from_parts sz ExtensionKind_ActivityId True"
  have x: "ext_size ?x = sz" "ext_kind ?x = ExtensionKind_ActivityId OR ExtensionKind_ChainFlag"
    by (simp_all add: EventHeaderExtension_from_parts_def)
  note rd = read_extension_at [OF a _ r, unfolded x, OF l(1)]
  have u: "ucast_to 32 (pos + 4) = pos + 4" "ucast_to 8 (unat sz) = unat sz" using l by auto
  show ?thesis
    unfolding parse_extensions.simps [of dbg d pos c] rd(1-5) size_of_EventHeaderExtension_def bind.bind_lunit
      if_not_P [OF rd(6)] rd(7) if_not_P [OF rd(8)] u
    using l(3) by (auto simp: extension_kind_facts m)
qed

text \<open>Both extensions, as the writer puts them.\<close>

definition activity_len :: "bytes option \<Rightarrow> bytes option \<Rightarrow> nat" where
  "activity_len activity_id related_id =
     (case activity_id of None \<Rightarrow> 0 | Some _ \<Rightarrow> (case related_id of None \<Rightarrow> 16 | Some _ \<Rightarrow> 32))"

definition activity_block_len :: "bytes option \<Rightarrow> bytes option \<Rightarrow> nat" where
  "activity_block_len activity_id related_id =
     (if activity_id = None then 0 else 4 + activity_len activity_id related_id)"

lemma length_activity_block:
  "ids_ok aid rid \<Longrightarrow> length (activity_block tgt aid rid ch) = activity_block_len aid rid"
  by (auto simp: ids_ok_def activity_block_def activity_block_len_def activity_len_def split: option.splits)

definition with_activity :: "nat \<Rightarrow> bytes option \<Rightarrow> bytes option \<Rightarrow> ctx \<Rightarrow> ctx" where
  "with_activity pos aid rid c =
     (if aid = None then c else c\<lparr>activity_id_start := pos, activity_id_len := activity_len aid rid\<rparr>)"

lemma with_activity_fields [simp]:
  "header (with_activity pos aid rid c) = header c" "keyword (with_activity pos aid rid c) = keyword c"
  "byte_reader (with_activity pos aid rid c) = byte_reader c" "meta_start (with_activity pos aid rid c) = meta_start c"
  "stack (with_activity pos aid rid c) = stack c"
  by (simp_all add: with_activity_def)

lemma extensions_at:
  assumes d: "d = EventHeader_bytes tgt h @ activity_block tgt aid rid True
      @ EventHeaderExtension_bytes tgt (EventHeaderExtension_from_parts (word_of_nat (length meta)) ExtensionKind_Metadata False)
      @ meta @ payload"
    and l: "length d < 2 ^ 31" "length meta < 65536" and ids: "ids_ok aid rid"
    and r: "source_big_endian (byte_reader c) = big_endian tgt" and z: "activity_id_start c = 0" "meta_start c = 0"
  shows "parse_extensions dbg d 8 c =
    Some (Inr (12 + activity_block_len aid rid + length meta),
      (with_activity 12 aid rid c)\<lparr>meta_start := 12 + activity_block_len aid rid,
        meta_end := 12 + activity_block_len aid rid + length meta\<rparr>)"
proof -
  let ?A = "activity_block_len aid rid"
  let ?mx = "EventHeaderExtension_from_parts (word_of_nat (length meta)) ExtensionKind_Metadata False"
  have u: "unat (word_of_nat (length meta) :: u16) = length meta"
    using l(2) by (simp add: unsigned_of_nat take_bit_nat_eq_self)
  have len: "length d = 12 + ?A + length meta + length payload"
    by (simp add: d length_activity_block [OF ids])
  have a: "at d 8 (activity_block tgt aid rid True)" "at d (8 + ?A) (EventHeaderExtension_bytes tgt ?mx)"
    using at_middle [of "EventHeader_bytes tgt h" "activity_block tgt aid rid True"]
      at_middle [of "EventHeader_bytes tgt h @ activity_block tgt aid rid True" "EventHeaderExtension_bytes tgt ?mx"]
    by (simp_all add: d length_activity_block [OF ids])
  have m: "parse_extensions dbg d (8 + ?A) c' = Some (Inr (12 + ?A + length meta),
      c'\<lparr>meta_start := 12 + ?A, meta_end := 12 + ?A + length meta\<rparr>)"
    if "source_big_endian (byte_reader c') = big_endian tgt" "meta_start c' = 0" for c'
    using metadata_extension_at [OF a(2) _ l(1) that, of dbg] len by (simp add: u add.commute add.left_commute)
  show ?thesis
  proof (cases aid)
    case None
    with m [of c] r z show ?thesis by (simp add: activity_block_len_def with_activity_def)
  next
    case (Some i)
    let ?sz = "(if rid = None then 16 else 32) :: u16"
    have sz: "unat ?sz = activity_len aid rid" using Some by (auto simp: activity_len_def split: option.split)
    have A: "?A = 4 + activity_len aid rid" using Some by (simp add: activity_block_len_def)
    have x: "at d 8 (EventHeaderExtension_bytes tgt (EventHeaderExtension_from_parts ?sz ExtensionKind_ActivityId True))"
      using a(1) Some by (auto simp: activity_block_def at_append)
    have "parse_extensions dbg d 8 c = parse_extensions dbg d (8 + 4 + unat ?sz)
        (c\<lparr>activity_id_start := 8 + 4, activity_id_len := unat ?sz\<rparr>)"
      by (rule activity_extension_at [OF x _ l(1) _ r z(1)]) (use len sz A in simp, simp)
    also have "\<dots> = parse_extensions dbg d (8 + ?A) (with_activity 12 aid rid c)"
      using Some A by (simp only: sz with_activity_def) simp
    finally show ?thesis using m [of "with_activity 12 aid rid c"] r z by simp
  qed
qed

section \<open>Starting on an event\<close>

lemma event_header_at:
  assumes f: "eh_flags h = HeaderFlags_DefaultWithExtension tgt"
  shows "read_event_header (EventHeader_bytes tgt h @ rest) c =
    Some (c\<lparr>header := h, byte_reader := PerfByteReader_new (big_endian tgt)\<rparr>)"
proof -
  define d where "d = EventHeader_bytes tgt h @ rest"
  have "at d 0 (EventHeader_bytes tgt h)" by (simp add: at_def d_def)
  then have i: "at d 2 (to_ne_bytes (big_endian tgt) 2 (unat (eh_id h)))"
    "at d 4 (to_ne_bytes (big_endian tgt) 2 (unat (eh_tag h)))" "at d 6 [eh_opcode h, eh_level h]"
    "at d 0 [eh_flags h, eh_version h]"
    by (simp_all only: EventHeader_bytes_def at_append length_append list.size length_to_ne_bytes)
      (simp_all add: numeral_eq_Suc)
  have n: "d ! 0 = eh_flags h" "d ! 1 = eh_version h" "d ! 6 = eh_opcode h" "d ! 7 = eh_level h"
    using i(3,4) by (simp_all add: at_Cons)
  have w: "word_of_nat (from_bytes (big_endian tgt) (take 2 (drop 2 d))) = eh_id h"
    "word_of_nat (from_bytes (big_endian tgt) (take 2 (drop 4 d))) = eh_tag h"
    using from_bytes_at_u16 [OF i(1)] from_bytes_at_u16 [OF i(2)] by simp_all
  have l: "8 \<le> length d" by (simp add: d_def)
  show ?thesis
    unfolding d_def [symmetric] read_event_header_eq [OF l] n Let_def using w f by simp
qed

lemma known_flags: "HeaderFlags_DefaultWithExtension tgt AND KNOWN_FLAGS = HeaderFlags_DefaultWithExtension tgt"
  by (simp add: KNOWN_FLAGS_def HeaderFlags_DefaultWithExtension_def HeaderFlags_Default_def enum_consts)

text \<open>What a program is to give to the writer, and what the reader then needs.\<close>

definition event_ok :: "target \<Rightarrow> EventHeader \<Rightarrow> bytes option \<Rightarrow> bytes option \<Rightarrow> bytes \<Rightarrow> field list \<Rightarrow> bool" where
  "event_ok tgt h aid rid name fs \<longleftrightarrow>
     eh_flags h = HeaderFlags_DefaultWithExtension tgt \<and> ids_ok aid rid \<and> 0 \<notin> set name
     \<and> length (metadata_bytes (big_endian tgt) name fs) < 65536
     \<and> length (metadata_bytes (big_endian tgt) name fs) + length (payload_bytes (big_endian tgt) fs) < 2 ^ 31 - 48
     \<and> length fs \<le> 255 \<and> (\<forall>f \<in> set fs. field_ok f \<and> depth f \<le> 8)"

abbreviation event_of :: "target \<Rightarrow> EventHeader \<Rightarrow> bytes option \<Rightarrow> bytes option \<Rightarrow> bytes \<Rightarrow> field list \<Rightarrow> bytes" where
  "event_of tgt h aid rid name fs \<equiv>
     event_bytes tgt h aid rid (metadata_bytes (big_endian tgt) name fs) (payload_bytes (big_endian tgt) fs)"

definition event_ctx :: "target \<Rightarrow> EventHeader \<Rightarrow> bytes option \<Rightarrow> bytes option \<Rightarrow> bytes \<Rightarrow> field list \<Rightarrow> u64 \<Rightarrow> ctx \<Rightarrow> ctx" where
  "event_ctx tgt h aid rid name fs kw c =
     (let ms = 12 + activity_block_len aid rid;
          me = ms + length (metadata_bytes (big_endian tgt) name fs)
      in (with_activity 12 aid rid
            (c\<lparr>header := h, byte_reader := PerfByteReader_new (big_endian tgt), keyword := kw,
               activity_id_start := 0, activity_id_len := 0\<rparr>))
         \<lparr>meta_start := ms, meta_end := me, event_name_len := length name, data_start := me\<rparr>)"

lemma length_event_bytes:
  "ids_ok aid rid \<Longrightarrow> length (event_bytes tgt h aid rid meta payload) =
     12 + activity_block_len aid rid + length meta + length payload"
  by (simp add: event_bytes_def length_activity_block)

lemma activity_block_len_le: "activity_block_len aid rid \<le> 36"
  by (auto simp: activity_block_len_def activity_len_def split: option.split)

lemma enumerate_event:
  assumes ok: "event_ok tgt h aid rid name fs" and nm: "parse_tracepoint_name tp (eh_level h) = Inr kw"
    and tp: "length tp < 256"
  shows "enumerate_with_name_and_data dbg tp (event_of tgt h aid rid name fs) limit c =
    (do {
      c' \<leftarrow> reset_impl dbg limit (event_ctx tgt h aid rid name fs kw c);
      Some (Inr (), c')
    })"
proof -
  let ?be = "big_endian tgt"
  let ?meta = "metadata_bytes ?be name fs" and ?payload = "payload_bytes ?be fs" and ?A = "activity_block_len aid rid"
  define d where "d = event_of tgt h aid rid name fs"
  have o: "eh_flags h = HeaderFlags_DefaultWithExtension tgt" "ids_ok aid rid" "0 \<notin> set name" "length ?meta < 65536"
    "length ?meta + length ?payload < 2 ^ 31 - 48"
    using ok by (simp_all add: event_ok_def)
  have len: "length d = 12 + ?A + length ?meta + length ?payload" unfolding d_def by (rule length_event_bytes [OF o(2)])
  then have l31: "length d < 2 ^ 31" using o(5) activity_block_len_le [of aid rid] by simp
  have l: "\<not> (length d < size_of_EventHeader \<or> length d \<ge> 0x80000000 \<or> length tp \<ge> 256)" using len l31 tp by simp
  have hd: "read_event_header d c = Some (c\<lparr>header := h, byte_reader := PerfByteReader_new ?be\<rparr>)"
    unfolding d_def event_bytes_def by (rule event_header_at [OF o(1)])
  let ?c0 = "c\<lparr>header := h, byte_reader := PerfByteReader_new ?be, keyword := kw, meta_start := 0, meta_end := 0,
    activity_id_start := 0, activity_id_len := 0\<rparr>"
  note ex = extensions_at [OF d_def [unfolded event_bytes_def] l31 o(4,2), of ?c0 dbg]
  have ml: "length ?meta = length name + 1 + length (concat (map (meta_bytes ?be) fs))"
    by (simp add: metadata_bytes_def)
  have "d = (EventHeader_bytes tgt h @ activity_block tgt aid rid True @ EventHeaderExtension_bytes tgt
      (EventHeaderExtension_from_parts (word_of_nat (length ?meta)) ExtensionKind_Metadata False))
      @ (name @ [0]) @ (concat (map (meta_bytes ?be) fs) @ ?payload)"
    by (simp add: d_def event_bytes_def metadata_bytes_def)
  then have "at d (12 + ?A) (name @ [0])"
    using at_middle [of "EventHeader_bytes tgt h @ activity_block tgt aid rid True @ EventHeaderExtension_bytes tgt
      (EventHeaderExtension_from_parts (word_of_nat (length ?meta)) ExtensionKind_Metadata False)" "name @ [0]"]
    by (simp add: length_activity_block [OF o(2)] add.commute)
  then have sc: "scan_name_end d (12 + ?A + length ?meta) (12 + ?A) = Some (12 + ?A + length name)"
    by (rule scan_name_end_at [OF _ o(3)]) (use ml len in simp_all)
  show ?thesis
    unfolding d_def [symmetric] enumerate_with_name_and_data_def if_not_P [OF l] hd bind.bind_lunit
    using nm o(1) ex sc ml o(4) l31 len
    by (simp add: known_flags enumerate_finish_def event_ctx_def Let_def PerfByteReader_new_def with_activity_def)
qed

section \<open>Reading an event\<close>

text \<open>What a program gets from \<open>state\<close> and \<open>item_info\<close> on the current item.\<close>

definition read_item :: "bytes \<Rightarrow> ctx \<Rightarrow> item option" where
  "read_item d c = do {
     i \<leftarrow> item_info False d c;
     name \<leftarrow> ii_name_bytes i;
     let m = iv_metadata (ii_value i);
     Some (state c, name, im_encoding m, im_format m, im_field_tag m, unat (im_element_count m),
       iv_bytes (ii_value i))
   }"

lemma read_item_view:
  assumes inv: "enum_inv d c" "on_item c"
  shows "read_item d c = Some (view d c)"
proof -
  obtain i where i: "item_info False d c = Some i"
    "ii_name_bytes i = Some (take (name_len (stack_top c)) (drop (name_offset (stack_top c)) d))"
    "iv_bytes (ii_value i) = take (item_size_cooked c) (drop (data_pos_cooked c) d)"
    "item_metadata_impl False c = Some (iv_metadata (ii_value i))"
    using item_info_post [OF inv, of False] by (auto simp: wp_iff)
  have "im_encoding (iv_metadata (ii_value i)) = FieldEncoding_without_flags (cur_enc c)"
    "im_format (iv_metadata (ii_value i)) = ft_format (field_type c)"
    "im_field_tag (iv_metadata (ii_value i)) = ft_tag (field_type c)"
    "unat (im_element_count (iv_metadata (ii_value i))) =
       (if state c = State_ArrayBegin \<or> state c = State_ArrayEnd then array_count (stack_top c) else 1)"
    using item_metadata_impl_post [OF inv, of False] i(4) by (auto simp: wp_iff)
  with i(1-3) show ?thesis by (simp add: read_item_def view_def Let_def)
qed

text \<open>The fields of a whole event, from a context before its first item.\<close>

lemma fields_visited:
  assumes st: "started d limit c" and a: "fields_at d be fs (c\<lparr>move_next_remaining := limit - 1\<rparr>)"
    and me: "meta_end c = next_offset (stack_top c) + length (concat (map (meta_bytes be) fs))"
    and si: "stack_index c = 0" and lim: "length (concat (map items_of fs)) < limit"
  shows "\<exists>ss last. drain (move_next_impl False d) (Suc limit) c = Some (ss, last)
    \<and> map (read_item d) ss = map Some (concat (map items_of fs)) \<and> state last = State_AfterLastItem"
proof -
  let ?c = "c\<lparr>move_next_remaining := limit - 1\<rparr>"
  from fields_decode_all [OF a] obtain c' ss where
    ss: "map (view d) ss = concat (map items_of fs)" "\<And>n. run d (length ss + n) ?c = prepend ss (run d n c')"
    and m: "moved_on d ?c c' (length (concat (map (meta_bytes be) fs))) (length (concat (map (data_bytes be) fs)))
      (length fs) (length (concat (map items_of fs)))"
    by (auto simp: fields_decode_def leads_def)
  have s0: "substate c = Sub_BeforeFirstItem" "move_next_remaining c = limit" "state c = State_BeforeFirstItem"
    using st by (auto simp: started_def enum_inv_def)
  have "move_next_impl False d c = next_property False d ?c"
    using s0 lim by (simp add: move_next_impl_def move_next_step_def debug_assert_def)
  from visit_run [OF this, of limit]
  have v: "drain (move_next_impl False d) (Suc limit) c = run d limit ?c" .
  have sp: "meta_end c' = meta_end c" using m by (simp add: moved_on_def static_part_def)
  have "run d n c' = Some ([], snd (False, set_end_state State_AfterLastItem Sub_AfterLastItem c'))" for n
    using m si me sp by (simp add: run_def next_property_def next_property_end_def moved_on_def)
  moreover have "length ss \<le> limit" using arg_cong [OF ss(1), of length] lim by simp
  ultimately have r: "drain (move_next_impl False d) (Suc limit) c =
      Some (ss, set_end_state State_AfterLastItem Sub_AfterLastItem c')"
    using v ss(2) [of "limit - length ss"] by simp
  have "wp (drain (move_next_impl False d) (Suc limit) c) (\<lambda>(items, last).
      (\<forall>x \<in> set items. item_inv d x \<and> on_item x) \<and> stopped last \<and> length items \<le> move_next_remaining c)"
    by (rule move_next.drain_total [OF started_item_inv [OF st]]) (use st in \<open>simp add: started_def\<close>)
  then have "\<forall>x \<in> set ss. item_inv d x \<and> on_item x" using r by simp
  then have "map (read_item d) ss = map Some (map (view d) ss)"
    by (auto simp: read_item_view item_inv_def)
  with r ss(1) show ?thesis by (auto simp: set_end_state_def)
qed

lemma event_started:
  assumes ok: "event_ok tgt h aid rid name fs" and stk: "length (stack c0) = 8"
  shows "static_ok (event_of tgt h aid rid name fs) (event_ctx tgt h aid rid name fs kw c0)"
proof -
  have i: "ids_ok aid rid" using ok by (simp add: event_ok_def)
  show ?thesis
    using ok stk activity_block_len_le [of aid rid]
    by (simp add: event_ok_def static_ok_def event_ctx_def Let_def length_event_bytes [OF i] metadata_bytes_def)
qed

lemma event_parts_at:
  assumes ids: "ids_ok aid rid"
  shows "at (event_of tgt h aid rid name fs) (12 + activity_block_len aid rid) name"
    "at (event_of tgt h aid rid name fs) (12 + activity_block_len aid rid + length name + 1)
       (concat (map (meta_bytes (big_endian tgt)) fs))"
    "at (event_of tgt h aid rid name fs)
       (12 + activity_block_len aid rid + length (metadata_bytes (big_endian tgt) name fs))
       (payload_bytes (big_endian tgt) fs)"
    "aid = Some i \<Longrightarrow> at (event_of tgt h aid rid name fs) 12 i"
    "rid = Some j \<Longrightarrow> at (event_of tgt h aid rid name fs) 28 j"
proof -
  let ?be = "big_endian tgt" and ?d = "event_of tgt h aid rid name fs"
  let ?pre = "EventHeader_bytes tgt h @ activity_block tgt aid rid True @ EventHeaderExtension_bytes tgt
      (EventHeaderExtension_from_parts (word_of_nat (length (metadata_bytes ?be name fs))) ExtensionKind_Metadata False)"
  let ?mb = "concat (map (meta_bytes ?be) fs)" and ?pb = "payload_bytes ?be fs"
  have d: "?d = ?pre @ name @ [0] @ ?mb @ ?pb" by (simp add: event_bytes_def metadata_bytes_def)
  show "at ?d (12 + activity_block_len aid rid) name"
    using at_middle [of ?pre name "[0] @ ?mb @ ?pb"] unfolding d by (simp add: length_activity_block [OF ids])
  show "at ?d (12 + activity_block_len aid rid + length name + 1) ?mb"
    using at_middle [of "?pre @ name @ [0]" ?mb ?pb] unfolding d by (simp add: length_activity_block [OF ids])
  show "at ?d (12 + activity_block_len aid rid + length (metadata_bytes ?be name fs)) ?pb"
    using at_middle [of "?pre @ name @ [0] @ ?mb" ?pb "[]"] unfolding d
    by (simp add: length_activity_block [OF ids] metadata_bytes_def)
  have a: "at ?d 8 (activity_block tgt aid rid True)"
    using at_middle [of "EventHeader_bytes tgt h" "activity_block tgt aid rid True"] unfolding d by simp
  { assume "aid = Some i"
    then show "at ?d 12 i" using a by (auto simp: activity_block_def at_append) }
  { assume j: "rid = Some j"
    with ids obtain k where "aid = Some k" "length k = 16" by (auto simp: ids_ok_def)
    then show "at ?d 28 j" using a j by (auto simp: activity_block_def at_append) }
qed

lemma reset_event_ctx:
  assumes ok: "event_ok tgt h aid rid name fs"
  shows "reset_impl dbg limit (event_ctx tgt h aid rid name fs kw c0) =
    Some (set_state State_BeforeFirstItem Sub_BeforeFirstItem
      (upd_top (\<lambda>e. e\<lparr>next_offset := 12 + activity_block_len aid rid + length name + 1, remaining_field_count := 255\<rparr>)
        ((event_ctx tgt h aid rid name fs kw c0)
          \<lparr>data_pos_raw := 12 + activity_block_len aid rid + length (metadata_bytes (big_endian tgt) name fs),
           move_next_remaining := limit, stack_index := 0\<rparr>))\<lparr>last_error := Success\<rparr>)"
proof -
  have "length name < 65536" using ok by (simp add: event_ok_def metadata_bytes_def)
  then show ?thesis
    using activity_block_len_le [of aid rid]
    by (simp add: reset_impl_def event_ctx_def Let_def set_state_def upd_top_def)
qed

lemma event_ctx_fields [simp]:
  "header (event_ctx tgt h aid rid name fs kw c) = h" "keyword (event_ctx tgt h aid rid name fs kw c) = kw"
  "byte_reader (event_ctx tgt h aid rid name fs kw c) = PerfByteReader_new (big_endian tgt)"
  "meta_start (event_ctx tgt h aid rid name fs kw c) = 12 + activity_block_len aid rid"
  "meta_end (event_ctx tgt h aid rid name fs kw c) =
     12 + activity_block_len aid rid + length (metadata_bytes (big_endian tgt) name fs)"
  "event_name_len (event_ctx tgt h aid rid name fs kw c) = length name"
  "activity_id_start (event_ctx tgt h aid rid name fs kw c) = (if aid = None then 0 else 12)"
  "activity_id_len (event_ctx tgt h aid rid name fs kw c) = activity_len aid rid"
  by (simp_all add: event_ctx_def Let_def with_activity_def activity_len_def)

text \<open>The answers about the event itself.\<close>

lemma event_answers:
  assumes ok: "event_ok tgt h aid rid name fs" and d: "d = event_of tgt h aid rid name fs"
    and c: "header c = h" "keyword c = kw" "meta_start c = 12 + activity_block_len aid rid"
      "event_name_len c = length name" "activity_id_start c = (if aid = None then 0 else 12)"
      "activity_id_len c = activity_len aid rid"
  shows "ei_name_bytes (event_info tp d c) = Some name" "ei_activity_id (event_info tp d c) = Some aid"
    "ei_related_activity_id (event_info tp d c) = Some rid"
proof -
  have ids: "ids_ok aid rid" using ok by (simp add: event_ok_def)
  note at = event_parts_at [OF ids, where tgt = tgt and h = h and name = name and fs = fs, folded d]
  have sl: "slice d p (p + length xs) = Some xs" if "at d p xs" for p xs
    using that by (simp add: at_def slice_def)
  show "ei_name_bytes (event_info tp d c) = Some name"
    using sl [OF at(1)] c by (simp add: ei_name_bytes_def event_info_def)
  show "ei_activity_id (event_info tp d c) = Some aid"
    using sl [OF at(4)] ids c
    by (auto simp: ei_activity_id_def event_info_def activity_len_def ids_ok_def split: option.splits)
  show "ei_related_activity_id (event_info tp d c) = Some rid"
    using sl [OF at(5)] ids c
    by (auto simp: ei_related_activity_id_def event_info_def activity_len_def ids_ok_def split: option.splits)
qed

lemma event_is_decoded:
  assumes ok: "event_ok tgt h aid rid name fs" and nm: "parse_tracepoint_name tp (eh_level h) = Inr kw"
    and tp: "length tp < 256" and stk: "length (stack c0) = 8"
    and lim: "length (concat (map items_of fs)) < limit"
    and d: "d = event_of tgt h aid rid name fs"
  shows "\<exists>c ss last. enumerate_with_name_and_data dbg tp d limit c0 = Some (Inr (), c)
    \<and> header c = h \<and> keyword c = kw
    \<and> ei_name_bytes (event_info tp d c) = Some name
    \<and> ei_activity_id (event_info tp d c) = Some aid \<and> ei_related_activity_id (event_info tp d c) = Some rid
    \<and> drain (move_next_impl False d) (Suc limit) c = Some (ss, last)
    \<and> map (read_item d) ss = map Some (concat (map items_of fs)) \<and> state last = State_AfterLastItem"
proof -
  let ?be = "big_endian tgt" and ?e = "event_ctx tgt h aid rid name fs kw c0" and ?A = "activity_block_len aid rid"
  obtain c where r: "reset_impl dbg limit ?e = Some c" "started d limit c" "static_part c = static_part ?e"
    using reset_impl_post [OF event_started [OF ok stk], of dbg limit kw] by (auto simp: wp_iff d)
  have en: "enumerate_with_name_and_data dbg tp d limit c0 = Some (Inr (), c)"
    using enumerate_event [OF ok nm tp, of dbg limit c0] r(1) by (simp add: d)
  have c: "header c = h" "keyword c = kw" "meta_start c = 12 + ?A" "event_name_len c = length name"
    "activity_id_start c = (if aid = None then 0 else 12)" "activity_id_len c = activity_len aid rid"
    "byte_reader c = PerfByteReader_new ?be" "meta_end c = 12 + ?A + length (metadata_bytes ?be name fs)"
    using r(3) by (simp_all add: static_part_def)
  have p: "stack_index c = 0" "remaining_field_count (stack_top c) = 255"
    "next_offset (stack_top c) = 12 + ?A + length name + 1" "data_pos_raw c = 12 + ?A + length (metadata_bytes ?be name fs)"
    using r(1) reset_event_ctx [OF ok, of dbg limit kw c0] by (auto simp: set_state_def)
  have b: "base_ok d c" using r(2) by (auto simp: started_def enum_inv_def)
  have ids: "ids_ok aid rid" using ok by (simp add: event_ok_def)
  note at = event_parts_at [OF ids, where tgt = tgt and h = h and name = name and fs = fs, folded d]
  have me: "meta_end c = next_offset (stack_top c) + length (concat (map (meta_bytes ?be) fs))"
    using c(8) p(3) by (simp add: metadata_bytes_def)
  have "fields_at d ?be fs (c\<lparr>move_next_remaining := limit - 1\<rparr>)"
    unfolding fields_at_def using b c p me at(2,3) ok lim
    by (auto simp: base_ok_def static_ok_def entry_ok_def event_ok_def payload_bytes_def PerfByteReader_new_def)
  from fields_visited [OF r(2) this me p(1) lim] en c(1,2) event_answers [OF ok d c(1-6), of tp]
  show ?thesis by blast
qed


text \<open>A sample: a number, a counted string, an array of numbers and a struct with a NUL-terminated string.\<close>

definition sample_target :: target where
  "sample_target = \<lparr>big_endian = False, pointer64 = True, debug_assertions = True\<rparr>"

definition sample_fields :: "field list" where
  "sample_fields =
     [Scalar [0x61] FieldEncoding_Value32 0 0 [1, 2, 3, 4],
      Scalar [0x62] FieldEncoding_StringLength16Char8 0 7 [0x68, 0x69],
      Array [0x63] FieldEncoding_Value16 0 0 [[1, 0], [2, 0]],
      Struct [0x64] 0 [Scalar [0x65] FieldEncoding_ZStringChar8 0 0 [0x78]]]"

definition sample_header :: EventHeader where
  "sample_header = \<lparr>eh_flags = HeaderFlags_DefaultWithExtension sample_target, eh_version = 0, eh_id = 0,
     eh_tag = 5, eh_opcode = 0, eh_level = 5\<rparr>"

lemma sample_event_ok: "event_ok sample_target sample_header (Some (replicate 16 9)) None [0x45] sample_fields"
proof -
  have z: "\<exists>vs. [0x78 :: u8] = concat vs \<and> (\<forall>x \<in> set vs. length x = 1 \<and> (\<exists>b \<in> set x. b \<noteq> 0))"
    by (rule exI [of _ "[[0x78]]"]) simp
  have "elem_ok FieldEncoding_Value32 [1, 2, 3, 4]" "elem_ok FieldEncoding_StringLength16Char8 [0x68, 0x69]"
    "elem_ok FieldEncoding_Value16 [1, 0]" "elem_ok FieldEncoding_Value16 [2, 0]"
    "elem_ok FieldEncoding_ZStringChar8 [0x78]"
    using z by (simp_all add: elem_ok_def fixed_element_size_def counted_shift_def zstring_size_def enum_consts)
  then have "\<forall>f \<in> set sample_fields. field_ok f \<and> depth f \<le> 8"
    by (simp add: sample_fields_def fixed_element_size_def enum_consts)
  moreover have "length (metadata_bytes (big_endian sample_target) [0x45] sample_fields) = 21"
    "length (payload_bytes (big_endian sample_target) sample_fields) = 16"
    by code_simp+
  ultimately show ?thesis
    by (simp add: event_ok_def sample_header_def ids_ok_def) (simp add: sample_fields_def)
qed


end
