(* ===== verification/Event_Builder.thy ===== *)
theory Event_Builder
  imports Event_Writer
begin

unbundle bit_operations_syntax

text \<open>
  \<open>eventheader_dynamic/src/builder.rs\<close>: \<open>EventBuilder\<close>, which collects the metadata and the payload
  of an event and writes it. A value of a \<open>ValueField\<close> type is the list of its bytes in memory, a
  slice or an iterator of values is a list of them; the type parameter \<open>V\<close> of the generic methods
  is the size of such a value, \<open>vsize\<close>. Names are the bytes of the \<open>str\<close>. Each method returns the
  updated builder, or \<open>None\<close> when an assertion fails.
\<close>

section \<open>Encodings of the field types\<close>

definition VALUE_ENCODING :: "nat \<Rightarrow> FieldEncoding option" where
  "VALUE_ENCODING vsize =
     (if vsize = 1 then Some FieldEncoding_Value8
      else if vsize = 2 then Some FieldEncoding_Value16
      else if vsize = 4 then Some FieldEncoding_Value32
      else if vsize = 8 then Some FieldEncoding_Value64
      else if vsize = 16 then Some FieldEncoding_Value128
      else Panic)"

definition STRING_ENCODING :: "nat \<Rightarrow> FieldEncoding option" where
  "STRING_ENCODING vsize =
     (if vsize = 1 then Some FieldEncoding_StringLength16Char8
      else if vsize = 2 then Some FieldEncoding_StringLength16Char16
      else if vsize = 4 then Some FieldEncoding_StringLength16Char32
      else Panic)"

definition ZSTRING_ENCODING :: "nat \<Rightarrow> FieldEncoding option" where
  "ZSTRING_ENCODING vsize =
     (if vsize = 1 then Some FieldEncoding_ZStringChar8
      else if vsize = 2 then Some FieldEncoding_ZStringChar16
      else if vsize = 4 then Some FieldEncoding_ZStringChar32
      else Panic)"

definition BINARY_ENCODING :: "nat \<Rightarrow> FieldEncoding option" where
  "BINARY_ENCODING vsize = (if vsize = 1 then Some FieldEncoding_BinaryLength16Char8 else Panic)"

section \<open>The builder\<close>

record EventBuilder =
  eb_meta :: bytes
  eb_data :: bytes
  eb_flags :: HeaderFlags
  eb_version :: u8
  eb_id :: u16
  eb_tag :: u16
  eb_opcode :: u8

definition EventBuilder_new :: "target \<Rightarrow> EventBuilder" where
  "EventBuilder_new tgt =
     \<lparr>eb_meta = [0], eb_data = [], eb_flags = HeaderFlags_DefaultWithExtension tgt, eb_version = 0,
      eb_id = 0, eb_tag = 0, eb_opcode = Opcode_Info\<rparr>"

definition reset :: "target \<Rightarrow> bytes \<Rightarrow> u16 \<Rightarrow> EventBuilder \<Rightarrow> EventBuilder option" where
  "reset tgt name event_tag b = do {
     debug_assert (debug_assertions tgt) (0 \<notin> set name);
     Some (b\<lparr>eb_meta := name @ [0], eb_data := [], eb_flags := HeaderFlags_DefaultWithExtension tgt,
             eb_version := 0, eb_id := 0, eb_tag := event_tag, eb_opcode := Opcode_Info\<rparr>)
   }"

definition id_version :: "u16 \<Rightarrow> u8 \<Rightarrow> EventBuilder \<Rightarrow> EventBuilder" where
  "id_version i v b = b\<lparr>eb_id := i, eb_version := v\<rparr>"

definition opcode :: "u8 \<Rightarrow> EventBuilder \<Rightarrow> EventBuilder" where
  "opcode opc b = b\<lparr>eb_opcode := opc\<rparr>"

section \<open>Raw additions\<close>

definition raw_add_meta :: "target \<Rightarrow> bytes \<Rightarrow> u8 \<Rightarrow> u8 \<Rightarrow> u16 \<Rightarrow> EventBuilder \<Rightarrow> EventBuilder option" where
  "raw_add_meta tgt field_name encoding format field_tag b = do {
     debug_assert (debug_assertions tgt) (0 \<notin> set field_name);
     let b = b\<lparr>eb_meta := eb_meta b @ field_name @ [0]\<rparr>;
     Some (if field_tag \<noteq> 0
           then b\<lparr>eb_meta := eb_meta b @ [0x80 OR encoding, 0x80 OR format]
                    @ to_ne_bytes (big_endian tgt) 2 (unat field_tag)\<rparr>
           else if format \<noteq> 0 then b\<lparr>eb_meta := eb_meta b @ [0x80 OR encoding, format]\<rparr>
           else b\<lparr>eb_meta := eb_meta b @ [encoding]\<rparr>)
   }"

definition raw_add_meta_scalar ::
  "target \<Rightarrow> bytes \<Rightarrow> FieldEncoding \<Rightarrow> FieldFormat \<Rightarrow> u16 \<Rightarrow> EventBuilder \<Rightarrow> EventBuilder option" where
  "raw_add_meta_scalar tgt field_name encoding format field_tag b = do {
     debug_assert (debug_assertions tgt) (encoding AND FieldEncoding_FlagMask = 0);
     raw_add_meta tgt field_name encoding format field_tag b
   }"

definition raw_add_meta_vcount ::
  "target \<Rightarrow> bytes \<Rightarrow> FieldEncoding \<Rightarrow> FieldFormat \<Rightarrow> u16 \<Rightarrow> EventBuilder \<Rightarrow> EventBuilder option" where
  "raw_add_meta_vcount tgt field_name encoding format field_tag b = do {
     debug_assert (debug_assertions tgt) (encoding AND FieldEncoding_FlagMask = 0);
     raw_add_meta tgt field_name (encoding OR FieldEncoding_VArrayFlag) format field_tag b
   }"

definition raw_add_data_value :: "bytes \<Rightarrow> EventBuilder \<Rightarrow> EventBuilder" where
  "raw_add_data_value v b = b\<lparr>eb_data := eb_data b @ v\<rparr>"

definition raw_add_data_slice :: "bytes list \<Rightarrow> EventBuilder \<Rightarrow> EventBuilder" where
  "raw_add_data_slice v b = b\<lparr>eb_data := eb_data b @ concat v\<rparr>"

text \<open>The loop over \<open>nul_pos\<close>: the position of the first default value, if there is one.\<close>

fun nul_position :: "bytes list \<Rightarrow> nat option" where
  "nul_position [] = None"
| "nul_position (v # vs) = (if is_default v then Some 0 else map_option Suc (nul_position vs))"

definition raw_add_data_cstr :: "nat \<Rightarrow> bytes list \<Rightarrow> EventBuilder \<Rightarrow> EventBuilder" where
  "raw_add_data_cstr vsize v b =
     (case nul_position v of
        Some nul_pos \<Rightarrow> raw_add_data_slice (take (nul_pos + 1) v) b
      | None \<Rightarrow> raw_add_data_value (replicate vsize 0) (raw_add_data_slice v b))"

text \<open>
  The literal in \<open>raw_add_data_value(&65535)\<close> has no suffix, so its type is the default integer type
  \<open>i32\<close> and four bytes are added, not two.
\<close>

definition raw_add_data_counted :: "target \<Rightarrow> bytes list \<Rightarrow> EventBuilder \<Rightarrow> EventBuilder" where
  "raw_add_data_counted tgt v b =
     (if length v > 65535
      then raw_add_data_slice (take 65535 v)
             (raw_add_data_value (to_ne_bytes (big_endian tgt) 4 65535) b)
      else raw_add_data_slice v
             (raw_add_data_value (to_ne_bytes (big_endian tgt) 2 (length v)) b))"

fun range_loop :: "('v \<Rightarrow> EventBuilder \<Rightarrow> EventBuilder) \<Rightarrow> 'v list \<Rightarrow> nat \<Rightarrow> EventBuilder \<Rightarrow> nat \<times> EventBuilder" where
  "range_loop add_data [] count b = (count, b)"
| "range_loop add_data (v # vs) count b =
     (if count = 65535 then (count, b) else range_loop add_data vs (count + 1) (add_data v b))"

definition raw_add_data_range ::
  "target \<Rightarrow> 'v list \<Rightarrow> ('v \<Rightarrow> EventBuilder \<Rightarrow> EventBuilder) \<Rightarrow> EventBuilder \<Rightarrow> EventBuilder option" where
  "raw_add_data_range tgt field_values add_data b = do {
     let old_data_size = length (eb_data b);
     let b = raw_add_data_value (to_ne_bytes (big_endian tgt) 2 0) b;
     let (count, b) = range_loop add_data field_values 0 b;
     data \<leftarrow> copy_from_slice (eb_data b) old_data_size (old_data_size + 2)
              (to_ne_bytes (big_endian tgt) 2 count);
     Some (b\<lparr>eb_data := data\<rparr>)
   }"

section \<open>Fields\<close>

definition add_struct :: "target \<Rightarrow> bytes \<Rightarrow> u8 \<Rightarrow> u16 \<Rightarrow> EventBuilder \<Rightarrow> EventBuilder option" where
  "add_struct tgt field_name struct_field_count field_tag b = do {
     let masked_field_count = struct_field_count AND FieldFormat_ValueMask;
     debug_assert (debug_assertions tgt) (masked_field_count = struct_field_count);
     rust_assert (masked_field_count \<noteq> 0);
     raw_add_meta tgt field_name FieldEncoding_Struct masked_field_count field_tag b
   }"

definition add_struct_with_bookmark ::
  "target \<Rightarrow> bytes \<Rightarrow> u8 \<Rightarrow> u16 \<Rightarrow> EventBuilder \<Rightarrow> (nat \<times> EventBuilder) option" where
  "add_struct_with_bookmark tgt field_name initial_struct_field_count field_tag b = do {
     let masked_field_count = initial_struct_field_count AND FieldFormat_ValueMask;
     debug_assert (debug_assertions tgt) (masked_field_count = initial_struct_field_count);
     rust_assert (masked_field_count \<noteq> 0);
     b \<leftarrow> raw_add_meta tgt field_name FieldEncoding_Struct masked_field_count field_tag b;
     bookmark \<leftarrow> (if field_tag = 0 then usub 64 (debug_assertions tgt) (length (eb_meta b)) 1
                  else usub 64 (debug_assertions tgt) (length (eb_meta b)) 3);
     Some (bookmark, b)
   }"

definition set_struct_field_count :: "target \<Rightarrow> nat \<Rightarrow> u8 \<Rightarrow> EventBuilder \<Rightarrow> EventBuilder option" where
  "set_struct_field_count tgt field_count_bookmark updated_struct_field_count b = do {
     let masked_field_count = updated_struct_field_count AND FieldFormat_ValueMask;
     debug_assert (debug_assertions tgt) (masked_field_count = updated_struct_field_count);
     rust_assert (masked_field_count \<noteq> 0);
     old \<leftarrow> index (eb_meta b) field_count_bookmark;
     meta \<leftarrow> store (eb_meta b) field_count_bookmark ((old AND 0x80) OR masked_field_count);
     Some (b\<lparr>eb_meta := meta\<rparr>)
   }"

definition add_value :: "target \<Rightarrow> nat \<Rightarrow> bytes \<Rightarrow> bytes \<Rightarrow> FieldFormat \<Rightarrow> u16 \<Rightarrow> EventBuilder \<Rightarrow> EventBuilder option" where
  "add_value tgt vsize field_name field_value format field_tag b = do {
     enc \<leftarrow> VALUE_ENCODING vsize;
     b \<leftarrow> raw_add_meta_scalar tgt field_name enc format field_tag b;
     Some (raw_add_data_value field_value b)
   }"

definition add_value_sequence ::
  "target \<Rightarrow> nat \<Rightarrow> bytes \<Rightarrow> bytes list \<Rightarrow> FieldFormat \<Rightarrow> u16 \<Rightarrow> EventBuilder \<Rightarrow> EventBuilder option" where
  "add_value_sequence tgt vsize field_name field_values format field_tag b = do {
     enc \<leftarrow> VALUE_ENCODING vsize;
     b \<leftarrow> raw_add_meta_vcount tgt field_name enc format field_tag b;
     raw_add_data_range tgt field_values raw_add_data_value b
   }"

definition add_str ::
  "target \<Rightarrow> nat \<Rightarrow> bytes \<Rightarrow> bytes list \<Rightarrow> FieldFormat \<Rightarrow> u16 \<Rightarrow> EventBuilder \<Rightarrow> EventBuilder option" where
  "add_str tgt vsize field_name field_value format field_tag b = do {
     enc \<leftarrow> STRING_ENCODING vsize;
     b \<leftarrow> raw_add_meta_scalar tgt field_name enc format field_tag b;
     Some (raw_add_data_counted tgt field_value b)
   }"

definition add_str_sequence ::
  "target \<Rightarrow> nat \<Rightarrow> bytes \<Rightarrow> bytes list list \<Rightarrow> FieldFormat \<Rightarrow> u16 \<Rightarrow> EventBuilder \<Rightarrow> EventBuilder option" where
  "add_str_sequence tgt vsize field_name field_values format field_tag b = do {
     enc \<leftarrow> STRING_ENCODING vsize;
     b \<leftarrow> raw_add_meta_vcount tgt field_name enc format field_tag b;
     raw_add_data_range tgt field_values (raw_add_data_counted tgt) b
   }"

definition add_cstr ::
  "target \<Rightarrow> nat \<Rightarrow> bytes \<Rightarrow> bytes list \<Rightarrow> FieldFormat \<Rightarrow> u16 \<Rightarrow> EventBuilder \<Rightarrow> EventBuilder option" where
  "add_cstr tgt vsize field_name field_value format field_tag b = do {
     enc \<leftarrow> ZSTRING_ENCODING vsize;
     b \<leftarrow> raw_add_meta_scalar tgt field_name enc format field_tag b;
     Some (raw_add_data_cstr vsize field_value b)
   }"

definition add_cstr_sequence ::
  "target \<Rightarrow> nat \<Rightarrow> bytes \<Rightarrow> bytes list list \<Rightarrow> FieldFormat \<Rightarrow> u16 \<Rightarrow> EventBuilder \<Rightarrow> EventBuilder option" where
  "add_cstr_sequence tgt vsize field_name field_values format field_tag b = do {
     enc \<leftarrow> ZSTRING_ENCODING vsize;
     b \<leftarrow> raw_add_meta_vcount tgt field_name enc format field_tag b;
     raw_add_data_range tgt field_values (raw_add_data_cstr vsize) b
   }"

definition add_binary ::
  "target \<Rightarrow> nat \<Rightarrow> bytes \<Rightarrow> bytes list \<Rightarrow> FieldFormat \<Rightarrow> u16 \<Rightarrow> EventBuilder \<Rightarrow> EventBuilder option" where
  "add_binary tgt vsize field_name field_value format field_tag b = do {
     enc \<leftarrow> BINARY_ENCODING vsize;
     b \<leftarrow> raw_add_meta_scalar tgt field_name enc format field_tag b;
     Some (raw_add_data_counted tgt field_value b)
   }"

definition add_binary_sequence ::
  "target \<Rightarrow> nat \<Rightarrow> bytes \<Rightarrow> bytes list list \<Rightarrow> FieldFormat \<Rightarrow> u16 \<Rightarrow> EventBuilder \<Rightarrow> EventBuilder option" where
  "add_binary_sequence tgt vsize field_name field_values format field_tag b = do {
     enc \<leftarrow> BINARY_ENCODING vsize;
     b \<leftarrow> raw_add_meta_vcount tgt field_name enc format field_tag b;
     raw_add_data_range tgt field_values (raw_add_data_counted tgt) b
   }"

section \<open>Writing\<close>

text \<open>
  An \<open>EventSet\<close> is, for this method, the tracepoint it registered and its level. The event is
  refused when it cannot fit the kernel's limit of 64 KB with all headers.
\<close>

definition builder_event_header :: "u8 \<Rightarrow> EventBuilder \<Rightarrow> EventHeader" where
  "builder_event_header lvl b =
     \<lparr>eh_flags = eb_flags b, eh_version = eb_version b, eh_id = eb_id b, eh_tag = eb_tag b,
      eh_opcode = eb_opcode b, eh_level = lvl\<rparr>"

definition builder_write ::
  "target \<Rightarrow> 'w linux \<Rightarrow> int \<Rightarrow> TracepointState \<Rightarrow> u8 \<Rightarrow> bytes option \<Rightarrow> bytes option \<Rightarrow> EventBuilder
    \<Rightarrow> 'w \<Rightarrow> (int \<times> 'w) option" where
  "builder_write tgt os fd st lvl activity_id related_id b w = do {
     debug_assert (debug_assertions tgt) (related_id = None \<or> activity_id \<noteq> None);
     (if length (eb_meta b) + length (eb_data b) > 65535 - (52 + 16) then Some (34, w)
      else write_eventheader tgt os fd st (builder_event_header lvl b) activity_id related_id
             (word_of_nat (length (eb_meta b)))
             [EventDataDescriptor_zero, EventDataDescriptor_from_bytes (eb_meta b),
              EventDataDescriptor_from_bytes (eb_data b)] w)
   }"

section \<open>Sequences\<close>

text \<open>
  The contract between \<open>raw_add_data_range\<close> and the closure it is given: the closure appends an
  encoding of its value to the data and does nothing else. The range is then a count and the
  encodings of the values, of which at most 65535 are taken.
\<close>

locale element_writer =
  fixes add_data :: "'v \<Rightarrow> EventBuilder \<Rightarrow> EventBuilder"
    and enc :: "'v \<Rightarrow> bytes"
    and fits :: "'v \<Rightarrow> bool"
  assumes add_data_appends: "fits v \<Longrightarrow> add_data v b = b\<lparr>eb_data := eb_data b @ enc v\<rparr>"
begin

lemma range_loop_eq:
  "count \<le> 65535 \<Longrightarrow> \<forall>v \<in> set vs. fits v \<Longrightarrow> range_loop add_data vs count b =
     (count + length (take (65535 - count) vs), b\<lparr>eb_data := eb_data b @ concat (map enc (take (65535 - count) vs))\<rparr>)"
proof (induction vs arbitrary: count b)
  case (Cons v vs)
  show ?case
  proof (cases "count = 65535")
    case False
    with Cons.prems have c: "count + 1 \<le> 65535" "65535 - count = Suc (65535 - (count + 1))" by simp_all
    from False Cons.IH [OF c(1), of "add_data v b"] Cons.prems(2) show ?thesis
      unfolding c(2) by (simp add: add_data_appends)
  qed simp
qed simp

lemma raw_add_data_range_eq:
  "\<forall>v \<in> set vs. fits v \<Longrightarrow> raw_add_data_range tgt vs add_data b =
     Some (b\<lparr>eb_data := eb_data b @ to_ne_bytes (big_endian tgt) 2 (length (take 65535 vs))
              @ concat (map enc (take 65535 vs))\<rparr>)"
  by (simp add: raw_add_data_range_def range_loop_eq raw_add_data_value_def copy_from_slice_def Let_def)

end

definition counted_bytes :: "target \<Rightarrow> bytes list \<Rightarrow> bytes" where
  "counted_bytes tgt v =
     (if length v > 65535 then to_ne_bytes (big_endian tgt) 4 65535 @ concat (take 65535 v)
      else to_ne_bytes (big_endian tgt) 2 (length v) @ concat v)"

definition cstr_bytes :: "nat \<Rightarrow> bytes list \<Rightarrow> bytes" where
  "cstr_bytes vsize v = concat (takeWhile (\<lambda>x. \<not> is_default x) v) @ replicate vsize 0"

lemma raw_add_data_counted_eq:
  "raw_add_data_counted tgt v b = b\<lparr>eb_data := eb_data b @ counted_bytes tgt v\<rparr>"
  by (simp add: raw_add_data_counted_def counted_bytes_def raw_add_data_slice_def raw_add_data_value_def)

text \<open>\<open>raw_add_data_cstr\<close> keeps the first NUL of its value or adds one.\<close>

lemma nul_position_None: "nul_position v = None \<Longrightarrow> takeWhile (\<lambda>x. \<not> is_default x) v = v"
  by (induction v) (auto split: if_splits)

lemma nul_position_Some:
  "nul_position v = Some n \<Longrightarrow>
     take n v = takeWhile (\<lambda>x. \<not> is_default x) v \<and> n < length v \<and> is_default (v ! n)"
  by (induction v arbitrary: n) (auto split: if_splits)

lemma is_default_replicate: "is_default x \<Longrightarrow> x = replicate (length x) 0"
  unfolding is_default_def by (induction x) auto

lemma raw_add_data_cstr_eq:
  assumes "\<forall>x \<in> set v. length x = vsize"
  shows "raw_add_data_cstr vsize v b = b\<lparr>eb_data := eb_data b @ cstr_bytes vsize v\<rparr>"
proof (cases "nul_position v")
  case None
  then show ?thesis
    unfolding cstr_bytes_def nul_position_None [OF None]
    by (simp add: raw_add_data_cstr_def raw_add_data_slice_def raw_add_data_value_def)
next
  case (Some n)
  note n = nul_position_Some [OF Some]
  then have "length (v ! n) = vsize" using assms by simp
  with n is_default_replicate [of "v ! n"] have "v ! n = replicate vsize 0" by simp
  with n Some show ?thesis
    by (simp add: raw_add_data_cstr_def raw_add_data_slice_def cstr_bytes_def take_Suc_conv_app_nth)
qed

text \<open>The closures of the three kinds of sequences.\<close>

interpretation value_writer: element_writer raw_add_data_value "\<lambda>v. v" "\<lambda>v. True"
  by unfold_locales (simp add: raw_add_data_value_def)

interpretation counted_writer: element_writer "raw_add_data_counted tgt" "counted_bytes tgt" "\<lambda>v. True" for tgt
  by unfold_locales (rule raw_add_data_counted_eq)

interpretation cstr_writer: element_writer "raw_add_data_cstr vsize" "cstr_bytes vsize"
  "\<lambda>v. \<forall>x \<in> set v. length x = vsize" for vsize
  by unfold_locales (rule raw_add_data_cstr_eq)

end
