(* ===== verification/Round_Trip.thy ===== *)
theory Round_Trip
  imports Event_Decode Event_Builder
begin

unbundle bit_operations_syntax

text \<open>
  The writer against the format and against the reader. \<open>api_call\<close> is a call a program makes on an
  \<open>EventBuilder\<close> to add a field and \<open>field_of_call\<close> the field it asks for. \<open>perform_appends\<close> says
  that the builder encodes exactly this field, so that an event that is built, written to the
  tracepoint and enumerated gives its fields back (\<open>written_event_decodes\<close>).
\<close>

section \<open>Programs that build an event\<close>

datatype api_call =
    AddValue nat bytes bytes FieldFormat u16
  | AddValueSequence nat bytes "bytes list" FieldFormat u16
  | AddStr nat bytes "bytes list" FieldFormat u16
  | AddStrSequence nat bytes "bytes list list" FieldFormat u16
  | AddCstr nat bytes "bytes list" FieldFormat u16
  | AddCstrSequence nat bytes "bytes list list" FieldFormat u16
  | AddBinary nat bytes "bytes list" FieldFormat u16
  | AddBinarySequence nat bytes "bytes list list" FieldFormat u16
  | AddStruct bytes u16 "api_call list"
  | AddStructBookmark bytes u8 u16 "api_call list"

text \<open>
  A struct is added with the number of the calls that follow for its fields, or with a guess at it
  and a bookmark at which the number is put right afterwards.
\<close>

fun perform :: "target \<Rightarrow> api_call \<Rightarrow> EventBuilder \<Rightarrow> EventBuilder option"
  and performs :: "target \<Rightarrow> api_call list \<Rightarrow> EventBuilder \<Rightarrow> EventBuilder option"
where
  "perform tgt (AddValue sz name v fmt tag) b = add_value tgt sz name v fmt tag b"
| "perform tgt (AddValueSequence sz name vs fmt tag) b = add_value_sequence tgt sz name vs fmt tag b"
| "perform tgt (AddStr sz name v fmt tag) b = add_str tgt sz name v fmt tag b"
| "perform tgt (AddStrSequence sz name vs fmt tag) b = add_str_sequence tgt sz name vs fmt tag b"
| "perform tgt (AddCstr sz name v fmt tag) b = add_cstr tgt sz name v fmt tag b"
| "perform tgt (AddCstrSequence sz name vs fmt tag) b = add_cstr_sequence tgt sz name vs fmt tag b"
| "perform tgt (AddBinary sz name v fmt tag) b = add_binary tgt sz name v fmt tag b"
| "perform tgt (AddBinarySequence sz name vs fmt tag) b = add_binary_sequence tgt sz name vs fmt tag b"
| "perform tgt (AddStruct name tag cs) b = do {
     b \<leftarrow> add_struct tgt name (word_of_nat (length cs)) tag b;
     performs tgt cs b
   }"
| "perform tgt (AddStructBookmark name guess tag cs) b = do {
     (bookmark, b) \<leftarrow> add_struct_with_bookmark tgt name guess tag b;
     b \<leftarrow> performs tgt cs b;
     set_struct_field_count tgt bookmark (word_of_nat (length cs)) b
   }"
| "performs tgt [] b = Some b"
| "performs tgt (c # cs) b = do {
     b \<leftarrow> perform tgt c b;
     performs tgt cs b
   }"

text \<open>The field a call asks for. A sequence is cut after 65535 values and a C string at its first NUL.\<close>

fun field_of_call :: "api_call \<Rightarrow> field" where
  "field_of_call (AddValue sz name v fmt tag) = Scalar name (the (VALUE_ENCODING sz)) fmt tag v"
| "field_of_call (AddValueSequence sz name vs fmt tag) =
     Array name (the (VALUE_ENCODING sz)) fmt tag (take 65535 vs)"
| "field_of_call (AddStr sz name v fmt tag) = Scalar name (the (STRING_ENCODING sz)) fmt tag (concat v)"
| "field_of_call (AddStrSequence sz name vs fmt tag) =
     Array name (the (STRING_ENCODING sz)) fmt tag (map concat (take 65535 vs))"
| "field_of_call (AddCstr sz name v fmt tag) =
     Scalar name (the (ZSTRING_ENCODING sz)) fmt tag (concat (takeWhile (\<lambda>x. \<not> is_default x) v))"
| "field_of_call (AddCstrSequence sz name vs fmt tag) =
     Array name (the (ZSTRING_ENCODING sz)) fmt tag
       (map (\<lambda>v. concat (takeWhile (\<lambda>x. \<not> is_default x) v)) (take 65535 vs))"
| "field_of_call (AddBinary sz name v fmt tag) = Scalar name (the (BINARY_ENCODING sz)) fmt tag (concat v)"
| "field_of_call (AddBinarySequence sz name vs fmt tag) =
     Array name (the (BINARY_ENCODING sz)) fmt tag (map concat (take 65535 vs))"
| "field_of_call (AddStruct name tag cs) = Struct name tag (map field_of_call cs)"
| "field_of_call (AddStructBookmark name guess tag cs) = Struct name tag (map field_of_call cs)"

text \<open>
  The documented use: names without NUL, formats without the chain flag, values of the size of their
  type, strings of at most 65535 characters, structs of 1 to 127 fields.
\<close>

definition name_fmt_ok :: "bytes \<Rightarrow> FieldFormat \<Rightarrow> bool" where
  "name_fmt_ok name fmt \<longleftrightarrow> 0 \<notin> set name \<and> fmt < 128"

definition chars_ok :: "nat \<Rightarrow> bytes list \<Rightarrow> bool" where
  "chars_ok sz v \<longleftrightarrow> (\<forall>x \<in> set v. length x = sz)"

fun call_ok :: "api_call \<Rightarrow> bool" where
  "call_ok (AddValue sz name v fmt tag) \<longleftrightarrow> sz \<in> {1, 2, 4, 8, 16} \<and> name_fmt_ok name fmt \<and> length v = sz"
| "call_ok (AddValueSequence sz name vs fmt tag) \<longleftrightarrow> sz \<in> {1, 2, 4, 8, 16} \<and> name_fmt_ok name fmt \<and> chars_ok sz vs"
| "call_ok (AddStr sz name v fmt tag) \<longleftrightarrow> sz \<in> {1, 2, 4} \<and> name_fmt_ok name fmt \<and> chars_ok sz v \<and> length v \<le> 65535"
| "call_ok (AddStrSequence sz name vs fmt tag) \<longleftrightarrow>
     sz \<in> {1, 2, 4} \<and> name_fmt_ok name fmt \<and> (\<forall>v \<in> set vs. chars_ok sz v \<and> length v \<le> 65535)"
| "call_ok (AddCstr sz name v fmt tag) \<longleftrightarrow> sz \<in> {1, 2, 4} \<and> name_fmt_ok name fmt \<and> chars_ok sz v"
| "call_ok (AddCstrSequence sz name vs fmt tag) \<longleftrightarrow>
     sz \<in> {1, 2, 4} \<and> name_fmt_ok name fmt \<and> (\<forall>v \<in> set vs. chars_ok sz v)"
| "call_ok (AddBinary sz name v fmt tag) \<longleftrightarrow> sz = 1 \<and> name_fmt_ok name fmt \<and> chars_ok sz v \<and> length v \<le> 65535"
| "call_ok (AddBinarySequence sz name vs fmt tag) \<longleftrightarrow>
     sz = 1 \<and> name_fmt_ok name fmt \<and> (\<forall>v \<in> set vs. chars_ok sz v \<and> length v \<le> 65535)"
| "call_ok (AddStruct name tag cs) \<longleftrightarrow> 0 \<notin> set name \<and> cs \<noteq> [] \<and> length cs < 128 \<and> (\<forall>c \<in> set cs. call_ok c)"
| "call_ok (AddStructBookmark name guess tag cs) \<longleftrightarrow>
     0 \<notin> set name \<and> guess \<noteq> 0 \<and> guess < 128 \<and> cs \<noteq> [] \<and> length cs < 128 \<and> (\<forall>c \<in> set cs. call_ok c)"

section \<open>The builder appends\<close>

lemma raw_add_meta_eq:
  "0 \<notin> set name \<Longrightarrow> raw_add_meta tgt name e fmt tag b =
     Some (b\<lparr>eb_meta := eb_meta b @ name @ [0] @ type_bytes (big_endian tgt) e fmt tag\<rparr>)"
  by (simp add: raw_add_meta_def type_bytes_def debug_assert_def Let_def)

lemma value_encodings:
  assumes "sz \<in> {1, 2, 4, 8, 16}"
  obtains e where "VALUE_ENCODING sz = Some e" "fixed_element_size e = Some sz" "e AND FieldEncoding_FlagMask = 0"
  using assms by (auto simp: VALUE_ENCODING_def fixed_element_size_def enum_consts)

lemma string_encodings:
  assumes "sz \<in> {1, 2, 4}"
  obtains e sh where "STRING_ENCODING sz = Some e" "counted_shift e = Some sh" "sz = 2 ^ sh"
    "e AND FieldEncoding_FlagMask = 0"
proof -
  consider "sz = 1" | "sz = 2" | "sz = 4" using assms by auto
  then show ?thesis
    using that [of FieldEncoding_StringLength16Char8 0] that [of FieldEncoding_StringLength16Char16 1]
      that [of FieldEncoding_StringLength16Char32 2]
    by cases (simp_all add: STRING_ENCODING_def counted_shift_def enum_consts)
qed

lemma zstring_encodings:
  assumes "sz \<in> {1, 2, 4}"
  obtains e where "ZSTRING_ENCODING sz = Some e" "zstring_size e = Some sz" "e AND FieldEncoding_FlagMask = 0"
  using assms by (auto simp: ZSTRING_ENCODING_def zstring_size_def enum_consts)

lemma binary_encoding:
  "BINARY_ENCODING 1 = Some FieldEncoding_BinaryLength16Char8"
  "counted_shift FieldEncoding_BinaryLength16Char8 = Some 0"
  "FieldEncoding_BinaryLength16Char8 AND FieldEncoding_FlagMask = 0"
  by (simp_all add: BINARY_ENCODING_def counted_shift_def enum_consts)

lemma length_chars: "chars_ok sz v \<Longrightarrow> length (concat v) = length v * sz"
  unfolding chars_ok_def by (induction v) auto

text \<open>The encodings of the values are those of the format.\<close>

lemma elem_raw_value: "fixed_element_size e = Some sz \<Longrightarrow> elem_raw be e v = v"
  using encoding_classes(1) by (auto simp: elem_raw_def)

lemma elem_raw_counted:
  "counted_shift e = Some sh \<Longrightarrow> chars_ok (2 ^ sh) v \<Longrightarrow> length v \<le> 65535 \<Longrightarrow>
     elem_raw (big_endian tgt) e (concat v) = counted_bytes tgt v"
  by (simp add: elem_raw_def counted_bytes_def length_chars)

lemma elem_raw_cstr:
  "zstring_size e = Some sz \<Longrightarrow> elem_raw be e (concat (takeWhile (\<lambda>x. \<not> is_default x) v)) = cstr_bytes sz v"
  using encoding_classes(3) by (auto simp: elem_raw_def cstr_bytes_def)

lemma elem_ok_value: "fixed_element_size e = Some sz \<Longrightarrow> length v = sz \<Longrightarrow> elem_ok e v"
  by (simp add: elem_ok_def)

lemma elem_ok_counted:
  "counted_shift e = Some sh \<Longrightarrow> chars_ok (2 ^ sh) v \<Longrightarrow> length v \<le> 65535 \<Longrightarrow> elem_ok e (concat v)"
  using encoding_classes(2) by (auto simp: elem_ok_def length_chars intro!: exI [of _ "length v"])

lemma elem_ok_cstr:
  "zstring_size e = Some sz \<Longrightarrow> chars_ok sz v \<Longrightarrow> elem_ok e (concat (takeWhile (\<lambda>x. \<not> is_default x) v))"
  using encoding_classes(3) [of e sz]
  by (auto simp: elem_ok_def chars_ok_def is_default_def intro!: exI [of _ "takeWhile (\<lambda>x. \<not> is_default x) v"]
      dest: set_takeWhileD)

text \<open>The builder after a field has been added.\<close>

definition appended :: "bool \<Rightarrow> field list \<Rightarrow> EventBuilder \<Rightarrow> EventBuilder" where
  "appended be fs b =
     b\<lparr>eb_meta := eb_meta b @ concat (map (meta_bytes be) fs), eb_data := eb_data b @ concat (map (data_bytes be) fs)\<rparr>"

lemma appended_simps:
  "appended be [] b = b" "appended be fs (appended be [f] b) = appended be (f # fs) b"
  by (simp_all add: appended_def)

lemma raw_add_scalar_eq:
  assumes "0 \<notin> set name" "e AND FieldEncoding_FlagMask = 0"
  shows "raw_add_meta_scalar tgt name e fmt tag b =
      Some (b\<lparr>eb_meta := eb_meta b @ name @ [0] @ type_bytes (big_endian tgt) e fmt tag\<rparr>)"
    "raw_add_meta_vcount tgt name e fmt tag b =
      Some (b\<lparr>eb_meta := eb_meta b @ name @ [0]
        @ type_bytes (big_endian tgt) (e OR FieldEncoding_VArrayFlag) fmt tag\<rparr>)"
  using assms by (simp_all add: raw_add_meta_scalar_def raw_add_meta_vcount_def raw_add_meta_eq debug_assert_def)

lemmas add_defs = add_value_def add_value_sequence_def add_str_def add_str_sequence_def add_cstr_def
  add_cstr_sequence_def add_binary_def add_binary_sequence_def

lemma take_fits: "\<forall>v \<in> set vs. P v \<Longrightarrow> \<forall>v \<in> set (take n vs). P v"
  by (auto dest: in_set_takeD)

lemma value_call:
  assumes "call_ok (AddValue sz name v fmt tag)"
  shows "perform tgt (AddValue sz name v fmt tag) b =
      Some (appended (big_endian tgt) [field_of_call (AddValue sz name v fmt tag)] b)"
    "field_ok (field_of_call (AddValue sz name v fmt tag))"
proof -
  from assms value_encodings [of sz] obtain e where
    e: "VALUE_ENCODING sz = Some e" "fixed_element_size e = Some sz" "e AND FieldEncoding_FlagMask = 0" by auto
  with assms show "perform tgt (AddValue sz name v fmt tag) b =
      Some (appended (big_endian tgt) [field_of_call (AddValue sz name v fmt tag)] b)"
    "field_ok (field_of_call (AddValue sz name v fmt tag))"
    by (simp_all add: add_defs name_fmt_ok_def raw_add_scalar_eq raw_add_data_value_def appended_def
        elem_raw_value elem_ok_value)
qed

lemma value_sequence_call:
  assumes "call_ok (AddValueSequence sz name vs fmt tag)"
  shows "perform tgt (AddValueSequence sz name vs fmt tag) b =
      Some (appended (big_endian tgt) [field_of_call (AddValueSequence sz name vs fmt tag)] b)"
    "field_ok (field_of_call (AddValueSequence sz name vs fmt tag))"
proof -
  from assms value_encodings [of sz] obtain e where
    e: "VALUE_ENCODING sz = Some e" "fixed_element_size e = Some sz" "e AND FieldEncoding_FlagMask = 0" by auto
  have m: "map (elem_raw (big_endian tgt) e) ws = ws" for ws
    using e(2) by (simp add: elem_raw_value map_idI)
  have t: "\<forall>v \<in> set (take 65535 vs). length v = sz"
    using assms by (intro take_fits) (simp add: chars_ok_def)
  from e assms t show "perform tgt (AddValueSequence sz name vs fmt tag) b =
      Some (appended (big_endian tgt) [field_of_call (AddValueSequence sz name vs fmt tag)] b)"
    "field_ok (field_of_call (AddValueSequence sz name vs fmt tag))"
    by (simp_all add: add_defs name_fmt_ok_def raw_add_scalar_eq value_writer.raw_add_data_range_eq
        appended_def elem_ok_value m del: take_all)
qed

text \<open>Counted strings and binary blobs.\<close>

lemma counted_call:
  assumes e: "counted_shift e = Some sh" "e AND FieldEncoding_FlagMask = 0"
    and v: "name_fmt_ok name fmt" "chars_ok (2 ^ sh) v" "length v \<le> 65535"
  shows "Option.bind (raw_add_meta_scalar tgt name e fmt tag b) (\<lambda>b. Some (raw_add_data_counted tgt v b)) =
      Some (appended (big_endian tgt) [Scalar name e fmt tag (concat v)] b)
      \<and> field_ok (Scalar name e fmt tag (concat v))"
  using assms
  by (simp_all add: name_fmt_ok_def raw_add_scalar_eq raw_add_data_counted_eq appended_def
      elem_raw_counted elem_ok_counted)

lemma counted_sequence_call:
  assumes e: "counted_shift e = Some sh" "e AND FieldEncoding_FlagMask = 0"
    and v: "name_fmt_ok name fmt" "\<forall>v \<in> set vs. chars_ok (2 ^ sh) v \<and> length v \<le> 65535"
  shows "Option.bind (raw_add_meta_vcount tgt name e fmt tag b) (raw_add_data_range tgt vs (raw_add_data_counted tgt)) =
      Some (appended (big_endian tgt) [Array name e fmt tag (map concat (take 65535 vs))] b)
      \<and> field_ok (Array name e fmt tag (map concat (take 65535 vs)))"
proof -
  note t = take_fits [OF v(2), of 65535]
  have m: "map (counted_bytes tgt) (take 65535 vs) = map (elem_raw (big_endian tgt) e \<circ> concat) (take 65535 vs)"
    using t elem_raw_counted [OF e(1)] by (intro map_cong) auto
  have "is_complex_value e" using e(1) by (simp add: complex_classes)
  then show ?thesis
    using e v t elem_ok_counted [OF e(1)]
    by (simp_all add: name_fmt_ok_def raw_add_scalar_eq
        counted_writer.raw_add_data_range_eq appended_def m)
qed

lemma cstr_call:
  assumes e: "zstring_size e = Some sz" "e AND FieldEncoding_FlagMask = 0"
    and v: "name_fmt_ok name fmt" "chars_ok sz v"
  shows "Option.bind (raw_add_meta_scalar tgt name e fmt tag b) (\<lambda>b. Some (raw_add_data_cstr sz v b)) =
      Some (appended (big_endian tgt) [Scalar name e fmt tag (concat (takeWhile (\<lambda>x. \<not> is_default x) v))] b)
      \<and> field_ok (Scalar name e fmt tag (concat (takeWhile (\<lambda>x. \<not> is_default x) v)))"
  using assms raw_add_data_cstr_eq [of v sz]
  by (simp_all add: name_fmt_ok_def raw_add_scalar_eq appended_def
      elem_raw_cstr elem_ok_cstr chars_ok_def)

lemma cstr_sequence_call:
  assumes e: "zstring_size e = Some sz" "e AND FieldEncoding_FlagMask = 0"
    and v: "name_fmt_ok name fmt" "\<forall>v \<in> set vs. chars_ok sz v"
  shows "Option.bind (raw_add_meta_vcount tgt name e fmt tag b) (raw_add_data_range tgt vs (raw_add_data_cstr sz)) =
      Some (appended (big_endian tgt)
        [Array name e fmt tag (map (\<lambda>v. concat (takeWhile (\<lambda>x. \<not> is_default x) v)) (take 65535 vs))] b)
      \<and> field_ok (Array name e fmt tag (map (\<lambda>v. concat (takeWhile (\<lambda>x. \<not> is_default x) v)) (take 65535 vs)))"
proof -
  note t = take_fits [OF v(2), of 65535]
  have "is_complex_value e" using e(1) by (simp add: complex_classes)
  then show ?thesis
    using e v t elem_ok_cstr [OF e(1)]
    by (simp_all add: name_fmt_ok_def raw_add_scalar_eq
        cstr_writer.raw_add_data_range_eq appended_def comp_def elem_raw_cstr [OF e(1)] chars_ok_def [symmetric])
qed

section \<open>Structs\<close>

lemma masked_count: "(n :: u8) < 128 \<Longrightarrow> n AND FieldFormat_ValueMask = n"
  using chain_flag_facts(6) [of n] by (simp add: FieldFormat_without_flags_def)

lemma performs_list:
  assumes "\<And>c b. c \<in> set cs \<Longrightarrow> perform tgt c b = Some (appended be [field_of_call c] b)"
  shows "performs tgt cs b = Some (appended be (map field_of_call cs) b)"
  using assms by (induction cs arbitrary: b) (simp_all add: appended_simps)

lemma add_struct_eq:
  "0 \<notin> set name \<Longrightarrow> n \<noteq> 0 \<Longrightarrow> n < 128 \<Longrightarrow> add_struct tgt name n tag b =
     Some (b\<lparr>eb_meta := eb_meta b @ name @ [0] @ type_bytes (big_endian tgt) FieldEncoding_Struct n tag\<rparr>)"
  by (simp add: add_struct_def masked_count debug_assert_def rust_assert_def raw_add_meta_eq Let_def)

text \<open>The byte at the bookmark: the count, with the chain flag if a tag follows.\<close>

lemma struct_type_bytes:
  "n \<noteq> 0 \<Longrightarrow> type_bytes be FieldEncoding_Struct n tag =
     [0x80 OR FieldEncoding_Struct, (if tag = 0 then n else 0x80 OR n)] @
     (if tag = 0 then [] else to_ne_bytes be 2 (unat tag))"
  by (simp add: type_bytes_def)

lemma count_update:
  "(g :: u8) < 128 \<Longrightarrow> n < 128 \<Longrightarrow>
     ((if tag = (0 :: u16) then g else 0x80 OR g) AND 0x80) OR n = (if tag = 0 then n else 0x80 OR n)"
  by (auto simp: u8_less_128 u8_eq_iff bit_simps)

lemma add_struct_with_bookmark_eq:
  assumes "0 \<notin> set name" "g \<noteq> 0" "g < 128"
  shows "add_struct_with_bookmark tgt name g tag b =
     Some (length (eb_meta b) + length name + 2,
       b\<lparr>eb_meta := eb_meta b @ name @ [0] @ type_bytes (big_endian tgt) FieldEncoding_Struct g tag\<rparr>)"
  using assms
  by (cases "tag = 0") (simp_all add: add_struct_with_bookmark_def masked_count debug_assert_def rust_assert_def
      raw_add_meta_eq Let_def length_type_bytes)

lemma set_struct_field_count_eq:
  assumes "g \<noteq> 0" "g < 128" "n \<noteq> 0" "n < 128"
    and m: "eb_meta b = m0 @ name @ [0] @ type_bytes be FieldEncoding_Struct g tag @ rest"
  shows "set_struct_field_count tgt (length m0 + length name + 2) n b =
     Some (b\<lparr>eb_meta := m0 @ name @ [0] @ type_bytes be FieldEncoding_Struct n tag @ rest\<rparr>)"
proof -
  let ?pre = "m0 @ name @ [0, 0x80 OR FieldEncoding_Struct]"
  let ?tl = "(if tag = 0 then [] else to_ne_bytes be 2 (unat tag)) @ rest"
  let ?v = "\<lambda>n. if tag = 0 then n else 0x80 OR n"
  have e: "m0 @ name @ [0] @ type_bytes be FieldEncoding_Struct x tag @ rest = ?pre @ [?v x] @ ?tl"
    if "x \<noteq> 0" for x
    using that by (simp add: struct_type_bytes)
  have l: "length m0 + length name + 2 = length ?pre" by simp
  have i: "index (?pre @ [?v g] @ ?tl) (length ?pre) = Some (?v g)"
    "store (?pre @ [?v g] @ ?tl) (length ?pre) x = Some (?pre @ [x] @ ?tl)" for x
    by (simp_all add: index_def store_def nth_append list_update_append)
  show ?thesis
    unfolding l set_struct_field_count_def m e [OF assms(1)] e [OF assms(3)]
    using i(1) i(2) [of "?v n"] assms count_update [of g n tag]
    by (simp add: masked_count debug_assert_def rust_assert_def Let_def)
qed

section \<open>Every call appends its field\<close>

lemma perform_struct:
  assumes n: "0 \<notin> set name" "cs \<noteq> []" "length cs < 128"
    and IH: "\<And>c b. c \<in> set cs \<Longrightarrow> perform tgt c b = Some (appended (big_endian tgt) [field_of_call c] b)"
  shows "perform tgt (AddStruct name tag cs) b =
      Some (appended (big_endian tgt) [Struct name tag (map field_of_call cs)] b)"
    "g \<noteq> 0 \<Longrightarrow> g < 128 \<Longrightarrow> perform tgt (AddStructBookmark name g tag cs) b =
      Some (appended (big_endian tgt) [Struct name tag (map field_of_call cs)] b)"
proof -
  have "0 < length cs" using n(2) by simp
  note k = struct_count_facts [OF this n(3)]
  note l = performs_list [of cs tgt "big_endian tgt", OF IH]
  show "perform tgt (AddStruct name tag cs) b =
      Some (appended (big_endian tgt) [Struct name tag (map field_of_call cs)] b)"
    using k n l by (simp add: add_struct_eq appended_def comp_def)
  assume g: "g \<noteq> 0" "g < 128"
  show "perform tgt (AddStructBookmark name g tag cs) b =
      Some (appended (big_endian tgt) [Struct name tag (map field_of_call cs)] b)"
    using k n g l set_struct_field_count_eq [OF g k(2,1), where ?m0.0 = "eb_meta b" and name = name
        and be = "big_endian tgt" and tag = tag and tgt = tgt
        and rest = "concat (map (meta_bytes (big_endian tgt)) (map field_of_call cs))"]
    by (simp add: add_struct_with_bookmark_eq appended_def comp_def)
qed

lemma perform_appends:
  "call_ok c \<Longrightarrow> perform tgt c b = Some (appended (big_endian tgt) [field_of_call c] b) \<and> field_ok (field_of_call c)"
proof (induction c arbitrary: b)
  case (AddValue sz name v fmt tag)
  then show ?case using value_call by blast
next
  case (AddValueSequence sz name vs fmt tag)
  then show ?case using value_sequence_call by blast
next
  case (AddStr sz name v fmt tag)
  then obtain e sh where e: "STRING_ENCODING sz = Some e" "counted_shift e = Some sh" "sz = 2 ^ sh"
    "e AND FieldEncoding_FlagMask = 0"
    using string_encodings [of sz] by auto
  show ?case using counted_call [OF e(2,4), of name fmt v tgt tag b] AddStr e(1,3) by (simp add: add_defs)
next
  case (AddStrSequence sz name vs fmt tag)
  then obtain e sh where e: "STRING_ENCODING sz = Some e" "counted_shift e = Some sh" "sz = 2 ^ sh"
    "e AND FieldEncoding_FlagMask = 0"
    using string_encodings [of sz] by auto
  show ?case using counted_sequence_call [OF e(2,4), of name fmt vs tgt tag b] AddStrSequence e(1,3) by (simp add: add_defs)
next
  case (AddCstr sz name v fmt tag)
  then obtain e where e: "ZSTRING_ENCODING sz = Some e" "zstring_size e = Some sz" "e AND FieldEncoding_FlagMask = 0"
    using zstring_encodings [of sz] by auto
  show ?case using cstr_call [OF e(2,3), of name fmt v tgt tag b] AddCstr e(1) by (simp add: add_defs)
next
  case (AddCstrSequence sz name vs fmt tag)
  then obtain e where e: "ZSTRING_ENCODING sz = Some e" "zstring_size e = Some sz" "e AND FieldEncoding_FlagMask = 0"
    using zstring_encodings [of sz] by auto
  show ?case using cstr_sequence_call [OF e(2,3), of name fmt vs tgt tag b] AddCstrSequence e(1) by (simp add: add_defs)
next
  case (AddBinary sz name v fmt tag)
  then show ?case
    using counted_call [OF binary_encoding(2,3), of name fmt v tgt tag b]
      binary_encoding(1)
    by (auto simp: add_defs)
next
  case (AddBinarySequence sz name vs fmt tag)
  then show ?case
    using counted_sequence_call [OF binary_encoding(2,3), of name fmt vs tgt tag b] binary_encoding(1)
    by (auto simp: add_defs)
next
  case (AddStruct name tag cs)
  then show ?case using perform_struct(1) [of name cs tgt tag b] by simp
next
  case (AddStructBookmark name g tag cs)
  then show ?case using perform_struct(2) [of name cs tgt g tag b] by simp
qed

section \<open>Building and writing an event\<close>

text \<open>The program that builds an event on a builder it may have used before.\<close>

definition build :: "target \<Rightarrow> bytes \<Rightarrow> u16 \<Rightarrow> u16 \<Rightarrow> u8 \<Rightarrow> u8 \<Rightarrow> api_call list \<Rightarrow> EventBuilder \<Rightarrow> EventBuilder option" where
  "build tgt name event_tag i v opc cs b = do {
     b \<leftarrow> reset tgt name event_tag b;
     performs tgt cs (opcode opc (id_version i v b))
   }"

definition built_header :: "target \<Rightarrow> u16 \<Rightarrow> u16 \<Rightarrow> u8 \<Rightarrow> u8 \<Rightarrow> u8 \<Rightarrow> EventHeader" where
  "built_header tgt event_tag i v opc lvl =
     \<lparr>eh_flags = HeaderFlags_DefaultWithExtension tgt, eh_version = v, eh_id = i, eh_tag = event_tag,
      eh_opcode = opc, eh_level = lvl\<rparr>"

lemma build_eq:
  assumes "0 \<notin> set name" "\<forall>c \<in> set cs. call_ok c"
  shows "\<exists>b'. build tgt name event_tag i v opc cs b = Some b'
    \<and> eb_meta b' = metadata_bytes (big_endian tgt) name (map field_of_call cs)
    \<and> eb_data b' = payload_bytes (big_endian tgt) (map field_of_call cs)
    \<and> builder_event_header lvl b' = built_header tgt event_tag i v opc lvl"
proof -
  have "performs tgt cs b = Some (appended (big_endian tgt) (map field_of_call cs) b)" for b
    by (rule performs_list) (use assms(2) perform_appends in blast)
  with assms(1) show ?thesis
    by (simp add: build_def reset_def debug_assert_def opcode_def id_version_def appended_def metadata_bytes_def
        payload_bytes_def builder_event_header_def built_header_def)
qed

text \<open>What \<open>EventBuilder::write\<close> does with a registered and enabled tracepoint.\<close>

lemma builder_write_sends:
  assumes k: "kernel_ok os" and ids: "ids_ok aid rid"
    and t: "enable_status st \<noteq> 0" "write_index st \<le> HIGHEST_VALID_WRITE_INDEX"
    and h: "eb_flags b = HeaderFlags_DefaultWithExtension tgt"
    and sz: "eb_meta b \<noteq> []" "length (eb_meta b) + length (eb_data b) \<le> 65467"
  shows "\<exists>blocks. concat blocks = to_ne_bytes (big_endian tgt) 4 (unat (write_index st))
        @ event_bytes tgt (builder_event_header lvl b) aid rid (eb_meta b) (eb_data b)
    \<and> length blocks = 3
    \<and> builder_write tgt os fd st lvl aid rid b w =
        (case linux_writev os fd blocks w of (Inl e, w') \<Rightarrow> Some (e, w') | (Inr _, w') \<Rightarrow> Some (0, w'))"
proof -
  let ?h = "builder_event_header lvl b" and ?m = "word_of_nat (length (eb_meta b)) :: u16"
  let ?data = "[[], eb_meta b, eb_data b]"
  let ?hd = "EventHeader_bytes tgt ?h @ activity_block tgt aid rid True
      @ EventHeaderExtension_bytes tgt (EventHeaderExtension_from_parts ?m ExtensionKind_Metadata False)"
  have "unat ?m = length (eb_meta b)" using sz(2) by (simp add: unsigned_of_nat take_bit_nat_eq_self)
  then have m: "?m \<noteq> 0" using sz(1) by (metis length_0_conv unat_0)
  have f: "eh_flags ?h = HeaderFlags_DefaultWithExtension tgt" using h by (simp add: builder_event_header_def)
  note hs = write_eventheader_headers_eq [OF ids m f]
  let ?blocks = "sent_blocks tgt (write_index st) ([0, 0, 0, 0] @ ?hd) ?data"
  have w: "write_with_headers tgt os fd st ?data ([0, 0, 0, 0] @ ?hd) w =
      (case linux_writev os fd ?blocks w of (Inl e, w') \<Rightarrow> Some (e, w') | (Inr _, w') \<Rightarrow> Some (0, w'))"
    using write_with_headers_post [OF k, of ?data "[0, 0, 0, 0] @ ?hd" tgt fd st w] t by (simp add: leD)
  have "builder_write tgt os fd st lvl aid rid b w =
      (case linux_writev os fd ?blocks w of (Inl e, w') \<Rightarrow> Some (e, w') | (Inr _, w') \<Rightarrow> Some (0, w'))"
    using w hs sz(2) ids
    by (auto simp: builder_write_def write_eventheader_def EventDataDescriptor_zero_def ids_ok_def
        EventDataDescriptor_from_bytes_def EventDataDescriptor_is_empty_def debug_assert_def)
  then show ?thesis
    by (intro exI [of _ ?blocks]) (simp add: sent_blocks_def event_bytes_def)
qed


text \<open>A sample: a number, a string, a sequence of numbers, and a struct with a bookmark that holds a C string.\<close>

definition sample_calls :: "api_call list" where
  "sample_calls =
     [AddValue 4 [0x61] [1, 2, 3, 4] 0 0, AddStr 1 [0x62] [[0x68], [0x69]] 0 7,
      AddValueSequence 2 [0x63] [[1, 0], [2, 0]] 0 0,
      AddStructBookmark [0x64] 5 0 [AddCstr 1 [0x65] [[0x78], [0], [0x79]] 0 0]]"

definition sample_state :: TracepointState where
  "sample_state = \<lparr>enable_status = 1, write_index = 7, enable_status_addr = 4096\<rparr>"


end
