(* ===== verification/Provider.thy ===== *)
theory Provider
  imports Event_Writer
begin

unbundle bit_operations_syntax

text \<open>
  \<open>eventheader/src/provider.rs\<close>: the command string that registers a tracepoint, the provider of the
  \<open>define_provider!\<close> macro with its list of tracepoints, and the writing of an event of such a
  tracepoint. The tracepoints are static variables that the provider reaches by pointers, some of them
  null or repeated; a pointer is a number, null is 0, and \<open>heap\<close> maps addresses to tracepoints.
\<close>

section \<open>Command strings\<close>

text \<open>\<open>u8 eventheader_flags; u8 version; u16 id; u16 tag; u8 opcode; u8 level\<close>\<close>

definition EVENTHEADER_COMMAND_TYPES :: bytes where
  "EVENTHEADER_COMMAND_TYPES =
     [0x75, 0x38, 0x20, 0x65, 0x76, 0x65, 0x6E, 0x74, 0x68, 0x65, 0x61, 0x64, 0x65, 0x72, 0x5F, 0x66, 0x6C, 0x61,
      0x67, 0x73, 0x3B, 0x20, 0x75, 0x38, 0x20, 0x76, 0x65, 0x72, 0x73, 0x69, 0x6F, 0x6E, 0x3B, 0x20, 0x75, 0x31,
      0x36, 0x20, 0x69, 0x64, 0x3B, 0x20, 0x75, 0x31, 0x36, 0x20, 0x74, 0x61, 0x67, 0x3B, 0x20, 0x75, 0x38, 0x20,
      0x6F, 0x70, 0x63, 0x6F, 0x64, 0x65, 0x3B, 0x20, 0x75, 0x38, 0x20, 0x6C, 0x65, 0x76, 0x65, 0x6C]"

definition EVENTHEADER_NAME_MAX :: nat where
  "EVENTHEADER_NAME_MAX = 256"

definition EVENTHEADER_COMMAND_MAX :: nat where
  "EVENTHEADER_COMMAND_MAX = EVENTHEADER_NAME_MAX + 1 + length EVENTHEADER_COMMAND_TYPES"

text \<open>The digits that \<open>{:x}\<close> prints.\<close>

definition hex_char :: "nat \<Rightarrow> u8" where
  "hex_char n = (if n < 10 then 0x30 + word_of_nat n else 0x61 + word_of_nat (n - 10))"

fun lower_hex :: "nat \<Rightarrow> bytes" where
  "lower_hex n = (if n < 16 then [hex_char n] else lower_hex (n div 16) @ [hex_char (n mod 16)])"

declare lower_hex.simps [simp del]

record CommandStringBuffer =
  cs_buf :: bytes
  cs_pos :: nat

definition CommandString_new :: CommandStringBuffer where
  "CommandString_new = \<lparr>cs_buf = replicate EVENTHEADER_COMMAND_MAX 0, cs_pos = 0\<rparr>"

definition command_write :: "bytes \<Rightarrow> CommandStringBuffer \<Rightarrow> CommandStringBuffer option" where
  "command_write v c = do {
     buf \<leftarrow> copy_from_slice (cs_buf c) (cs_pos c) (cs_pos c + length v) v;
     Some \<lparr>cs_buf = buf, cs_pos = cs_pos c + length v\<rparr>
   }"

text \<open>
  The pieces of a \<open>write!\<close> reach \<open>write_str\<close> one after the other. \<open>CStr::from_bytes_with_nul\<close> fails if
  there is a NUL before the last byte.
\<close>

definition command_format ::
  "bytes \<Rightarrow> bytes \<Rightarrow> u8 \<Rightarrow> u64 \<Rightarrow> CommandStringBuffer \<Rightarrow> (bytes \<times> CommandStringBuffer) option" where
  "command_format provider_name provider_options lvl kw c = do {
     let c = c\<lparr>cs_pos := 0\<rparr>;
     c \<leftarrow> command_write provider_name c;
     c \<leftarrow> command_write [0x5F, 0x4C] c;
     c \<leftarrow> command_write (lower_hex (unat lvl)) c;
     c \<leftarrow> command_write [0x4B] c;
     c \<leftarrow> command_write (lower_hex (unat kw)) c;
     c \<leftarrow> command_write provider_options c;
     c \<leftarrow> command_write [0x20] c;
     c \<leftarrow> command_write EVENTHEADER_COMMAND_TYPES c;
     buf \<leftarrow> store (cs_buf c) (cs_pos c) 0;
     let c = \<lparr>cs_buf = buf, cs_pos = cs_pos c + 1\<rparr>;
     s \<leftarrow> slice (cs_buf c) 0 (cs_pos c);
     rust_assert (0 \<notin> set (butlast s));
     Some (butlast s, c)
   }"

section \<open>The provider\<close>

record EventHeaderTracepoint =
  et_state :: TracepointState
  et_header :: EventHeader
  et_keyword :: u64
  et_metadata :: bytes

record Provider =
  pv_name :: bytes
  pv_options :: bytes
  pv_events :: "nat list"
  pv_busy :: bool

type_synonym heap = "nat \<rightharpoonup> EventHeaderTracepoint"

definition EventHeaderTracepoint_new :: "EventHeader \<Rightarrow> u64 \<Rightarrow> bytes \<Rightarrow> u64 \<Rightarrow> EventHeaderTracepoint" where
  "EventHeaderTracepoint_new h kw meta addr =
     \<lparr>et_state = TracepointState_new 0 addr, et_header = h, et_keyword = kw, et_metadata = meta\<rparr>"

definition tracepoint_enabled :: "EventHeaderTracepoint \<Rightarrow> bool" where
  "tracepoint_enabled t = enabled (et_state t)"

definition provider_new :: "bytes \<Rightarrow> bytes \<Rightarrow> nat list \<Rightarrow> Provider" where
  "provider_new name options events =
     \<lparr>pv_name = name, pv_options = options, pv_events = events, pv_busy = False\<rparr>"

definition tracepoint_write_eventheader ::
  "target \<Rightarrow> 'w linux \<Rightarrow> int \<Rightarrow> EventHeaderTracepoint \<Rightarrow> bytes option \<Rightarrow> bytes option \<Rightarrow> EventDataDescriptor list
    \<Rightarrow> 'w \<Rightarrow> (int \<times> 'w) option" where
  "tracepoint_write_eventheader tgt os fd t activity_id related_id data w = do {
     (if debug_assertions tgt then do {
        d1 \<leftarrow> index data 1;
        debug_assert True (EventDataDescriptor_is_empty d1)
      } else Some ());
     data \<leftarrow> store data 1 (EventDataDescriptor_from_bytes (et_metadata t));
     write_eventheader tgt os fd (et_state t) (et_header t) activity_id related_id
       (word_of_nat (length (et_metadata t))) data w
   }"

text \<open>The loop of \<open>unregister\<close> over the tracepoints, up to the first null.\<close>

fun unregister_events ::
  "target \<Rightarrow> 'w linux \<Rightarrow> int \<Rightarrow> nat list \<Rightarrow> int \<Rightarrow> heap \<Rightarrow> 'w \<Rightarrow> (int \<times> heap \<times> 'w) option" where
  "unregister_events tgt os fd [] result hp w = Some (result, hp, w)"
| "unregister_events tgt os fd (p # ps) result hp w =
     (if p = 0 then Some (result, hp, w)
      else do {
        event \<leftarrow> hp p;
        (err, st, w) \<leftarrow> unregister tgt os fd (et_state event) w;
        unregister_events tgt os fd ps (if result = 0 then err else result)
          (hp(p \<mapsto> event\<lparr>et_state := st\<rparr>)) w
      })"

definition provider_unregister ::
  "target \<Rightarrow> 'w linux \<Rightarrow> int \<Rightarrow> Provider \<Rightarrow> heap \<Rightarrow> 'w \<Rightarrow> (int \<times> Provider \<times> heap \<times> 'w) option" where
  "provider_unregister tgt os fd pv hp w =
     (if pv_busy pv then Some (0, pv\<lparr>pv_busy := True\<rparr>, hp, w)
      else do {
        (result, hp, w) \<leftarrow> unregister_events tgt os fd (pv_events pv) 0 hp w;
        Some (result, pv\<lparr>pv_busy := False\<rparr>, hp, w)
      })"

text \<open>The loops that remove repeated pointers from the sorted list.\<close>

function dedup_inner :: "nat list \<Rightarrow> nat \<Rightarrow> nat \<Rightarrow> (nat list \<times> nat) option" where
  "dedup_inner events good_pos next_pos =
     (if next_pos = length events then Some (events, good_pos)
      else do {
        a \<leftarrow> index events good_pos;
        b \<leftarrow> index events next_pos;
        (if a \<noteq> b then do {
           events' \<leftarrow> store events (good_pos + 1) b;
           dedup_inner events' (good_pos + 1) (next_pos + 1)
         } else dedup_inner events good_pos (next_pos + 1))
      })"
  by pat_completeness auto
termination
  by (relation "measure (\<lambda>(events, good_pos, next_pos). length events - next_pos)")
    (auto simp: index_def store_def split: if_splits)

declare dedup_inner.simps [simp del]

function dedup_outer :: "nat list \<Rightarrow> nat \<Rightarrow> (nat list \<times> nat) option" where
  "dedup_outer events good_pos =
     (if good_pos = length events - 1 then Some (events, good_pos)
      else do {
        a \<leftarrow> index events good_pos;
        b \<leftarrow> index events (good_pos + 1);
        (if a = b then dedup_inner events good_pos (good_pos + 2) else dedup_outer events (good_pos + 1))
      })"
  by pat_completeness auto
termination
  by (relation "measure (\<lambda>(events, good_pos). length events - good_pos)") (auto simp: index_def split: if_splits)

declare dedup_outer.simps [simp del]

function fill_null :: "nat list \<Rightarrow> nat \<Rightarrow> nat list option" where
  "fill_null events next_pos =
     (if next_pos = length events then Some events
      else do {
        events' \<leftarrow> store events next_pos 0;
        fill_null events' (next_pos + 1)
      })"
  by pat_completeness auto
termination
  by (relation "measure (\<lambda>(events, next_pos). length events - next_pos)") (auto simp: store_def split: if_splits)

declare fill_null.simps [simp del]

text \<open>\<open>sort_unstable_by(|a, b| b.cmp(a))\<close>: the descending order of the pointers.\<close>

definition fix_events :: "nat list \<Rightarrow> nat list option" where
  "fix_events events = do {
     (events, good_pos) \<leftarrow> dedup_outer (rev (sort events)) 0;
     fill_null events (good_pos + 1)
   }"

fun register_events ::
  "target \<Rightarrow> 'w linux \<Rightarrow> bytes \<Rightarrow> bytes \<Rightarrow> nat list \<Rightarrow> CommandStringBuffer \<Rightarrow> int \<Rightarrow> int \<Rightarrow> heap \<Rightarrow> 'w
    \<Rightarrow> (int \<times> int \<times> heap \<times> 'w) option" where
  "register_events tgt os name options [] cs result fd hp w = Some (result, fd, hp, w)"
| "register_events tgt os name options (p # ps) cs result fd hp w =
     (if p = 0 then Some (result, fd, hp, w)
      else do {
        event \<leftarrow> hp p;
        (name_args, cs) \<leftarrow> command_format name options (eh_level (et_header event)) (et_keyword event) cs;
        (err, st, fd, w) \<leftarrow> register tgt os fd name_args (et_state event) w;
        register_events tgt os name options ps cs (if result = 0 then err else result) fd
          (hp(p \<mapsto> event\<lparr>et_state := st\<rparr>)) w
      })"

definition provider_register ::
  "target \<Rightarrow> 'w linux \<Rightarrow> Provider \<Rightarrow> int \<Rightarrow> heap \<Rightarrow> 'w \<Rightarrow> (int \<times> Provider \<times> int \<times> heap \<times> 'w) option" where
  "provider_register tgt os pv fd hp w =
     (if pv_busy pv then Panic
      else if pv_events pv = [] then Some (0, pv, fd, hp, w)
      else do {
        events \<leftarrow> fix_events (pv_events pv);
        (result, fd, hp, w) \<leftarrow>
          register_events tgt os (pv_name pv) (pv_options pv) events CommandString_new 0 fd hp w;
        Some (result, pv\<lparr>pv_events := events, pv_busy := False\<rparr>, fd, hp, w)
      })"

section \<open>Command strings fit\<close>

text \<open>The name of the tracepoint that a provider registers for a level and a keyword.\<close>

definition tracepoint_name :: "bytes \<Rightarrow> bytes \<Rightarrow> u8 \<Rightarrow> u64 \<Rightarrow> bytes" where
  "tracepoint_name name options lvl kw =
     name @ [0x5F, 0x4C] @ lower_hex (unat lvl) @ [0x4B] @ lower_hex (unat kw) @ options"

definition written :: "CommandStringBuffer \<Rightarrow> bytes \<Rightarrow> bool" where
  "written c s \<longleftrightarrow> cs_pos c = length s \<and> take (length s) (cs_buf c) = s \<and> length (cs_buf c) = EVENTHEADER_COMMAND_MAX"

lemma command_write_post:
  assumes "written c s" "length s + length v \<le> EVENTHEADER_COMMAND_MAX"
  shows "wp (command_write v c) (\<lambda>c'. written c' (s @ v))"
  using assms by (auto simp: command_write_def copy_from_slice_def written_def wp_bind)

lemma command_write_bind:
  assumes "written c s" "length s + length v \<le> EVENTHEADER_COMMAND_MAX" "\<And>c'. written c' (s @ v) \<Longrightarrow> wp (k c') Q"
  shows "wp (do { c \<leftarrow> command_write v c; k c }) Q"
  using wp_mono [OF command_write_post [OF assms(1,2)], of "\<lambda>c'. wp (k c') Q"] assms(3) by (simp add: wp_bind)

lemma length_lower_hex: "n < 16 ^ k \<Longrightarrow> 0 < k \<Longrightarrow> length (lower_hex n) \<le> k"
proof (induction n arbitrary: k rule: lower_hex.induct)
  case (1 n)
  show ?case
  proof (cases "n < 16")
    case True
    with 1 show ?thesis by (subst lower_hex.simps) simp
  next
    case False
    with 1 obtain j where j: "k = Suc j" "0 < j" by (cases k; cases "k - 1") auto
    then have "n div 16 < 16 ^ j" using 1(2) by (simp add: div_less_iff_less_mult mult.commute)
    from 1(1) [OF False this j(2)] False j show ?thesis by (subst lower_hex.simps) simp
  qed
qed

lemma hex_char_nonzero: "n < 16 \<Longrightarrow> hex_char n \<noteq> 0 \<and> hex_char n \<noteq> 0x20"
proof -
  assume "n < 16"
  then have "n \<in> set [0..<16]" by simp
  then show ?thesis by (auto simp: hex_char_def upt_rec)
qed

lemma lower_hex_clean: "0 \<notin> set (lower_hex n)" "0x20 \<notin> set (lower_hex n)"
proof (induction n rule: lower_hex.induct)
  case (1 n)
  { case 1 then show ?case using hex_char_nonzero [of n] hex_char_nonzero [of "n mod 16"] "1.IH"
      by (subst lower_hex.simps) auto }
  { case 2 then show ?case using hex_char_nonzero [of n] hex_char_nonzero [of "n mod 16"] "1.IH"
      by (subst lower_hex.simps) auto }
qed

lemma length_tracepoint_name:
  "length (tracepoint_name name options lvl kw) \<le> length name + length options + 21"
proof -
  have "unat lvl < 16 ^ 2" "unat kw < 16 ^ 16" using unsigned_less [of lvl] unsigned_less [of kw] by simp_all
  then have "length (lower_hex (unat lvl)) \<le> 2" "length (lower_hex (unat kw)) \<le> 16"
    using length_lower_hex by auto
  then show ?thesis by (simp add: tracepoint_name_def)
qed

lemma command_types: "0 \<notin> set EVENTHEADER_COMMAND_TYPES" "length EVENTHEADER_COMMAND_TYPES = 70"
  by (simp_all add: EVENTHEADER_COMMAND_TYPES_def)

lemma command_max: "EVENTHEADER_COMMAND_MAX = 327"
  by (simp add: EVENTHEADER_COMMAND_MAX_def EVENTHEADER_NAME_MAX_def command_types)

lemma command_format_post:
  assumes nm: "0 \<notin> set name" "0 \<notin> set options"
    and len: "length (tracepoint_name name options lvl kw) \<le> 255" and b: "length (cs_buf c) = EVENTHEADER_COMMAND_MAX"
  shows "wp (command_format name options lvl kw c) (\<lambda>(cmd, c').
      cmd = tracepoint_name name options lvl kw @ [0x20] @ EVENTHEADER_COMMAND_TYPES
      \<and> length (cs_buf c') = EVENTHEADER_COMMAND_MAX)"
proof -
  let ?cmd = "tracepoint_name name options lvl kw @ [0x20] @ EVENTHEADER_COMMAND_TYPES"
  have w0: "written (c\<lparr>cs_pos := 0\<rparr>) []" using b by (simp add: written_def)
  have l: "length name + 3 + length (lower_hex (unat lvl)) + length (lower_hex (unat kw)) + length options \<le> 255"
    using len by (simp add: tracepoint_name_def)
  have clean: "0 \<notin> set ?cmd" using nm lower_hex_clean by (simp add: tracepoint_name_def command_types)
  have fin: "wp (do {
      buf \<leftarrow> store (cs_buf c) (cs_pos c) 0;
      let c = \<lparr>cs_buf = buf, cs_pos = cs_pos c + 1\<rparr>;
      s \<leftarrow> slice (cs_buf c) 0 (cs_pos c);
      rust_assert (0 \<notin> set (butlast s));
      Some (butlast s, c) }) (\<lambda>(cmd, c'). cmd = ?cmd \<and> length (cs_buf c') = EVENTHEADER_COMMAND_MAX)"
    if w: "written c ?cmd" for c
  proof -
    have p: "cs_pos c = length ?cmd" "take (length ?cmd) (cs_buf c) = ?cmd" "length (cs_buf c) = 327"
      using w by (simp_all add: written_def command_max)
    have "length ?cmd < 327" using len by (simp add: command_types)
    with p have "take (Suc (length ?cmd)) ((cs_buf c)[length ?cmd := 0]) = ?cmd @ [0]"
      by (simp only: take_Suc_conv_app_nth length_list_update nth_list_update_eq take_update_cancel order_refl)
    then show ?thesis using p clean \<open>length ?cmd < 327\<close>
      by (simp add: wp_rules rust_assert_def command_max butlast_append del: take_Suc take_update_swap)
  qed
  show ?thesis
    unfolding command_format_def Let_def [of "c\<lparr>cs_pos := 0\<rparr>"]
    by (rule command_write_bind [OF w0], (simp add: command_max), use l in simp,
      (rule command_write_bind, assumption, use l in \<open>simp add: command_max command_types\<close>)+,
      rule fin, simp add: tracepoint_name_def)
qed

section \<open>The list of tracepoints\<close>

lemma dedup_inner_post:
  "good_pos < next_pos \<Longrightarrow> next_pos \<le> length events \<Longrightarrow>
     wp (dedup_inner events good_pos next_pos) (\<lambda>(events', g). length events' = length events \<and> g < length events
       \<and> take (Suc g) events' = take good_pos events @ remdups_adj (events ! good_pos # drop next_pos events))"
proof (induction events good_pos next_pos rule: dedup_inner.induct)
  case (1 events g n)
  show ?case
  proof (cases "n = length events")
    case True
    with 1 show ?thesis by (subst dedup_inner.simps) (simp add: take_Suc_conv_app_nth)
  next
    case False
    with 1 have n: "n < length events" "g < length events" by simp_all
    then have dr: "drop n events = events ! n # drop (Suc n) events" by (simp add: Cons_nth_drop_Suc)
    show ?thesis
    proof (cases "events ! g = events ! n")
      case True
      with 1 n False dr show ?thesis by (subst dedup_inner.simps) (simp add: wp_rules)
    next
      case neq: False
      let ?e = "events[Suc g := events ! n]"
      have "wp (dedup_inner ?e (g + 1) (n + 1)) (\<lambda>(events', g'). length events' = length ?e \<and> g' < length ?e
          \<and> take (Suc g') events' = take (g + 1) ?e @ remdups_adj (?e ! (g + 1) # drop (n + 1) ?e))"
        by (rule "1.IH"(1) [OF False]) (use 1 n neq in simp_all)
      moreover have "take (g + 1) ?e = take g events @ [events ! g]"
        using n by (simp add: take_Suc_conv_app_nth)
      moreover have "?e ! (g + 1) = events ! n" using 1 n by simp
      ultimately show ?thesis
        using 1 n False dr neq by (subst dedup_inner.simps) (auto simp: wp_rules elim!: wp_mono)
    qed
  qed
qed

lemma dedup_outer_post:
  "good_pos < length events \<Longrightarrow>
     wp (dedup_outer events good_pos) (\<lambda>(events', g). length events' = length events \<and> g < length events
       \<and> take (Suc g) events' = take good_pos events @ remdups_adj (drop good_pos events))"
proof (induction events good_pos rule: dedup_outer.induct)
  case (1 events g)
  then have d: "drop g events = events ! g # drop (Suc g) events" by (simp add: Cons_nth_drop_Suc)
  show ?case
  proof (cases "g = length events - 1")
    case True
    moreover from this 1 have "events = take g events @ [events ! g]"
      by (metis One_nat_def Suc_pred length_pos_if_in_set less_imp_le nth_mem take_Suc_conv_app_nth take_all order_refl)
    ultimately show ?thesis using 1 d by (subst dedup_outer.simps) simp
  next
    case False
    with 1 have n: "Suc g < length events" by simp
    then have d2: "drop (Suc g) events = events ! Suc g # drop (g + 2) events" by (simp add: Cons_nth_drop_Suc)
    show ?thesis
    proof (cases "events ! g = events ! Suc g")
      case True
      with dedup_inner_post [of g "g + 2" events] 1 n False d d2 show ?thesis
        by (subst dedup_outer.simps) (auto simp: wp_rules elim!: wp_mono)
    next
      case neq: False
      with 1 n False d d2 show ?thesis
        by (subst dedup_outer.simps) (auto simp: wp_rules take_Suc_conv_app_nth elim!: wp_mono)
    qed
  qed
qed

lemma fill_null_eq: "n \<le> length es \<Longrightarrow> fill_null es n = Some (take n es @ replicate (length es - n) 0)"
proof (induction es n rule: fill_null.induct)
  case (1 es n)
  show ?case
  proof (cases "n = length es")
    case False
    with 1 have "n < length es" by simp
    then have "length es - n = Suc (length es - Suc n)" "take (Suc n) (es[n := 0]) = take n es @ [0]"
      by (simp_all add: take_Suc_conv_app_nth)
    with 1 False \<open>n < length es\<close> show ?thesis by (subst fill_null.simps) simp
  qed (subst fill_null.simps, simp)
qed

lemma fix_events_eq:
  assumes "events \<noteq> []"
  shows "fix_events events =
    (let ys = remdups_adj (rev (sort events)) in Some (ys @ replicate (length events - length ys) 0))"
proof -
  have "0 < length (rev (sort events))" using assms by simp
  from dedup_outer_post [OF this] obtain es g where
    r: "dedup_outer (rev (sort events)) 0 = Some (es, g)" "length es = length events" "g < length events"
      "take (Suc g) es = remdups_adj (rev (sort events))"
    by (auto simp: wp_iff)
  have "length (remdups_adj (rev (sort events))) = Suc g"
    unfolding r(4) [symmetric] using r(2,3) by simp
  with r fill_null_eq [of "Suc g" es] show ?thesis by (simp add: fix_events_def Let_def)
qed

text \<open>
  The tracepoints that a loop up to the first null sees: the descending list, without null, of the
  pointers that were there.
\<close>

definition live :: "nat list \<Rightarrow> nat list" where
  "live ps = takeWhile (\<lambda>p. p \<noteq> 0) ps"

lemma sorted_desc_takeWhile:
  "sorted_wrt (\<ge>) (ps :: nat list) \<Longrightarrow> set (takeWhile (\<lambda>p. p \<noteq> 0) ps) = set ps - {0}"
proof (induction ps)
  case (Cons p ps)
  then show ?case by (cases "p = 0") auto
qed simp

lemma sorted_wrt_remdups_adj: "sorted_wrt (\<ge>) ps \<Longrightarrow> sorted_wrt (>) (remdups_adj (ps :: nat list))"
  by (induction ps rule: remdups_adj.induct) (auto simp: order_le_neq_trans dest: neq_le_trans)

lemma takeWhile_replicate_end: "\<not> P y \<Longrightarrow> takeWhile P (xs @ replicate n y) = takeWhile P xs"
  by (induction xs) (cases n, simp_all)

lemma fix_events_live:
  assumes "fix_events events = Some events'" "events \<noteq> []"
  shows "set (live events') = set events - {0}" "distinct (live events')" "length events' = length events"
proof -
  let ?ys = "remdups_adj (rev (sort events))"
  have e: "events' = ?ys @ replicate (length events - length ?ys) 0"
    using assms fix_events_eq by (simp add: Let_def)
  have "sorted_wrt (\<ge>) (rev (sort events))"
    using sorted_sort [of events] by (simp add: sorted_wrt_rev)
  then have s: "sorted_wrt (>) ?ys" by (rule sorted_wrt_remdups_adj)
  have l: "live events' = takeWhile (\<lambda>p. p \<noteq> 0) ?ys"
    unfolding live_def e by (rule takeWhile_replicate_end) simp
  have "sorted_wrt (\<ge>) ?ys" using s by (rule sorted_wrt_mono_rel [rotated]) simp
  then show "set (live events') = set events - {0}"
    using sorted_desc_takeWhile [of ?ys] l by simp
  have "distinct ys" if "sorted_wrt (>) ys" for ys :: "nat list" using that by (induction ys) auto
  from this [OF s] have "distinct ?ys" .
  then show "distinct (live events')" unfolding l by (rule distinct_takeWhile)
  show "length events' = length events" using remdups_adj_length [of "rev (sort events)"] e by simp
qed

section \<open>Registration of a provider\<close>

definition idle :: "EventHeaderTracepoint \<Rightarrow> bool" where
  "idle t \<longleftrightarrow> write_index (et_state t) = UNREGISTERED_WRITE_INDEX"

definition registered :: "EventHeaderTracepoint \<Rightarrow> bool" where
  "registered t \<longleftrightarrow> write_index (et_state t) \<le> HIGHEST_VALID_WRITE_INDEX"

text \<open>\<open>t'\<close> is \<open>t\<close> but for its registration.\<close>

definition same_tracepoint :: "EventHeaderTracepoint \<Rightarrow> EventHeaderTracepoint \<Rightarrow> bool" where
  "same_tracepoint t t' \<longleftrightarrow>
     et_header t' = et_header t \<and> et_keyword t' = et_keyword t \<and> et_metadata t' = et_metadata t
     \<and> enable_status_addr (et_state t') = enable_status_addr (et_state t)"

definition register_result :: "nat list \<Rightarrow> heap \<Rightarrow> int \<Rightarrow> heap \<Rightarrow> bool" where
  "register_result ps hp result hp' \<longleftrightarrow>
     (\<forall>p. p \<notin> set ps \<longrightarrow> hp' p = hp p)
     \<and> (\<forall>p \<in> set ps. \<exists>t t'. hp p = Some t \<and> hp' p = Some t' \<and> same_tracepoint t t'
          \<and> (registered t' \<or> idle t') \<and> (result = 0 \<longrightarrow> registered t'))"

lemma live_simps [simp]:
  "live [] = []" "live (0 # ps) = []" "p \<noteq> 0 \<Longrightarrow> live (p # ps) = p # live ps"
  by (simp_all add: live_def)

lemma register_events_post:
  assumes k: "kernel_ok os" and nm: "0 \<notin> set name" "0 \<notin> set options" "length name + length options \<le> 234"
  shows "distinct (live ps) \<Longrightarrow> (\<And>p. p \<in> set (live ps) \<Longrightarrow> \<exists>t. hp p = Some t \<and> idle t)
    \<Longrightarrow> length (cs_buf cs) = EVENTHEADER_COMMAND_MAX \<Longrightarrow>
    wp (register_events tgt os name options ps cs result fd hp w) (\<lambda>(result', fd', hp', w').
      (result \<noteq> 0 \<longrightarrow> result' = result) \<and> register_result (live ps) hp result' hp')"
proof (induction ps arbitrary: cs result fd hp w)
  case Nil
  then show ?case by (simp add: register_result_def)
next
  case (Cons p ps)
  show ?case
  proof (cases "p = 0")
    case True
    then show ?thesis by (simp add: register_result_def)
  next
    case False
    with Cons.prems obtain t where t: "hp p = Some t" "write_index (et_state t) = UNREGISTERED_WRITE_INDEX"
      by (auto simp: idle_def)
    have len: "length (tracepoint_name name options (eh_level (et_header t)) (et_keyword t)) \<le> 255"
      using length_tracepoint_name [of name options "eh_level (et_header t)" "et_keyword t"] nm(3) by simp
    obtain cmd cs' where c: "command_format name options (eh_level (et_header t)) (et_keyword t) cs = Some (cmd, cs')"
      "length (cs_buf cs') = EVENTHEADER_COMMAND_MAX"
      using command_format_post [OF nm(1,2) len Cons.prems(3)] by (auto simp: wp_iff)
    obtain err st fd' w' where r: "register tgt os fd cmd (et_state t) w = Some (err, st, fd', w')"
      "if err = 0 then write_index st \<le> HIGHEST_VALID_WRITE_INDEX else write_index st = UNREGISTERED_WRITE_INDEX"
      "enable_status_addr st = enable_status_addr (et_state t)"
      using register_post [OF k t(2), of tgt fd cmd 0 w] by (auto simp: wp_iff register_def)
    let ?hp = "hp(p \<mapsto> t\<lparr>et_state := st\<rparr>)" and ?res = "if result = 0 then err else result"
    have "wp (register_events tgt os name options ps cs' ?res fd' ?hp w') (\<lambda>(result', fd', hp', w').
        (?res \<noteq> 0 \<longrightarrow> result' = ?res) \<and> register_result (live ps) ?hp result' hp')"
      by (rule Cons.IH) (use Cons.prems False c(2) in auto)
    then have "wp (register_events tgt os name options ps cs' ?res fd' ?hp w') (\<lambda>(result', fd', hp', w').
        (result \<noteq> 0 \<longrightarrow> result' = result) \<and> register_result (live (p # ps)) hp result' hp')"
    proof (rule wp_mono, clarify, intro conjI impI)
      fix result' fd' hp' w'
      assume i: "?res \<noteq> 0 \<longrightarrow> result' = ?res" and res: "register_result (live ps) ?hp result' hp'"
      show "result \<noteq> 0 \<Longrightarrow> result' = result" using i by simp
      have "p \<notin> set (live ps)" using Cons.prems(1) False by simp
      then have "hp' p = Some (t\<lparr>et_state := st\<rparr>)" using res by (simp add: register_result_def)
      moreover have "result' = 0 \<longrightarrow> err = 0" using i by (auto split: if_splits)
      moreover have "same_tracepoint t (t\<lparr>et_state := st\<rparr>)" using r(3) by (simp add: same_tracepoint_def)
      ultimately show "register_result (live (p # ps)) hp result' hp'"
        using res False t(1) r(2) \<open>p \<notin> set (live ps)\<close>
        by (auto simp: register_result_def idle_def registered_def split: if_splits)
    qed
    then show ?thesis using False t(1) c(1) r(1) by simp
  qed
qed

lemma unregister_events_post:
  assumes k: "kernel_ok os"
  shows "(\<And>p. p \<in> set (live ps) \<Longrightarrow> \<exists>t. hp p = Some t \<and> (registered t \<or> idle t)) \<Longrightarrow>
    wp (unregister_events tgt os fd ps result hp w) (\<lambda>(result', hp', w').
      (\<forall>p. p \<notin> set (live ps) \<longrightarrow> hp' p = hp p) \<and> (\<forall>p \<in> set (live ps). \<exists>t. hp' p = Some t \<and> idle t))"
proof (induction ps arbitrary: result hp w)
  case (Cons p ps)
  show ?case
  proof (cases "p = 0")
    case False
    with Cons.prems obtain t where t: "hp p = Some t" "write_index (et_state t) \<noteq> BUSY_WRITE_INDEX"
      by (fastforce simp: idle_def registered_def BUSY_WRITE_INDEX_def UNREGISTERED_WRITE_INDEX_def HIGHEST_VALID_WRITE_INDEX_def)
    obtain err st w' where r: "unregister tgt os fd (et_state t) w = Some (err, st, w')"
      "write_index st = UNREGISTERED_WRITE_INDEX"
      using unregister_post [OF k, of tgt fd "et_state t" w] t(2) by (auto simp: wp_iff)
    let ?hp = "hp(p \<mapsto> t\<lparr>et_state := st\<rparr>)"
    have "wp (unregister_events tgt os fd ps (if result = 0 then err else result) ?hp w') (\<lambda>(result', hp', w').
      (\<forall>q. q \<notin> set (live ps) \<longrightarrow> hp' q = ?hp q) \<and> (\<forall>q \<in> set (live ps). \<exists>t. hp' q = Some t \<and> idle t))"
      by (rule Cons.IH) (use Cons.prems False r(2) in \<open>auto simp: idle_def\<close>)
    then show ?thesis
      using False t(1) r by (cases "p \<in> set (live ps)") (auto simp: idle_def elim!: wp_mono)
  qed simp
qed simp



definition sample_tracepoint :: "u64 \<Rightarrow> EventHeaderTracepoint" where
  "sample_tracepoint addr = EventHeaderTracepoint_new
     \<lparr>eh_flags = 7, eh_version = 0, eh_id = 0, eh_tag = 0, eh_opcode = 0, eh_level = 5\<rparr> 1 [0x45, 0] addr"

definition sample_provider :: Provider where
  "sample_provider = provider_new [0x50] [] [0, 200, 100, 100, 0]"

definition sample_heap :: heap where
  "sample_heap = [100 \<mapsto> sample_tracepoint 100, 200 \<mapsto> sample_tracepoint 200]"



end
