(* ===== verification/Tracepoint_Name.thy ===== *)
theory Tracepoint_Name
  imports Provider Enumerator_Run
begin

unbundle bit_operations_syntax

text \<open>
  The name of a tracepoint, from the provider that registers it to the decoder that gets it with an
  event: what \<open>CommandString::format\<close> prints, the checks at the start of
  \<open>enumerate_with_name_and_data\<close> accept, with the level and the keyword that were printed.
\<close>

section \<open>Hexadecimal numbers\<close>

fun hex_digits :: "nat \<Rightarrow> nat list" where
  "hex_digits n = (if n < 16 then [n] else hex_digits (n div 16) @ [n mod 16])"

declare hex_digits.simps [simp del]

lemma lower_hex_digits: "lower_hex n = map hex_char (hex_digits n)"
proof (induction n rule: lower_hex.induct)
  case (1 n)
  then show ?case by (subst lower_hex.simps, subst hex_digits.simps) simp
qed

lemma hex_digits_less: "\<forall>d \<in> set (hex_digits n). d < 16"
proof (induction n rule: hex_digits.induct)
  case (1 n)
  then show ?case by (subst hex_digits.simps) auto
qed

lemma hex_digits_value:
  "fold (\<lambda>d v. push_bit 4 v + word_of_nat d) (hex_digits n) (0 :: u64) = word_of_nat n"
proof (induction n rule: hex_digits.induct)
  case (1 n)
  show ?case
  proof (cases "n < 16")
    case True
    then show ?thesis by (subst hex_digits.simps) simp
  next
    case False
    have "push_bit 4 (word_of_nat (n div 16) :: u64) + word_of_nat (n mod 16)
        = word_of_nat (n div 16 * 16 + n mod 16)"
      by (simp only: push_bit_eq_mult of_nat_add of_nat_mult) simp
    then show ?thesis using 1 [OF False] False
      by (subst hex_digits.simps) (simp only: if_False fold_append comp_apply fold_simps div_mult_mod_eq)
  qed
qed

lemma nibble_hex_char: "d < 16 \<Longrightarrow> lowercase_hex_nibble (hex_char d) = Some (word_of_nat d)"
proof -
  assume "d < 16"
  then have "d \<in> set [0..<16]" by simp
  then show ?thesis
    by (auto simp: hex_char_def lowercase_hex_nibble_def is_ascii_digit_def upt_rec)
qed

lemma lowercase_hex_loop_digits:
  "\<forall>d \<in> set ds. d < 16 \<Longrightarrow> rest = [] \<or> lowercase_hex_nibble (hd rest) = None \<Longrightarrow>
     lowercase_hex_loop (pre @ map hex_char ds @ rest) v (length pre) =
       (fold (\<lambda>d v. push_bit 4 v + word_of_nat d) ds v, length pre + length ds)"
proof (induction ds arbitrary: pre v)
  case Nil
  then show ?case by (cases rest) (simp_all add: lowercase_hex_loop.simps nth_append)
next
  case (Cons d ds)
  have u: "ucast (word_of_nat d :: u8) = (word_of_nat d :: u64)"
    using Cons.prems(1) by (simp add: unsigned_of_nat take_bit_nat_eq_self)
  from Cons.IH [of "pre @ [hex_char d]" "push_bit 4 v + word_of_nat d"] Cons.prems u show ?case
    by (subst lowercase_hex_loop.simps) (simp add: nth_append nibble_hex_char)
qed

lemma lowercase_hex_to_int_lower_hex:
  assumes "rest = [] \<or> lowercase_hex_nibble (hd rest) = None"
  shows "lowercase_hex_to_int (pre @ lower_hex n @ rest) (length pre) =
    (word_of_nat n, length pre + length (lower_hex n))"
  using lowercase_hex_loop_digits [OF hex_digits_less assms, of pre n 0]
  by (simp add: lowercase_hex_to_int_def lower_hex_digits hex_digits_value)

lemma lower_hex_not_underscore: "0x5F \<notin> set (lower_hex n)"
proof -
  have "hex_char d \<noteq> 0x5F" if "d < 16" for d
    using nibble_hex_char [OF that] by (auto simp: lowercase_hex_nibble_def is_ascii_digit_def)
  then show ?thesis using hex_digits_less [of n] by (auto simp: lower_hex_digits)
qed

section \<open>Attributes\<close>

lemma find_attribs_last:
  "0x5F \<notin> set ys \<Longrightarrow> find_attribs (xs @ 0x5F # ys) (length xs + 1 + length ys) = Some (length xs + 1)"
proof (induction ys rule: rev_induct)
  case Nil
  then show ?case by simp
next
  case (snoc y ys)
  have n: "find_attribs (as @ [b]) k = find_attribs as k" if "k \<le> length as" for as b k
    using that by (induction k) (simp_all add: nth_append)
  from snoc n [of "length xs + 1 + length ys" "xs @ 0x5F # ys" y] show ?case
    by (simp add: nth_append)
qed

text \<open>Options are an uppercase letter and a value of digits and lowercase letters each, e.g. \<open>Gmygroup\<close>.\<close>

definition is_value_char :: "u8 \<Rightarrow> bool" where
  "is_value_char ch \<longleftrightarrow> is_ascii_digit ch \<or> is_ascii_lowercase ch"

definition options_bytes :: "(u8 \<times> bytes) list \<Rightarrow> bytes" where
  "options_bytes opts = concat (map (\<lambda>(l, v). l # v) opts)"

definition options_ok :: "(u8 \<times> bytes) list \<Rightarrow> bool" where
  "options_ok opts \<longleftrightarrow> (\<forall>(l, v) \<in> set opts. is_ascii_uppercase l \<and> (\<forall>ch \<in> set v. is_value_char ch))"

lemma uppercase_facts:
  "is_ascii_uppercase ch \<Longrightarrow> \<not> is_value_char ch \<and> lowercase_hex_nibble ch = None \<and> ch \<noteq> 0x5F \<and> ch \<noteq> 0 \<and> ch \<noteq> 0x20"
  by (auto simp: is_ascii_uppercase_def is_value_char_def is_ascii_digit_def is_ascii_lowercase_def
      lowercase_hex_nibble_def word_le_nat_alt)

lemma value_char_facts: "is_value_char ch \<Longrightarrow> ch \<noteq> 0x5F \<and> ch \<noteq> 0 \<and> ch \<noteq> 0x20"
  by (auto simp: is_value_char_def is_ascii_digit_def is_ascii_lowercase_def word_le_nat_alt)

lemma options_clean: "options_ok opts \<Longrightarrow> 0x5F \<notin> set (options_bytes opts) \<and> 0 \<notin> set (options_bytes opts) \<and> 0x20 \<notin> set (options_bytes opts)"
  using uppercase_facts value_char_facts by (fastforce simp: options_ok_def options_bytes_def)

lemma options_head:
  assumes "options_ok opts"
  shows "options_bytes opts = [] \<or> is_ascii_uppercase (hd (options_bytes opts))"
  using assms by (cases opts) (auto simp: options_ok_def options_bytes_def)

lemma skip_attrib_value_at:
  "\<forall>ch \<in> set v. is_value_char ch \<Longrightarrow> rest = [] \<or> \<not> is_value_char (hd rest) \<Longrightarrow>
     skip_attrib_value (pre @ v @ rest) (length pre) = length pre + length v"
proof (induction v arbitrary: pre)
  case Nil
  then show ?case
    by (cases rest) (simp_all add: skip_attrib_value.simps nth_append is_value_char_def)
next
  case (Cons ch v)
  from Cons.IH [of "pre @ [ch]"] Cons.prems show ?case
    by (subst skip_attrib_value.simps) (simp add: nth_append is_value_char_def)
qed

lemma attribs_ok_options: "options_ok opts \<Longrightarrow> attribs_ok (pre @ options_bytes opts) (length pre)"
proof (induction opts arbitrary: pre)
  case Nil
  then show ?case by (simp add: options_bytes_def attribs_ok.simps)
next
  case (Cons o1 opts)
  obtain l v where o1: "o1 = (l, v)" by (cases o1)
  have ok: "options_ok opts" "is_ascii_uppercase l" "\<forall>ch \<in> set v. is_value_char ch"
    using Cons.prems by (auto simp: options_ok_def o1)
  have b: "options_bytes (o1 # opts) = [l] @ v @ options_bytes opts" by (simp add: options_bytes_def o1)
  have "skip_attrib_value ((pre @ [l]) @ v @ options_bytes opts) (length (pre @ [l])) = length (pre @ [l]) + length v"
    by (rule skip_attrib_value_at) (use ok options_head [OF ok(1)] uppercase_facts in auto)
  moreover have "attribs_ok ((pre @ [l] @ v) @ options_bytes opts) (length (pre @ [l] @ v))"
    by (rule Cons.IH) (rule ok)
  ultimately show ?case
    using ok(2) unfolding b by (subst attribs_ok.simps) (simp add: nth_append)
qed

section \<open>Names\<close>

lemma nibble_K: "lowercase_hex_nibble 0x4B = None"
  by (simp add: lowercase_hex_nibble_def is_ascii_digit_def)

lemma parse_tracepoint_name_eq:
  assumes "options_ok opts"
  shows "parse_tracepoint_name (tracepoint_name name (options_bytes opts) lvl kw) lvl' =
    (if lvl' = lvl then Inr kw else Inl None)"
proof -
  have inj: "(ucast lvl :: u64) = ucast lvl' \<longleftrightarrow> lvl' = lvl"
  proof -
    have "unat (ucast x :: u64) = unat x" for x :: u8
      using unsigned_less [of x, where 'a = nat] by (simp add: unsigned_ucast_eq take_bit_nat_eq_self)
    then show ?thesis by (metis word_unat_eq_iff)
  qed
  let ?o = "options_bytes opts" and ?l = "lower_hex (unat lvl)" and ?k = "lower_hex (unat kw)"
  define tp where "tp = tracepoint_name name ?o lvl kw"
  have tp1: "tp = name @ 0x5F # ([0x4C] @ ?l @ [0x4B] @ ?k @ ?o)" by (simp add: tp_def tracepoint_name_def)
  have "0x5F \<notin> set ([0x4C] @ ?l @ [0x4B] @ ?k @ ?o)" using lower_hex_not_underscore options_clean [OF assms] by simp
  from find_attribs_last [OF this, of name] have fa: "find_attribs tp (length tp) = Some (length name + 1)"
    unfolding tp1 by simp
  have i1: "tp ! (length name + 1) = 0x4C" unfolding tp1 by (simp add: nth_append)
  have "tp = (name @ [0x5F, 0x4C]) @ ?l @ ([0x4B] @ ?k @ ?o)" by (simp add: tp1)
  then have h1: "lowercase_hex_to_int tp (length name + 2) = (ucast lvl, length name + 2 + length ?l)"
    using lowercase_hex_to_int_lower_hex [of "[0x4B] @ ?k @ ?o" "name @ [0x5F, 0x4C]" "unat lvl"] nibble_K
    by (simp only: length_append list.size) simp
  have i2: "tp ! (length name + 2 + length ?l) = 0x4B" unfolding tp1 by (simp add: nth_append)
  have o: "?o = [] \<or> lowercase_hex_nibble (hd ?o) = None"
    using options_head [OF assms] uppercase_facts [of "hd ?o"] by auto
  have "tp = (name @ [0x5F, 0x4C] @ ?l @ [0x4B]) @ ?k @ ?o" by (simp add: tp1)
  then have h2: "lowercase_hex_to_int tp (length name + 3 + length ?l) = (kw, length name + 3 + length ?l + length ?k)"
    using lowercase_hex_to_int_lower_hex [OF o, of "name @ [0x5F, 0x4C] @ ?l @ [0x4B]" "unat kw"]
    by (simp add: numeral_3_eq_3 add.commute add.left_commute)
  have "tp = (name @ [0x5F, 0x4C] @ ?l @ [0x4B] @ ?k) @ ?o" by (simp add: tp1)
  then have ao: "attribs_ok tp (length name + 3 + length ?l + length ?k)"
    using attribs_ok_options [OF assms, of "name @ [0x5F, 0x4C] @ ?l @ [0x4B] @ ?k"]
    by (simp add: numeral_3_eq_3 add.commute add.left_commute)
  have "length name + 2 + length ?l < length tp" by (simp add: tp1)
  then show ?thesis
    unfolding tp_def [symmetric] parse_tracepoint_name_def fa
    using i1 h1 i2 h2 ao inj by (simp add: numeral_3_eq_3)
qed

lemma provider_name_of_tracepoint:
  assumes "options_ok opts"
  shows "ei_provider_name (event_info (tracepoint_name name (options_bytes opts) lvl kw) d c) = name"
proof -
  let ?r = "[0x4C] @ lower_hex (unat lvl) @ [0x4B] @ lower_hex (unat kw) @ options_bytes opts"
  have "0x5F \<notin> set ?r" using lower_hex_not_underscore options_clean [OF assms] by simp
  from find_attribs_last [OF this, of name] show ?thesis
    by (simp add: ei_provider_name_def event_info_def tracepoint_name_def)
qed

lemma options_from_skip:
  "\<forall>ch \<in> set xs. \<not> is_ascii_uppercase ch \<or> ch = 0x4C \<or> ch = 0x4B \<Longrightarrow>
     ys = [] \<or> (is_ascii_uppercase (hd ys) \<and> hd ys \<noteq> 0x4C \<and> hd ys \<noteq> 0x4B) \<Longrightarrow>
     options_from (pre @ xs @ ys) (length pre) = ys"
proof (induction xs arbitrary: pre)
  case Nil
  then show ?case by (subst options_from.simps) (cases ys, simp_all add: nth_append)
next
  case (Cons x xs)
  from Cons.IH [of "pre @ [x]"] Cons.prems show ?case
    by (subst options_from.simps) (auto simp: nth_append)
qed

lemma lower_hex_not_uppercase: "ch \<in> set (lower_hex n) \<Longrightarrow> \<not> is_ascii_uppercase ch"
  using hex_digits_less [of n] uppercase_facts [of ch] nibble_hex_char by (auto simp: lower_hex_digits)

lemma options_of_tracepoint:
  assumes "options_ok opts" "opts = [] \<or> fst (hd opts) \<noteq> 0x4C \<and> fst (hd opts) \<noteq> 0x4B"
  shows "ei_options (event_info (tracepoint_name name (options_bytes opts) lvl kw) d c) = options_bytes opts"
proof -
  let ?x = "[0x4C] @ lower_hex (unat lvl) @ [0x4B] @ lower_hex (unat kw)"
  have "0x5F \<notin> set (?x @ options_bytes opts)" using lower_hex_not_underscore options_clean [OF assms(1)] by simp
  note fa = find_attribs_last [OF this, of name]
  have "options_bytes opts = [] \<or> (is_ascii_uppercase (hd (options_bytes opts)) \<and> hd (options_bytes opts) \<noteq> 0x4C
      \<and> hd (options_bytes opts) \<noteq> 0x4B)"
    using assms by (cases opts) (auto simp: options_bytes_def options_ok_def)
  from options_from_skip [OF _ this, of ?x "name @ [0x5F]"] lower_hex_not_uppercase
  have "options_from ((name @ [0x5F]) @ ?x @ options_bytes opts) (length (name @ [0x5F])) = options_bytes opts"
    by auto
  with fa show ?thesis by (simp add: ei_options_def event_info_def tracepoint_name_def)
qed

text \<open>
  C10. The tracepoint's name survives. \<open>CommandString::format\<close> writes the command of any provider name
  and any options without panicking as long as the name of the tracepoint has at most 255 bytes; the
  name is the part of the command before the first space; the decoder accepts it for the level it was
  made for and finds the keyword in it, refuses it for every other level, and splits it into the
  provider's name and options again.
\<close>

theorem command_name_round_trip:
  assumes nm: "0 \<notin> set name" "0x20 \<notin> set name"
    and o: "options_ok opts" "opts = [] \<or> fst (hd opts) \<noteq> 0x4C \<and> fst (hd opts) \<noteq> 0x4B"
    and len: "length (tracepoint_name name (options_bytes opts) lvl kw) \<le> 255"
  shows "\<exists>cmd c tp. command_format name (options_bytes opts) lvl kw CommandString_new = Some (cmd, c)
    \<and> tp = takeWhile (\<lambda>ch. ch \<noteq> 0x20) cmd
    \<and> (\<forall>lvl'. parse_tracepoint_name tp lvl' = (if lvl' = lvl then Inr kw else Inl None))
    \<and> ei_provider_name (event_info tp d ctx) = name \<and> ei_options (event_info tp d ctx) = options_bytes opts"
proof -
  let ?tp = "tracepoint_name name (options_bytes opts) lvl kw"
  note cl = options_clean [OF o(1)]
  have b: "length (cs_buf CommandString_new) = EVENTHEADER_COMMAND_MAX" by (simp add: CommandString_new_def)
  obtain cmd c where f: "command_format name (options_bytes opts) lvl kw CommandString_new = Some (cmd, c)"
    "cmd = ?tp @ [0x20] @ EVENTHEADER_COMMAND_TYPES"
    using command_format_post [OF nm(1) _ len b] cl by (auto simp: wp_iff)
  have "0x20 \<notin> set ?tp" using nm(2) cl lower_hex_clean by (simp add: tracepoint_name_def)
  then have "takeWhile (\<lambda>ch. ch \<noteq> 0x20) cmd = ?tp" unfolding f(2) by (auto simp: takeWhile_tail)
  with f(1) show ?thesis
    by (intro exI [of _ cmd] exI [of _ c] exI [of _ ?tp])
      (simp add: parse_tracepoint_name_eq [OF o(1)] provider_name_of_tracepoint [OF o(1)] options_of_tracepoint [OF o])
qed

theorem command_name_round_trip_witness:
  "\<exists>cmd c. command_format [0x50] [0x47, 0x67] 5 0x1F CommandString_new = Some (cmd, c)
    \<and> parse_tracepoint_name (takeWhile (\<lambda>ch. ch \<noteq> 0x20) cmd) 5 = Inr 0x1F"
proof -
  have o: "options_ok [(0x47, [0x67])]" by code_simp
  have "options_bytes [(0x47, [0x67])] = [0x47, 0x67]" by code_simp
  moreover have "length (tracepoint_name [0x50] (options_bytes [(0x47, [0x67])]) 5 0x1F) \<le> 255" by code_simp
  ultimately show ?thesis
    using command_name_round_trip [OF _ _ o, of "[0x50]" 5 "0x1F"] by fastforce
qed

end
