(* ===== verification/Dynamic_Provider.thy ===== *)
theory Dynamic_Provider
  imports Provider Event_Builder
begin

text \<open>
  \<open>eventheader_dynamic/src/provider.rs\<close>: the provider of runtime-defined events. It keeps an ordered
  set of event sets, one for each level and keyword in use. The event sets are shared with the program
  (\<open>Arc\<close>), so they are in \<open>shared\<close>, by their address, and the provider holds addresses.
\<close>

section \<open>Keys\<close>

datatype EventSetKey = EventSetKey (key_level: u8) (key_keyword: u64)

definition EventSetKey_cmp :: "EventSetKey \<Rightarrow> EventSetKey \<Rightarrow> Ordering" where
  "EventSetKey_cmp self other =
     (case rust_cmp (key_level self) (key_level other) of
        Ordering_Equal \<Rightarrow> rust_cmp (key_keyword self) (key_keyword other)
      | level_ordering \<Rightarrow> level_ordering)"

definition EventSetKey_eq :: "EventSetKey \<Rightarrow> EventSetKey \<Rightarrow> bool" where
  "EventSetKey_eq self other \<longleftrightarrow> key_level self = key_level other \<and> key_keyword self = key_keyword other"

definition EventSetKey_partial_cmp :: "EventSetKey \<Rightarrow> EventSetKey \<Rightarrow> Ordering option" where
  "EventSetKey_partial_cmp self other = Some (EventSetKey_cmp self other)"

lemma EventSetKey_cmp_iff:
  "EventSetKey_cmp a b = Ordering_Less \<longleftrightarrow> key_level a < key_level b \<or> key_level a = key_level b \<and> key_keyword a < key_keyword b"
  "EventSetKey_cmp a b = Ordering_Equal \<longleftrightarrow> EventSetKey_eq a b"
  by (auto simp: EventSetKey_cmp_def EventSetKey_eq_def rust_cmp_def)

lemma EventSetKey_eq_iff: "EventSetKey_eq a b \<longleftrightarrow> a = b"
  by (cases a; cases b) (simp add: EventSetKey_eq_def)

instantiation EventSetKey :: linorder
begin

definition less_EventSetKey :: "EventSetKey \<Rightarrow> EventSetKey \<Rightarrow> bool" where
  "less_EventSetKey a b \<longleftrightarrow> EventSetKey_partial_cmp a b = Some Ordering_Less"

definition less_eq_EventSetKey :: "EventSetKey \<Rightarrow> EventSetKey \<Rightarrow> bool" where
  "less_eq_EventSetKey a b \<longleftrightarrow> EventSetKey_partial_cmp a b \<in> {Some Ordering_Less, Some Ordering_Equal}"

instance
proof
  fix x y z :: EventSetKey
  show "x \<le> y \<or> y \<le> x" by (cases x; cases y) (auto simp: less_EventSetKey_def less_eq_EventSetKey_def EventSetKey_partial_cmp_def EventSetKey_cmp_iff EventSetKey_eq_iff)
qed (auto simp: less_EventSetKey_def less_eq_EventSetKey_def EventSetKey_partial_cmp_def EventSetKey_cmp_iff EventSetKey_eq_iff)

end

section \<open>The ordered set\<close>

text \<open>\<open>BTreeSet\<close> by the keys of its elements: the elements in ascending order.\<close>

fun btree_get :: "'k :: linorder \<Rightarrow> ('k \<times> 'v) list \<Rightarrow> 'v option" where
  "btree_get k [] = None"
| "btree_get k ((k', v) # xs) = (if k = k' then Some v else if k < k' then None else btree_get k xs)"

fun btree_insert :: "'k :: linorder \<Rightarrow> 'v \<Rightarrow> ('k \<times> 'v) list \<Rightarrow> ('k \<times> 'v) list" where
  "btree_insert k v [] = [(k, v)]"
| "btree_insert k v ((k', v') # xs) =
     (if k < k' then (k, v) # (k', v') # xs
      else if k = k' then (k', v') # xs
      else (k', v') # btree_insert k v xs)"

definition btree_inv :: "('k :: linorder \<times> 'v) list \<Rightarrow> bool" where
  "btree_inv xs \<longleftrightarrow> sorted_wrt (<) (map fst xs)"

text \<open>What a client of such a set relies on.\<close>

locale key_index =
  fixes get :: "'k \<Rightarrow> 'm \<Rightarrow> 'v option"
    and ins :: "'k \<Rightarrow> 'v \<Rightarrow> 'm \<Rightarrow> 'm"
    and inv :: "'m \<Rightarrow> bool"
    and entries :: "'m \<Rightarrow> ('k \<times> 'v) set"
  assumes get_entries: "inv m \<Longrightarrow> get k m = Some v \<longleftrightarrow> (k, v) \<in> entries m"
    and inv_ins: "inv m \<Longrightarrow> inv (ins k v m)"
    and get_ins: "inv m \<Longrightarrow> get k m = None \<Longrightarrow> get k' (ins k v m) = (if k' = k then Some v else get k' m)"
begin

lemma entries_ins:
  assumes "inv m" "get k m = None"
  shows "entries (ins k v m) = insert (k, v) (entries m)"
proof -
  have "(k', v') \<in> entries (ins k v m) \<longleftrightarrow> (k', v') \<in> insert (k, v) (entries m)" for k' v'
    using get_entries [OF inv_ins [OF assms(1), of k v], of k' v'] get_entries [OF assms(1), of k' v']
      get_entries [OF assms(1), of k v'] get_ins [OF assms, of k' v] assms(2)
    by (cases "k' = k") auto
  then show ?thesis by auto
qed

lemma entries_key_unique: "inv m \<Longrightarrow> (k, v) \<in> entries m \<Longrightarrow> (k, v') \<in> entries m \<Longrightarrow> v = v'"
  using get_entries [of m k v] get_entries [of m k v'] by simp

lemma get_None: "inv m \<Longrightarrow> get k m = None \<longleftrightarrow> (\<forall>v. (k, v) \<notin> entries m)"
  using get_entries [of m k] by (cases "get k m") auto

end

lemma btree_insert_keys: "fst ` set (btree_insert k v xs) = insert k (fst ` set xs)"
proof (induction k v xs rule: btree_insert.induct)
  case (2 k v k' v' xs)
  then show ?case by (cases k k' rule: linorder_cases) auto
qed simp

lemma btree_inv_simps [simp]:
  "btree_inv []" "btree_inv ((k, v) # xs) \<longleftrightarrow> (\<forall>y \<in> fst ` set xs. k < y) \<and> btree_inv xs"
  by (simp_all add: btree_inv_def)

lemma btree_insert_inv: "btree_inv xs \<Longrightarrow> btree_inv (btree_insert k v xs)"
proof (induction k v xs rule: btree_insert.induct)
  case (2 k v k' v' xs)
  then show ?case
    by (cases k k' rule: linorder_cases) (auto simp: btree_insert_keys simp del: image_iff intro: less_trans)
qed simp

lemma btree_get_iff: "btree_inv m \<Longrightarrow> btree_get k m = Some v \<longleftrightarrow> (k, v) \<in> set m"
proof (induction k m rule: btree_get.induct)
  case (2 k k' v' xs)
  have "\<forall>y \<in> set xs. k' < fst y" using 2(2) by simp
  then have "(k, v) \<notin> set xs" if "k \<le> k'" using that by (metis fst_conv leD)
  with 2 show ?case by (cases k k' rule: linorder_cases) auto
qed simp

lemma btree_get_insert:
  "btree_get k m = None \<Longrightarrow> btree_get k' (btree_insert k v m) = (if k' = k then Some v else btree_get k' m)"
proof (induction k m rule: btree_get.induct)
  case (2 k k1 v1 xs)
  then show ?case by (cases k k1 rule: linorder_cases) (auto split: if_splits)
qed simp

interpretation btree: key_index btree_get btree_insert btree_inv set
  by unfold_locales (simp_all add: btree_get_iff btree_insert_inv btree_get_insert)

section \<open>Event sets and the provider\<close>

record EventSet =
  es_state :: TracepointState
  es_key :: EventSetKey
  es_errno :: int

definition EventSet_new :: "u32 \<Rightarrow> u8 \<Rightarrow> u64 \<Rightarrow> u64 \<Rightarrow> EventSet" where
  "EventSet_new en lvl kw addr =
     \<lparr>es_state = TracepointState_new en addr, es_key = EventSetKey lvl kw, es_errno = 0\<rparr>"

definition new_unregistered :: "u64 \<Rightarrow> EventSet" where
  "new_unregistered addr =
     \<lparr>es_state = TracepointState_new 0 addr, es_key = EventSetKey 0 0, es_errno = 22\<rparr>"

definition es_enabled :: "EventSet \<Rightarrow> bool" where
  "es_enabled s = enabled (es_state s)"

definition event_set_write ::
  "target \<Rightarrow> 'w linux \<Rightarrow> int \<Rightarrow> EventSet \<Rightarrow> bytes option \<Rightarrow> bytes option \<Rightarrow> EventBuilder \<Rightarrow> 'w \<Rightarrow> (int \<times> 'w) option" where
  "event_set_write tgt os fd s activity_id related_id b w =
     builder_write tgt os fd (es_state s) (key_level (es_key s)) activity_id related_id b w"

definition is_option_val_char :: "u8 \<Rightarrow> bool" where
  "is_option_val_char ch \<longleftrightarrow> (0x30 \<le> ch \<and> ch \<le> 0x39) \<or> (0x61 \<le> ch \<and> ch \<le> 0x7A)"

fun is_valid_option_value :: "bytes \<Rightarrow> bool" where
  "is_valid_option_value [] = True"
| "is_valid_option_value (ch # rest) = (if \<not> is_option_val_char ch then False else is_valid_option_value rest)"

record ProviderOptions =
  po_group_name :: bytes

definition ProviderOptions_new :: ProviderOptions where
  "ProviderOptions_new = \<lparr>po_group_name = []\<rparr>"

definition po_set_group_name :: "bool \<Rightarrow> bytes \<Rightarrow> ProviderOptions \<Rightarrow> ProviderOptions option" where
  "po_set_group_name dbg name opts = do {
     debug_assert dbg (is_valid_option_value name);
     Some (opts\<lparr>po_group_name := name\<rparr>)
   }"

record DynamicProvider =
  dp_name :: bytes
  dp_options :: bytes
  dp_sets :: "(EventSetKey \<times> nat) list"

text \<open>The length of \<open>_LffKffffffffffffffffG\<close> is 22.\<close>

definition NAMES_MAX :: nat where
  "NAMES_MAX = EVENTHEADER_NAME_MAX - 22"

definition DynamicProvider_new :: "bool \<Rightarrow> bytes \<Rightarrow> ProviderOptions \<Rightarrow> DynamicProvider option" where
  "DynamicProvider_new dbg name options = do {
     rust_assert (length name + length (po_group_name options) < NAMES_MAX);
     debug_assert dbg (0 \<notin> set name);
     debug_assert dbg (0x20 \<notin> set name);
     debug_assert dbg (0x3A \<notin> set name);
     Some \<lparr>dp_name = name,
           dp_options = (if po_group_name options = [] then [] else 0x47 # po_group_name options),
           dp_sets = []\<rparr>
   }"

text \<open>The memory the \<open>Arc\<close>s are in: what is allocated is never freed here.\<close>

record shared =
  next_addr :: nat
  set_at :: "nat \<rightharpoonup> EventSet"

definition find_set :: "DynamicProvider \<Rightarrow> u8 \<Rightarrow> u64 \<Rightarrow> nat option" where
  "find_set dp lvl kw = btree_get (EventSetKey lvl kw) (dp_sets dp)"

definition register_set ::
  "target \<Rightarrow> 'w linux \<Rightarrow> u8 \<Rightarrow> u64 \<Rightarrow> DynamicProvider \<Rightarrow> int \<Rightarrow> shared \<Rightarrow> 'w
    \<Rightarrow> (nat \<times> DynamicProvider \<times> int \<times> shared \<times> 'w) option" where
  "register_set tgt os lvl kw dp fd sh w =
     (case btree_get (EventSetKey lvl kw) (dp_sets dp) of
        Some a \<Rightarrow> Some (a, dp, fd, sh, w)
      | None \<Rightarrow> do {
          let a = next_addr sh;
          let s = EventSet_new 0 lvl kw (word_of_nat a);
          (name_args, cs) \<leftarrow> command_format (dp_name dp) (dp_options dp) lvl kw CommandString_new;
          (errno, st, fd, w) \<leftarrow> register tgt os fd name_args (es_state s) w;
          let s = s\<lparr>es_state := st, es_errno := errno\<rparr>;
          Some (a, dp\<lparr>dp_sets := btree_insert (EventSetKey lvl kw) a (dp_sets dp)\<rparr>, fd,
                sh\<lparr>next_addr := a + 1, set_at := (set_at sh)(a \<mapsto> s)\<rparr>, w)
        })"

definition create_unregistered ::
  "bool \<Rightarrow> u8 \<Rightarrow> u64 \<Rightarrow> DynamicProvider \<Rightarrow> shared \<Rightarrow> nat \<times> DynamicProvider \<times> shared" where
  "create_unregistered en lvl kw dp sh =
     (case btree_get (EventSetKey lvl kw) (dp_sets dp) of
        Some a \<Rightarrow> (a, dp, sh)
      | None \<Rightarrow>
          let a = next_addr sh in
          (a, dp\<lparr>dp_sets := btree_insert (EventSetKey lvl kw) a (dp_sets dp)\<rparr>,
           sh\<lparr>next_addr := a + 1,
              set_at := (set_at sh)(a \<mapsto> EventSet_new (if en then 1 else 0) lvl kw (word_of_nat a))\<rparr>))"

fun unregister_sets ::
  "target \<Rightarrow> 'w linux \<Rightarrow> int \<Rightarrow> (EventSetKey \<times> nat) list \<Rightarrow> shared \<Rightarrow> 'w \<Rightarrow> (shared \<times> 'w) option" where
  "unregister_sets tgt os fd [] sh w = Some (sh, w)"
| "unregister_sets tgt os fd ((k, a) # sets) sh w = do {
     s \<leftarrow> set_at sh a;
     (err, st, w) \<leftarrow> unregister tgt os fd (es_state s) w;
     unregister_sets tgt os fd sets (sh\<lparr>set_at := (set_at sh)(a \<mapsto> s\<lparr>es_state := st\<rparr>)\<rparr>) w
   }"

definition dynamic_unregister ::
  "target \<Rightarrow> 'w linux \<Rightarrow> int \<Rightarrow> DynamicProvider \<Rightarrow> shared \<Rightarrow> 'w \<Rightarrow> (DynamicProvider \<times> shared \<times> 'w) option" where
  "dynamic_unregister tgt os fd dp sh w = do {
     (sh, w) \<leftarrow> unregister_sets tgt os fd (dp_sets dp) sh w;
     Some (dp\<lparr>dp_sets := []\<rparr>, sh, w)
   }"

section \<open>The provider's invariant\<close>

definition set_idle :: "EventSet \<Rightarrow> bool" where
  "set_idle s \<longleftrightarrow> write_index (es_state s) = UNREGISTERED_WRITE_INDEX"

definition set_registered :: "EventSet \<Rightarrow> bool" where
  "set_registered s \<longleftrightarrow> write_index (es_state s) \<le> HIGHEST_VALID_WRITE_INDEX"

definition entry_inv :: "shared \<Rightarrow> EventSetKey \<times> nat \<Rightarrow> bool" where
  "entry_inv sh e \<longleftrightarrow>
     snd e < next_addr sh
     \<and> (\<exists>s. set_at sh (snd e) = Some s \<and> es_key s = fst e \<and> (set_registered s \<or> set_idle s))"

definition provider_inv :: "DynamicProvider \<Rightarrow> shared \<Rightarrow> bool" where
  "provider_inv dp sh \<longleftrightarrow>
     btree_inv (dp_sets dp) \<and> (\<forall>e \<in> set (dp_sets dp). entry_inv sh e)
     \<and> 0 \<notin> set (dp_name dp) \<and> 0 \<notin> set (dp_options dp) \<and> length (dp_name dp) + length (dp_options dp) \<le> 234"

lemma valid_option_values: "is_valid_option_value v \<longleftrightarrow> (\<forall>ch \<in> set v. is_option_val_char ch)"
  by (induction v) auto

lemma new_provider_inv:
  assumes "DynamicProvider_new dbg name options = Some dp" "0 \<notin> set name" "is_valid_option_value (po_group_name options)"
  shows "provider_inv dp sh"
proof -
  have "0 \<notin> set (po_group_name options)"
    using assms(3) by (auto simp: valid_option_values is_option_val_char_def word_le_nat_alt)
  with assms(1,2) show ?thesis
    by (auto simp: DynamicProvider_new_def provider_inv_def btree_inv_def rust_assert_def NAMES_MAX_def
        EVENTHEADER_NAME_MAX_def bind_eq_Some_conv split: if_splits)
qed

lemma entry_inv_alloc:
  "entry_inv sh e \<Longrightarrow> entry_inv (sh\<lparr>next_addr := next_addr sh + 1, set_at := (set_at sh)(next_addr sh \<mapsto> s)\<rparr>) e"
  by (auto simp: entry_inv_def)

text \<open>A new set goes into the index under its key; the sets that were there stay as they are.\<close>

definition set_added :: "EventSetKey \<Rightarrow> EventSet \<Rightarrow> DynamicProvider \<Rightarrow> shared \<Rightarrow> nat \<Rightarrow> DynamicProvider \<Rightarrow> shared \<Rightarrow> bool" where
  "set_added k s dp sh a dp' sh' \<longleftrightarrow>
     a = next_addr sh \<and> set_at sh' = (set_at sh)(a \<mapsto> s) \<and> set (dp_sets dp') = insert (k, a) (set (dp_sets dp))
     \<and> (\<forall>lvl kw. find_set dp' lvl kw = (if EventSetKey lvl kw = k then Some a else find_set dp lvl kw))"

lemma set_added_inv:
  assumes inv: "provider_inv dp sh" and n: "btree_get k (dp_sets dp) = None"
    and s: "es_key s = k" "set_registered s \<or> set_idle s"
    and dp': "dp' = dp\<lparr>dp_sets := btree_insert k (next_addr sh) (dp_sets dp)\<rparr>"
    and sh': "sh' = sh\<lparr>next_addr := next_addr sh + 1, set_at := (set_at sh)(next_addr sh \<mapsto> s)\<rparr>"
  shows "provider_inv dp' sh' \<and> set_added k s dp sh (next_addr sh) dp' sh'"
proof -
  have b: "btree_inv (dp_sets dp)" "\<forall>e \<in> set (dp_sets dp). entry_inv sh e" using inv by (simp_all add: provider_inv_def)
  have "\<forall>e \<in> set (dp_sets dp). entry_inv sh' e" using b(2) entry_inv_alloc unfolding sh' by blast
  moreover have "entry_inv sh' (k, next_addr sh)" using s by (simp add: entry_inv_def sh')
  ultimately show ?thesis
    using inv b(1) btree.entries_ins [OF b(1) n] btree.inv_ins [OF b(1)] btree.get_ins [OF b(1) n]
    by (simp add: provider_inv_def set_added_def dp' sh' find_set_def)
qed

text \<open>
  C26. \<open>Provider::register_set\<close> of \<open>eventheader_dynamic\<close>. For every level and keyword it returns, and
  never panics. If the provider has an event set for them, it returns that set and changes nothing.
  Otherwise it adds one new set, which is found from then on under its level and keyword, without
  touching the others; the set is registered if its \<open>errno\<close> is 0 and unregistered otherwise. The
  provider's invariant (keys in ascending order and without repetition, every set filed under its own
  key) is kept.
\<close>

theorem register_set_correct:
  assumes k: "kernel_ok os" and inv: "provider_inv dp sh"
  shows "\<exists>a dp' fd' sh' w'. register_set tgt os lvl kw dp fd sh w = Some (a, dp', fd', sh', w')
    \<and> provider_inv dp' sh' \<and> find_set dp' lvl kw = Some a
    \<and> (case find_set dp lvl kw of
         Some a0 \<Rightarrow> a = a0 \<and> dp' = dp \<and> fd' = fd \<and> sh' = sh \<and> w' = w
       | None \<Rightarrow> \<exists>s. set_added (EventSetKey lvl kw) s dp sh a dp' sh' \<and> es_key s = EventSetKey lvl kw
                   \<and> (if es_errno s = 0 then set_registered s else set_idle s))"
proof (cases "btree_get (EventSetKey lvl kw) (dp_sets dp)")
  case (Some a)
  with inv show ?thesis by (simp add: register_set_def find_set_def)
next
  case None
  let ?s = "EventSet_new 0 lvl kw (word_of_nat (next_addr sh))"
  have nm: "0 \<notin> set (dp_name dp)" "0 \<notin> set (dp_options dp)"
    "length (tracepoint_name (dp_name dp) (dp_options dp) lvl kw) \<le> 255"
    using inv length_tracepoint_name [of "dp_name dp" "dp_options dp" lvl kw] by (simp_all add: provider_inv_def)
  obtain cmd cs where c: "command_format (dp_name dp) (dp_options dp) lvl kw CommandString_new = Some (cmd, cs)"
    using command_format_post [OF nm, of CommandString_new] by (auto simp: wp_iff CommandString_new_def)
  have u: "write_index (es_state ?s) = UNREGISTERED_WRITE_INDEX" by (simp add: EventSet_new_def TracepointState_new_def)
  obtain err st fd' w' where r: "register tgt os fd cmd (es_state ?s) w = Some (err, st, fd', w')"
    "if err = 0 then write_index st \<le> HIGHEST_VALID_WRITE_INDEX else write_index st = UNREGISTERED_WRITE_INDEX"
    using register_post [OF k u, of tgt fd cmd 0 w] by (auto simp: wp_iff register_def)
  let ?s' = "?s\<lparr>es_state := st, es_errno := err\<rparr>"
  have s': "es_key ?s' = EventSetKey lvl kw" "set_registered ?s' \<or> set_idle ?s'"
    using r(2) by (auto simp: EventSet_new_def set_registered_def set_idle_def split: if_splits)
  have e: "if es_errno ?s' = 0 then set_registered ?s' else set_idle ?s'"
    using r(2) by (simp add: set_registered_def set_idle_def)
  define dp' where "dp' = dp\<lparr>dp_sets := btree_insert (EventSetKey lvl kw) (next_addr sh) (dp_sets dp)\<rparr>"
  define sh' where "sh' = sh\<lparr>next_addr := next_addr sh + 1, set_at := (set_at sh)(next_addr sh \<mapsto> ?s')\<rparr>"
  have reg: "register_set tgt os lvl kw dp fd sh w = Some (next_addr sh, dp', fd', sh', w')"
    using None c r(1) by (simp add: register_set_def Let_def dp'_def sh'_def)
  have n: "find_set dp lvl kw = None" using None by (simp add: find_set_def)
  have add: "provider_inv dp' sh'" "set_added (EventSetKey lvl kw) ?s' dp sh (next_addr sh) dp' sh'"
    using set_added_inv [OF inv None s' dp'_def sh'_def] by simp_all
  then have f: "find_set dp' lvl kw = Some (next_addr sh)" by (simp add: set_added_def)
  show ?thesis unfolding n option.case
    by (intro exI conjI) (rule reg add(1) f add(2) s'(1) e)+
qed

text \<open>The same for the sets made for tests, which are not registered.\<close>

lemma create_unregistered_inv:
  assumes inv: "provider_inv dp sh" and c: "create_unregistered en lvl kw dp sh = (a, dp', sh')"
  shows "provider_inv dp' sh' \<and> find_set dp' lvl kw = Some a"
proof (cases "btree_get (EventSetKey lvl kw) (dp_sets dp)")
  case (Some a)
  with inv c show ?thesis by (auto simp: create_unregistered_def find_set_def)
next
  case None
  let ?s = "EventSet_new (if en then 1 else 0) lvl kw (word_of_nat (next_addr sh))"
  have s: "es_key ?s = EventSetKey lvl kw" "set_registered ?s \<or> set_idle ?s"
    by (simp_all add: EventSet_new_def set_idle_def TracepointState_new_def)
  from set_added_inv [OF inv None s refl refl] None c show ?thesis
    by (auto simp: create_unregistered_def set_added_def Let_def)
qed

lemma unregister_sets_post:
  assumes k: "kernel_ok os"
  shows "(\<forall>e \<in> set es. entry_inv sh e) \<Longrightarrow> wp (unregister_sets tgt os fd es sh w) (\<lambda>(sh', w').
      next_addr sh' = next_addr sh \<and> (\<forall>a. a \<notin> snd ` set es \<longrightarrow> set_at sh' a = set_at sh a)
      \<and> (\<forall>e \<in> set es. \<exists>s. set_at sh' (snd e) = Some s \<and> set_idle s))"
proof (induction es arbitrary: sh w)
  case (Cons e es)
  obtain key a where e: "e = (key, a)" by (cases e)
  from Cons.prems e obtain s where s: "set_at sh a = Some s" "write_index (es_state s) \<noteq> BUSY_WRITE_INDEX"
    by (fastforce simp: entry_inv_def set_idle_def set_registered_def BUSY_WRITE_INDEX_def UNREGISTERED_WRITE_INDEX_def
        HIGHEST_VALID_WRITE_INDEX_def)
  obtain err st w' where r: "unregister tgt os fd (es_state s) w = Some (err, st, w')"
    "write_index st = UNREGISTERED_WRITE_INDEX"
    using unregister_post [OF k, of tgt fd "es_state s" w] s(2) by (auto simp: wp_iff)
  let ?sh = "sh\<lparr>set_at := (set_at sh)(a \<mapsto> s\<lparr>es_state := st\<rparr>)\<rparr>"
  have "\<forall>e \<in> set es. entry_inv ?sh e" using Cons.prems s r(2) by (auto simp: entry_inv_def set_idle_def)
  from Cons.IH [OF this, of w'] s(1) r e show ?case
    by (cases "a \<in> snd ` set es") (auto simp: set_idle_def elim!: wp_mono)
qed simp


definition sample_dynamic :: DynamicProvider where
  "sample_dynamic = \<lparr>dp_name = [0x50], dp_options = [0x47, 0x67], dp_sets = [(EventSetKey 4 1, 0)]\<rparr>"

definition sample_shared :: shared where
  "sample_shared = \<lparr>next_addr = 1, set_at = [0 \<mapsto> EventSet_new 0 4 1 0]\<rparr>"

lemma sample_provider_inv: "provider_inv sample_dynamic sample_shared"
  by (simp add: provider_inv_def sample_dynamic_def sample_shared_def btree_inv_def entry_inv_def EventSet_new_def
      set_idle_def TracepointState_new_def)

theorem register_set_correct_witness:
  "\<exists>a dp' fd' sh' w'. register_set \<lparr>big_endian = False, pointer64 = True, debug_assertions = True\<rparr> sample_kernel
      5 2 sample_dynamic (-11) sample_shared [] = Some (a, dp', fd', sh', w')
    \<and> find_set dp' 5 2 = Some a \<and> provider_inv dp' sh'"
  using register_set_correct [OF sample_kernel_ok sample_provider_inv] by meson


end
