(* ===== verification/Tracepoint_Concurrency.thy ===== *)
theory Tracepoint_Concurrency
  imports Tracepoint
begin

text \<open>
  \<open>tracepoint/src/native.rs\<close> with several threads: the atomic steps of \<open>UserEventsDataFile\<close> and of
  \<open>TracepointState\<close>, interleaved. Every shared variable is a single atomic, and all accesses to one
  atomic, relaxed ones too, are in one order, so a thread's accesses and system calls are its steps.
  A thread that has finished a call can make another.
\<close>

section \<open>Transition systems\<close>

text \<open>The contract of an invariant, and what it gives for the states a system can reach.\<close>

inductive reachable :: "('s \<Rightarrow> bool) \<Rightarrow> ('s \<Rightarrow> 's \<Rightarrow> bool) \<Rightarrow> 's \<Rightarrow> bool"
  for start :: "'s \<Rightarrow> bool" and step :: "'s \<Rightarrow> 's \<Rightarrow> bool"
where
  reachable_start: "start s \<Longrightarrow> reachable start step s"
| reachable_step: "reachable start step s \<Longrightarrow> step s s' \<Longrightarrow> reachable start step s'"

locale invariant_system =
  fixes start :: "'s \<Rightarrow> bool"
    and step :: "'s \<Rightarrow> 's \<Rightarrow> bool"
    and inv :: "'s \<Rightarrow> bool"
  assumes start_inv: "start s \<Longrightarrow> inv s"
    and step_inv: "inv s \<Longrightarrow> step s s' \<Longrightarrow> inv s'"
begin

lemma reachable_inv: "reachable start step s \<Longrightarrow> inv s"
  by (induction rule: reachable.induct) (auto intro: start_inv step_inv)

lemma steps_inv: "step\<^sup>*\<^sup>* s s' \<Longrightarrow> inv s \<Longrightarrow> inv s'"
  by (induction rule: rtranclp_induct) (auto intro: step_inv)

end

section \<open>The user\_events\_data file\<close>

text \<open>
  Where a thread is: about to open the file, about to compare and exchange with an expected and a new
  value, about to close a descriptor (and then to return a value), or finished with a value.
\<close>

datatype file_pc =
    F_Idle
  | F_Open
  | F_Cas int int
  | F_Close int int
  | F_Done int

text \<open>\<open>fds\<close> are the descriptors of the \<open>user_events_data\<close> file that are open in the kernel.\<close>

record file_sys =
  fs_var :: int
  fs_fds :: "int set"
  fs_pc :: "nat \<Rightarrow> file_pc"

definition goto :: "nat \<Rightarrow> file_pc \<Rightarrow> file_sys \<Rightarrow> file_sys" where
  "goto t p s = s\<lparr>fs_pc := (fs_pc s)(t := p)\<rparr>"

inductive file_step :: "file_sys \<Rightarrow> file_sys \<Rightarrow> bool" where
  get_load_again: "fs_pc s t = F_Idle \<Longrightarrow> fs_var s = EAGAIN_ERROR \<Longrightarrow> file_step s (goto t F_Open s)"
| get_load_value: "fs_pc s t = F_Idle \<Longrightarrow> fs_var s \<noteq> EAGAIN_ERROR \<Longrightarrow> file_step s (goto t (F_Done (fs_var s)) s)"
| open_succeeds: "fs_pc s t = F_Open \<Longrightarrow> 0 \<le> fd \<Longrightarrow> fd \<notin> fs_fds s \<Longrightarrow>
    file_step s (goto t (F_Cas EAGAIN_ERROR fd) (s\<lparr>fs_fds := insert fd (fs_fds s)\<rparr>))"
| open_fails: "fs_pc s t = F_Open \<Longrightarrow> e < 0 \<Longrightarrow> file_step s (goto t (F_Cas EAGAIN_ERROR e) s)"
| cas_stored: "fs_pc s t = F_Cas old new \<Longrightarrow> update_cas (fs_var s) old new = Cas_Stored v \<Longrightarrow>
    file_step s (goto t (F_Done v) (s\<lparr>fs_var := new\<rparr>))"
| cas_kept: "fs_pc s t = F_Cas old new \<Longrightarrow> update_cas (fs_var s) old new = Cas_Kept v \<Longrightarrow>
    file_step s (goto t (if new \<ge> 0 then F_Close new v else F_Done v) s)"
| cas_retry: "fs_pc s t = F_Cas old new \<Longrightarrow> update_cas (fs_var s) old new = Cas_Retry cur \<Longrightarrow>
    file_step s (goto t (F_Cas cur new) s)"
| close_swap: "fs_pc s t = F_Idle \<Longrightarrow>
    file_step s (goto t (if fs_var s \<ge> 0 then F_Close (fs_var s) 0 else F_Done 0) (s\<lparr>fs_var := EAGAIN_ERROR\<rparr>))"
| do_close: "fs_pc s t = F_Close fd v \<Longrightarrow> file_step s (goto t (F_Done v) (s\<lparr>fs_fds := fs_fds s - {fd}\<rparr>))"
| next_call: "fs_pc s t = F_Done v \<Longrightarrow> file_step s (goto t F_Idle s)"

inductive_cases file_stepE: "file_step s s'"

definition file_start :: "file_sys \<Rightarrow> bool" where
  "file_start s \<longleftrightarrow> fs_var s = EAGAIN_ERROR \<and> fs_fds s = {} \<and> (\<forall>t. fs_pc s t = F_Idle)"

text \<open>The descriptor a thread has to store or close.\<close>

fun owned :: "file_pc \<Rightarrow> int option" where
  "owned (F_Cas old new) = (if new \<ge> 0 then Some new else None)"
| "owned (F_Close fd v) = Some fd"
| "owned p = None"

text \<open>
  Every open descriptor is the variable's or exactly one thread's, all of these are open, and a thread
  never expects to replace a descriptor.
\<close>

definition own_inv :: "int \<Rightarrow> int set \<Rightarrow> (nat \<Rightarrow> int option) \<Rightarrow> bool" where
  "own_inv v fds ow \<longleftrightarrow>
     (\<forall>t fd. ow t = Some fd \<longrightarrow> 0 \<le> fd \<and> fd \<in> fds \<and> fd \<noteq> v)
     \<and> (\<forall>t u fd. ow t = Some fd \<longrightarrow> ow u = Some fd \<longrightarrow> t = u)
     \<and> (0 \<le> v \<longrightarrow> v \<in> fds)
     \<and> (\<forall>fd \<in> fds. 0 \<le> fd \<and> (fd = v \<or> (\<exists>t. ow t = Some fd)))"

definition file_inv :: "file_sys \<Rightarrow> bool" where
  "file_inv s \<longleftrightarrow>
     own_inv (fs_var s) (fs_fds s) (\<lambda>t. owned (fs_pc s t))
     \<and> (\<forall>t old new. fs_pc s t = F_Cas old new \<longrightarrow> old < 0)"

lemma EAGAIN_negative: "EAGAIN_ERROR < 0"
  by (simp add: EAGAIN_ERROR_def)

lemma own_inv_open:
  assumes i: "own_inv v fds ow" and n: "ow t = None" "fd \<notin> fds" "0 \<le> fd"
  shows "own_inv v (insert fd fds) (ow(t := Some fd))"
  unfolding own_inv_def
proof (intro conjI allI impI ballI)
  have v: "fd \<noteq> v" using i n(2,3) by (auto simp: own_inv_def)
  fix u x assume "(ow(t := Some fd)) u = Some x"
  then have "(u = t \<and> x = fd) \<or> ow u = Some x" by (auto split: if_splits)
  then show "0 \<le> x" "x \<in> insert fd fds" "x \<noteq> v" using i n(3) v by (auto simp: own_inv_def)
next
  have f: "ow u \<noteq> Some fd" for u using i n(2) by (auto simp: own_inv_def)
  fix u u' x assume "(ow(t := Some fd)) u = Some x" "(ow(t := Some fd)) u' = Some x"
  then show "u = u'" using i f [of u] f [of u'] by (auto simp: own_inv_def split: if_splits)
next
  show "0 \<le> v \<Longrightarrow> v \<in> insert fd fds" using i by (auto simp: own_inv_def)
next
  fix x assume x: "x \<in> insert fd fds"
  then show "0 \<le> x" using i n(3) by (auto simp: own_inv_def)
  from x i have "x = fd \<or> x = v \<or> (\<exists>u. ow u = Some x)" by (auto simp: own_inv_def)
  moreover have "u \<noteq> t" if "ow u = Some x" for u using n(1) that by auto
  ultimately show "x = v \<or> (\<exists>u. (ow(t := Some fd)) u = Some x)" by (metis fun_upd_apply)
qed

lemma own_inv_store:
  assumes i: "own_inv v fds ow" and n: "ow t = (if new \<ge> 0 then Some new else None)" "v < 0"
  shows "own_inv new fds (ow(t := None))"
  unfolding own_inv_def
proof (intro conjI allI impI ballI)
  fix u fd assume "(ow(t := None)) u = Some fd"
  then have u: "ow u = Some fd" "u \<noteq> t" by (auto split: if_splits)
  then show "0 \<le> fd" "fd \<in> fds" using i by (auto simp: own_inv_def)
  then show "fd \<noteq> new" using i n(1) u by (auto simp: own_inv_def split: if_splits)
next
  fix u u' fd assume "(ow(t := None)) u = Some fd" "(ow(t := None)) u' = Some fd"
  then show "u = u'" using i by (auto simp: own_inv_def split: if_splits)
next
  show "0 \<le> new \<Longrightarrow> new \<in> fds" using i n(1) by (auto simp: own_inv_def)
next
  fix fd assume "fd \<in> fds"
  with i n(2) obtain u where u: "ow u = Some fd" "0 \<le> fd" by (force simp: own_inv_def)
  then show "0 \<le> fd" "fd = new \<or> (\<exists>u. (ow(t := None)) u = Some fd)"
    using n(1) by (cases "u = t"; auto split: if_splits)+
qed

lemma own_inv_swap:
  assumes i: "own_inv v fds ow" and n: "ow t = None" "v' < 0"
  shows "own_inv v' fds (ow(t := if v \<ge> 0 then Some v else None))"
  unfolding own_inv_def
proof (intro conjI allI impI ballI)
  let ?ow = "ow(t := if v \<ge> 0 then Some v else None)"
  fix u fd assume "?ow u = Some fd"
  then show "0 \<le> fd" "fd \<in> fds" using i n(1) by (auto simp: own_inv_def split: if_splits)
  then show "fd \<noteq> v'" using n(2) by simp
next
  let ?ow = "ow(t := if v \<ge> 0 then Some v else None)"
  fix u u' fd assume "?ow u = Some fd" "?ow u' = Some fd"
  then show "u = u'" using i by (auto simp: own_inv_def split: if_splits)
next
  let ?ow = "ow(t := if v \<ge> 0 then Some v else None)"
  show "0 \<le> v' \<Longrightarrow> v' \<in> fds" using n by simp
  fix fd assume fd: "fd \<in> fds"
  with i have z: "0 \<le> fd" "fd = v \<or> (\<exists>u. ow u = Some fd)" by (auto simp: own_inv_def)
  then show "0 \<le> fd" by simp
  from z(2) show "fd = v' \<or> (\<exists>u. ?ow u = Some fd)"
  proof
    assume "fd = v"
    then show ?thesis using z(1) by (intro disjI2 exI [of _ t]) simp
  next
    assume "\<exists>u. ow u = Some fd"
    then obtain u where "ow u = Some fd" ..
    then show ?thesis using n(1) by (intro disjI2 exI [of _ u]) auto
  qed
qed

lemma own_inv_close:
  assumes i: "own_inv v fds ow" and n: "ow t = Some fd"
  shows "own_inv v (fds - {fd}) (ow(t := None))"
  unfolding own_inv_def
proof (intro conjI allI impI ballI)
  fix u x assume "(ow(t := None)) u = Some x"
  then have u: "ow u = Some x" "u \<noteq> t" by (auto split: if_splits)
  then have "x \<noteq> fd" using i n by (auto simp: own_inv_def)
  then show "0 \<le> x" "x \<in> fds - {fd}" "x \<noteq> v" using i u by (auto simp: own_inv_def)
next
  fix u u' x assume "(ow(t := None)) u = Some x" "(ow(t := None)) u' = Some x"
  then show "u = u'" using i by (auto simp: own_inv_def split: if_splits)
next
  have "fd \<noteq> v" using i n by (auto simp: own_inv_def)
  then show "0 \<le> v \<Longrightarrow> v \<in> fds - {fd}" using i by (auto simp: own_inv_def)
next
  fix x assume x: "x \<in> fds - {fd}"
  then show "0 \<le> x" using i by (auto simp: own_inv_def)
  from x i have "x = v \<or> (\<exists>u. ow u = Some x)" by (auto simp: own_inv_def)
  moreover have "u \<noteq> t" if "ow u = Some x" for u using n x that by auto
  ultimately show "x = v \<or> (\<exists>u. (ow(t := None)) u = Some x)" by (metis fun_upd_other)
qed

lemma goto_fields [simp]:
  "fs_var (goto t p s) = fs_var s" "fs_fds (goto t p s) = fs_fds s" "fs_pc (goto t p s) = (fs_pc s)(t := p)"
  by (simp_all add: goto_def)

lemma owned_goto: "(\<lambda>u. owned (((fs_pc s)(t := p)) u)) = (\<lambda>u. owned (fs_pc s u))(t := owned p)"
  by (simp add: fun_eq_iff)

text \<open>A step keeps the invariant if it hands its descriptor over properly.\<close>

lemma file_inv_goto:
  assumes "own_inv v fds ((\<lambda>u. owned (fs_pc s u))(t := owned p))" "file_inv s"
    and "\<And>old new. p = F_Cas old new \<Longrightarrow> old < 0"
  shows "file_inv (goto t p (s\<lparr>fs_var := v, fs_fds := fds\<rparr>))"
proof -
  have "own_inv v fds (\<lambda>u. owned (((fs_pc s)(t := p)) u))" unfolding owned_goto by (rule assms(1))
  moreover have "((fs_pc s)(t := p)) u = F_Cas old new \<Longrightarrow> old < 0" for u old new
  proof (cases "u = t")
    case True
    then show "((fs_pc s)(t := p)) u = F_Cas old new \<Longrightarrow> old < 0" using assms(3) by simp
  next
    case False
    then show "((fs_pc s)(t := p)) u = F_Cas old new \<Longrightarrow> old < 0"
      using assms(2) unfolding file_inv_def by (metis fun_upd_other)
  qed
  ultimately show ?thesis unfolding file_inv_def goto_def by simp
qed

lemma same_owner:
  "own_inv v fds ow \<Longrightarrow> ow t = x \<Longrightarrow> own_inv v fds (ow(t := x))"
  by (simp add: fun_upd_idem)

lemma file_step_inv:
  assumes inv: "file_inv s" and st: "file_step s s'"
  shows "file_inv s'"
proof -
  let ?ow = "\<lambda>u. owned (fs_pc s u)"
  have o: "own_inv (fs_var s) (fs_fds s) ?ow" using inv by (simp add: file_inv_def)
  have cas: "fs_pc s t = F_Cas old new \<Longrightarrow> old < 0" for t old new using inv unfolding file_inv_def by blast
  have keep: "file_inv (goto t p s)" if "owned p = ?ow t" "\<And>old new. p = F_Cas old new \<Longrightarrow> old < 0" for t p
    using file_inv_goto [of "fs_var s" "fs_fds s" s t p] same_owner [OF o, of t "owned p"] inv that by simp
  from st show ?thesis
  proof cases
    case (open_succeeds t fd)
    from own_inv_open [OF o _ open_succeeds(4,3), of t] open_succeeds(2,3)
      file_inv_goto [of "fs_var s" "insert fd (fs_fds s)" s t "F_Cas EAGAIN_ERROR fd"] inv EAGAIN_negative
    show ?thesis unfolding open_succeeds(1) by simp
  next
    case (cas_stored t old new v)
    then have v: "fs_var s = old" by (auto simp: update_cas_def split: if_splits)
    from own_inv_store [OF o, of t new] cas [OF cas_stored(2)] v cas_stored(2)
      file_inv_goto [of new "fs_fds s" s t "F_Done v"] inv
    show ?thesis unfolding cas_stored(1) by simp
  next
    case (cas_retry t old new cur)
    then show ?thesis by (auto intro!: keep simp: update_cas_def split: if_splits)
  next
    case (close_swap t)
    from own_inv_swap [OF o _ EAGAIN_negative, of t] close_swap(2)
      file_inv_goto [of EAGAIN_ERROR "fs_fds s" s t "if fs_var s \<ge> 0 then F_Close (fs_var s) 0 else F_Done 0"] inv
    show ?thesis unfolding close_swap(1) by (simp split: if_splits)
  next
    case (do_close t fd v)
    from own_inv_close [OF o, of t fd] do_close(2) file_inv_goto [of "fs_var s" "fs_fds s - {fd}" s t "F_Done v"] inv
    show ?thesis unfolding do_close(1) by simp
  qed (auto intro!: keep simp: EAGAIN_negative)
qed

interpretation data_file: invariant_system file_start file_step file_inv
proof
  show "file_start s \<Longrightarrow> file_inv s" for s
    by (simp add: file_start_def file_inv_def own_inv_def EAGAIN_ERROR_def)
qed (rule file_step_inv)

text \<open>
  C11. The descriptor of the \<open>user_events_data\<close> file with any number of threads that call \<open>get\<close> and
  \<open>close\<close>. In every reachable state each open descriptor has exactly one owner, the variable or a
  thread that still has to store or close it: a descriptor is closed only while it is open and by one
  thread only (no double close), \<open>update\<close> never overwrites a descriptor in the variable, and once all
  threads are between calls nothing is open but the variable's descriptor (no leak).
\<close>

theorem data_file_no_leak:
  assumes "reachable file_start file_step s"
  shows "(\<forall>t fd v. fs_pc s t = F_Close fd v \<longrightarrow> fd \<in> fs_fds s \<and> fs_var s \<noteq> fd
            \<and> (\<forall>u w. fs_pc s u = F_Close fd w \<longrightarrow> u = t))
    \<and> (\<forall>t old new v. fs_pc s t = F_Cas old new \<and> update_cas (fs_var s) old new = Cas_Stored v \<longrightarrow> fs_var s < 0)
    \<and> ((\<forall>t. fs_pc s t = F_Idle \<or> (\<exists>v. fs_pc s t = F_Done v)) \<longrightarrow>
         fs_fds s = (if 0 \<le> fs_var s then {fs_var s} else {}))"
proof (intro conjI allI impI)
  have "file_inv s" by (rule data_file.reachable_inv [OF assms])
  then have o: "own_inv (fs_var s) (fs_fds s) (\<lambda>t. owned (fs_pc s t))"
    and c: "\<And>t old new. fs_pc s t = F_Cas old new \<Longrightarrow> old < 0"
    unfolding file_inv_def by blast+
  fix t fd v assume t: "fs_pc s t = F_Close fd v"
  then have ow: "owned (fs_pc s t) = Some fd" by simp
  with o show "fd \<in> fs_fds s" "fs_var s \<noteq> fd" by (auto simp: own_inv_def)
  fix u w assume "fs_pc s u = F_Close fd w"
  then have "owned (fs_pc s u) = Some fd" by simp
  with ow o show "u = t" unfolding own_inv_def by blast
next
  have "file_inv s" by (rule data_file.reachable_inv [OF assms])
  then have c: "\<And>t old new. fs_pc s t = F_Cas old new \<Longrightarrow> old < 0" unfolding file_inv_def by blast
  fix t old new v assume "fs_pc s t = F_Cas old new \<and> update_cas (fs_var s) old new = Cas_Stored v"
  then show "fs_var s < 0" using c [of t old new] by (auto simp: update_cas_def split: if_splits)
next
  have "file_inv s" by (rule data_file.reachable_inv [OF assms])
  then have o: "own_inv (fs_var s) (fs_fds s) (\<lambda>t. owned (fs_pc s t))" unfolding file_inv_def by blast
  assume "\<forall>t. fs_pc s t = F_Idle \<or> (\<exists>v. fs_pc s t = F_Done v)"
  then have n: "owned (fs_pc s t) = None" for t by (metis owned.simps(3,5))
  with o show "fs_fds s = (if 0 \<le> fs_var s then {fs_var s} else {})" by (auto simp: own_inv_def)
qed

text \<open>One thread opens the file and stores descriptor 3; another is about to close it.\<close>

definition sample_file_sys :: file_sys where
  "sample_file_sys = \<lparr>fs_var = EAGAIN_ERROR, fs_fds = {}, fs_pc = (\<lambda>t. F_Idle)\<rparr>"

definition sample_closing :: file_sys where
  "sample_closing = \<lparr>fs_var = EAGAIN_ERROR, fs_fds = {3}, fs_pc = (\<lambda>t. F_Idle)(0 := F_Done 3, 1 := F_Close 3 0)\<rparr>"

lemma sample_closing_reachable: "reachable file_start file_step sample_closing"
proof -
  let ?s0 = sample_file_sys
  let ?s1 = "goto 0 F_Open ?s0"
  let ?s2 = "goto 0 (F_Cas EAGAIN_ERROR 3) (?s1\<lparr>fs_fds := insert 3 (fs_fds ?s1)\<rparr>)"
  let ?s3 = "goto 0 (F_Done 3) (?s2\<lparr>fs_var := 3\<rparr>)"
  have "reachable file_start file_step ?s0" by (rule reachable_start) (simp add: file_start_def sample_file_sys_def)
  then have "reachable file_start file_step ?s1"
    by (rule reachable_step) (rule get_load_again, simp_all add: sample_file_sys_def)
  then have "reachable file_start file_step ?s2"
    by (rule reachable_step) (rule open_succeeds, simp_all add: sample_file_sys_def)
  then have "reachable file_start file_step ?s3"
    by (rule reachable_step) (rule cas_stored [where old = EAGAIN_ERROR], simp_all add: update_cas_def sample_file_sys_def goto_def)
  then have "reachable file_start file_step
      (goto 1 (if fs_var ?s3 \<ge> 0 then F_Close (fs_var ?s3) 0 else F_Done 0) (?s3\<lparr>fs_var := EAGAIN_ERROR\<rparr>))"
    by (rule reachable_step) (rule close_swap, simp add: sample_file_sys_def goto_def)
  then show ?thesis by (simp add: sample_closing_def sample_file_sys_def goto_def)
qed

theorem data_file_no_leak_witness:
  "fs_pc sample_closing 1 = F_Close 3 0 \<and> 3 \<in> fs_fds sample_closing \<and> fs_var sample_closing \<noteq> 3"
proof -
  have "fs_pc sample_closing 1 = F_Close 3 0" by (simp add: sample_closing_def)
  with conjunct1 [OF data_file_no_leak [OF sample_closing_reachable], rule_format, of 1 3 0] show ?thesis by blast
qed

section \<open>Registration\<close>

text \<open>
  Where a thread is in \<open>register_with_flags\<close> or \<open>unregister\<close>: about to make the \<open>ioctl\<close>, about to
  put the final value into \<open>write_index\<close>, returned with an error code, or panicked because the
  tracepoint was active.
\<close>

datatype reg_pc =
    R_Idle
  | R_Register
  | R_Unregister
  | R_Finish u32 int
  | R_Done int
  | R_Panicked

text \<open>
  \<open>rs_kernel\<close> says whether the kernel has the tracepoint registered, and so may write to its
  \<open>enable_status\<close>; \<open>rs_refused\<close> whether the kernel ever failed to unregister it.
\<close>

record reg_sys =
  rs_index :: u32
  rs_kernel :: bool
  rs_refused :: bool
  rs_pc :: "nat \<Rightarrow> reg_pc"

definition run_to :: "nat \<Rightarrow> reg_pc \<Rightarrow> reg_sys \<Rightarrow> reg_sys" where
  "run_to t p s = s\<lparr>rs_pc := (rs_pc s)(t := p)\<rparr>"

inductive reg_step :: "reg_sys \<Rightarrow> reg_sys \<Rightarrow> bool" where
  register_swap: "rs_pc s t = R_Idle \<Longrightarrow>
    reg_step s (run_to t (if rs_index s = UNREGISTERED_WRITE_INDEX then R_Register else R_Panicked)
      (s\<lparr>rs_index := BUSY_WRITE_INDEX\<rparr>))"
| register_no_file: "rs_pc s t = R_Register \<Longrightarrow> 0 < e \<Longrightarrow>
    reg_step s (run_to t (R_Finish UNREGISTERED_WRITE_INDEX e) s)"
| register_ioctl: "rs_pc s t = R_Register \<Longrightarrow> idx \<le> HIGHEST_VALID_WRITE_INDEX \<Longrightarrow>
    reg_step s (run_to t (R_Finish idx 0) (s\<lparr>rs_kernel := True\<rparr>))"
| unregister_swap: "rs_pc s t = R_Idle \<Longrightarrow>
    reg_step s (run_to t
      (if rs_index s = BUSY_WRITE_INDEX then R_Done 16
       else if rs_index s = UNREGISTERED_WRITE_INDEX then R_Finish UNREGISTERED_WRITE_INDEX 116
       else R_Unregister) (s\<lparr>rs_index := BUSY_WRITE_INDEX\<rparr>))"
| unregister_ioctl: "rs_pc s t = R_Unregister \<Longrightarrow>
    reg_step s (run_to t (R_Finish UNREGISTERED_WRITE_INDEX 0) (s\<lparr>rs_kernel := False\<rparr>))"
| unregister_refused: "rs_pc s t = R_Unregister \<Longrightarrow> 0 < e \<Longrightarrow>
    reg_step s (run_to t (R_Finish UNREGISTERED_WRITE_INDEX e) (s\<lparr>rs_refused := True\<rparr>))"
| finish_swap: "rs_pc s t = R_Finish idx e \<Longrightarrow> reg_step s (run_to t (R_Done e) (s\<lparr>rs_index := idx\<rparr>))"
| next_reg_call: "rs_pc s t = R_Done e \<Longrightarrow> reg_step s (run_to t R_Idle s)"

definition reg_start :: "reg_sys \<Rightarrow> bool" where
  "reg_start s \<longleftrightarrow> rs_index s = UNREGISTERED_WRITE_INDEX \<and> \<not> rs_kernel s \<and> \<not> rs_refused s \<and> (\<forall>t. rs_pc s t = R_Idle)"

text \<open>A thread that has put \<open>BUSY\<close> into the variable and has to take it out again.\<close>

definition busy_pc :: "reg_pc \<Rightarrow> bool" where
  "busy_pc p \<longleftrightarrow> p = R_Register \<or> p = R_Unregister \<or> (\<exists>idx e. p = R_Finish idx e)"

text \<open>
  What the final value of the variable has to do with the kernel: a valid index means registered, and
  \<open>UNREGISTERED\<close> means not registered, unless the kernel refused.
\<close>

definition index_ok :: "bool \<Rightarrow> bool \<Rightarrow> u32 \<Rightarrow> bool" where
  "index_ok kern refused idx \<longleftrightarrow>
     (idx \<le> HIGHEST_VALID_WRITE_INDEX \<and> kern) \<or> (idx = UNREGISTERED_WRITE_INDEX \<and> (kern \<longrightarrow> refused))"

definition pc_ok :: "bool \<Rightarrow> bool \<Rightarrow> reg_pc \<Rightarrow> bool" where
  "pc_ok kern refused p \<longleftrightarrow>
     (p = R_Register \<longrightarrow> kern \<longrightarrow> refused) \<and> (\<forall>idx e. p = R_Finish idx e \<longrightarrow> index_ok kern refused idx)"

text \<open>At most one thread is busy. If there is one the variable says so.\<close>

definition owner_inv :: "nat option \<Rightarrow> reg_sys \<Rightarrow> bool" where
  "owner_inv ow s \<longleftrightarrow>
     (\<forall>t. busy_pc (rs_pc s t) \<longleftrightarrow> ow = Some t)
     \<and> (case ow of
          Some t \<Rightarrow> rs_index s = BUSY_WRITE_INDEX \<and> pc_ok (rs_kernel s) (rs_refused s) (rs_pc s t)
        | None \<Rightarrow> index_ok (rs_kernel s) (rs_refused s) (rs_index s)
                 \<or> (rs_index s = BUSY_WRITE_INDEX \<and> (\<exists>t. rs_pc s t = R_Panicked)))"

definition reg_inv :: "reg_sys \<Rightarrow> bool" where
  "reg_inv s \<longleftrightarrow> (\<exists>ow. owner_inv ow s)"

lemma run_to_fields [simp]:
  "rs_index (run_to t p s) = rs_index s" "rs_kernel (run_to t p s) = rs_kernel s"
  "rs_refused (run_to t p s) = rs_refused s" "rs_pc (run_to t p s) = (rs_pc s)(t := p)"
  by (simp_all add: run_to_def)

lemma busy_pc_simps [simp]:
  "\<not> busy_pc R_Idle" "busy_pc R_Register" "busy_pc R_Unregister" "busy_pc (R_Finish idx e)" "\<not> busy_pc (R_Done e)"
  "\<not> busy_pc R_Panicked"
  by (simp_all add: busy_pc_def)

lemma index_values:
  "UNREGISTERED_WRITE_INDEX \<noteq> BUSY_WRITE_INDEX" "\<not> BUSY_WRITE_INDEX \<le> HIGHEST_VALID_WRITE_INDEX"
  "\<not> UNREGISTERED_WRITE_INDEX \<le> HIGHEST_VALID_WRITE_INDEX"
  by (simp_all add: UNREGISTERED_WRITE_INDEX_def BUSY_WRITE_INDEX_def HIGHEST_VALID_WRITE_INDEX_def)

lemma index_ok_not_busy: "index_ok k r idx \<Longrightarrow> idx \<noteq> BUSY_WRITE_INDEX"
  using index_values by (auto simp: index_ok_def)

lemma owner_iff: "owner_inv ow s \<Longrightarrow> busy_pc (rs_pc s t) \<longleftrightarrow> ow = Some t"
  by (simp add: owner_inv_def)

lemma owner_invI:
  assumes "\<And>t. busy_pc (rs_pc s t) \<longleftrightarrow> ow = Some t"
    and "\<And>t. ow = Some t \<Longrightarrow> rs_index s = BUSY_WRITE_INDEX \<and> pc_ok (rs_kernel s) (rs_refused s) (rs_pc s t)"
    and "ow = None \<Longrightarrow> index_ok (rs_kernel s) (rs_refused s) (rs_index s)
      \<or> (rs_index s = BUSY_WRITE_INDEX \<and> (\<exists>t. rs_pc s t = R_Panicked))"
  shows "owner_inv ow s"
  using assms unfolding owner_inv_def by (cases ow) simp_all

text \<open>The three kinds of steps: a thread takes the variable, keeps it, or gives it back.\<close>

lemma owner_take:
  assumes "owner_inv None s" "pc_ok k r p" "busy_pc p"
  shows "owner_inv (Some t) (run_to t p (s\<lparr>rs_index := BUSY_WRITE_INDEX, rs_kernel := k, rs_refused := r\<rparr>))"
  by (rule owner_invI) (use assms owner_iff [OF assms(1)] in simp_all)

lemma owner_keep:
  assumes o: "owner_inv ow s" and "busy_pc (rs_pc s t)" "pc_ok k r p" "busy_pc p"
  shows "owner_inv ow (run_to t p (s\<lparr>rs_kernel := k, rs_refused := r\<rparr>))"
proof -
  have ow: "ow = Some t" using owner_iff [OF o] assms(2) by simp
  have i: "rs_index s = BUSY_WRITE_INDEX" using o ow by (simp add: owner_inv_def)
  show ?thesis by (rule owner_invI) (use owner_iff [OF o] ow i assms in simp_all)
qed

lemma owner_give:
  assumes o: "owner_inv ow s" and f: "rs_pc s t = R_Finish idx e"
  shows "owner_inv None (run_to t (R_Done e) (s\<lparr>rs_index := idx\<rparr>))"
proof -
  have ow: "ow = Some t" using owner_iff [OF o, of t] f by simp
  have i: "index_ok (rs_kernel s) (rs_refused s) idx" using o f ow by (simp add: owner_inv_def pc_ok_def)
  show ?thesis by (rule owner_invI) (use owner_iff [OF o] ow i in simp_all)
qed

text \<open>A thread that is not busy and does not become so.\<close>

lemma owner_other:
  assumes o: "owner_inv ow s" and p: "\<not> busy_pc (rs_pc s t)" "\<not> busy_pc p" "rs_pc s t \<noteq> R_Panicked"
  shows "owner_inv ow (run_to t p s)"
proof (rule owner_invI)
  have ow: "ow \<noteq> Some t" using owner_iff [OF o] p(1) by simp
  show "busy_pc (rs_pc (run_to t p s) u) \<longleftrightarrow> ow = Some u" for u using owner_iff [OF o] p ow by simp
  show "rs_index (run_to t p s) = BUSY_WRITE_INDEX
      \<and> pc_ok (rs_kernel (run_to t p s)) (rs_refused (run_to t p s)) (rs_pc (run_to t p s) u)" if "ow = Some u" for u
    using o ow that by (simp add: owner_inv_def)
  assume "ow = None"
  with o have "index_ok (rs_kernel s) (rs_refused s) (rs_index s)
      \<or> (rs_index s = BUSY_WRITE_INDEX \<and> (\<exists>t. rs_pc s t = R_Panicked))"
    by (simp add: owner_inv_def)
  moreover have "((rs_pc s)(t := p)) u = R_Panicked" if "rs_pc s u = R_Panicked" for u
    using p(3) that by auto
  ultimately show "index_ok (rs_kernel (run_to t p s)) (rs_refused (run_to t p s)) (rs_index (run_to t p s))
      \<or> (rs_index (run_to t p s) = BUSY_WRITE_INDEX \<and> (\<exists>u. rs_pc (run_to t p s) u = R_Panicked))"
    unfolding run_to_fields by blast
qed

lemma owner_panics:
  assumes o: "owner_inv ow s" and p: "rs_pc s t = R_Idle"
  shows "owner_inv ow (run_to t R_Panicked (s\<lparr>rs_index := BUSY_WRITE_INDEX\<rparr>))"
proof (rule owner_invI)
  have ow: "ow \<noteq> Some t" using owner_iff [OF o, of t] p by simp
  let ?s = "run_to t R_Panicked (s\<lparr>rs_index := BUSY_WRITE_INDEX\<rparr>)"
  show "busy_pc (rs_pc ?s u) \<longleftrightarrow> ow = Some u" for u using owner_iff [OF o] p ow by simp
  show "rs_index ?s = BUSY_WRITE_INDEX \<and> pc_ok (rs_kernel ?s) (rs_refused ?s) (rs_pc ?s u)" if "ow = Some u" for u
    using o ow that by (simp add: owner_inv_def)
  show "index_ok (rs_kernel ?s) (rs_refused ?s) (rs_index ?s)
      \<or> (rs_index ?s = BUSY_WRITE_INDEX \<and> (\<exists>u. rs_pc ?s u = R_Panicked))"
    by (intro disjI2 conjI exI [of _ t]) simp_all
qed

lemma owner_none:
  "owner_inv ow s \<Longrightarrow> rs_index s \<noteq> BUSY_WRITE_INDEX \<Longrightarrow>
     ow = None \<and> index_ok (rs_kernel s) (rs_refused s) (rs_index s)"
  by (cases ow) (auto simp: owner_inv_def)

lemma reg_step_inv:
  assumes "reg_inv s" "reg_step s s'"
  shows "reg_inv s'"
proof -
  from assms(1) obtain ow where o: "owner_inv ow s" by (auto simp: reg_inv_def)
  note keep = owner_keep [OF o, of _ "rs_kernel s" "rs_refused s", simplified]
  from assms(2) show ?thesis
  proof cases
    case (register_swap t)
    show ?thesis
    proof (cases "rs_index s = UNREGISTERED_WRITE_INDEX")
      case True
      then have n: "ow = None" "rs_kernel s \<longrightarrow> rs_refused s"
        using owner_none [OF o] index_values by (auto simp: index_ok_def)
      with owner_take [of s "rs_kernel s" "rs_refused s" R_Register t] o register_swap True show ?thesis
        unfolding reg_inv_def by (intro exI [of _ "Some t"]) (simp add: pc_ok_def)
    next
      case False
      with owner_panics [OF o register_swap(2)] register_swap show ?thesis unfolding reg_inv_def by auto
    qed
  next
    case (register_no_file t e)
    have "pc_ok (rs_kernel s) (rs_refused s) (R_Finish UNREGISTERED_WRITE_INDEX e)"
      using o register_no_file(2) owner_iff [OF o, of t] by (simp add: owner_inv_def pc_ok_def index_ok_def)
    with keep [of t] register_no_file show ?thesis unfolding reg_inv_def by (intro exI [of _ ow]) simp
  next
    case (register_ioctl t idx)
    with owner_keep [OF o, of t True "rs_refused s" "R_Finish idx 0"] show ?thesis
      unfolding reg_inv_def by (auto simp: pc_ok_def index_ok_def)
  next
    case (unregister_swap t)
    consider "rs_index s = BUSY_WRITE_INDEX" | "rs_index s = UNREGISTERED_WRITE_INDEX"
      | "rs_index s \<noteq> BUSY_WRITE_INDEX" "rs_index s \<noteq> UNREGISTERED_WRITE_INDEX" by auto
    then show ?thesis
    proof cases
      case 1
      then have "s\<lparr>rs_index := BUSY_WRITE_INDEX\<rparr> = s" by simp
      with owner_other [OF o, of t "R_Done 16"] unregister_swap 1 show ?thesis
        unfolding reg_inv_def by auto
    next
      case 2
      then have n: "ow = None" "rs_kernel s \<longrightarrow> rs_refused s"
        using owner_none [OF o] index_values by (auto simp: index_ok_def)
      with owner_take [of s "rs_kernel s" "rs_refused s" "R_Finish UNREGISTERED_WRITE_INDEX 116" t] o unregister_swap 2
        index_values(1) show ?thesis
        unfolding reg_inv_def by (intro exI [of _ "Some t"]) (simp add: pc_ok_def index_ok_def)
    next
      case 3
      then have "ow = None" using owner_none [OF o] by simp
      with owner_take [of s "rs_kernel s" "rs_refused s" R_Unregister t] o unregister_swap 3 show ?thesis
        unfolding reg_inv_def by (intro exI [of _ "Some t"]) (simp add: pc_ok_def)
    qed
  next
    case (unregister_ioctl t)
    with owner_keep [OF o, of t False "rs_refused s" "R_Finish UNREGISTERED_WRITE_INDEX 0"] show ?thesis
      unfolding reg_inv_def by (auto simp: pc_ok_def index_ok_def)
  next
    case (unregister_refused t e)
    with owner_keep [OF o, of t "rs_kernel s" True "R_Finish UNREGISTERED_WRITE_INDEX e"] show ?thesis
      unfolding reg_inv_def by (auto simp: pc_ok_def index_ok_def)
  next
    case (finish_swap t idx e)
    with owner_give [OF o] show ?thesis unfolding reg_inv_def by auto
  next
    case (next_reg_call t e)
    with owner_other [OF o, of t R_Idle] show ?thesis unfolding reg_inv_def by auto
  qed
qed

interpretation registration: invariant_system reg_start reg_step reg_inv
proof
  show "reg_start s \<Longrightarrow> reg_inv s" for s
    unfolding reg_inv_def by (intro exI [of _ None]) (simp add: reg_start_def owner_inv_def index_ok_def)
qed (rule reg_step_inv)

text \<open>
  C12. Registration with any number of threads that call \<open>register\<close> and \<open>unregister\<close> on one
  tracepoint. In every reachable state at most one thread is between its two exchanges, and the
  variable is then \<open>BUSY\<close>, so the assertion after the second exchange holds; a valid write index means
  that the kernel has the tracepoint registered; \<open>UNREGISTERED\<close> means that it has not, unless the kernel
  refused to unregister it; and when no call is in progress and no call of \<open>register\<close> has panicked, the
  variable is not \<open>BUSY\<close>.
\<close>

theorem registration_exclusive:
  assumes "reachable reg_start reg_step s"
  shows "(\<forall>t u. busy_pc (rs_pc s t) \<and> busy_pc (rs_pc s u) \<longrightarrow> t = u)
    \<and> (\<forall>t idx e. rs_pc s t = R_Finish idx e \<longrightarrow> rs_index s = BUSY_WRITE_INDEX)
    \<and> (rs_index s \<le> HIGHEST_VALID_WRITE_INDEX \<longrightarrow> rs_kernel s)
    \<and> (rs_index s = UNREGISTERED_WRITE_INDEX \<and> rs_kernel s \<longrightarrow> rs_refused s)
    \<and> ((\<forall>t. \<not> busy_pc (rs_pc s t) \<and> rs_pc s t \<noteq> R_Panicked) \<longrightarrow> rs_index s \<noteq> BUSY_WRITE_INDEX)"
proof -
  obtain ow where o: "owner_inv ow s" using registration.reachable_inv [OF assms] by (auto simp: reg_inv_def)
  have ex: "t = u" if "busy_pc (rs_pc s t)" "busy_pc (rs_pc s u)" for t u using owner_iff [OF o] that by simp
  have bz: "rs_index s = BUSY_WRITE_INDEX" if "busy_pc (rs_pc s t)" for t
    using owner_iff [OF o] o that by (auto simp: owner_inv_def split: option.splits)
  have ix: "index_ok (rs_kernel s) (rs_refused s) (rs_index s)" if "rs_index s \<noteq> BUSY_WRITE_INDEX"
    using owner_none [OF o that] by simp
  have "rs_index s \<noteq> BUSY_WRITE_INDEX" if "\<forall>t. \<not> busy_pc (rs_pc s t) \<and> rs_pc s t \<noteq> R_Panicked"
  proof -
    have "ow = None" using owner_iff [OF o] that by (cases ow) auto
    with o that have "index_ok (rs_kernel s) (rs_refused s) (rs_index s)" by (simp add: owner_inv_def)
    then show ?thesis by (rule index_ok_not_busy)
  qed
  moreover have "rs_index s \<le> HIGHEST_VALID_WRITE_INDEX \<longrightarrow> rs_kernel s"
    "rs_index s = UNREGISTERED_WRITE_INDEX \<and> rs_kernel s \<longrightarrow> rs_refused s"
    using ix index_values by (cases "rs_index s = BUSY_WRITE_INDEX"; auto simp: index_ok_def)+
  ultimately show ?thesis using ex bz busy_pc_simps(4) by metis
qed

definition sample_reg_sys :: reg_sys where
  "sample_reg_sys = \<lparr>rs_index = UNREGISTERED_WRITE_INDEX, rs_kernel = False, rs_refused = False, rs_pc = (\<lambda>t. R_Idle)\<rparr>"

definition sample_registering :: reg_sys where
  "sample_registering = run_to 0 (R_Finish 7 0)
     (run_to 0 R_Register (sample_reg_sys\<lparr>rs_index := BUSY_WRITE_INDEX\<rparr>)\<lparr>rs_kernel := True\<rparr>)"

lemma sample_registering_reachable: "reachable reg_start reg_step sample_registering"
proof -
  have "reachable reg_start reg_step sample_reg_sys"
    by (rule reachable_start) (simp add: reg_start_def sample_reg_sys_def)
  then have "reachable reg_start reg_step (run_to 0 R_Register (sample_reg_sys\<lparr>rs_index := BUSY_WRITE_INDEX\<rparr>))"
    by (rule reachable_step) (use register_swap [of sample_reg_sys 0] in \<open>simp add: sample_reg_sys_def\<close>)
  then show ?thesis
    unfolding sample_registering_def
    by (rule reachable_step) (rule register_ioctl, simp_all add: HIGHEST_VALID_WRITE_INDEX_def)
qed

theorem registration_exclusive_witness:
  "rs_pc sample_registering 0 = R_Finish 7 0 \<and> rs_index sample_registering = BUSY_WRITE_INDEX"
proof -
  have "rs_pc sample_registering 0 = R_Finish 7 0" by (simp add: sample_registering_def)
  with registration_exclusive [OF sample_registering_reachable] show ?thesis by blast
qed

section \<open>A panic leaks the registration\<close>

text \<open>The variable is \<open>BUSY\<close>, nobody is going to change that, and the kernel has the tracepoint.\<close>

definition leaked :: "reg_sys \<Rightarrow> bool" where
  "leaked s \<longleftrightarrow> rs_index s = BUSY_WRITE_INDEX \<and> rs_kernel s \<and> (\<forall>t. \<not> busy_pc (rs_pc s t))"

interpretation leak: invariant_system leaked reg_step leaked
proof
  fix s s' assume l: "leaked s" and st: "reg_step s s'"
  then have n: "rs_pc s t \<noteq> R_Register" "rs_pc s t \<noteq> R_Unregister" "rs_pc s t \<noteq> R_Finish idx e" for t idx e
    using busy_pc_simps unfolding leaked_def by metis+
  from st l show "leaked s'"
    by cases (use n index_values in \<open>simp_all add: leaked_def\<close>)
qed simp

text \<open>
  C31. \<open>register\<close> exchanges \<open>write_index\<close> for \<open>BUSY\<close> before it asserts that the tracepoint was not
  registered. So a program that registers a registered tracepoint and survives the panic has lost the
  registration: from then on, whatever it calls, \<open>unregister\<close> (and with it \<open>drop\<close>) does nothing but
  return \<open>EBUSY\<close>, and the kernel keeps the address of \<open>enable_status\<close> for ever, also when the memory is
  freed.
\<close>

theorem register_twice_leaks:
  "\<exists>s. reachable reg_start reg_step s \<and> rs_pc s 1 = R_Panicked
     \<and> (\<forall>s'. reg_step\<^sup>*\<^sup>* s s' \<longrightarrow> rs_kernel s' \<and> rs_index s' = BUSY_WRITE_INDEX
          \<and> (\<forall>t. rs_pc s' t \<noteq> R_Unregister))"
proof -
  let ?s1 = "run_to 0 (R_Done 0) (sample_registering\<lparr>rs_index := 7\<rparr>)"
  let ?s2 = "run_to 1 R_Panicked (?s1\<lparr>rs_index := BUSY_WRITE_INDEX\<rparr>)"
  have "reachable reg_start reg_step ?s1"
    by (rule reachable_step [OF sample_registering_reachable]) (rule finish_swap, simp add: sample_registering_def)
  moreover have "rs_pc ?s1 1 = R_Idle" "rs_index ?s1 \<noteq> UNREGISTERED_WRITE_INDEX"
    by (simp_all add: sample_registering_def sample_reg_sys_def UNREGISTERED_WRITE_INDEX_def)
  ultimately have r: "reachable reg_start reg_step ?s2"
    using register_swap [of ?s1 1] reachable_step by fastforce
  have "leaked ?s2" by (auto simp: leaked_def sample_registering_def sample_reg_sys_def)
  then have "leaked s'" if "reg_step\<^sup>*\<^sup>* ?s2 s'" for s' using leak.steps_inv [OF that] by simp
  moreover have "rs_pc s' t \<noteq> R_Unregister" if "leaked s'" for s' t using that busy_pc_simps(3) unfolding leaked_def by metis
  ultimately show ?thesis
    by (intro exI [of _ ?s2]) (use r in \<open>auto simp: leaked_def\<close>)
qed

theorem register_twice_leaks_witness:
  "\<exists>s. reachable reg_start reg_step s \<and> rs_pc s 1 = R_Panicked
     \<and> rs_kernel s \<and> rs_index s = BUSY_WRITE_INDEX \<and> rs_pc s 0 \<noteq> R_Unregister"
  using register_twice_leaks rtranclp.rtrancl_refl [of reg_step] by fast

end
