(* ===== verification/Decoder_Findings.thy ===== *)
theory Decoder_Findings
  imports Event_Decode
begin

text \<open>
  Where the decoder does not do what it means to: concrete events, with what the decoder makes of
  them. Each event is small enough to be read by hand against the format in \<open>Wire_Format\<close>.
\<close>

definition started_on :: "bytes \<Rightarrow> ctx" where
  "started_on d = snd (the (enumerate_with_name_and_data False sample_name d 20 ctx_new))"

definition seen :: "bytes \<Rightarrow> (item option list \<times> EventHeaderEnumeratorState \<times> EventHeaderEnumeratorError) option" where
  "seen d = map_option (\<lambda>(ss, last). (map (read_item d) ss, state last, last_error last))
     (drain (move_next_impl False d) 21 (started_on d))"

section \<open>Arrays of structs\<close>

text \<open>
  An event \<open>E\<close> with one field \<open>s\<close>, an array of two structs with a single byte \<open>a\<close> each: 7 and 9. In
  the first event the length of the array is in the metadata, in the second in the data.
\<close>

definition event_head :: "u8 \<Rightarrow> bytes" where
  "event_head meta_len = [6, 0, 0, 0, 0, 0, 0, 5,  meta_len, 0, 1, 0,  0x45, 0]"

definition constant_structs :: bytes where
  "constant_structs = event_head 11 @ [0x73, 0, 0xA1, 1, 2, 0,  0x61, 0, 2] @ [7, 9]"

definition variable_structs :: bytes where
  "variable_structs = event_head 9 @ [0x73, 0, 0xC1, 1,  0x61, 0, 2] @ [2, 0, 7, 9]"


section \<open>Skipping an empty array of structs\<close>

text \<open>An empty array of structs \<open>s\<close>, with structs \<open>t\<close> and \<open>u\<close> inside, all of 127 fields.\<close>

definition nested_counts :: bytes where
  "nested_counts = event_head 17 @ [0x73, 0, 0xC1, 127,  0x74, 0, 0x81, 127,  0x75, 0, 0x81, 127,  0x76, 0, 2] @ [0, 0]"

definition first_item :: "bytes \<Rightarrow> ctx" where
  "first_item d = snd (the (move_next_impl False d (started_on d)))"

definition second_item :: "bytes \<Rightarrow> ctx" where
  "second_item d = snd (the (move_next_impl False d (first_item d)))"


section \<open>Reserved encodings\<close>

text \<open>A field with both array flags, and an empty array of structs without fields.\<close>

definition both_array_flags :: bytes where
  "both_array_flags = event_head 5 @ [0x73, 0, 0x62] @ [1, 0, 7]"

definition structs_without_fields :: bytes where
  "structs_without_fields = event_head 5 @ [0x73, 0, 0x41] @ [1, 0]"


end
