(* ===== verification/Text_Scan.thy ===== *)
theory Text_Scan
  imports Rust_Prelude
begin

text \<open>
  Text as the parsers of \<open>tracepoint_decode\<close> see it. A \<open>&str\<close> is the list of its UTF-8 bytes; slicing
  it panics when an end of the range is inside a character. \<open>scan_while\<close> is the loop
  \<open>while pos < s.len() && p(s[pos]) { pos += 1; }\<close>, which most of these parsers are made of.
\<close>

section \<open>Strings\<close>

definition ascii :: "string \<Rightarrow> bytes" where
  "ascii s = map of_char s"

definition is_char_boundary :: "bytes \<Rightarrow> nat \<Rightarrow> bool" where
  "is_char_boundary s i =
     (i = 0 \<or> i = length s \<or> (i < length s \<and> \<not> (0x80 \<le> s ! i \<and> s ! i < 0xC0)))"

definition str_slice :: "bytes \<Rightarrow> nat \<Rightarrow> nat \<Rightarrow> bytes option" where
  "str_slice s a b =
     (if is_char_boundary s a \<and> is_char_boundary s b then slice s a b else Panic)"

definition is_ascii :: "bytes \<Rightarrow> bool" where
  "is_ascii s = list_all (\<lambda>c. c < 0x80) s"

lemma is_ascii_boundary: "is_ascii s \<Longrightarrow> i \<le> length s \<Longrightarrow> is_char_boundary s i"
  by (cases "i = length s") (auto simp: is_ascii_def is_char_boundary_def list_all_length dest: leD)

lemma str_slice_ascii [simp]: "is_ascii s \<Longrightarrow> str_slice s a b = slice s a b"
  by (auto simp: str_slice_def slice_def is_ascii_boundary)

lemma is_ascii_simps [simp]:
  "is_ascii []" "is_ascii (c # s) \<longleftrightarrow> c < 0x80 \<and> is_ascii s" "is_ascii (s @ t) \<longleftrightarrow> is_ascii s \<and> is_ascii t"
  by (simp_all add: is_ascii_def)

lemma is_ascii_sub: "is_ascii s \<Longrightarrow> set t \<subseteq> set s \<Longrightarrow> is_ascii t"
  by (auto simp: is_ascii_def list_all_iff)

lemma is_ascii_slice: "is_ascii s \<Longrightarrow> slice s a b = Some t \<Longrightarrow> is_ascii t"
  by (rule is_ascii_sub) (auto dest!: slice_SomeD in_set_takeD in_set_dropD)

lemma ascii_simps [simp]:
  "ascii [] = []" "ascii (c # s) = of_char c # ascii s" "ascii (s @ t) = ascii s @ ascii t"
  by (simp_all add: ascii_def)

section \<open>Scanning\<close>

function scan_while :: "(u8 \<Rightarrow> bool) \<Rightarrow> bytes \<Rightarrow> nat \<Rightarrow> nat" where
  "scan_while P s pos = (if pos < length s \<and> P (s ! pos) then scan_while P s (pos + 1) else pos)"
  by auto
termination by (relation "measure (\<lambda>(P, s, pos). length s - pos)") auto

declare scan_while.simps [simp del]

lemma scan_while_eq: "scan_while P s pos = pos + length (takeWhile P (drop pos s))"
proof (induction P s pos rule: scan_while.induct)
  case (1 P s pos)
  show ?case
  proof (cases "pos < length s")
    case True
    then have "drop pos s = s ! pos # drop (pos + 1) s" by (simp add: Cons_nth_drop_Suc)
    with 1 True show ?thesis by (subst scan_while.simps) simp
  next
    case False
    then show ?thesis by (subst scan_while.simps) simp
  qed
qed

lemma scan_while_ge: "pos \<le> scan_while P s pos"
  by (simp add: scan_while_eq)

lemma scan_while_le: "pos \<le> length s \<Longrightarrow> scan_while P s pos \<le> length s"
  using length_takeWhile_le [of P "drop pos s"] by (simp add: scan_while_eq)

lemma scan_while_stops: "scan_while P s pos < length s \<Longrightarrow> \<not> P (s ! scan_while P s pos)"
  using nth_length_takeWhile [of P "drop pos s"] by (simp add: scan_while_eq)

lemma scan_while_run: "pos \<le> i \<Longrightarrow> i < scan_while P s pos \<Longrightarrow> P (s ! i)"
  using takeWhile_nth [of "i - pos" P "drop pos s"] set_takeWhileD [OF nth_mem, of "i - pos" P "drop pos s"]
    length_takeWhile_le [of P "drop pos s"]
  by (simp add: scan_while_eq)

text \<open>What a scan finds when the text at hand is a run of matching bytes and then something else.\<close>

lemma scan_while_append:
  "\<forall>c \<in> set b. P c \<Longrightarrow> \<not> P x \<Longrightarrow> scan_while P (a @ b @ x # c) (length a) = length a + length b"
  by (simp add: scan_while_eq takeWhile_tail)

lemma scan_while_end: "\<forall>c \<in> set b. P c \<Longrightarrow> scan_while P (a @ b) (length a) = length a + length b"
  by (simp add: scan_while_eq takeWhile_eq_all_conv [THEN iffD2])

definition until_first_nul :: "bytes \<Rightarrow> bytes option" where
  "until_first_nul bs = slice bs 0 (scan_while (\<lambda>c. c \<noteq> 0) bs 0)"

lemma until_first_nul_eq: "until_first_nul bs = Some (takeWhile (\<lambda>c. c \<noteq> 0) bs)"
  using length_takeWhile_le [of "\<lambda>c. c \<noteq> 0" bs]
  by (simp add: until_first_nul_def scan_while_eq takeWhile_eq_take [symmetric])

end
