(* ===== verification/Field_Format.thy ===== *)
theory Field_Format
  imports Text_Scan Perf_Item
begin

unbundle bit_operations_syntax

text \<open>
  \<open>tracepoint_decode/src/perf_field_format.rs\<close>: a field of an event as the kernel describes it in a
  tracefs \<open>format\<close> file. \<open>PerfFieldFormat_new\<close> works out the encoding of a field from its declaration in
  pseudo-C, \<open>PerfFieldFormat_parse\<close> reads a line of the file, and \<open>get_field_bytes\<close> and
  \<open>get_field_value\<close> find the field in the data of an event.
\<close>

section \<open>Numbers and tokens\<close>

definition is_space_or_tab :: "u8 \<Rightarrow> bool" where
  "is_space_or_tab c = (c = 0x20 \<or> c = 0x09)"

definition is_space_or_tab_or_semicolon :: "u8 \<Rightarrow> bool" where
  "is_space_or_tab_or_semicolon c = (c = 0x20 \<or> c = 0x09 \<or> c = 0x3B)"

definition is_ident_start :: "u8 \<Rightarrow> bool" where
  "is_ident_start c = ((0x41 \<le> c \<and> c \<le> 0x5A) \<or> (0x61 \<le> c \<and> c \<le> 0x7A) \<or> c = 0x5F)"

definition is_ident_continue :: "u8 \<Rightarrow> bool" where
  "is_ident_continue c =
     ((0x41 \<le> c \<and> c \<le> 0x5A) \<or> (0x61 \<le> c \<and> c \<le> 0x7A) \<or> (0x30 \<le> c \<and> c \<le> 0x39) \<or> c = 0x5F)"

definition to_digit :: "nat \<Rightarrow> u8 \<Rightarrow> nat option" where
  "to_digit radix c =
     (let d = (if 0x30 \<le> c \<and> c \<le> 0x39 then unat (c - 0x30)
               else if 0x61 \<le> c \<and> c \<le> 0x7A then unat (c - 0x61) + 10
               else if 0x41 \<le> c \<and> c \<le> 0x5A then unat (c - 0x41) + 10
               else radix)
      in if d < radix then Some d else None)"

fun ascii_digits :: "bool \<Rightarrow> nat \<Rightarrow> bytes \<Rightarrow> bool \<Rightarrow> nat \<Rightarrow> nat option option" where
  "ascii_digits dbg radix [] any_digits value = Some (if any_digits then Some value else None)"
| "ascii_digits dbg radix (c # cs) any_digits value =
     (case to_digit radix c of
        Some digit \<Rightarrow> do {
          v \<leftarrow> umul 32 dbg value radix;
          value \<leftarrow> uadd 32 dbg v digit;
          ascii_digits dbg radix cs True value
        }
      | None \<Rightarrow> Some (if any_digits then Some value else None))"

definition ascii_to_u32 :: "bool \<Rightarrow> bytes \<Rightarrow> nat option option" where
  "ascii_to_u32 dbg chars =
     (let pos = scan_while is_space_or_tab chars 0 in
      if length chars - pos > 2 \<and> chars ! pos = 0x30 \<and> (chars ! (pos + 1) = 0x78 \<or> chars ! (pos + 1) = 0x58)
      then ascii_digits dbg 16 (drop (pos + 2) chars) False 0
      else ascii_digits dbg 10 (drop pos chars) False 0)"

function consume_string :: "nat \<Rightarrow> bytes \<Rightarrow> u8 \<Rightarrow> nat" where
  "consume_string pos bs quote =
     (if pos < length bs then
        (let consumed = bs ! pos; pos' = pos + 1 in
         if consumed = quote then pos'
         else if consumed = 0x5C then
           (if length bs \<le> pos' then pos' else consume_string (pos' + 1) bs quote)
         else consume_string pos' bs quote)
      else pos)"
  by auto
termination by (relation "measure (\<lambda>(pos, bs, quote). length bs - pos)") auto

function consume_braced :: "nat \<Rightarrow> bytes \<Rightarrow> u8 \<Rightarrow> u8 \<Rightarrow> int \<Rightarrow> nat" where
  "consume_braced pos bs opening closing depth =
     (if pos < length bs then
        (let consumed = bs ! pos; pos' = pos + 1 in
         if consumed = closing then
           (if depth - 1 = 0 then pos' else consume_braced pos' bs opening closing (depth - 1))
         else if consumed = opening then consume_braced pos' bs opening closing (depth + 1)
         else consume_braced pos' bs opening closing depth)
      else pos)"
  by auto
termination by (relation "measure (\<lambda>(pos, bs, opening, closing, depth). length bs - pos)") auto

declare consume_string.simps [simp del] consume_braced.simps [simp del]

datatype TokenKind = Tk_None | Tk_Ident | Tk_Brackets | Tk_Parentheses | Tk_String | Tk_Punctuation

record Tokenizer =
  tk_input :: bytes
  tk_input_pos :: nat
  tk_kind :: TokenKind
  tk_value_range :: "nat \<times> nat"

definition Tokenizer_new :: "bytes \<Rightarrow> Tokenizer" where
  "Tokenizer_new input = \<lparr>tk_input = input, tk_input_pos = 0, tk_kind = Tk_None, tk_value_range = (0, 0)\<rparr>"

definition token_at :: "bytes \<Rightarrow> nat \<Rightarrow> TokenKind \<times> nat" where
  "token_at input_bytes pos =
     (if length input_bytes \<le> pos then (Tk_None, pos)
      else if is_ident_start (input_bytes ! pos) then
        (Tk_Ident, scan_while is_ident_continue input_bytes (pos + 1))
      else if input_bytes ! pos = 0x27 \<or> input_bytes ! pos = 0x22 then
        (Tk_String, consume_string (pos + 1) input_bytes (input_bytes ! pos))
      else if input_bytes ! pos = 0x28 then
        (Tk_Parentheses, consume_braced (pos + 1) input_bytes 0x28 0x29 1)
      else if input_bytes ! pos = 0x5B then
        (Tk_Brackets, consume_braced (pos + 1) input_bytes 0x5B 0x5D 1)
      else (Tk_Punctuation, pos + 1))"

definition Tokenizer_move_next :: "Tokenizer \<Rightarrow> Tokenizer" where
  "Tokenizer_move_next t =
     (let start_pos = scan_while (\<lambda>c. c \<le> 0x20) (tk_input t) (tk_input_pos t);
          (new_kind, pos) = token_at (tk_input t) start_pos
      in t\<lparr>tk_input_pos := pos, tk_value_range := (start_pos, pos), tk_kind := new_kind\<rparr>)"

lemma consume_string_bounds: "pos \<le> length bs \<Longrightarrow> pos \<le> consume_string pos bs q \<and> consume_string pos bs q \<le> length bs"
proof (induction pos bs q rule: consume_string.induct)
  case (1 pos bs q)
  then show ?case
    using "1.IH" [OF _ refl refl] by (auto simp: consume_string.simps [of pos bs q] Let_def intro: Suc_leD)
qed

lemma consume_braced_bounds:
  "pos \<le> length bs \<Longrightarrow> pos \<le> consume_braced pos bs a b d \<and> consume_braced pos bs a b d \<le> length bs"
proof (induction pos bs a b d rule: consume_braced.induct)
  case (1 pos bs a b d)
  then show ?case
    using "1.IH" [OF _ refl refl] by (auto simp: consume_braced.simps [of pos bs a b d] Let_def intro: Suc_leD)
qed

text \<open>The position of a tokenizer never exceeds the length of its input, so \<open>\<le>\<close> above is the \<open>==\<close> of the code.\<close>

lemma token_at_bounds:
  assumes "token_at s pos = (k, e)"
  shows "if k = Tk_None then length s \<le> pos \<and> e = pos else pos < e \<and> e \<le> length s"
  using assms consume_string_bounds [of "pos + 1" s] consume_braced_bounds [of "pos + 1" s]
    scan_while_ge [of "pos + 1" is_ident_continue s] scan_while_le [of "pos + 1" s is_ident_continue]
  by (auto simp: token_at_def Suc_le_eq split: if_splits)

lemma Tokenizer_move_next_bounds:
  assumes t': "t' = Tokenizer_move_next t"
  shows "tk_input t' = tk_input t" "tk_input_pos t \<le> length (tk_input t) \<Longrightarrow> tk_input_pos t' \<le> length (tk_input t)"
    "tk_kind t' \<noteq> Tk_None \<Longrightarrow> length (tk_input t') - tk_input_pos t' < length (tk_input t) - tk_input_pos t"
    "snd (tk_value_range t') = tk_input_pos t'" "fst (tk_value_range t') \<le> tk_input_pos t'"
    "tk_kind t' \<noteq> Tk_None \<Longrightarrow> fst (tk_value_range t') < tk_input_pos t'"
proof -
  let ?s = "scan_while (\<lambda>c. c \<le> 0x20) (tk_input t) (tk_input_pos t)"
  have s: "tk_input_pos t \<le> ?s" by (rule scan_while_ge)
  have l: "tk_input_pos t \<le> length (tk_input t) \<Longrightarrow> ?s \<le> length (tk_input t)" by (rule scan_while_le)
  obtain k e where ke: "token_at (tk_input t) ?s = (k, e)" by force
  note b = token_at_bounds [OF ke]
  from s l b ke show "tk_input t' = tk_input t"
    "tk_input_pos t \<le> length (tk_input t) \<Longrightarrow> tk_input_pos t' \<le> length (tk_input t)"
    "tk_kind t' \<noteq> Tk_None \<Longrightarrow> length (tk_input t') - tk_input_pos t' < length (tk_input t) - tk_input_pos t"
    "snd (tk_value_range t') = tk_input_pos t'" "fst (tk_value_range t') \<le> tk_input_pos t'"
    "tk_kind t' \<noteq> Tk_None \<Longrightarrow> fst (tk_value_range t') < tk_input_pos t'"
    unfolding t' Tokenizer_move_next_def Let_def by (auto split: if_splits)
qed

section \<open>The declaration of a field\<close>

datatype PerfFieldArray =
  Array_None | Array_Fixed | Array_RestOfEvent | Array_RelLoc2 | Array_DataLoc2 | Array_RelLoc4 | Array_DataLoc4

record PerfFieldFormat =
  pf_field :: bytes
  pf_name_range :: "nat \<times> nat"
  pf_offset :: nat
  pf_size :: nat
  pf_signed :: "bool option"
  specified_array_count :: nat
  deduced_array_count :: nat
  specified_encoding :: FieldEncoding
  deduced_encoding :: FieldEncoding
  specified_format :: FieldFormat
  deduced_format :: FieldFormat
  pf_array :: PerfFieldArray
  element_size_shift :: nat

record field_tokens =
  found_long_long :: bool
  found_long :: bool
  found_short :: bool
  found_unsigned :: bool
  found_signed :: bool
  found_struct :: bool
  found_data_loc :: bool
  found_rel_loc :: bool
  found_array :: bool
  found_pointer :: bool
  base_type_range :: "nat \<times> nat"
  name_range :: "nat \<times> nat"
  array_count_token :: nat

definition no_tokens :: field_tokens where
  "no_tokens =
     \<lparr>found_long_long = False, found_long = False, found_short = False, found_unsigned = False,
      found_signed = False, found_struct = False, found_data_loc = False, found_rel_loc = False,
      found_array = False, found_pointer = False, base_type_range = (0, 0), name_range = (0, 0),
      array_count_token = 0\<rparr>"

definition ident_token :: "bytes \<Rightarrow> nat \<times> nat \<Rightarrow> field_tokens \<Rightarrow> field_tokens" where
  "ident_token token_value value_range st =
     (if token_value = ascii ''long'' then
        (if found_long st then st\<lparr>found_long_long := True\<rparr> else st\<lparr>found_long := True\<rparr>)
      else if token_value = ascii ''short'' then st\<lparr>found_short := True\<rparr>
      else if token_value = ascii ''unsigned'' then st\<lparr>found_unsigned := True\<rparr>
      else if token_value = ascii ''signed'' then st\<lparr>found_signed := True\<rparr>
      else if token_value = ascii ''struct'' then st\<lparr>found_struct := True\<rparr>
      else if token_value = ascii ''__data_loc'' then st\<lparr>found_data_loc := True\<rparr>
      else if token_value = ascii ''__rel_loc'' then st\<lparr>found_rel_loc := True\<rparr>
      else if token_value \<noteq> ascii ''__attribute__'' \<and> token_value \<noteq> ascii ''const''
        \<and> token_value \<noteq> ascii ''volatile''
      then st\<lparr>base_type_range := name_range st, name_range := value_range\<rparr>
      else st)"

function parse_tokens :: "bool \<Rightarrow> bytes \<Rightarrow> Tokenizer \<Rightarrow> field_tokens \<Rightarrow> field_tokens option" where
  "parse_tokens dbg field t st = do {
     let t' = Tokenizer_move_next t;
     token_value \<leftarrow> str_slice field (fst (tk_value_range t')) (snd (tk_value_range t'));
     (case tk_kind t' of
        Tk_None \<Rightarrow> Some st
      | Tk_Ident \<Rightarrow> parse_tokens dbg field t' (ident_token token_value (tk_value_range t') st)
      | Tk_Brackets \<Rightarrow> do {
          digits \<leftarrow> slice_from token_value 1;
          n \<leftarrow> ascii_to_u32 dbg digits;
          let st' = st\<lparr>found_array := True, array_count_token := ucast_to 16 (case n of None \<Rightarrow> 0 | Some v \<Rightarrow> v)\<rparr>;
          let t'' = Tokenizer_move_next t';
          Some (if tk_kind t'' = Tk_Ident
                then st'\<lparr>base_type_range := name_range st', name_range := tk_value_range t''\<rparr>
                else st')
        }
      | Tk_Parentheses \<Rightarrow> parse_tokens dbg field t' st
      | Tk_String \<Rightarrow> parse_tokens dbg field t' st
      | Tk_Punctuation \<Rightarrow>
          parse_tokens dbg field t' (if token_value = ascii ''*'' then st\<lparr>found_pointer := True\<rparr> else st))
   }"
  by auto
termination
  by (relation "measure (\<lambda>(dbg, field, t, st). length (tk_input t) - tk_input_pos t)")
    (auto intro: Tokenizer_move_next_bounds(3) [OF refl])

declare parse_tokens.simps [simp del]

definition specified_type :: "bool \<Rightarrow> field_tokens \<Rightarrow> bytes \<Rightarrow> FieldFormat \<times> FieldEncoding" where
  "specified_type long_is_64_bits st base_type =
     (let long_encoding = (if long_is_64_bits then FieldEncoding_Value64 else FieldEncoding_Value32);
          is = (\<lambda>names. base_type \<in> set (map ascii names))
      in
      if found_pointer st then (FieldFormat_HexInt, long_encoding)
      else if found_struct st then (FieldFormat_HexBytes, FieldEncoding_Struct)
      else if base_type = [] \<or> base_type = ascii ''int'' then
        (let int_format = (if found_unsigned st then FieldFormat_UnsignedInt else FieldFormat_SignedInt) in
         if found_long_long st then (int_format, FieldEncoding_Value64)
         else if found_long st then (if found_unsigned st then FieldFormat_HexInt else int_format, long_encoding)
         else if found_short st then (int_format, FieldEncoding_Value16)
         else (int_format, FieldEncoding_Value32))
      else if base_type = ascii ''char'' then
        (if found_unsigned st then FieldFormat_UnsignedInt
         else if found_signed st then FieldFormat_SignedInt
         else FieldFormat_String8, FieldEncoding_Value8)
      else if is [''u8'', ''__u8'', ''uint8_t''] then (FieldFormat_UnsignedInt, FieldEncoding_Value8)
      else if is [''s8'', ''__s8'', ''int8_t''] then (FieldFormat_SignedInt, FieldEncoding_Value8)
      else if is [''u16'', ''__u16'', ''uint16_t''] then (FieldFormat_UnsignedInt, FieldEncoding_Value16)
      else if is [''s16'', ''__s16'', ''int16_t''] then (FieldFormat_SignedInt, FieldEncoding_Value16)
      else if is [''u32'', ''__u32'', ''uint32_t''] then (FieldFormat_UnsignedInt, FieldEncoding_Value32)
      else if is [''s32'', ''__s32'', ''int32_t''] then (FieldFormat_SignedInt, FieldEncoding_Value32)
      else if is [''u64'', ''__u64'', ''uint64_t''] then (FieldFormat_UnsignedInt, FieldEncoding_Value64)
      else if is [''s64'', ''__s64'', ''int64_t''] then (FieldFormat_SignedInt, FieldEncoding_Value64)
      else (FieldFormat_HexInt, FieldEncoding_Invalid))"

definition array_kind :: "nat \<Rightarrow> field_tokens \<Rightarrow> PerfFieldArray" where
  "array_kind sz st =
     (if sz = 0 then Array_RestOfEvent
      else if sz = 2 \<and> found_rel_loc st then Array_RelLoc2
      else if sz = 2 \<and> found_data_loc st then Array_DataLoc2
      else if sz = 4 \<and> found_rel_loc st then Array_RelLoc4
      else if sz = 4 \<and> found_data_loc st then Array_DataLoc4
      else if found_array st then Array_Fixed
      else Array_None)"

definition signed_format :: "FieldFormat \<Rightarrow> bool option \<Rightarrow> FieldFormat" where
  "signed_format specified sg =
     (if specified = FieldFormat_UnsignedInt \<or> specified = FieldFormat_SignedInt then
        (case sg of
           None \<Rightarrow> specified
         | Some False \<Rightarrow> FieldFormat_UnsignedInt
         | Some True \<Rightarrow> FieldFormat_SignedInt)
      else specified)"

definition set_hex_dump :: "PerfFieldFormat \<Rightarrow> PerfFieldFormat" where
  "set_hex_dump r = r\<lparr>deduced_encoding := FieldEncoding_StringLength16Char8,
     deduced_format := FieldFormat_HexBytes, deduced_array_count := 1, element_size_shift := 255\<rparr>"

definition deduce_scalar :: "PerfFieldFormat \<Rightarrow> PerfFieldFormat" where
  "deduce_scalar r =
     (if pf_size r = 1 then
        r\<lparr>deduced_encoding := FieldEncoding_Value8, element_size_shift := 0, deduced_array_count := 1\<rparr>
      else if pf_size r = 2 then
        r\<lparr>deduced_encoding := FieldEncoding_Value16, element_size_shift := 1, deduced_array_count := 1\<rparr>
      else if pf_size r = 4 then
        r\<lparr>deduced_encoding := FieldEncoding_Value32, element_size_shift := 2, deduced_array_count := 1\<rparr>
      else if pf_size r = 8 then
        r\<lparr>deduced_encoding := FieldEncoding_Value64, element_size_shift := 3, deduced_array_count := 1\<rparr>
      else set_hex_dump r)"

definition deduce_fixed :: "bool \<Rightarrow> PerfFieldFormat \<Rightarrow> PerfFieldFormat option" where
  "deduce_fixed dbg r =
     (if specified_array_count r = 0 then
        (let r = r\<lparr>deduced_encoding := FieldEncoding_with_flags (specified_encoding r) FieldEncoding_CArrayFlag\<rparr> in
         if specified_encoding r = FieldEncoding_Value8 then
           Some (r\<lparr>deduced_array_count := pf_size r, element_size_shift := 0\<rparr>)
         else if specified_encoding r = FieldEncoding_Value16 then
           Some (if pf_size r mod 2 \<noteq> 0 then set_hex_dump r
                 else r\<lparr>deduced_array_count := pf_size r div 2, element_size_shift := 1\<rparr>)
         else if specified_encoding r = FieldEncoding_Value32 then
           Some (if pf_size r mod 4 \<noteq> 0 then set_hex_dump r
                 else r\<lparr>deduced_array_count := pf_size r div 4, element_size_shift := 2\<rparr>)
         else if specified_encoding r = FieldEncoding_Value64 then
           Some (if pf_size r mod 8 \<noteq> 0 then set_hex_dump r
                 else r\<lparr>deduced_array_count := pf_size r div 8, element_size_shift := 3\<rparr>)
         else do {
           debug_assert dbg (specified_encoding r = FieldEncoding_Invalid);
           Some (set_hex_dump r)
         })
      else Some
        (if pf_size r mod specified_array_count r \<noteq> 0 then set_hex_dump r
         else
           let n = pf_size r div specified_array_count r;
               set = (\<lambda>enc shift. r\<lparr>deduced_encoding := FieldEncoding_with_flags enc FieldEncoding_CArrayFlag,
                        deduced_array_count := specified_array_count r, element_size_shift := shift\<rparr>)
           in if n = 1 then set FieldEncoding_Value8 0
              else if n = 2 then set FieldEncoding_Value16 1
              else if n = 4 then set FieldEncoding_Value32 2
              else if n = 8 then set FieldEncoding_Value64 3
              else set_hex_dump r))"

definition deduce_variable :: "bool \<Rightarrow> PerfFieldFormat \<Rightarrow> PerfFieldFormat option" where
  "deduce_variable dbg r =
     (let set = (\<lambda>shift. Some (r\<lparr>element_size_shift := shift,
            deduced_encoding := FieldEncoding_with_flags (specified_encoding r) FieldEncoding_VArrayFlag,
            deduced_array_count := 0\<rparr>))
      in if specified_encoding r = FieldEncoding_Value8 then set 0
         else if specified_encoding r = FieldEncoding_Value16 then set 1
         else if specified_encoding r = FieldEncoding_Value32 then set 2
         else if specified_encoding r = FieldEncoding_Value64 then set 3
         else do {
           debug_assert dbg (specified_encoding r = FieldEncoding_Invalid);
           Some (set_hex_dump r)
         })"

definition deduce :: "bool \<Rightarrow> PerfFieldFormat \<Rightarrow> PerfFieldFormat option" where
  "deduce dbg r =
     (if specified_format r = FieldFormat_String8 then do {
        debug_assert dbg (specified_encoding r = FieldEncoding_Value8);
        Some (r\<lparr>deduced_encoding := (if pf_size r = 1 then FieldEncoding_Value8 else FieldEncoding_ZStringChar8),
                deduced_array_count := 1, element_size_shift := (if pf_size r = 1 then 0 else 255)\<rparr>)
      }
      else if specified_format r = FieldFormat_HexBytes then do {
        debug_assert dbg (specified_encoding r = FieldEncoding_Struct);
        Some (r\<lparr>deduced_encoding := (if pf_size r = 1 then FieldEncoding_Value8 else FieldEncoding_StringLength16Char8),
                deduced_array_count := 1, element_size_shift := 255\<rparr>)
      }
      else case pf_array r of
        Array_None \<Rightarrow> Some (deduce_scalar r)
      | Array_Fixed \<Rightarrow> deduce_fixed dbg r
      | _ \<Rightarrow> deduce_variable dbg r)"

text \<open>What a debug build asserts of the result.\<close>

definition field_checked :: "PerfFieldFormat \<Rightarrow> bool" where
  "field_checked r =
     (let enc = FieldEncoding_without_flags (deduced_encoding r);
          flags = deduced_encoding r AND FieldEncoding_FlagMask;
          number = (\<lambda>n shift. (deduced_array_count r \<noteq> 0 \<longrightarrow> pf_size r = deduced_array_count r * n)
                     \<and> element_size_shift r = shift)
      in pf_field r \<noteq> []
       \<and> (if enc = FieldEncoding_Value8 then number 1 0
          else if enc = FieldEncoding_Value16 then number 2 1
          else if enc = FieldEncoding_Value32 then number 4 2
          else if enc = FieldEncoding_Value64 then number 8 3
          else if enc = FieldEncoding_StringLength16Char8 then
            deduced_array_count r = 1 \<and> flags = 0 \<and> deduced_format r = FieldFormat_HexBytes
            \<and> element_size_shift r = 255
          else if enc = FieldEncoding_ZStringChar8 then
            deduced_array_count r = 1 \<and> flags = 0 \<and> deduced_format r = FieldFormat_String8
            \<and> element_size_shift r = 255
          else False)
       \<and> (if flags = 0 then deduced_array_count r = 1
          else if flags = FieldEncoding_VArrayFlag then deduced_array_count r = 0
          else if flags = FieldEncoding_CArrayFlag then deduced_array_count r \<ge> 1
          else False)
       \<and> (if deduced_format r \<in> {FieldFormat_UnsignedInt, FieldFormat_SignedInt, FieldFormat_HexInt} then
            FieldEncoding_Value8 \<le> enc \<and> enc \<le> FieldEncoding_Value64
          else if deduced_format r = FieldFormat_HexBytes then enc = FieldEncoding_StringLength16Char8
          else if deduced_format r = FieldFormat_String8 then
            enc = FieldEncoding_Value8 \<or> enc = FieldEncoding_ZStringChar8
          else False))"

definition PerfFieldFormat_new ::
  "bool \<Rightarrow> bool \<Rightarrow> bytes \<Rightarrow> nat \<Rightarrow> nat \<Rightarrow> bool option \<Rightarrow> PerfFieldFormat option" where
  "PerfFieldFormat_new dbg long_is_64_bits field offset sz sg = do {
     st \<leftarrow> parse_tokens dbg field (Tokenizer_new field) no_tokens;
     base_type \<leftarrow> str_slice field (fst (base_type_range st)) (snd (base_type_range st));
     let (format, encoding) = specified_type long_is_64_bits st base_type;
     r \<leftarrow> deduce dbg
       \<lparr>pf_field = field, pf_name_range = name_range st, pf_offset = offset, pf_size = sz, pf_signed = sg,
        specified_array_count = array_count_token st, deduced_array_count = 0,
        specified_encoding = encoding, deduced_encoding = FieldEncoding_Invalid,
        specified_format = format, deduced_format = signed_format format sg,
        pf_array = array_kind sz st, element_size_shift = 0\<rparr>;
     debug_assert dbg (field_checked r);
     Some r
   }"

section \<open>Lines of a format file\<close>

record field_line =
  fl_field :: bytes
  fl_offset :: "nat option"
  fl_size :: "nat option"
  fl_signed :: "bool option"

definition field_property :: "bool \<Rightarrow> bytes \<Rightarrow> bytes \<Rightarrow> bool \<Rightarrow> field_line \<Rightarrow> field_line option" where
  "field_property dbg name value terminated st =
     (if name = ascii ''field'' \<or> name = ascii ''field special'' then Some (st\<lparr>fl_field := value\<rparr>)
      else if name = ascii ''offset'' \<and> terminated then do {
        n \<leftarrow> ascii_to_u32 dbg value;
        Some (st\<lparr>fl_offset := map_option (ucast_to 16) n\<rparr>)
      }
      else if name = ascii ''size'' \<and> terminated then do {
        n \<leftarrow> ascii_to_u32 dbg value;
        Some (st\<lparr>fl_size := map_option (ucast_to 16) n\<rparr>)
      }
      else if name = ascii ''signed'' \<and> terminated then do {
        n \<leftarrow> ascii_to_u32 dbg value;
        Some (st\<lparr>fl_signed := map_option (\<lambda>v. v \<noteq> 0) n\<rparr>)
      }
      else Some st)"

lemma parse_properties_progress:
  "pos < scan_while P line (scan_while Q line (scan_while R line (scan_while S line pos) + 1))"
  using scan_while_ge [of pos S line] scan_while_ge [of "scan_while S line pos" R line]
    scan_while_ge [of "scan_while R line (scan_while S line pos) + 1" Q line]
    scan_while_ge [of "scan_while Q line (scan_while R line (scan_while S line pos) + 1)" P line]
  by linarith

function parse_properties :: "bool \<Rightarrow> bytes \<Rightarrow> nat \<Rightarrow> field_line \<Rightarrow> field_line option" where
  "parse_properties dbg line format_pos st =
     (if format_pos < length line then
        let name_pos = scan_while is_space_or_tab_or_semicolon line format_pos in
        if length line \<le> name_pos then Some st
        else
          let colon_pos = scan_while (\<lambda>c. c \<noteq> 0x3A) line name_pos in
          if length line \<le> colon_pos then Some st
          else do {
            name \<leftarrow> str_slice line name_pos colon_pos;
            let value_pos = scan_while is_space_or_tab line (colon_pos + 1);
            let end_pos = scan_while (\<lambda>c. c \<noteq> 0x3B) line value_pos;
            value \<leftarrow> str_slice line value_pos end_pos;
            st' \<leftarrow> field_property dbg name value (end_pos < length line) st;
            parse_properties dbg line end_pos st'
          }
      else Some st)"
  by auto
termination
proof (relation "measure (\<lambda>(dbg, line, pos, st). length line - pos)")
  fix dbg :: bool and line :: bytes and pos :: nat and st and a b c d name v st'
  assume "pos < length line" "a = scan_while is_space_or_tab_or_semicolon line pos"
    "b = scan_while (\<lambda>c. c \<noteq> 0x3A) line a" "c = scan_while is_space_or_tab line (b + 1)"
    "d = scan_while (\<lambda>c. c \<noteq> 0x3B) line c"
  then show "((dbg, line, d, st'), dbg, line, pos, st) \<in> measure (\<lambda>(dbg, line, pos, st). length line - pos)"
    using parse_properties_progress [of pos "\<lambda>c. c \<noteq> 0x3B" line is_space_or_tab "\<lambda>c. c \<noteq> 0x3A" is_space_or_tab_or_semicolon]
    by simp
qed simp

declare parse_properties.simps [simp del]

definition no_field_line :: field_line where
  "no_field_line = \<lparr>fl_field = [], fl_offset = None, fl_size = None, fl_signed = None\<rparr>"

definition PerfFieldFormat_parse :: "bool \<Rightarrow> bool \<Rightarrow> bytes \<Rightarrow> PerfFieldFormat option option" where
  "PerfFieldFormat_parse dbg long_is_64_bits format_line = do {
     st \<leftarrow> parse_properties dbg format_line 0 no_field_line;
     (case (fl_offset st, fl_size st) of
        (Some offset, Some sz) \<Rightarrow>
          if fl_field st \<noteq> [] then do {
            r \<leftarrow> PerfFieldFormat_new dbg long_is_64_bits (fl_field st) offset sz (fl_signed st);
            Some (Some r)
          }
          else Some None
      | _ \<Rightarrow> Some None)
   }"

definition pf_name :: "PerfFieldFormat \<Rightarrow> bytes option" where
  "pf_name r =
     (if snd (pf_name_range r) \<le> fst (pf_name_range r) then Some (ascii ''noname'')
      else str_slice (pf_field r) (fst (pf_name_range r)) (snd (pf_name_range r)))"

definition element_size :: "PerfFieldFormat \<Rightarrow> nat" where
  "element_size r = ucast_to 8 (2 ^ (element_size_shift r AND 0x1F))"

section \<open>The data of a field\<close>

definition is_rel_loc2 :: "PerfFieldFormat \<Rightarrow> bool" where
  "is_rel_loc2 r = (pf_array r = Array_RelLoc2)"

text \<open>\<open>DataLoc2\<close> and \<open>RelLoc2\<close>: an offset, and the data ends before the first nul; then \<open>DataLoc4\<close> and \<open>RelLoc4\<close>: an
  offset and a length.\<close>

definition loc2_bytes :: "PerfFieldFormat \<Rightarrow> bytes \<Rightarrow> PerfByteReader \<Rightarrow> bytes option option" where
  "loc2_bytes r event_raw_data byte_reader = do {
     src \<leftarrow> slice_from event_raw_data (pf_offset r);
     dyn \<leftarrow> read_u16 byte_reader src;
     let dyn_offset = unat dyn + (if is_rel_loc2 r then pf_offset r + pf_size r else 0);
     (if dyn_offset \<le> length event_raw_data then do {
        rest \<leftarrow> slice_from event_raw_data dyn_offset;
        bs \<leftarrow> until_first_nul rest;
        Some (Some bs)
      }
      else Some None)
   }"

definition loc4_bytes :: "PerfFieldFormat \<Rightarrow> bytes \<Rightarrow> PerfByteReader \<Rightarrow> bytes option option" where
  "loc4_bytes r event_raw_data byte_reader = do {
     src \<leftarrow> slice_from event_raw_data (pf_offset r);
     dyn32 \<leftarrow> read_u32 byte_reader src;
     let dyn_size = unat (drop_bit 16 dyn32);
     let dyn_offset = unat (dyn32 AND 0xFFFF) + (if is_rel_loc2 r then pf_offset r + pf_size r else 0);
     (if dyn_offset + dyn_size \<le> length event_raw_data then do {
        bs \<leftarrow> slice event_raw_data dyn_offset (dyn_offset + dyn_size);
        Some (Some bs)
      }
      else Some None)
   }"

definition get_field_bytes :: "PerfFieldFormat \<Rightarrow> bytes \<Rightarrow> PerfByteReader \<Rightarrow> bytes option option" where
  "get_field_bytes r event_raw_data byte_reader =
     (let raw_begin = pf_offset r; raw_end = raw_begin + pf_size r in
      if raw_begin \<le> raw_end \<and> raw_end \<le> length event_raw_data then
        (case pf_array r of
           Array_None \<Rightarrow> do { bs \<leftarrow> slice event_raw_data raw_begin raw_end; Some (Some bs) }
         | Array_Fixed \<Rightarrow> do { bs \<leftarrow> slice event_raw_data raw_begin raw_end; Some (Some bs) }
         | Array_RestOfEvent \<Rightarrow> do { bs \<leftarrow> slice_from event_raw_data raw_begin; Some (Some bs) }
         | Array_DataLoc2 \<Rightarrow> loc2_bytes r event_raw_data byte_reader
         | Array_RelLoc2 \<Rightarrow> loc2_bytes r event_raw_data byte_reader
         | Array_DataLoc4 \<Rightarrow> loc4_bytes r event_raw_data byte_reader
         | Array_RelLoc4 \<Rightarrow> loc4_bytes r event_raw_data byte_reader)
      else Some None)"

definition field_item :: "bool \<Rightarrow> PerfFieldFormat \<Rightarrow> PerfByteReader \<Rightarrow> nat \<Rightarrow> nat \<Rightarrow> bytes \<Rightarrow> PerfItemValue option" where
  "field_item dbg r byte_reader type_size array_count bs = do {
     m \<leftarrow> PerfItemMetadata_new dbg byte_reader (deduced_encoding r) (deduced_format r)
            (\<not> FieldEncoding_is_array (deduced_encoding r)) (word_of_nat type_size) (word_of_nat array_count) 0;
     PerfItemValue_new dbg bs m
   }"

text \<open>The part after the label \<open>'VariableSize\<close>.\<close>

definition variable_size :: "bool \<Rightarrow> PerfFieldFormat \<Rightarrow> PerfByteReader \<Rightarrow> bool \<Rightarrow> bytes \<Rightarrow> PerfItemValue option" where
  "variable_size dbg r byte_reader check_str_len bs = do {
     bs \<leftarrow> (if check_str_len then until_first_nul bs else Some bs);
     mask \<leftarrow> usub 64 dbg (element_size r) 1;
     bs \<leftarrow> (if length bs AND mask \<noteq> 0 then slice bs 0 (and_not (length bs) mask) else Some bs);
     array_count \<leftarrow> (if deduced_array_count r \<noteq> 0 then Some (deduced_array_count r)
        else do { n \<leftarrow> ushr 64 dbg (length bs) (element_size_shift r); Some (ucast_to 16 n) });
     field_item dbg r byte_reader (element_size r) array_count bs
   }"

definition get_field_value :: "bool \<Rightarrow> PerfFieldFormat \<Rightarrow> bytes \<Rightarrow> PerfByteReader \<Rightarrow> PerfItemValue option" where
  "get_field_value dbg r event_raw_data byte_reader =
     (let check_str_len = (deduced_encoding r = FieldEncoding_ZStringChar8);
          raw_begin = pf_offset r; raw_end = raw_begin + pf_size r;
          nothing = PerfItemValue_new dbg [] PerfItemMetadata_null;
          fixed = do {
            bs \<leftarrow> slice event_raw_data raw_begin raw_end;
            bs \<leftarrow> (if check_str_len then until_first_nul bs else Some bs);
            field_item dbg r byte_reader (element_size r) (deduced_array_count r) bs
          }
      in
      if raw_begin \<le> raw_end \<and> raw_end \<le> length event_raw_data then
        (case pf_array r of
           Array_None \<Rightarrow> fixed
         | Array_Fixed \<Rightarrow> fixed
         | Array_RestOfEvent \<Rightarrow> do {
             bs \<leftarrow> slice_from event_raw_data raw_begin;
             variable_size dbg r byte_reader check_str_len bs
           }
         | Array_DataLoc2 \<Rightarrow> do {
             found \<leftarrow> loc2_bytes r event_raw_data byte_reader;
             (case found of None \<Rightarrow> nothing | Some bs \<Rightarrow> variable_size dbg r byte_reader True bs)
           }
         | Array_RelLoc2 \<Rightarrow> do {
             found \<leftarrow> loc2_bytes r event_raw_data byte_reader;
             (case found of None \<Rightarrow> nothing | Some bs \<Rightarrow> variable_size dbg r byte_reader True bs)
           }
         | Array_DataLoc4 \<Rightarrow> do {
             found \<leftarrow> loc4_bytes r event_raw_data byte_reader;
             (case found of None \<Rightarrow> nothing | Some bs \<Rightarrow> variable_size dbg r byte_reader check_str_len bs)
           }
         | Array_RelLoc4 \<Rightarrow> do {
             found \<leftarrow> loc4_bytes r event_raw_data byte_reader;
             (case found of None \<Rightarrow> nothing | Some bs \<Rightarrow> variable_size dbg r byte_reader check_str_len bs)
           })
      else nothing)"

section \<open>The result of the deduction\<close>

lemma ascii_digits_release: "\<exists>r. ascii_digits False radix cs any_digits v = Some r"
  by (induction cs arbitrary: any_digits v) (auto simp: umul_def uadd_def split: option.splits)

lemma ascii_to_u32_release: "\<exists>r. ascii_to_u32 False chars = Some r"
  using ascii_digits_release by (auto simp: ascii_to_u32_def Let_def)

definition range_ok :: "bytes \<Rightarrow> nat \<times> nat \<Rightarrow> bool" where
  "range_ok s r \<longleftrightarrow> fst r \<le> snd r \<and> snd r \<le> length s"

definition tokens_ok :: "bytes \<Rightarrow> field_tokens \<Rightarrow> bool" where
  "tokens_ok field st \<longleftrightarrow>
     range_ok field (base_type_range st) \<and> range_ok field (name_range st) \<and> array_count_token st < 2 ^ 16"

lemma ident_token_ok: "tokens_ok field st \<Longrightarrow> range_ok field rg \<Longrightarrow> tokens_ok field (ident_token v rg st)"
  by (simp add: ident_token_def tokens_ok_def)

lemma parse_tokens_safe:
  assumes "is_ascii field" "tk_input t = field" "tk_input_pos t \<le> length field" "tokens_ok field st"
  shows "wp (parse_tokens False field t st) (tokens_ok field)"
  using assms
proof (induction "False" field t st rule: parse_tokens.induct)
  case (1 field t st)
  let ?t = "Tokenizer_move_next t"
  note b = Tokenizer_move_next_bounds [OF refl, of t]
  have i: "tk_input ?t = field" "tk_input_pos ?t \<le> length field" using 1 b by simp_all
  have rg: "range_ok field (tk_value_range ?t)" using b i by (simp add: range_ok_def)
  then obtain v where v: "str_slice field (fst (tk_value_range ?t)) (snd (tk_value_range ?t)) = Some v"
    using 1 by (simp add: range_ok_def)
  note IH = "1.hyps" [OF refl v _ "1.prems"(1) i]
  have n: "v \<noteq> []" if "tk_kind ?t \<noteq> Tk_None"
    using v 1 b(6) [OF that] i b(4) by (auto simp: slice_def split: if_splits)
  have br: "tokens_ok field (st\<lparr>found_array := True, array_count_token := ucast_to 16 k\<rparr>)" for k
    using "1.prems"(4) by (simp add: tokens_ok_def ucast_to_def)
  have rg2: "range_ok field (tk_value_range (Tokenizer_move_next ?t))"
    using Tokenizer_move_next_bounds [OF refl, of ?t] i by (simp add: range_ok_def)
  obtain k where k: "ascii_to_u32 False (drop 1 v) = Some k" using ascii_to_u32_release by blast
  show ?case
  proof (cases "tk_kind ?t")
    case Tk_Brackets
    with v n k br rg2 show ?thesis
      by (subst parse_tokens.simps) (auto simp: Let_def slice_from_def Suc_le_eq tokens_ok_def)
  next
    case Tk_Punctuation
    with v IH(4) show ?thesis using "1.prems"(4)
      by (subst parse_tokens.simps) (auto simp: Let_def tokens_ok_def)
  qed (use v IH ident_token_ok [OF "1.prems"(4) rg] "1.prems"(4) in
      \<open>subst parse_tokens.simps, simp add: Let_def tokens_ok_def\<close>)+
qed

definition specified_ok :: "FieldFormat \<Rightarrow> FieldEncoding \<Rightarrow> bool" where
  "specified_ok format encoding \<longleftrightarrow>
     (format = FieldFormat_String8 \<and> encoding = FieldEncoding_Value8)
   \<or> (format = FieldFormat_HexBytes \<and> encoding = FieldEncoding_Struct)
   \<or> (format = FieldFormat_HexInt \<and> encoding = FieldEncoding_Invalid)
   \<or> (format \<in> {FieldFormat_UnsignedInt, FieldFormat_SignedInt, FieldFormat_HexInt}
      \<and> encoding \<in> {FieldEncoding_Value8, FieldEncoding_Value16, FieldEncoding_Value32, FieldEncoding_Value64})"

lemma specified_type_ok: "specified_type l64 st base_type = (format, encoding) \<Longrightarrow> specified_ok format encoding"
  unfolding specified_type_def Let_def specified_ok_def by (auto split: if_splits)

lemma format_consts_distinct:
  "FieldFormat_String8 \<noteq> FieldFormat_HexBytes" "FieldFormat_HexInt \<noteq> FieldFormat_HexBytes"
  "FieldFormat_UnsignedInt \<noteq> FieldFormat_HexBytes" "FieldFormat_SignedInt \<noteq> FieldFormat_HexBytes"
  "FieldFormat_HexInt \<noteq> FieldFormat_String8" "FieldFormat_UnsignedInt \<noteq> FieldFormat_String8"
  "FieldFormat_SignedInt \<noteq> FieldFormat_String8"
  by (simp_all add: enum_consts)

text \<open>When the assertions hold: of a blob, and of a number or an array of numbers.\<close>

abbreviation number_formats :: "FieldFormat set" where
  "number_formats \<equiv> {FieldFormat_UnsignedInt, FieldFormat_SignedInt, FieldFormat_HexInt}"

abbreviation number_sizes :: "(FieldEncoding \<times> nat \<times> nat) set" where
  "number_sizes \<equiv> {(FieldEncoding_Value8, 1, 0), (FieldEncoding_Value16, 2, 1), (FieldEncoding_Value32, 4, 2),
     (FieldEncoding_Value64, 8, 3)}"

lemma set_hex_dump_checked: "pf_field r \<noteq> [] \<Longrightarrow> field_checked (set_hex_dump r)"
  by (simp add: field_checked_def set_hex_dump_def enum_consts field_encoding_defs)

lemma number_checked:
  assumes "pf_field r \<noteq> []" "deduced_format r \<in> number_formats" "(enc, n, k) \<in> number_sizes"
    and "element_size_shift r = k" "deduced_array_count r \<noteq> 0 \<longrightarrow> pf_size r = deduced_array_count r * n"
  shows "deduced_encoding r = enc \<Longrightarrow> deduced_array_count r = 1 \<Longrightarrow> field_checked r"
    and "deduced_encoding r = FieldEncoding_with_flags enc FieldEncoding_CArrayFlag \<Longrightarrow> deduced_array_count r \<ge> 1 \<Longrightarrow>
      field_checked r"
    and "deduced_encoding r = FieldEncoding_with_flags enc FieldEncoding_VArrayFlag \<Longrightarrow> deduced_array_count r = 0 \<Longrightarrow>
      field_checked r"
  using assms by (elim insertE emptyE; simp add: field_checked_def enum_consts field_encoding_defs)+

lemma deduce_scalar_checked:
  "pf_field r \<noteq> [] \<Longrightarrow> deduced_format r \<in> number_formats \<Longrightarrow> field_checked (deduce_scalar r)"
  unfolding deduce_scalar_def
  using set_hex_dump_checked [of r]
    number_checked(1) [of "r\<lparr>deduced_encoding := enc, element_size_shift := k, deduced_array_count := 1\<rparr>" enc n k for enc n k]
  by simp

lemma deduce_fixed_checked:
  assumes "pf_field r \<noteq> []" "deduced_format r \<in> number_formats" "pf_size r \<noteq> 0" "deduce_fixed dbg r = Some r'"
  shows "field_checked r'"
proof -
  have c: "field_checked (r\<lparr>deduced_encoding := FieldEncoding_with_flags enc FieldEncoding_CArrayFlag,
      deduced_array_count := c, element_size_shift := k\<rparr>)"
    if "(enc, n, k) \<in> number_sizes" "pf_size r = c * n" for enc n k c
    by (rule number_checked(2) [OF _ _ that(1)]) (use assms that(2) in auto)
  show ?thesis
  proof (cases "specified_array_count r = 0")
    case True
    then show ?thesis using assms c set_hex_dump_checked
      by (auto simp: deduce_fixed_def Let_def debug_assert_def split: if_splits)
  next
    case False
    then show ?thesis using assms c set_hex_dump_checked
      by (auto simp: deduce_fixed_def Let_def dvd_div_eq_mult mult.commute split: if_splits)
  qed
qed

lemma deduce_variable_checked:
  assumes "pf_field r \<noteq> []" "deduced_format r \<in> number_formats" "deduce_variable dbg r = Some r'"
  shows "field_checked r'"
proof -
  have c: "field_checked (r\<lparr>element_size_shift := k,
      deduced_encoding := FieldEncoding_with_flags enc FieldEncoding_VArrayFlag, deduced_array_count := 0\<rparr>)"
    if "(enc, n, k) \<in> number_sizes" for enc n k
    by (rule number_checked(3) [OF _ _ that]) (use assms in auto)
  show ?thesis using assms c set_hex_dump_checked
    by (auto simp: deduce_variable_def Let_def debug_assert_def split: if_splits)
qed

lemma signed_format_cases:
  "signed_format FieldFormat_String8 sg = FieldFormat_String8" "signed_format FieldFormat_HexBytes sg = FieldFormat_HexBytes"
  "f \<in> number_formats \<Longrightarrow> signed_format f sg \<in> number_formats"
  by (auto simp: signed_format_def enum_consts split: option.splits bool.splits)

lemma deduce_release: "\<exists>r'. deduce False r = Some r'"
  by (auto simp: deduce_def deduce_fixed_def deduce_variable_def debug_assert_def Let_def split: PerfFieldArray.splits)

text \<open>The deduction changes nothing but the deduced parts.\<close>

definition declared_part :: "PerfFieldFormat \<Rightarrow> PerfFieldFormat" where
  "declared_part r = r\<lparr>deduced_array_count := 0, deduced_encoding := FieldEncoding_Invalid,
     deduced_format := FieldFormat_Default, element_size_shift := 0\<rparr>"

lemma declared_part_updates [simp]:
  "declared_part (r\<lparr>deduced_array_count := n\<rparr>) = declared_part r"
  "declared_part (r\<lparr>deduced_encoding := e\<rparr>) = declared_part r"
  "declared_part (r\<lparr>deduced_format := f\<rparr>) = declared_part r"
  "declared_part (r\<lparr>element_size_shift := k\<rparr>) = declared_part r"
  "declared_part (set_hex_dump r) = declared_part r"
  by (simp_all add: declared_part_def set_hex_dump_def)

lemma declared_part_fields:
  assumes "declared_part r' = declared_part r"
  shows "pf_field r' = pf_field r" "pf_name_range r' = pf_name_range r" "pf_offset r' = pf_offset r"
    "pf_size r' = pf_size r" "pf_signed r' = pf_signed r" "pf_array r' = pf_array r"
    "specified_encoding r' = specified_encoding r" "specified_format r' = specified_format r"
    "specified_array_count r' = specified_array_count r"
  using assms by (cases r; cases r'; simp add: declared_part_def)+

lemma wlp_deduce_fixed: "wlp (deduce_fixed dbg r) (\<lambda>r'. declared_part r' = declared_part r)"
  unfolding deduce_fixed_def by (intro wlp_intros) (simp_all add: Let_def)

lemma wlp_deduce_variable: "wlp (deduce_variable dbg r) (\<lambda>r'. declared_part r' = declared_part r)"
  unfolding deduce_variable_def by (intro wlp_intros) simp_all

lemma wlp_deduce: "wlp (deduce dbg r) (\<lambda>r'. declared_part r' = declared_part r)"
proof -
  have "wlp (Some (deduce_scalar r)) (\<lambda>r'. declared_part r' = declared_part r)"
    by (intro wlp_intros) (simp add: deduce_scalar_def)
  with wlp_deduce_fixed wlp_deduce_variable show ?thesis
    unfolding deduce_def by (intro wlp_intros) (simp_all split: PerfFieldArray.splits)
qed

lemmas deduce_fields = declared_part_fields [OF wlpD [OF wlp_deduce]]

lemma deduce_checked:
  assumes "specified_ok (specified_format r) (specified_encoding r)" "pf_field r \<noteq> []" "pf_array r = array_kind (pf_size r) st"
    and "deduced_format r = signed_format (specified_format r) sg" "deduce dbg r = Some r'"
  shows "field_checked r' \<longleftrightarrow> \<not> (specified_encoding r = FieldEncoding_Struct \<and> pf_size r = 1)"
proof -
  consider (string) "specified_format r = FieldFormat_String8" "specified_encoding r = FieldEncoding_Value8"
    | (struct) "specified_format r = FieldFormat_HexBytes" "specified_encoding r = FieldEncoding_Struct"
    | (number) "specified_format r \<in> number_formats" "specified_encoding r \<noteq> FieldEncoding_Struct"
    using assms(1) unfolding specified_ok_def by (auto simp: enum_consts)
  then show ?thesis
  proof cases
    case string
    then have d: "deduced_format r = FieldFormat_String8" using assms(4) by (simp add: signed_format_cases)
    show ?thesis
      using assms(2,5) string d
      by (auto simp: deduce_def debug_assert_def field_checked_def enum_consts field_encoding_defs)
  next
    case struct
    then have d: "deduced_format r = FieldFormat_HexBytes" using assms(4) by (simp add: signed_format_cases)
    show ?thesis
      using assms(2,5) struct d
      by (auto simp: deduce_def debug_assert_def field_checked_def enum_consts field_encoding_defs split: if_splits)
  next
    case number
    then have f: "specified_format r \<noteq> FieldFormat_String8" "specified_format r \<noteq> FieldFormat_HexBytes"
      using format_consts_distinct by auto
    have d: "deduced_format r \<in> number_formats" using assms(4) signed_format_cases(3) [OF number(1)] by simp
    have "field_checked r'"
      using assms(5) f deduce_scalar_checked [OF assms(2) d] deduce_variable_checked [OF assms(2) d]
        deduce_fixed_checked [OF assms(2) d] assms(3)
      by (auto simp: deduce_def array_kind_def split: PerfFieldArray.splits if_splits)
    with number(2) show ?thesis by simp
  qed
qed

text \<open>How the kind of array goes with the size and the number of elements.\<close>

definition kind_ok :: "PerfFieldFormat \<Rightarrow> bool" where
  "kind_ok r \<longleftrightarrow> (case pf_array r of
       Array_None \<Rightarrow> deduced_array_count r \<noteq> 0
     | Array_Fixed \<Rightarrow> deduced_array_count r \<noteq> 0
     | Array_RestOfEvent \<Rightarrow> pf_size r = 0 \<and> (element_size_shift r \<noteq> 255 \<longrightarrow> deduced_array_count r = 0)
     | Array_DataLoc2 \<Rightarrow> pf_size r = 2 \<and> (element_size_shift r \<noteq> 255 \<longrightarrow> deduced_array_count r = 0)
     | Array_RelLoc2 \<Rightarrow> pf_size r = 2 \<and> (element_size_shift r \<noteq> 255 \<longrightarrow> deduced_array_count r = 0)
     | Array_DataLoc4 \<Rightarrow> pf_size r = 4 \<and> (element_size_shift r \<noteq> 255 \<longrightarrow> deduced_array_count r = 0)
     | Array_RelLoc4 \<Rightarrow> pf_size r = 4 \<and> (element_size_shift r \<noteq> 255 \<longrightarrow> deduced_array_count r = 0))"

lemma deduce_fixed_count: "pf_size r \<noteq> 0 \<Longrightarrow> deduce_fixed dbg r = Some r' \<Longrightarrow> deduced_array_count r' \<noteq> 0"
  unfolding deduce_fixed_def set_hex_dump_def
  by (auto simp: Let_def debug_assert_def mod_eq_0_iff_dvd dvd_imp_le div_eq_0_iff leD split: if_splits)

lemma deduce_variable_count:
  "deduce_variable dbg r = Some r' \<Longrightarrow> element_size_shift r' \<noteq> 255 \<Longrightarrow> deduced_array_count r' = 0"
  unfolding deduce_variable_def set_hex_dump_def by (auto simp: Let_def debug_assert_def split: if_splits)

lemma deduce_kind:
  assumes "pf_array r = array_kind (pf_size r) st" "deduce dbg r = Some r'"
  shows "kind_ok r'"
proof -
  have a: "pf_array r \<in> {Array_None, Array_Fixed} \<Longrightarrow> pf_size r \<noteq> 0" "pf_array r = Array_RestOfEvent \<Longrightarrow> pf_size r = 0"
    "pf_array r \<in> {Array_DataLoc2, Array_RelLoc2} \<Longrightarrow> pf_size r = 2"
    "pf_array r \<in> {Array_DataLoc4, Array_RelLoc4} \<Longrightarrow> pf_size r = 4"
    using assms(1) by (auto simp: array_kind_def split: if_splits)
  have e: "deduced_array_count (deduce_scalar r) \<noteq> 0"
    by (simp add: deduce_scalar_def set_hex_dump_def)
  show ?thesis
  proof (cases "specified_format r \<in> {FieldFormat_String8, FieldFormat_HexBytes}")
    case True
    then have "deduced_array_count r' = 1" "pf_size r \<noteq> 1 \<Longrightarrow> element_size_shift r' = 255"
      using assms(2) by (auto simp: deduce_def debug_assert_def split: if_splits)
    with a deduce_fields [OF assms(2)] show ?thesis by (auto simp: kind_ok_def split: PerfFieldArray.splits)
  next
    case False
    then have "case pf_array r of Array_None \<Rightarrow> r' = deduce_scalar r
        | Array_Fixed \<Rightarrow> deduce_fixed dbg r = Some r' | _ \<Rightarrow> deduce_variable dbg r = Some r'"
      using assms(2) by (auto simp: deduce_def split: PerfFieldArray.splits)
    with a e deduce_fixed_count [of r dbg r'] deduce_variable_count [of dbg r r'] deduce_fields [OF assms(2)]
    show ?thesis by (auto simp: kind_ok_def split: PerfFieldArray.splits)
  qed
qed

lemma PerfFieldFormat_new_release:
  assumes "is_ascii field" "field \<noteq> []"
  shows "\<exists>r. PerfFieldFormat_new False l64 field offset sz sg = Some r
    \<and> pf_field r = field \<and> pf_offset r = offset \<and> pf_size r = sz \<and> pf_signed r = sg
    \<and> range_ok field (pf_name_range r) \<and> specified_ok (specified_format r) (specified_encoding r) \<and> kind_ok r
    \<and> (field_checked r \<longleftrightarrow> \<not> (specified_encoding r = FieldEncoding_Struct \<and> sz = 1))"
proof -
  have "wp (parse_tokens False field (Tokenizer_new field) no_tokens) (tokens_ok field)"
    by (rule parse_tokens_safe) (simp_all add: assms Tokenizer_new_def tokens_ok_def no_tokens_def range_ok_def)
  then obtain st where st: "parse_tokens False field (Tokenizer_new field) no_tokens = Some st" "tokens_ok field st"
    by (auto simp: wp_iff)
  then obtain b where b: "str_slice field (fst (base_type_range st)) (snd (base_type_range st)) = Some b"
    using assms by (simp add: tokens_ok_def range_ok_def)
  obtain format encoding where t: "specified_type l64 st b = (format, encoding)" by force
  let ?r = "\<lparr>pf_field = field, pf_name_range = name_range st, pf_offset = offset, pf_size = sz, pf_signed = sg,
        specified_array_count = array_count_token st, deduced_array_count = 0,
        specified_encoding = encoding, deduced_encoding = FieldEncoding_Invalid,
        specified_format = format, deduced_format = signed_format format sg,
        pf_array = array_kind sz st, element_size_shift = 0\<rparr>"
  obtain r where r: "deduce False ?r = Some r" using deduce_release by blast
  have "field_checked r \<longleftrightarrow> \<not> (encoding = FieldEncoding_Struct \<and> sz = 1)"
    using deduce_checked [OF _ _ _ _ r, of st sg] specified_type_ok [OF t] assms by simp
  moreover have "kind_ok r" by (rule deduce_kind [OF _ r]) simp
  ultimately show ?thesis using st b t r deduce_fields [OF r] specified_type_ok [OF t]
    by (simp add: PerfFieldFormat_new_def debug_assert_def tokens_ok_def)
qed

end
