(* ===== verification/Field_Value.thy ===== *)
theory Field_Value
  imports Field_Format
begin

unbundle bit_operations_syntax

text \<open>
  What \<open>PerfFieldFormat\<close> promises: the deduction of a field's encoding from its declaration, and the
  value of a field in the data of an event.
\<close>

text \<open>
  C8. \<open>PerfFieldFormat::new\<close> on any declaration in ASCII: the release build returns a field with the
  declaration, offset, size and sign it was given, whose name is a part of the declaration and whose
  deduced encoding, format, element size and element count satisfy all the assertions that a debug
  build makes, and the number of its elements fits the kind of array. There is one exception: the
  assertions are wrong for a \<open>struct\<close> of size 1.
\<close>

theorem field_declaration_deduced:
  assumes "is_ascii field" "field \<noteq> []"
  shows "\<exists>r. PerfFieldFormat_new False l64 field offset sz sg = Some r
    \<and> pf_field r = field \<and> pf_offset r = offset \<and> pf_size r = sz \<and> pf_signed r = sg
    \<and> range_ok field (pf_name_range r) \<and> kind_ok r
    \<and> (field_checked r \<longleftrightarrow> \<not> (specified_encoding r = FieldEncoding_Struct \<and> sz = 1))"
  using PerfFieldFormat_new_release [OF assms, of l64 offset sz sg] by blast

theorem field_declaration_deduced_witness:
  "\<exists>r. PerfFieldFormat_new False True (ascii ''unsigned short port[4]'') 8 8 None = Some r
     \<and> kind_ok r \<and> field_checked r"
proof -
  have "is_ascii (ascii ''unsigned short port[4]'')" "ascii ''unsigned short port[4]'' \<noteq> []" by simp_all
  from field_declaration_deduced [OF this, of True 8 8 None] show ?thesis by auto
qed

section \<open>The value of a field\<close>

text \<open>The parts of the assertions that the value depends on.\<close>

definition text_like :: "PerfFieldFormat \<Rightarrow> bool" where
  "text_like r \<longleftrightarrow> element_size_shift r = 255"

lemma encoding_flag_cases:
  "e AND 0xE0 = 0 \<Longrightarrow> \<not> FieldEncoding_is_array e" "e AND 0xE0 = 0x20 \<Longrightarrow> FieldEncoding_is_array e"
  "e AND 0xE0 = 0x40 \<Longrightarrow> FieldEncoding_is_array e"
  "e AND 0xE0 \<in> {0, 0x20, 0x40} \<Longrightarrow> \<not> FieldEncoding_has_chain_flag e"
  "e AND 0xE0 \<in> {0, 0x20, 0x40} \<Longrightarrow> FieldEncoding_array_flags e \<noteq> FieldEncoding_ArrayFlagMask"
  by (auto simp: field_encoding_defs enum_consts u8_eq_iff bit_simps)

lemma field_checked_cases:
  assumes "field_checked r"
  obtains (blob) "text_like r" "element_size r = 0" "deduced_array_count r = 1" "deduced_encoding r AND 0xE0 = 0"
    "FieldEncoding_without_flags (deduced_encoding r) \<noteq> FieldEncoding_Struct"
  | (number) k where "\<not> text_like r" "k \<le> 3" "element_size_shift r = k" "element_size r = 2 ^ k"
    "deduced_array_count r \<noteq> 0 \<Longrightarrow> pf_size r = deduced_array_count r * 2 ^ k"
    "deduced_encoding r \<noteq> FieldEncoding_ZStringChar8"
    "FieldEncoding_without_flags (deduced_encoding r) \<noteq> FieldEncoding_Struct"
    "deduced_encoding r AND 0xE0 \<in> {0x20, 0x40} \<or> (deduced_encoding r AND 0xE0 = 0 \<and> deduced_array_count r = 1)"
proof -
  let ?e = "FieldEncoding_without_flags (deduced_encoding r)"
  note c = assms [unfolded field_checked_def Let_def, THEN conjunct2]
  from c [THEN conjunct2, THEN conjunct1]
  have f: "deduced_encoding r AND 0xE0 \<in> {0x20, 0x40} \<or> (deduced_encoding r AND 0xE0 = 0 \<and> deduced_array_count r = 1)"
    by (auto simp: enum_consts split: if_splits)
  note e = c [THEN conjunct1]
  then have s: "?e \<noteq> FieldEncoding_Struct" by (auto simp: enum_consts split: if_splits)
  show ?thesis
  proof (cases "?e \<in> {FieldEncoding_StringLength16Char8, FieldEncoding_ZStringChar8}")
    case True
    with e have "element_size_shift r = 255" "deduced_array_count r = 1" "deduced_encoding r AND 0xE0 = 0"
      by (auto simp: enum_consts split: if_splits)
    with s show ?thesis by (intro blob) (simp_all add: text_like_def element_size_def ucast_to_def)
  next
    case False
    define k where "k = element_size_shift r"
    have k: "k \<le> 3 \<and> (deduced_array_count r \<noteq> 0 \<longrightarrow> pf_size r = deduced_array_count r * 2 ^ k)"
      using e False unfolding k_def by (simp split: if_split_asm)
    then have "element_size r = 2 ^ k"
    proof -
      have "k = 0 \<or> k = 1 \<or> k = 2 \<or> k = 3" using k by linarith
      then show ?thesis unfolding element_size_def ucast_to_def k_def [symmetric] by (elim disjE) simp_all
    qed
    moreover have "deduced_encoding r \<noteq> FieldEncoding_ZStringChar8"
      using False by (auto simp: field_encoding_defs enum_consts)
    ultimately show ?thesis using k s f by (intro number [of k]) (auto simp: text_like_def k_def)
  qed
qed

lemma field_checked_format: "field_checked r \<Longrightarrow> \<not> FieldFormat_has_chain_flag (deduced_format r)"
  by (drule field_checked_def [unfolded Let_def, THEN iffD1], elim conjE)
    (auto simp: enum_consts field_encoding_defs split: if_split_asm)

definition item_of_field :: "PerfFieldFormat \<Rightarrow> PerfByteReader \<Rightarrow> nat \<Rightarrow> bytes \<Rightarrow> PerfItemValue" where
  "item_of_field r rd n bs =
     \<lparr>iv_bytes = bs, iv_metadata =
        \<lparr>im_element_count = word_of_nat n, im_field_tag = 0, im_type_size = word_of_nat (element_size r),
         encoding_and_array_flag_and_is_scalar = FieldEncoding_with_flags (deduced_encoding r)
           (if FieldEncoding_is_array (deduced_encoding r) then 0 else FieldEncoding_ChainFlag),
         im_format = deduced_format r, im_byte_reader = rd\<rparr>\<rparr>"

lemma im_encoding_item_of_field:
  "im_encoding (iv_metadata (item_of_field r rd n bs)) = FieldEncoding_without_flags (deduced_encoding r)"
  by (simp add: item_of_field_def im_encoding_def field_encoding_defs enum_consts u8_eq_iff bit_simps)

lemma field_item_eq:
  assumes "field_checked r" "n < 65536" "\<not> FieldEncoding_is_array (deduced_encoding r) \<Longrightarrow> n = 1"
    and "element_size r \<noteq> 0 \<Longrightarrow> length bs = element_size r * n"
  shows "field_item dbg r rd (element_size r) n bs = Some (item_of_field r rd n bs)"
proof -
  have f: "FieldEncoding_without_flags (deduced_encoding r) \<noteq> FieldEncoding_Struct"
    "deduced_encoding r AND 0xE0 \<in> {0, 0x20, 0x40}" "element_size r < 256"
    using assms(1) by (cases rule: field_checked_cases; auto simp: element_size_def ucast_to_def)+
  have u: "unat (word_of_nat n :: u16) = n" "unat (word_of_nat (element_size r) :: u8) = element_size r"
    using assms(2) f(3) by (simp_all add: unsigned_of_nat take_bit_nat_eq_self)
  have z: "word_of_nat (element_size r) = (0 :: u8) \<longleftrightarrow> element_size r = 0" 
    using f(3) by (auto simp: word_of_nat_eq_0_iff dest: nat_dvd_not_less)
  let ?m = "iv_metadata (item_of_field r rd n bs)"
  have m: "im_type_size ?m = word_of_nat (element_size r)" "im_element_count ?m = word_of_nat n"
    "item_of_field r rd n bs = \<lparr>iv_bytes = bs, iv_metadata = ?m\<rparr>"
    by (simp_all add: item_of_field_def)
  have "PerfItemMetadata_new dbg rd (deduced_encoding r) (deduced_format r)
      (\<not> FieldEncoding_is_array (deduced_encoding r)) (word_of_nat (element_size r)) (word_of_nat n) 0 = Some ?m"
    using f(1) encoding_flag_cases(4,5) [OF f(2)] field_checked_format [OF assms(1)] assms(3)
    by (cases "FieldEncoding_is_array (deduced_encoding r)")
      (simp_all add: PerfItemMetadata_new_def debug_assert_def item_of_field_def)
  moreover have "PerfItemValue_new dbg bs ?m = Some (item_of_field r rd n bs)"
    using f(1) im_encoding_item_of_field [of r rd n bs] m u z assms(4)
    by (simp add: PerfItemValue_new_def debug_assert_def)
  ultimately show ?thesis by (simp add: field_item_def)
qed

lemma and_exp_minus_1: "n AND (2 ^ k - 1) = n mod 2 ^ k" for n :: nat
  by (metis take_bit_eq_mask mask_eq_exp_minus_1 take_bit_eq_mod)

lemma variable_size_number:
  assumes "field_checked r" "\<not> text_like r" "deduced_array_count r = 0" "length bs < 65536"
  shows "variable_size dbg r rd nul bs =
    (let bs' = (if nul then takeWhile (\<lambda>c. c \<noteq> 0) bs else bs);
         n = length bs' div element_size r
     in Some (item_of_field r rd n (take (n * element_size r) bs')))"
  using assms(1)
proof (cases rule: field_checked_cases)
  case (number k)
  define bs' where "bs' = (if nul then takeWhile (\<lambda>c. c \<noteq> 0) bs else bs)"
  have l: "length bs' < 65536" using assms(4) length_takeWhile_le [of "\<lambda>c. c \<noteq> 0" bs] by (simp add: bs'_def)
  have a: "FieldEncoding_is_array (deduced_encoding r)"
    using number(8) assms(3) encoding_flag_cases by auto
  have m: "and_not (length bs') (2 ^ k - 1) = length bs' div 2 ^ k * 2 ^ k"
    using and_not_mask [of "length bs'" k] number(2) l by (simp only: minus_mod_eq_div_mult) simp
  have z: "length bs' mod 2 ^ k = 0 \<Longrightarrow> length bs' div 2 ^ k * 2 ^ k = length bs'" by auto
  have tk: "(if length bs' AND (2 ^ k - 1) \<noteq> 0 then slice bs' 0 (and_not (length bs') (2 ^ k - 1)) else Some bs')
      = Some (take (length bs' div 2 ^ k * 2 ^ k) bs')"
    unfolding m and_exp_minus_1 using z by (cases "length bs' mod 2 ^ k = 0") simp_all
  have q: "length bs' div 2 ^ k < 65536" using l by (meson div_le_dividend le_less_trans)
  then have "field_item dbg r rd (element_size r) (length bs' div 2 ^ k) (take (length bs' div 2 ^ k * 2 ^ k) bs')
      = Some (item_of_field r rd (length bs' div 2 ^ k) (take (length bs' div 2 ^ k * 2 ^ k) bs'))"
    using field_item_eq [OF assms(1), of "length bs' div 2 ^ k" "take (length bs' div 2 ^ k * 2 ^ k) bs'"] a number(4)
    by (simp add: min_absorb2 mult.commute)
  moreover have "(if nul then until_first_nul bs else Some bs) = Some bs'" by (simp add: bs'_def until_first_nul_eq)
  ultimately show ?thesis
    using number(2-4) tk [unfolded One_nat_def] assms(3) l q
    by (simp add: variable_size_def Let_def bs'_def [symmetric] min_absorb2 ucast_to_def)
qed (use assms(2) in simp)

text \<open>
  The value that the bytes of a field stand for: as many whole elements as there are; a string up to
  the first nul; a blob as it is.
\<close>

definition field_result :: "PerfFieldFormat \<Rightarrow> PerfByteReader \<Rightarrow> bytes \<Rightarrow> PerfItemValue" where
  "field_result r rd bs =
     (if text_like r then
        item_of_field r rd 1 (if deduced_encoding r = FieldEncoding_ZStringChar8 then takeWhile (\<lambda>c. c \<noteq> 0) bs else bs)
      else let n = length bs div element_size r in item_of_field r rd n (take (n * element_size r) bs))"

definition fixed_kind :: "PerfFieldFormat \<Rightarrow> bool" where
  "fixed_kind r \<longleftrightarrow> pf_array r = Array_None \<or> pf_array r = Array_Fixed"

lemma loc2_bytes_eq:
  assumes "pf_offset r + pf_size r \<le> length raw" "pf_size r = 2"
  shows "\<exists>x. loc2_bytes r raw rd = Some x
    \<and> (\<forall>bs. x = Some bs \<longrightarrow> takeWhile (\<lambda>c. c \<noteq> 0) bs = bs \<and> length bs \<le> length raw)"
proof -
  have "\<exists>v. read_u16 rd (drop (pf_offset r) raw) = Some v"
    using assms read_u16_in [of "drop (pf_offset r) raw" rd] by auto
  then obtain v where v: "read_u16 rd (drop (pf_offset r) raw) = Some v" ..
  have "length (takeWhile (\<lambda>c. c \<noteq> 0) (drop n raw)) \<le> length raw" for n
    using length_takeWhile_le [of "\<lambda>c. c \<noteq> 0" "drop n raw"] by simp
  with v assms show ?thesis
    by (auto simp: loc2_bytes_def Let_def until_first_nul_eq dest: set_takeWhileD)
qed

lemma loc4_bytes_eq:
  assumes "pf_offset r + pf_size r \<le> length raw" "pf_size r = 4"
  shows "\<exists>x. loc4_bytes r raw rd = Some x \<and> (\<forall>bs. x = Some bs \<longrightarrow> length bs \<le> length raw)"
proof -
  have "\<exists>v. read_u32 rd (drop (pf_offset r) raw) = Some v"
    using assms by (simp add: read_u32_def)
  then obtain v where v: "read_u32 rd (drop (pf_offset r) raw) = Some v" ..
  with assms show ?thesis by (auto simp: loc4_bytes_def Let_def)
qed

lemma fixed_value:
  assumes "field_checked r" "kind_ok r" "fixed_kind r" "length bs = pf_size r" "pf_size r < 65536"
  shows "field_item dbg r rd (element_size r) (deduced_array_count r)
      (if deduced_encoding r = FieldEncoding_ZStringChar8 then takeWhile (\<lambda>c. c \<noteq> 0) bs else bs)
    = Some (field_result r rd bs)"
  using assms(1)
proof (cases rule: field_checked_cases)
  case blob
  show ?thesis
    by (subst field_item_eq [OF assms(1)]) (use blob in \<open>simp_all add: field_result_def\<close>)
next
  case (number k)
  have c: "deduced_array_count r \<noteq> 0" using assms(2,3) by (auto simp: kind_ok_def fixed_kind_def)
  have l: "length bs = deduced_array_count r * 2 ^ k" using number(5) [OF c] assms(4) by simp
  have "deduced_array_count r * 1 \<le> deduced_array_count r * 2 ^ k" by (rule mult_le_mono2) simp
  with l assms(4,5) have "deduced_array_count r < 65536" by linarith
  then show ?thesis
    by (subst field_item_eq [OF assms(1)])
      (use number l encoding_flag_cases in \<open>auto simp: field_result_def Let_def\<close>)
qed

text \<open>
  C9. \<open>get_field_bytes\<close> and \<open>get_field_value\<close> agree, in both builds. On the data of an event (at most
  65535 bytes) neither panics; where \<open>get_field_bytes\<close> finds no bytes, the value has the encoding
  \<open>Invalid\<close>; where it finds bytes, the value has the deduced encoding and format and consists of as many
  whole elements as the bytes hold, or of the string up to its first nul, or of the blob. This leaves out
  strings and blobs of variable size.
\<close>

theorem field_value_found:
  assumes "field_checked r" "kind_ok r" "length raw < 65536" "text_like r \<longrightarrow> fixed_kind r"
  shows "\<exists>x. get_field_bytes r raw rd = Some x
    \<and> get_field_value dbg r raw rd = Some (case x of
         None \<Rightarrow> \<lparr>iv_bytes = [], iv_metadata = PerfItemMetadata_null\<rparr>
       | Some bs \<Rightarrow> field_result r rd bs)"
proof (cases "pf_offset r + pf_size r \<le> length raw")
  case False
  then show ?thesis
    by (simp add: get_field_bytes_def get_field_value_def PerfItemValue_new_def PerfItemMetadata_null_def debug_assert_def)
next
  case in_range: True
  show ?thesis
  proof (cases "fixed_kind r")
    case True
    let ?bs = "take (pf_size r) (drop (pf_offset r) raw)"
    have "length ?bs = pf_size r" "pf_size r < 65536" using in_range assms(3) by simp_all
    from fixed_value [OF assms(1,2) True this, of dbg rd] True in_range show ?thesis
      by (auto simp: get_field_bytes_def get_field_value_def fixed_kind_def until_first_nul_eq Let_def)
  next
    case False
    then have n: "\<not> text_like r" "deduced_array_count r = 0" "element_size_shift r \<noteq> 255"
      using assms(2,4) by (auto simp: kind_ok_def fixed_kind_def text_like_def split: PerfFieldArray.splits)
    have z: "deduced_encoding r \<noteq> FieldEncoding_ZStringChar8"
      using assms(1) n by (cases rule: field_checked_cases) auto
    have v: "variable_size dbg r rd nul bs = Some (field_result r rd bs)"
      if "length bs < 65536" "nul \<longrightarrow> takeWhile (\<lambda>c. c \<noteq> 0) bs = bs" for nul bs
      using variable_size_number [OF assms(1) n(1,2) that(1), of dbg rd nul] that(2) n(1)
      by (cases nul) (simp_all add: field_result_def Let_def takeWhile_eq_all_conv [THEN iffD2])
    have no_value: "PerfItemValue_new dbg [] PerfItemMetadata_null = Some \<lparr>iv_bytes = [], iv_metadata = PerfItemMetadata_null\<rparr>"
      by (simp add: PerfItemValue_new_def PerfItemMetadata_null_def debug_assert_def)
    have loc: ?thesis
      if "get_field_bytes r raw rd = Some x"
        "get_field_value dbg r raw rd = (case x of
           None \<Rightarrow> PerfItemValue_new dbg [] PerfItemMetadata_null | Some bs \<Rightarrow> variable_size dbg r rd nul bs)"
        "\<forall>bs. x = Some bs \<longrightarrow> (nul \<longrightarrow> takeWhile (\<lambda>c. c \<noteq> 0) bs = bs) \<and> length bs \<le> length raw" for x nul
    proof (cases x)
      case None
      with that(1,2) no_value show ?thesis by (intro exI [of _ None]) simp
    next
      case (Some bs)
      with that v [of bs nul] le_less_trans [OF _ assms(3), of "length bs"] show ?thesis by simp
    qed
    have loc2: ?thesis if a: "pf_array r \<in> {Array_DataLoc2, Array_RelLoc2}"
    proof -
      have "pf_size r = 2" using a assms(2) by (auto simp: kind_ok_def)
      from loc2_bytes_eq [OF in_range this, of rd] obtain x where
        "loc2_bytes r raw rd = Some x" "\<forall>bs. x = Some bs \<longrightarrow> takeWhile (\<lambda>c. c \<noteq> 0) bs = bs \<and> length bs \<le> length raw"
        by blast
      then show ?thesis using a in_range by (intro loc [of x True]) (auto simp: get_field_bytes_def get_field_value_def)
    qed
    have loc4: ?thesis if a: "pf_array r \<in> {Array_DataLoc4, Array_RelLoc4}"
    proof -
      have "pf_size r = 4" using a assms(2) by (auto simp: kind_ok_def)
      from loc4_bytes_eq [OF in_range this, of rd] obtain x where
        "loc4_bytes r raw rd = Some x" "\<forall>bs. x = Some bs \<longrightarrow> length bs \<le> length raw"
        by blast
      then show ?thesis using a in_range z by (intro loc [of x False]) (auto simp: get_field_bytes_def get_field_value_def)
    qed
    have rest: "pf_array r = Array_RestOfEvent \<Longrightarrow> ?thesis"
      using in_range v [of "drop (pf_offset r) raw" False] assms(3) z by (simp add: get_field_bytes_def get_field_value_def)
    from False loc2 loc4 rest show ?thesis by (cases "pf_array r") (auto simp: fixed_kind_def)
  qed
qed

definition sample_field :: PerfFieldFormat where
  "sample_field = the (PerfFieldFormat_new False True (ascii ''__data_loc u16[] ports'') 8 4 None)"

definition sample_raw :: bytes where
  "sample_raw = [0, 0, 0, 0, 0, 0, 0, 0,  12, 0, 5, 0,  0x50, 0, 0xBB, 1, 9]"

lemma sample_field_eq: "sample_field =
  \<lparr>pf_field = ascii ''__data_loc u16[] ports'', pf_name_range = (17, 22), pf_offset = 8, pf_size = 4, pf_signed = None,
   specified_array_count = 0, deduced_array_count = 0, specified_encoding = 3, deduced_encoding = 0x43,
   specified_format = 1, deduced_format = 1, pf_array = Array_DataLoc4, element_size_shift = 1\<rparr>"
  by code_simp

theorem field_value_found_witness:
  "\<exists>x. get_field_bytes sample_field sample_raw (PerfByteReader_new False) = Some x
    \<and> get_field_value True sample_field sample_raw (PerfByteReader_new False) = Some (case x of
         None \<Rightarrow> \<lparr>iv_bytes = [], iv_metadata = PerfItemMetadata_null\<rparr>
       | Some bs \<Rightarrow> field_result sample_field (PerfByteReader_new False) bs)"
proof (rule field_value_found)
  show "field_checked sample_field"
    by (simp add: sample_field_eq field_checked_def Let_def enum_consts field_encoding_defs)
  show "kind_ok sample_field" by (simp add: sample_field_eq kind_ok_def)
  show "length sample_raw < 65536" by (simp add: sample_raw_def)
  show "text_like sample_field \<longrightarrow> fixed_kind sample_field" by (simp add: sample_field_eq text_like_def)
qed

section \<open>Strings and blobs of variable size, and relative locations\<close>

lemma get_field_bytes_length:
  assumes "kind_ok r" "get_field_bytes r raw rd = Some (Some bs)"
  shows "pf_offset r + pf_size r \<le> length raw" "length bs \<le> length raw"
proof -
  show i: "pf_offset r + pf_size r \<le> length raw"
    using assms(2) by (simp add: get_field_bytes_def Let_def split: if_splits)
  show "length bs \<le> length raw"
  proof (cases "pf_array r \<in> {Array_None, Array_Fixed, Array_RestOfEvent}")
    case True
    with assms(2) i show ?thesis by (auto simp: get_field_bytes_def)
  next
    case False
    then show ?thesis
      using assms i loc2_bytes_eq [OF i, of rd] loc4_bytes_eq [OF i, of rd]
      by (cases "pf_array r") (auto simp: get_field_bytes_def kind_ok_def)
  qed
qed

lemma variable_size_text:
  assumes "field_checked r" "text_like r"
  shows "variable_size True r rd nul b = Panic"
    and "length b < 65536 \<Longrightarrow> variable_size False r rd nul b = Some (item_of_field r rd 1 [])"
proof -
  have e: "element_size r = 0" "deduced_array_count r = 1" "\<not> FieldEncoding_is_array (deduced_encoding r)"
    using assms encoding_flag_cases(1) by (cases rule: field_checked_cases; simp)+
  show "variable_size True r rd nul b = Panic" by (simp add: variable_size_def until_first_nul_eq usub_def e)
  assume l: "length b < 65536"
  obtain b' where b': "(if nul then until_first_nul b else Some b) = Some b'" "length b' < 65536"
    using l length_takeWhile_le [of "\<lambda>c. c \<noteq> 0" b] by (cases nul) (auto simp: until_first_nul_eq)
  have "(word_of_nat 18446744073709551615 :: u64) = - 1" by simp
  then have "and_not n 18446744073709551615 = 0" for n by (simp only: and_not_def) simp
  then have "(if length b' AND 18446744073709551615 \<noteq> 0 then slice b' 0 (and_not (length b') 18446744073709551615)
      else Some b') = Some []"
    using and_exp_minus_1 [of "length b'" 64] b'(2) by simp
  moreover have "field_item False r rd (element_size r) 1 [] = Some (item_of_field r rd 1 [])"
    by (rule field_item_eq) (use assms(1) e in auto)
  ultimately show "variable_size False r rd nul b = Some (item_of_field r rd 1 [])"
    using e b'(1) by (simp add: variable_size_def usub_def)
qed

text \<open>
  C39. Strings and blobs of variable size are lost. For these fields (\<open>__data_loc char[] name\<close> is the
  most common of them) \<open>element_size\<close> is 0, and \<open>get_field_value\<close> computes a mask \<open>element_size - 1\<close>:
  whatever bytes the field has, a debug build panics, and a release build returns an empty value.
\<close>

theorem variable_strings_lost:
  assumes "field_checked r" "kind_ok r" "length raw < 65536" "text_like r" "\<not> fixed_kind r"
    and "get_field_bytes r raw rd = Some (Some bs)"
  shows "get_field_value True r raw rd = Panic \<and> get_field_value False r raw rd = Some (item_of_field r rd 1 [])"
proof -
  note l = get_field_bytes_length [OF assms(2,6)]
  note v = variable_size_text [OF assms(1,4)]
  show ?thesis
    using assms(3,5,6) l v
    by (cases "pf_array r") (auto simp: get_field_bytes_def get_field_value_def fixed_kind_def)
qed

definition sample_string :: PerfFieldFormat where
  "sample_string = the (PerfFieldFormat_new False True (ascii ''__data_loc char[] name'') 8 4 None)"

lemma sample_string_eq: "sample_string =
  \<lparr>pf_field = ascii ''__data_loc char[] name'', pf_name_range = (18, 22), pf_offset = 8, pf_size = 4, pf_signed = None,
   specified_array_count = 0, deduced_array_count = 1, specified_encoding = 2, deduced_encoding = 7,
   specified_format = 10, deduced_format = 10, pf_array = Array_DataLoc4, element_size_shift = 255\<rparr>"
  by code_simp

theorem variable_strings_lost_witness:
  "get_field_bytes sample_string sample_raw (PerfByteReader_new False) = Some (Some [0x50, 0, 0xBB, 1, 9])
   \<and> get_field_value True sample_string sample_raw (PerfByteReader_new False) = Panic
   \<and> get_field_value False sample_string sample_raw (PerfByteReader_new False)
       = Some (item_of_field sample_string (PerfByteReader_new False) 1 [])"
proof -
  have c: "field_checked sample_string"
    by (simp add: sample_string_eq field_checked_def Let_def enum_consts field_encoding_defs)
  have k: "kind_ok sample_string" "length sample_raw < 65536" "text_like sample_string" "\<not> fixed_kind sample_string"
    by (simp_all add: sample_string_eq sample_raw_def kind_ok_def text_like_def fixed_kind_def)
  have b: "get_field_bytes sample_string sample_raw (PerfByteReader_new False) = Some (Some [0x50, 0, 0xBB, 1, 9])"
    by code_simp
  from variable_strings_lost [OF c k b] b show ?thesis by simp
qed

text \<open>
  C40. \<open>__rel_loc\<close> fields of 4 bytes are read as \<open>__data_loc\<close> fields: the offset in such a field counts from
  the end of the field, but it is taken from the start of the event's data.
\<close>

theorem rel_loc4_is_absolute:
  assumes "pf_array r = Array_RelLoc4" "pf_size r = 4" "pf_offset r + 4 \<le> length raw"
    and "take 4 (drop (pf_offset r) raw) = to_ne_bytes (source_big_endian rd) 4 (off + len * 2 ^ 16)"
    and "off + len \<le> length raw" "off < 2 ^ 16" "len < 2 ^ 16"
  shows "get_field_bytes r raw rd = Some (Some (take len (drop off raw)))"
proof -
  define x where "x = off + len * 2 ^ 16"
  have n: "x < 2 ^ 32" "x div 2 ^ 16 = len" "x mod 2 ^ 16 = off" using assms(6,7) by (simp_all add: x_def)
  let ?w = "word_of_nat x :: u32"
  have u: "unat ?w = x" using n(1) by (simp add: unsigned_of_nat take_bit_nat_eq_self)
  have "read_u32 rd (drop (pf_offset r) raw) = Some ?w"
    using assms(3) assms(4) [folded x_def] n(1) by (simp add: read_u32_def from_bytes_to_ne_bytes)
  moreover have "unat (drop_bit 16 ?w) = len"
    using n(1,2) by (simp only: unsigned_drop_bit_eq u drop_bit_eq_div [where 'a = nat]) (simp add: take_bit_nat_eq_self)
  moreover have "unat (?w AND 0xFFFF) = off"
  proof -
    have "?w AND 0xFFFF = take_bit 16 ?w" by (simp add: take_bit_eq_mask mask_eq_exp_minus_1 and.commute)
    then show ?thesis using n(3) by (simp only: unsigned_take_bit_eq u take_bit_eq_mod [where 'a = nat])
  qed
  ultimately show ?thesis
    using assms(1-3,5) by (simp add: get_field_bytes_def loc4_bytes_def is_rel_loc2_def)
qed

definition sample_rel_loc :: PerfFieldFormat where
  "sample_rel_loc = the (PerfFieldFormat_new False True (ascii ''__rel_loc u8[] data'') 4 4 None)"

theorem rel_loc4_is_absolute_witness:
  "get_field_bytes sample_rel_loc [10, 11, 12, 13, 2, 0, 3, 0, 14, 15, 16, 17, 18] (PerfByteReader_new False)
     = Some (Some [12, 13, 2])"
proof -
  have "pf_array sample_rel_loc = Array_RelLoc4" "pf_size sample_rel_loc = 4" "pf_offset sample_rel_loc = 4" by code_simp+
  moreover have "take 4 (drop 4 [10, 11, 12, 13, 2, 0, 3, 0, 14, 15, 16, 17, 18])
      = to_ne_bytes (source_big_endian (PerfByteReader_new False)) 4 (2 + 3 * 2 ^ 16)"
    by code_simp
  ultimately show ?thesis
    using rel_loc4_is_absolute [of sample_rel_loc "[10, 11, 12, 13, 2, 0, 3, 0, 14, 15, 16, 17, 18]" "PerfByteReader_new False" 2 3]
    by simp
qed

end
