(* ===== verification/Event_Format.thy ===== *)
theory Event_Format
  imports Field_Format
begin

text \<open>
  \<open>tracepoint_decode/src/perf_event_format.rs\<close>: the tracefs \<open>format\<close> file of an event, parsed by
  \<open>PerfEventFormat_parse\<close> and written back by \<open>write_to\<close>.
\<close>

section \<open>Parsing\<close>

datatype PerfEventDecodingStyle = Style_TraceEventFormat | Style_EventHeader

record PerfEventFormat =
  ef_system_name :: bytes
  ef_name :: bytes
  ef_print_fmt :: bytes
  ef_fields :: "PerfFieldFormat list"
  ef_id :: nat
  ef_common_field_count :: nat
  ef_common_fields_size :: nat
  ef_decoding_style :: PerfEventDecodingStyle

record format_lines =
  fs_name :: bytes
  fs_print_fmt :: bytes
  fs_fields :: "PerfFieldFormat list"
  fs_id :: "nat option"
  fs_common :: nat

definition is_eol_char :: "u8 \<Rightarrow> bool" where
  "is_eol_char c = (c = 0x0D \<or> c = 0x0A)"

function scan_value :: "bytes \<Rightarrow> nat \<Rightarrow> nat" where
  "scan_value bs pos =
     (if pos < length bs \<and> \<not> is_eol_char (bs ! pos) then
        (let consumed = bs ! pos; pos' = pos + 1 in
         if consumed = 0x22 then scan_value bs (consume_string pos' bs 0x22) else scan_value bs pos')
      else pos)"
  by auto
termination
proof (relation "measure (\<lambda>(bs, pos). length bs - pos)", goal_cases)
  case (2 bs pos)
  then show ?case using consume_string_bounds [of "pos + 1" bs "0x22"] by auto
qed auto

declare scan_value.simps [simp del]

lemma scan_value_ge: "pos \<le> scan_value bs pos"
proof (induction bs pos rule: scan_value.induct)
  case (1 bs pos)
  then show ?case
    using "1.IH" [OF _ refl refl] consume_string_bounds [of "pos + 1" bs "0x22"]
    by (auto simp: scan_value.simps [of bs pos] Let_def intro: Suc_leD)
qed

text \<open>The lines of the \<open>format:\<close> property, from the end of its line on.\<close>

definition skip_eol :: "bytes \<Rightarrow> nat \<Rightarrow> nat" where
  "skip_eol contents pos =
     (if length contents - pos \<ge> 2 \<and> contents ! pos = 0x0D \<and> contents ! (pos + 1) = 0x0A then pos + 2 else pos + 1)"

lemma line_end_gt: "pos < scan_while P contents (skip_eol contents pos)"
  using scan_while_ge [of "skip_eol contents pos" P contents] by (auto simp: skip_eol_def split: if_splits)

lemma line_end_measure:
  "pos < length contents \<Longrightarrow> x = skip_eol contents pos \<Longrightarrow> e = scan_while P contents x \<Longrightarrow>
   length contents - e < length contents - pos"
  using line_end_gt by (simp only: diff_less_mono2)

function parse_fields ::
  "bool \<Rightarrow> bool \<Rightarrow> bytes \<Rightarrow> nat \<Rightarrow> bool \<Rightarrow> PerfFieldFormat list \<Rightarrow> nat \<Rightarrow> (nat \<times> PerfFieldFormat list \<times> nat) option" where
  "parse_fields dbg long_is_64_bits contents pos common parsed common_field_count =
     (if pos < length contents then do {
        debug_assert dbg (is_eol_char (contents ! pos));
        let line_start_pos = skip_eol contents pos;
        let end_pos = scan_while (\<lambda>c. \<not> is_eol_char c) contents line_start_pos;
        (if line_start_pos = end_pos then
           (if common then parse_fields dbg long_is_64_bits contents end_pos False parsed common_field_count
            else Some (end_pos, parsed, common_field_count))
         else do {
           line \<leftarrow> str_slice contents line_start_pos end_pos;
           field \<leftarrow> PerfFieldFormat_parse dbg long_is_64_bits line;
           (case field of
              Some field \<Rightarrow> do {
                n \<leftarrow> (if common then uadd 16 dbg common_field_count 1 else Some common_field_count);
                parse_fields dbg long_is_64_bits contents end_pos common (parsed @ [field]) n
              }
            | None \<Rightarrow> parse_fields dbg long_is_64_bits contents end_pos common parsed common_field_count)
         })
      }
      else Some (pos, parsed, common_field_count))"
  by auto
termination
  by (relation "measure (\<lambda>(dbg, l64, contents, pos, common, parsed, n). length contents - pos)")
    (rule wf_measure, unfold in_measure prod.case, (erule line_end_measure, assumption, assumption)+)

declare parse_fields.simps [simp del]

lemma parse_fields_ge: "parse_fields dbg l64 contents pos common parsed n = Some (pos', r) \<Longrightarrow> pos \<le> pos'"
proof (induction dbg l64 contents pos common parsed n rule: parse_fields.induct)
  case (1 dbg l64 contents pos common parsed n)
  note g = line_end_gt [of pos "\<lambda>c. \<not> is_eol_char c" contents]
  note IH = "1.IH"(1) [OF _ _ refl refl] "1.IH"(2) [OF _ _ refl refl] "1.IH"(3) [OF _ _ refl refl]
  from "1.prems" show ?case
    by (subst (asm) parse_fields.simps)
      (use IH g in \<open>force simp: Let_def bind_eq_Some_conv split: if_splits option.splits intro: less_imp_le less_le_trans\<close>)
qed

text \<open>A property \<open>NAME: VALUE\<close>, whose value is \<open>contents[value_pos..pos]\<close>; the result says where to go on.\<close>

definition event_property ::
  "bool \<Rightarrow> bool \<Rightarrow> bytes \<Rightarrow> bytes \<Rightarrow> nat \<Rightarrow> nat \<Rightarrow> format_lines \<Rightarrow> (nat \<times> format_lines) option" where
  "event_property dbg long_is_64_bits contents prop_name value_pos pos st =
     (if prop_name = ascii ''name'' then do {
        v \<leftarrow> str_slice contents value_pos pos;
        Some (pos, st\<lparr>fs_name := v\<rparr>)
      }
      else if prop_name = ascii ''ID'' \<and> pos < length contents then do {
        v \<leftarrow> slice contents value_pos pos;
        n \<leftarrow> ascii_to_u32 dbg v;
        Some (pos, st\<lparr>fs_id := n\<rparr>)
      }
      else if prop_name = ascii ''print fmt'' then do {
        v \<leftarrow> str_slice contents value_pos pos;
        Some (pos, st\<lparr>fs_print_fmt := v\<rparr>)
      }
      else if prop_name = ascii ''format'' then do {
        (pos', parsed, n) \<leftarrow> parse_fields dbg long_is_64_bits contents pos True [] (fs_common st);
        Some (pos', st\<lparr>fs_fields := parsed, fs_common := n\<rparr>)
      }
      else Some (pos, st))"

lemma event_property_ge: "event_property dbg l64 contents nm vp pos st = Some (pos', st') \<Longrightarrow> pos \<le> pos'"
  by (auto simp: event_property_def bind_eq_Some_conv dest!: parse_fields_ge split: if_splits)

lemma colon_pos_gt:
  assumes "pos < length s" "a = scan_while is_eol_char s pos" "b = scan_while is_space_or_tab s a"
    "c = scan_while (\<lambda>c. c \<noteq> 0x3A \<and> \<not> is_eol_char c) s b" "\<not> length s \<le> c" "s ! c \<noteq> 0x3A"
  shows "length s - c < length s - pos"
proof -
  have o: "pos \<le> a" "a \<le> b" "b \<le> c" using assms by (simp_all add: scan_while_ge)
  have e: "is_eol_char (s ! c)"
    using scan_while_stops [of "\<lambda>c. c \<noteq> 0x3A \<and> \<not> is_eol_char c" s b] assms(4-6) by auto
  have "\<not> is_eol_char (s ! a)" using scan_while_stops [of is_eol_char s pos] assms(2,5) o by auto
  with e o assms(1) show ?thesis by (cases "a = c") auto
qed

lemma value_end_ge: "pos \<le> a \<Longrightarrow> a \<le> b \<Longrightarrow> b \<le> c \<Longrightarrow> pos < scan_value s (scan_while P s (c + 1))"
  using scan_while_ge [of "c + 1" P s] scan_value_ge [of "scan_while P s (c + 1)" s] by linarith

function parse_lines :: "bool \<Rightarrow> bool \<Rightarrow> bytes \<Rightarrow> nat \<Rightarrow> format_lines \<Rightarrow> format_lines option" where
  "parse_lines dbg long_is_64_bits contents pos st =
     (if pos < length contents then
        let line_pos = scan_while is_eol_char contents pos in
        if length contents \<le> line_pos then Some st
        else
          let prop_name_pos = scan_while is_space_or_tab contents line_pos in
          if length contents \<le> prop_name_pos then Some st
          else
            let colon_pos = scan_while (\<lambda>c. c \<noteq> 0x3A \<and> \<not> is_eol_char c) contents prop_name_pos in
            if length contents \<le> colon_pos then Some st
            else if contents ! colon_pos \<noteq> 0x3A then
              parse_lines dbg long_is_64_bits contents colon_pos st
            else do {
              prop_name \<leftarrow> slice contents prop_name_pos colon_pos;
              let value_pos = scan_while is_space_or_tab contents (colon_pos + 1);
              let end_pos = scan_value contents value_pos;
              (pos', st') \<leftarrow> event_property dbg long_is_64_bits contents prop_name value_pos end_pos st;
              parse_lines dbg long_is_64_bits contents pos' st'
            }
      else Some st)"
  by auto
termination
proof (relation "measure (\<lambda>(dbg, l64, contents, pos, st). length contents - pos)", goal_cases)
  case (2 dbg l64 contents pos st a b c)
  then show ?case unfolding in_measure prod.case by (elim colon_pos_gt)
next
  case (3 dbg l64 contents pos st a b c nm v e r pos' st')
  have "pos < e"
    unfolding 3 by (intro value_end_ge [of pos a b c, unfolded 3]) (simp_all add: scan_while_ge)
  moreover have "e \<le> pos'" using event_property_ge 3 by blast
  ultimately show ?case using 3(1) by simp
qed simp

declare parse_lines.simps [simp del]

definition decoding_style :: "PerfFieldFormat list \<Rightarrow> nat \<Rightarrow> PerfEventDecodingStyle option" where
  "decoding_style parsed common_field_count =
     (if length parsed > common_field_count then do {
        f \<leftarrow> index parsed common_field_count;
        name \<leftarrow> pf_name f;
        Some (if name = ascii ''eventheader_flags'' then Style_EventHeader else Style_TraceEventFormat)
      }
      else Some Style_TraceEventFormat)"

definition common_size :: "bool \<Rightarrow> PerfFieldFormat list \<Rightarrow> nat \<Rightarrow> nat option" where
  "common_size dbg parsed common_field_count =
     (if common_field_count = 0 then Some 0
      else do {
        last_common_field \<leftarrow> index parsed (common_field_count - 1);
        uadd 16 dbg (pf_offset last_common_field) (pf_size last_common_field)
      })"

definition PerfEventFormat_parse :: "bool \<Rightarrow> bool \<Rightarrow> bytes \<Rightarrow> bytes \<Rightarrow> PerfEventFormat option option" where
  "PerfEventFormat_parse dbg long_is_64_bits system_name contents = do {
     st \<leftarrow> parse_lines dbg long_is_64_bits contents 0
       \<lparr>fs_name = [], fs_print_fmt = [], fs_fields = [], fs_id = None, fs_common = 0\<rparr>;
     (case fs_id st of
        Some event_id \<Rightarrow>
          if fs_name st \<noteq> [] then do {
            common_fields_size \<leftarrow> common_size dbg (fs_fields st) (fs_common st);
            style \<leftarrow> decoding_style (fs_fields st) (fs_common st);
            Some (Some \<lparr>ef_system_name = system_name, ef_name = fs_name st, ef_print_fmt = fs_print_fmt st,
              ef_fields = fs_fields st, ef_id = event_id, ef_common_field_count = fs_common st,
              ef_common_fields_size = common_fields_size, ef_decoding_style = style\<rparr>)
          }
          else Some None
      | None \<Rightarrow> Some None)
   }"

section \<open>Writing\<close>

text \<open>\<open>{}\<close> of an unsigned number.\<close>

fun decimal :: "nat \<Rightarrow> bytes" where
  "decimal n = (if n < 10 then [0x30 + word_of_nat n] else decimal (n div 10) @ [0x30 + word_of_nat (n mod 10)])"

declare decimal.simps [simp del]

definition field_text :: "PerfFieldFormat \<Rightarrow> bytes" where
  "field_text f =
     [0x09] @ ascii ''field:'' @ pf_field f @ [0x3B, 0x09] @ ascii ''offset:'' @ decimal (pf_offset f)
     @ [0x3B, 0x09] @ ascii ''size:'' @ decimal (pf_size f) @ [0x3B]
     @ (case pf_signed f of
          Some sg \<Rightarrow> [0x09] @ ascii ''signed:'' @ decimal (if sg then 1 else 0) @ [0x3B, 0x0A]
        | None \<Rightarrow> [0x0A])"

definition write_field :: "nat \<Rightarrow> nat \<times> PerfFieldFormat \<Rightarrow> bytes" where
  "write_field common_field_count p =
     field_text (snd p) @ (if fst p + 1 = common_field_count then [0x0A] else [])"

definition write_to :: "PerfEventFormat \<Rightarrow> bytes" where
  "write_to e =
     ascii ''name: '' @ ef_name e @ [0x0A]
     @ ascii ''ID: '' @ decimal (ef_id e) @ [0x0A]
     @ ascii ''format:'' @ [0x0A]
     @ concat (map (write_field (ef_common_field_count e)) (enumerate 0 (ef_fields e)))
     @ [0x0A] @ ascii ''print fmt: '' @ ef_print_fmt e @ [0x0A]"

end
