(* ===== verification/Format_Round_Trip.thy ===== *)
theory Format_Round_Trip
  imports Event_Format
begin

text \<open>
  Reading back a format file. \<open>format_ok\<close> says when an event format has a text in the grammar of tracefs
  \<open>format\<close> files: names without line breaks, declarations without semicolons, a \<open>print fmt\<close> whose string
  literals are closed. For those, parsing the text that \<open>write_to\<close> writes gives the format back.
\<close>

section \<open>Numbers\<close>

lemma decimal_digits: "c \<in> set (decimal n) \<Longrightarrow> 0x30 \<le> c \<and> c \<le> 0x39"
proof (induction n rule: decimal.induct)
  case (1 n)
  have d: "0x30 \<le> (0x30 + word_of_nat k :: u8) \<and> 0x30 + word_of_nat k \<le> (0x39 :: u8)" if "k < 10" for k
    using that by (auto simp: word_le_nat_alt unat_word_ariths unsigned_of_nat take_bit_nat_eq_self)
  from "1.prems" show ?case
    by (subst (asm) decimal.simps) (use "1.IH" d in \<open>auto split: if_splits\<close>)
qed

lemma decimal_nonempty [simp]: "decimal n \<noteq> []"
  by (subst decimal.simps) simp

lemma to_digit_decimal: "k < 10 \<Longrightarrow> to_digit 10 (0x30 + word_of_nat k) = Some k"
proof -
  assume k: "k < 10"
  then have "unat (word_of_nat k :: u8) = k" by (simp add: unsigned_of_nat take_bit_nat_eq_self)
  moreover have "0x30 \<le> (0x30 + word_of_nat k :: u8) \<and> 0x30 + word_of_nat k \<le> (0x39 :: u8)"
    using k by (auto simp: word_le_nat_alt unat_word_ariths unsigned_of_nat take_bit_nat_eq_self)
  ultimately show ?thesis using k by (simp add: to_digit_def)
qed

lemma ascii_digits_decimal:
  "n < 2 ^ 32 \<Longrightarrow> ascii_digits dbg 10 (decimal n @ cs) b 0 = ascii_digits dbg 10 cs True n"
proof (induction n arbitrary: cs b rule: decimal.induct)
  case (1 n)
  show ?case
  proof (cases "n < 10")
    case True
    then show ?thesis by (simp add: decimal.simps [of n] to_digit_decimal)
  next
    case False
    have l: "n div 10 * 10 + n mod 10 = n" by simp
    have "n div 10 * 10 < 2 ^ 32" using "1.prems" l by linarith
    with False "1.IH" "1.prems" l show ?thesis by (simp add: decimal.simps [of n] to_digit_decimal)
  qed
qed

lemma ascii_to_u32_decimal: "n < 2 ^ 32 \<Longrightarrow> ascii_to_u32 dbg (decimal n) = Some (Some n)"
proof -
  assume n: "n < 2 ^ 32"
  have "\<not> is_space_or_tab c \<and> c \<noteq> 0x78 \<and> c \<noteq> 0x58" if "c \<in> set (decimal n)" for c
    using decimal_digits [OF that] by (auto simp: is_space_or_tab_def)
  then have "scan_while is_space_or_tab (decimal n) 0 = 0"
    and "length (decimal n) > 2 \<Longrightarrow> decimal n ! 1 \<noteq> 0x78 \<and> decimal n ! 1 \<noteq> 0x58"
    by (auto simp: scan_while_eq takeWhile_eq_Nil_iff)
  with n ascii_digits_decimal [OF n, of dbg "[]" False] show ?thesis by (auto simp: ascii_to_u32_def)
qed

section \<open>Positions in a text\<close>

lemma scan_while_at:
  assumes "s = a @ b @ c" "pos = length a" "\<forall>x \<in> set b. P x" "c = [] \<or> \<not> P (hd c)"
  shows "scan_while P s pos = length a + length b"
  using assms by (cases c) (auto simp: scan_while_eq takeWhile_tail takeWhile_eq_all_conv [THEN iffD2])

lemma slice_at: "s = a @ b @ c \<Longrightarrow> i = length a \<Longrightarrow> j = length a + length b \<Longrightarrow> slice s i j = Some b"
  by simp

section \<open>A line of a field\<close>

lemma property_step:
  assumes l: "line = a @ sep @ nm @ 0x3A # v @ 0x3B # rest" and "is_ascii line"
    and "\<forall>c \<in> set sep. is_space_or_tab_or_semicolon c" "nm \<noteq> []" "\<not> is_space_or_tab_or_semicolon (hd nm)"
    and "0x3A \<notin> set nm" "v = [] \<or> \<not> is_space_or_tab (hd v)" "0x3B \<notin> set v" and pos: "pos = length a"
  shows "parse_properties dbg line pos st = do {
    st' \<leftarrow> field_property dbg nm v True st;
    parse_properties dbg line (length (a @ sep @ nm @ 0x3A # v)) st'
  }"
proof -
  have 1: "scan_while is_space_or_tab_or_semicolon line pos = length (a @ sep)"
    by (subst scan_while_at [of _ a sep "nm @ 0x3A # v @ 0x3B # rest"]) (use assms in auto)
  have 2: "scan_while (\<lambda>c. c \<noteq> 0x3A) line (length (a @ sep)) = length (a @ sep @ nm)"
    by (subst scan_while_at [of _ "a @ sep" nm "0x3A # v @ 0x3B # rest"]) (use assms in auto)
  have 3: "scan_while is_space_or_tab line (length (a @ sep @ nm) + 1) = length (a @ sep @ nm) + 1"
    by (subst scan_while_at [of _ "a @ sep @ nm @ [0x3A]" "[]" "v @ 0x3B # rest"])
      (use assms in \<open>auto simp: is_space_or_tab_def hd_append\<close>)
  have 4: "scan_while (\<lambda>c. c \<noteq> 0x3B) line (length (a @ sep @ nm) + 1) = length (a @ sep @ nm @ 0x3A # v)"
    by (subst scan_while_at [of _ "a @ sep @ nm @ [0x3A]" v "0x3B # rest"]) (use assms in auto)
  have 5: "str_slice line (length (a @ sep)) (length (a @ sep @ nm)) = Some nm"
    unfolding str_slice_ascii [OF assms(2)] by (rule slice_at [of _ "a @ sep" nm]) (simp_all add: l)
  have 6: "str_slice line (length (a @ sep @ nm) + 1) (length (a @ sep @ nm @ 0x3A # v)) = Some v"
    unfolding str_slice_ascii [OF assms(2)] by (rule slice_at [of _ "a @ sep @ nm @ [0x3A]" v]) (simp_all add: l)
  have 7: "pos < length line" "\<not> length line \<le> length (a @ sep)" "\<not> length line \<le> length (a @ sep @ nm)"
    "length (a @ sep @ nm @ 0x3A # v) < length line"
    using l pos by simp_all
  show ?thesis
    by (subst parse_properties.simps) (simp only: 1 2 3 4 5 6 7 if_True if_False Let_def bind.bind_lunit simp_thms)
qed

lemma properties_end:
  assumes "line = a @ t" "pos = length a" "\<forall>c \<in> set t. is_space_or_tab_or_semicolon c"
  shows "parse_properties dbg line pos st = Some st"
proof -
  have "scan_while is_space_or_tab_or_semicolon line pos = length line"
    using scan_while_at [of line a t "[]" pos is_space_or_tab_or_semicolon] assms by simp
  then show ?thesis by (subst parse_properties.simps) simp
qed

definition declaration_ok :: "bytes \<Rightarrow> bool" where
  "declaration_ok d \<longleftrightarrow> d \<noteq> [] \<and> is_ascii d \<and> \<not> is_space_or_tab (hd d) \<and> 0x3B \<notin> set d \<and> (\<forall>c \<in> set d. \<not> is_eol_char c)"

definition line_of :: "PerfFieldFormat \<Rightarrow> bytes" where
  "line_of f =
     [0x09] @ ascii ''field:'' @ pf_field f @ [0x3B, 0x09] @ ascii ''offset:'' @ decimal (pf_offset f)
     @ [0x3B, 0x09] @ ascii ''size:'' @ decimal (pf_size f) @ [0x3B]
     @ (case pf_signed f of
          Some sg \<Rightarrow> [0x09] @ ascii ''signed:'' @ decimal (if sg then 1 else 0) @ [0x3B]
        | None \<Rightarrow> [])"

lemma field_text_line: "field_text f = line_of f @ [0x0A]"
  by (simp add: field_text_def line_of_def split: option.split)

lemma decimal_value_ok:
  "decimal n = [] \<or> \<not> is_space_or_tab (hd (decimal n))" "0x3B \<notin> set (decimal n)" "is_ascii (decimal n)"
  "\<forall>c \<in> set (decimal n). \<not> is_eol_char c"
proof -
  have "\<not> is_space_or_tab c \<and> c \<noteq> 0x3B \<and> c < 0x80 \<and> \<not> is_eol_char c" if "c \<in> set (decimal n)" for c
    using decimal_digits [OF that] le_less_trans [of c "0x39" "0x80"] by (auto simp: is_space_or_tab_def is_eol_char_def)
  then show "decimal n = [] \<or> \<not> is_space_or_tab (hd (decimal n))" "0x3B \<notin> set (decimal n)" "is_ascii (decimal n)"
    "\<forall>c \<in> set (decimal n). \<not> is_eol_char c"
    using hd_in_set [of "decimal n"] by (auto simp: is_ascii_def list_all_iff)
qed

definition field_ok :: "bool \<Rightarrow> bool \<Rightarrow> PerfFieldFormat \<Rightarrow> bool" where
  "field_ok dbg l64 f \<longleftrightarrow> declaration_ok (pf_field f) \<and> pf_offset f < 2 ^ 16 \<and> pf_size f < 2 ^ 16
     \<and> PerfFieldFormat_new dbg l64 (pf_field f) (pf_offset f) (pf_size f) (pf_signed f) = Some f"

lemma line_of_clean:
  assumes "declaration_ok (pf_field f)"
  shows "is_ascii (line_of f)" "\<forall>c \<in> set (line_of f). \<not> is_eol_char c" "line_of f \<noteq> []"
  using assms decimal_value_ok(3,4)
  by (auto simp: line_of_def declaration_ok_def is_eol_char_def split: option.splits)

lemma field_line_parses:
  assumes "field_ok dbg l64 f"
  shows "PerfFieldFormat_parse dbg l64 (line_of f) = Some (Some f)"
proof -
  let ?line = "line_of f"
  let ?sg = "case pf_signed f of Some sg \<Rightarrow> [0x09] @ ascii ''signed:'' @ decimal (if sg then 1 else 0) @ [0x3B] | None \<Rightarrow> []"
  let ?a1 = "[0x09] @ ascii ''field'' @ 0x3A # pf_field f"
  let ?a2 = "?a1 @ [0x3B, 0x09] @ ascii ''offset'' @ 0x3A # decimal (pf_offset f)"
  let ?a3 = "?a2 @ [0x3B, 0x09] @ ascii ''size'' @ 0x3A # decimal (pf_size f)"
  have d: "declaration_ok (pf_field f)" "pf_offset f < 2 ^ 16" "pf_size f < 2 ^ 16" using assms by (simp_all add: field_ok_def)
  note a = line_of_clean(1) [OF d(1)]
  note names = field_property_def is_space_or_tab_or_semicolon_def
  let ?s1 = "no_field_line\<lparr>fl_field := pf_field f\<rparr>"
  let ?s2 = "?s1\<lparr>fl_offset := Some (pf_offset f)\<rparr>"
  let ?s3 = "?s2\<lparr>fl_size := Some (pf_size f)\<rparr>"
  have 1: "parse_properties dbg ?line 0 no_field_line = parse_properties dbg ?line (length ?a1) ?s1"
    by (subst property_step [of _ "[]" "[0x09]" "ascii ''field''" "pf_field f" "[0x09] @ ascii ''offset:'' @ decimal (pf_offset f)
      @ [0x3B, 0x09] @ ascii ''size:'' @ decimal (pf_size f) @ [0x3B] @ ?sg", OF _ a])
      (use d in \<open>simp_all add: line_of_def declaration_ok_def names\<close>)
  have 2: "parse_properties dbg ?line (length ?a1) ?s1 = parse_properties dbg ?line (length ?a2) ?s2"
    by (subst property_step [of _ ?a1 "[0x3B, 0x09]" "ascii ''offset''" "decimal (pf_offset f)"
      "[0x09] @ ascii ''size:'' @ decimal (pf_size f) @ [0x3B] @ ?sg", OF _ a])
      (use d decimal_value_ok in \<open>simp_all add: line_of_def names ascii_to_u32_decimal\<close>)
  have 3: "parse_properties dbg ?line (length ?a2) ?s2 = parse_properties dbg ?line (length ?a3) ?s3"
    by (subst property_step [of _ ?a2 "[0x3B, 0x09]" "ascii ''size''" "decimal (pf_size f)" ?sg, OF _ a])
      (use d decimal_value_ok in \<open>simp_all add: line_of_def names ascii_to_u32_decimal\<close>)
  have 4: "parse_properties dbg ?line (length ?a3) ?s3 = Some (?s3\<lparr>fl_signed := pf_signed f\<rparr>)"
  proof (cases "pf_signed f")
    case None
    then show ?thesis
      by (subst properties_end [of _ ?a3 "[0x3B]"]) (simp_all add: line_of_def is_space_or_tab_or_semicolon_def no_field_line_def)
  next
    case (Some sg)
    let ?n = "if sg then 1 else 0 :: nat"
    let ?a4 = "?a3 @ [0x3B, 0x09] @ ascii ''signed'' @ 0x3A # decimal ?n"
    have "parse_properties dbg ?line (length ?a3) ?s3 = parse_properties dbg ?line (length ?a4) (?s3\<lparr>fl_signed := Some sg\<rparr>)"
      by (subst property_step [of _ ?a3 "[0x3B, 0x09]" "ascii ''signed''" "decimal ?n" "[]", OF _ a])
        (use Some decimal_value_ok in \<open>simp_all add: line_of_def names ascii_to_u32_decimal\<close>)
    also have "\<dots> = Some (?s3\<lparr>fl_signed := Some sg\<rparr>)"
      using Some by (subst properties_end [of _ ?a4 "[0x3B]"]) (simp_all add: line_of_def is_space_or_tab_or_semicolon_def)
    finally show ?thesis by (simp add: Some)
  qed
  have "pf_field f \<noteq> []" using d(1) by (simp add: declaration_ok_def)
  with assms show ?thesis
    unfolding PerfFieldFormat_parse_def 1 2 3 4 by (simp add: field_ok_def)
qed

section \<open>The lines of the fields\<close>

lemma skip_eol_at: "s = a @ 0x0A # b \<Longrightarrow> pos = length a \<Longrightarrow> skip_eol s pos = length a + 1"
  by (simp add: skip_eol_def)

lemma parse_fields_line:
  assumes s: "s = a @ 0x0A # l @ 0x0A # r" and "is_ascii s" "l \<noteq> []" "\<forall>c \<in> set l. \<not> is_eol_char c"
    and f: "PerfFieldFormat_parse dbg l64 l = Some (Some f)" and n: "common \<Longrightarrow> n + 1 < 2 ^ 16"
  shows "parse_fields dbg l64 s (length a) common ps n =
    parse_fields dbg l64 s (length (a @ 0x0A # l)) common (ps @ [f]) (if common then n + 1 else n)"
proof -
  have 1: "skip_eol s (length a) = length a + 1" by (rule skip_eol_at [OF s refl])
  have 2: "scan_while (\<lambda>c. \<not> is_eol_char c) s (length a + 1) = length (a @ 0x0A # l)"
    by (subst scan_while_at [of _ "a @ [0x0A]" l "0x0A # r"]) (use assms in \<open>auto simp: is_eol_char_def\<close>)
  have 3: "str_slice s (length a + 1) (length (a @ 0x0A # l)) = Some l"
    unfolding str_slice_ascii [OF assms(2)] by (rule slice_at [of _ "a @ [0x0A]" l]) (simp_all add: s)
  have 4: "length a < length s" "is_eol_char (s ! length a)" by (simp_all add: s nth_append is_eol_char_def)
  have 5: "(length a + 1 = length (a @ 0x0A # l)) = False" using assms(3) by simp
  have 6: "(if common then uadd 16 dbg n 1 else Some n) = Some (if common then n + 1 else n)" using n by simp
  have 7: "debug_assert dbg True = Some ()" by (simp add: debug_assert_def)
  show ?thesis
    by (subst parse_fields.simps)
      (simp only: 1 2 3 4 5 6 7 f if_True if_False Let_def bind.bind_lunit option.case simp_thms)
qed

lemma parse_fields_blank:
  assumes s: "s = a @ 0x0A # 0x0A # r"
  shows "parse_fields dbg l64 s (length a) common ps n =
    (if common then parse_fields dbg l64 s (length a + 1) False ps n else Some (length a + 1, ps, n))"
proof -
  have 1: "skip_eol s (length a) = length a + 1" by (rule skip_eol_at [OF s refl])
  have 2: "scan_while (\<lambda>c. \<not> is_eol_char c) s (length a + 1) = length a + 1"
    by (subst scan_while_at [of _ "a @ [0x0A]" "[]" "0x0A # r"]) (use assms in \<open>auto simp: is_eol_char_def\<close>)
  have 4: "length a < length s" "is_eol_char (s ! length a)" by (simp_all add: s nth_append is_eol_char_def)
  have 7: "debug_assert dbg True = Some ()" by (simp add: debug_assert_def)
  show ?thesis
    by (subst parse_fields.simps) (simp only: 1 2 4 7 if_True Let_def bind.bind_lunit simp_thms)
qed

definition line_block :: "PerfFieldFormat list \<Rightarrow> bytes" where
  "line_block fs = concat (map (\<lambda>f. 0x0A # line_of f) fs)"

lemma parse_fields_block:
  assumes "s = a @ line_block fs @ 0x0A # r" "is_ascii s" "\<forall>f \<in> set fs. field_ok dbg l64 f"
    and "common \<Longrightarrow> n + length fs < 2 ^ 16"
  shows "parse_fields dbg l64 s (length a) common ps n =
    parse_fields dbg l64 s (length (a @ line_block fs)) common (ps @ fs) (if common then n + length fs else n)"
  using assms
proof (induction fs arbitrary: a ps n)
  case Nil
  then show ?case by (simp add: line_block_def)
next
  case (Cons f fs)
  have ok: "field_ok dbg l64 f" "declaration_ok (pf_field f)" using Cons.prems(3) by (simp_all add: field_ok_def)
  have "\<exists>r'. line_block fs @ 0x0A # r = 0x0A # r'" by (cases fs) (simp_all add: line_block_def)
  then obtain r' where r': "line_block fs @ 0x0A # r = 0x0A # r'" ..
  have s: "s = a @ 0x0A # line_of f @ 0x0A # r'" using Cons.prems(1) r' by (simp add: line_block_def)
  have "parse_fields dbg l64 s (length a) common ps n =
      parse_fields dbg l64 s (length (a @ 0x0A # line_of f)) common (ps @ [f]) (if common then n + 1 else n)"
    by (rule parse_fields_line [OF s Cons.prems(2)])
      (use line_of_clean [OF ok(2)] field_line_parses [OF ok(1)] Cons.prems(4) in auto)
  also have "\<dots> = parse_fields dbg l64 s (length ((a @ 0x0A # line_of f) @ line_block fs)) common ((ps @ [f]) @ fs)
      (if common then (if common then n + 1 else n) + length fs else (if common then n + 1 else n))"
    by (rule Cons.IH) (use Cons.prems in \<open>auto simp: line_block_def\<close>)
  finally show ?case by (simp add: line_block_def)
qed

section \<open>The lines of an event\<close>

text \<open>A value is read up to the end of the line; a line break inside a string literal does not count.\<close>

fun unquoted :: "bytes \<Rightarrow> bool" and quoted :: "bytes \<Rightarrow> bool" where
  "unquoted [] = True"
| "unquoted (c # v) = (\<not> is_eol_char c \<and> (if c = 0x22 then quoted v else unquoted v))"
| "quoted [] = False"
| "quoted (c # v) =
     (if c = 0x22 then unquoted v
      else if c = 0x5C then (case v of [] \<Rightarrow> False | d # w \<Rightarrow> quoted w)
      else quoted v)"

lemma scan_value_at:
  "unquoted v \<Longrightarrow> scan_value (a @ v @ 0x0A # r) (length a) = length (a @ v)"
  "quoted v \<Longrightarrow> scan_value (a @ v @ 0x0A # r) (consume_string (length a) (a @ v @ 0x0A # r) 0x22) = length (a @ v)"
proof (induction v and v arbitrary: a and a rule: unquoted_quoted.induct)
  case 1
  then show ?case by (subst scan_value.simps) (simp add: is_eol_char_def)
next
  case (2 c v)
  have "scan_value (a @ (c # v) @ 0x0A # r) (length a) =
      (if c = 0x22 then scan_value (a @ (c # v) @ 0x0A # r) (consume_string (length a + 1) (a @ (c # v) @ 0x0A # r) 0x22)
       else scan_value (a @ (c # v) @ 0x0A # r) (length a + 1))"
    using "2.prems" by (subst scan_value.simps) (simp add: nth_append)
  with 2 show ?case by (auto dest!: meta_spec [of _ "a @ [c]"])
next
  case 3
  then show ?case by simp
next
  case (4 c v)
  have step: "consume_string (length a) (a @ (c # v) @ 0x0A # r) 0x22 =
      (if c = 0x22 then length a + 1
       else if c = 0x5C then consume_string (length a + 2) (a @ (c # v) @ 0x0A # r) 0x22
       else consume_string (length a + 1) (a @ (c # v) @ 0x0A # r) 0x22)"
    by (subst consume_string.simps) (simp add: nth_append)
  consider (close) "c = 0x22" | (escape) d w where "c = 0x5C" "v = d # w" "quoted w" | (other) "c \<noteq> 0x22" "c \<noteq> 0x5C"
    using "4.prems" by (auto split: if_splits list.splits)
  then show ?case
  proof cases
    case close
    with "4.prems" "4.IH"(1) [of "a @ [c]"] show ?thesis unfolding step by simp
  next
    case escape
    with "4.IH"(2) [of d w "a @ [c, d]"] show ?thesis unfolding step by simp
  next
    case other
    with "4.prems" "4.IH"(3) [of "a @ [c]"] show ?thesis unfolding step by simp
  qed
qed

definition value_ok :: "bytes \<Rightarrow> bool" where
  "value_ok v \<longleftrightarrow> is_ascii v \<and> unquoted v \<and> (v = [] \<or> \<not> is_space_or_tab (hd v))"

lemma parse_lines_step:
  assumes s: "s = a @ eols @ nm @ 0x3A # sp @ v @ 0x0A # r" and pos: "pos = length a"
    and "\<forall>c \<in> set eols. is_eol_char c" "\<forall>c \<in> set sp. is_space_or_tab c" "value_ok v"
    and "nm \<noteq> []" "\<not> is_space_or_tab (hd nm)" "\<forall>c \<in> set nm. c \<noteq> 0x3A \<and> \<not> is_eol_char c"
  shows "parse_lines dbg l64 s pos st = do {
    (pos', st') \<leftarrow> event_property dbg l64 s nm (length (a @ eols @ nm @ 0x3A # sp)) (length (a @ eols @ nm @ 0x3A # sp @ v)) st;
    parse_lines dbg l64 s pos' st'
  }"
proof -
  have nm: "\<not> is_eol_char (hd nm)" using assms(6,8) by simp
  have 1: "scan_while is_eol_char s pos = length (a @ eols)"
    by (subst scan_while_at [of _ a eols "nm @ 0x3A # sp @ v @ 0x0A # r"]) (use assms nm in auto)
  have 2: "scan_while is_space_or_tab s (length (a @ eols)) = length (a @ eols)"
    by (subst scan_while_at [of _ "a @ eols" "[]" "nm @ 0x3A # sp @ v @ 0x0A # r"]) (use assms in auto)
  have 3: "scan_while (\<lambda>c. c \<noteq> 0x3A \<and> \<not> is_eol_char c) s (length (a @ eols)) = length (a @ eols @ nm)"
    by (subst scan_while_at [of _ "a @ eols" nm "0x3A # sp @ v @ 0x0A # r"]) (use assms in auto)
  have 4: "slice s (length (a @ eols)) (length (a @ eols @ nm)) = Some nm"
    by (rule slice_at [of _ "a @ eols" nm]) (simp_all add: s)
  have 5: "scan_while is_space_or_tab s (length (a @ eols @ nm) + 1) = length (a @ eols @ nm @ 0x3A # sp)"
    by (subst scan_while_at [of _ "a @ eols @ nm @ [0x3A]" sp "v @ 0x0A # r"])
      (use assms in \<open>auto simp: value_ok_def hd_append is_space_or_tab_def\<close>)
  have 6: "scan_value s (length (a @ eols @ nm @ 0x3A # sp)) = length (a @ eols @ nm @ 0x3A # sp @ v)"
    using scan_value_at(1) [of v "a @ eols @ nm @ 0x3A # sp" r] assms(5) by (simp add: s value_ok_def)
  have 7: "pos < length s" "\<not> length s \<le> length (a @ eols)" "\<not> length s \<le> length (a @ eols @ nm)"
    "s ! length (a @ eols @ nm) = 0x3A"
    using s pos by (simp_all add: nth_append)
  show ?thesis
    by (subst parse_lines.simps) (simp only: 1 2 3 4 5 6 7 if_True if_False Let_def bind.bind_lunit simp_thms)
qed

section \<open>The round trip\<close>

lemma write_field_at: "write_field k (i, f) = line_of f @ 0x0A # (if i + 1 = k then [0x0A] else [])"
  by (simp add: write_field_def field_text_line)

lemma write_fields_tail:
  "k \<le> i \<Longrightarrow> 0x0A # concat (map (write_field k) (enumerate i fs)) = line_block fs @ [0x0A]"
  by (induction fs arbitrary: i) (auto simp: write_field_at line_block_def)

lemma write_fields_layout:
  "i < k \<Longrightarrow> k \<le> i + length fs \<Longrightarrow>
   0x0A # concat (map (write_field k) (enumerate i fs)) =
   line_block (take (k - i) fs) @ 0x0A # line_block (drop (k - i) fs) @ [0x0A]"
proof (induction fs arbitrary: i)
  case (Cons f fs)
  show ?case
  proof (cases "i + 1 = k")
    case True
    then show ?thesis
      using write_fields_tail [of k "i + 1" fs] by (auto simp: write_field_at line_block_def)
  next
    case False
    then have "k - i = Suc (k - Suc i)" using Cons.prems by simp
    with Cons.IH [of "Suc i"] Cons.prems False show ?thesis
      by (simp add: write_field_at line_block_def)
  qed
qed simp

definition format_ok :: "bool \<Rightarrow> bool \<Rightarrow> PerfEventFormat \<Rightarrow> bool" where
  "format_ok dbg l64 e \<longleftrightarrow>
     ef_name e \<noteq> [] \<and> value_ok (ef_name e) \<and> ef_id e < 2 ^ 32 \<and> value_ok (ef_print_fmt e)
     \<and> (\<forall>f \<in> set (ef_fields e). field_ok dbg l64 f)
     \<and> 0 < ef_common_field_count e \<and> ef_common_field_count e \<le> length (ef_fields e)
     \<and> ef_common_field_count e < 2 ^ 16
     \<and> common_size dbg (ef_fields e) (ef_common_field_count e) = Some (ef_common_fields_size e)
     \<and> decoding_style (ef_fields e) (ef_common_field_count e) = Some (ef_decoding_style e)"

definition common_block :: "PerfEventFormat \<Rightarrow> bytes" where
  "common_block e = line_block (take (ef_common_field_count e) (ef_fields e))"

definition user_block :: "PerfEventFormat \<Rightarrow> bytes" where
  "user_block e = line_block (drop (ef_common_field_count e) (ef_fields e))"

lemma write_to_layout:
  assumes "format_ok dbg l64 e"
  shows "write_to e =
    ascii ''name'' @ 0x3A # [0x20] @ ef_name e @ 0x0A # ascii ''ID'' @ 0x3A # [0x20] @ decimal (ef_id e) @ 0x0A #
    ascii ''format'' @ 0x3A # common_block e @ 0x0A # user_block e @ 0x0A # 0x0A #
    ascii ''print fmt'' @ 0x3A # [0x20] @ ef_print_fmt e @ [0x0A]"
proof -
  have "[0x0A] @ concat (map (write_field (ef_common_field_count e)) (enumerate 0 (ef_fields e))) =
      common_block e @ 0x0A # user_block e @ [0x0A]"
    using write_fields_layout [of 0 "ef_common_field_count e" "ef_fields e"] assms
    by (simp add: format_ok_def common_block_def user_block_def)
  then have "[0x0A] @ concat (map (write_field (ef_common_field_count e)) (enumerate 0 (ef_fields e))) @ w =
      common_block e @ 0x0A # user_block e @ 0x0A # w" for w
    by (drule_tac arg_cong [where f = "\<lambda>l. l @ w"]) simp
  then show ?thesis by (simp add: write_to_def)
qed

lemma line_block_ascii: "\<forall>f \<in> set fs. field_ok dbg l64 f \<Longrightarrow> is_ascii (line_block fs)"
  using line_of_clean(1) by (induction fs) (auto simp: line_block_def field_ok_def)

lemma write_to_ascii:
  assumes "format_ok dbg l64 e"
  shows "is_ascii (write_to e)"
proof -
  have "is_ascii (common_block e)" "is_ascii (user_block e)"
    unfolding common_block_def user_block_def
    by (rule line_block_ascii [of _ dbg l64]; use assms in \<open>auto simp: format_ok_def dest: in_set_takeD in_set_dropD\<close>)+
  with assms show ?thesis
    by (simp add: write_to_layout [OF assms] decimal_value_ok format_ok_def value_ok_def)
qed

lemma parse_fields_written:
  assumes e: "format_ok dbg l64 e" and s: "s = a @ common_block e @ 0x0A # user_block e @ 0x0A # 0x0A # r" and "is_ascii s"
  shows "parse_fields dbg l64 s (length a) True [] 0 =
    Some (length (a @ common_block e @ 0x0A # user_block e @ [0x0A]), ef_fields e, ef_common_field_count e)"
proof -
  let ?k = "ef_common_field_count e" and ?fs = "ef_fields e"
  have ok: "\<forall>f \<in> set ?fs. field_ok dbg l64 f" "?k \<le> length ?fs" "?k < 2 ^ 16" using e by (simp_all add: format_ok_def)
  obtain r' where r': "user_block e @ 0x0A # 0x0A # r = 0x0A # r'"
    by (cases "drop ?k ?fs") (auto simp: user_block_def line_block_def)
  have "parse_fields dbg l64 s (length a) True [] 0 = parse_fields dbg l64 s (length (a @ common_block e)) True (take ?k ?fs) ?k"
    unfolding common_block_def
    by (subst parse_fields_block [OF _ assms(3), of a "take ?k ?fs"]) (use s ok in \<open>auto simp: common_block_def dest: in_set_takeD\<close>)
  also have "\<dots> = parse_fields dbg l64 s (length (a @ common_block e @ [0x0A])) False (take ?k ?fs) ?k"
    by (subst parse_fields_blank [of _ "a @ common_block e"]) (use s r' in auto)
  also have "\<dots> = parse_fields dbg l64 s (length (a @ common_block e @ 0x0A # user_block e)) False ?fs ?k"
    unfolding user_block_def
    by (subst parse_fields_block [OF _ assms(3), of "a @ common_block e @ [0x0A]" "drop ?k ?fs"])
      (use s ok in \<open>auto simp: user_block_def dest: in_set_dropD\<close>)
  also have "\<dots> = Some (length (a @ common_block e @ 0x0A # user_block e) + 1, ?fs, ?k)"
    by (subst parse_fields_blank [of _ "a @ common_block e @ 0x0A # user_block e"]) (use s in auto)
  finally show ?thesis by simp
qed

lemma value_ok_decimal: "value_ok (decimal n)"
proof -
  have "unquoted v" if "\<forall>c \<in> set v. 0x30 \<le> c \<and> c \<le> 0x39" for v
    using that by (induction v) (auto simp: is_eol_char_def)
  then show ?thesis using decimal_digits decimal_value_ok by (auto simp: value_ok_def)
qed

definition name_ok :: "bytes \<Rightarrow> bool" where
  "name_ok nm \<longleftrightarrow> nm \<noteq> [] \<and> \<not> is_space_or_tab (hd nm) \<and> (\<forall>c \<in> set nm. c \<noteq> 0x3A \<and> \<not> is_eol_char c)"

lemma names_ok: "name_ok (ascii ''name'')" "name_ok (ascii ''ID'')" "name_ok (ascii ''format'')" "name_ok (ascii ''print fmt'')"
  by (simp_all add: name_ok_def is_space_or_tab_def is_eol_char_def)

lemma text_line:
  assumes s: "s = a @ eols @ nm @ 0x3A # 0x20 # v @ 0x0A # r" "is_ascii s"
    and "\<forall>c \<in> set eols. is_eol_char c" "value_ok v" "nm = ascii ''name'' \<or> nm = ascii ''print fmt''"
    and pos: "pos = length a" "pos' = length (a @ eols @ nm @ 0x3A # 0x20 # v)"
  shows "parse_lines dbg l64 s pos st = parse_lines dbg l64 s pos'
      (if nm = ascii ''name'' then st\<lparr>fs_name := v\<rparr> else st\<lparr>fs_print_fmt := v\<rparr>)"
proof -
  have "slice s (length (a @ eols @ nm @ 0x3A # [0x20])) (length (a @ eols @ nm @ 0x3A # [0x20] @ v)) = Some v"
    by (rule slice_at [of _ "a @ eols @ nm @ 0x3A # [0x20]" v]) (simp_all add: s)
  moreover have "name_ok nm" using assms(5) names_ok by auto
  ultimately show ?thesis
    by (subst parse_lines_step [of _ a eols nm "[0x20]" v r])
      (use assms in \<open>auto simp: name_ok_def is_space_or_tab_def event_property_def\<close>)
qed

lemma id_line:
  assumes s: "s = a @ eols @ ascii ''ID'' @ 0x3A # 0x20 # decimal n @ 0x0A # r"
    and "\<forall>c \<in> set eols. is_eol_char c" "n < 2 ^ 32"
    and pos: "pos = length a" "pos' = length (a @ eols @ ascii ''ID'' @ 0x3A # 0x20 # decimal n)"
  shows "parse_lines dbg l64 s pos st = parse_lines dbg l64 s pos' (st\<lparr>fs_id := Some n\<rparr>)"
proof -
  have "slice s (length (a @ eols @ ascii ''ID'' @ 0x3A # [0x20])) (length (a @ eols @ ascii ''ID'' @ 0x3A # [0x20] @ decimal n)) =
      Some (decimal n)"
    by (rule slice_at [of _ "a @ eols @ ascii ''ID'' @ 0x3A # [0x20]" "decimal n"]) (simp_all add: s)
  with ascii_to_u32_decimal [OF assms(3), of dbg] show ?thesis
    by (subst parse_lines_step [of _ a eols "ascii ''ID''" "[0x20]" "decimal n" r])
      (use assms names_ok value_ok_decimal in \<open>auto simp: name_ok_def is_space_or_tab_def event_property_def\<close>)
qed

lemma format_line:
  assumes e: "format_ok dbg l64 e" and "is_ascii s" "fs_common st = 0"
    and s: "s = a @ 0x0A # ascii ''format'' @ 0x3A # common_block e @ 0x0A # user_block e @ 0x0A # 0x0A # r"
    and pos: "pos = length a" "pos' = length (a @ 0x0A # ascii ''format'' @ 0x3A # common_block e @ 0x0A # user_block e @ [0x0A])"
  shows "parse_lines dbg l64 s pos st = parse_lines dbg l64 s pos'
      (st\<lparr>fs_fields := ef_fields e, fs_common := ef_common_field_count e\<rparr>)"
proof -
  let ?b = "a @ 0x0A # ascii ''format'' @ [0x3A]"
  have l: "s = ?b @ common_block e @ 0x0A # user_block e @ 0x0A # 0x0A # r" by (simp add: s)
  obtain r' where r: "common_block e @ 0x0A # user_block e @ 0x0A # 0x0A # r = 0x0A # r'"
    by (cases "take (ef_common_field_count e) (ef_fields e)") (auto simp: common_block_def line_block_def)
  show ?thesis
    by (subst parse_lines_step [of _ a "[0x0A]" "ascii ''format''" "[]" "[]" r'])
      (use assms(3) pos names_ok l [unfolded r] parse_fields_written [OF e l assms(2)]
        in \<open>simp_all add: name_ok_def event_property_def is_eol_char_def value_ok_def\<close>)
qed

lemma parse_lines_end: "s = a @ [0x0A] \<Longrightarrow> pos = length a \<Longrightarrow> parse_lines dbg l64 s pos st = Some st"
  by (subst parse_lines.simps) (simp add: scan_while_at [of _ a "[0x0A]" "[]"] is_eol_char_def)

lemma parse_lines_written:
  assumes e: "format_ok dbg l64 e" and st: "fs_common st = 0"
  shows "parse_lines dbg l64 (write_to e) 0 st =
    Some (st\<lparr>fs_name := ef_name e, fs_print_fmt := ef_print_fmt e, fs_fields := ef_fields e, fs_id := Some (ef_id e),
      fs_common := ef_common_field_count e\<rparr>)"
proof -
  let ?nm = "ascii ''name''" and ?id = "ascii ''ID''" and ?fmt = "ascii ''format''" and ?pf = "ascii ''print fmt''"
  let ?block = "common_block e @ 0x0A # user_block e @ [0x0A]"
  let ?a1 = "?nm @ 0x3A # 0x20 # ef_name e"
  let ?a2 = "?a1 @ 0x0A # ?id @ 0x3A # 0x20 # decimal (ef_id e)"
  let ?a3 = "?a2 @ 0x0A # ?fmt @ 0x3A # ?block"
  let ?a4 = "?a3 @ 0x0A # ?pf @ 0x3A # 0x20 # ef_print_fmt e"
  note s = write_to_layout [OF e] and a = write_to_ascii [OF e]
  have v: "value_ok (ef_name e)" "value_ok (ef_print_fmt e)" "ef_id e < 2 ^ 32" using e by (auto simp: format_ok_def)
  let ?parse = "parse_lines dbg l64 (write_to e)"
  have "?parse 0 st = ?parse (length ?a1) (if ?nm = ?nm then st\<lparr>fs_name := ef_name e\<rparr> else st\<lparr>fs_print_fmt := ef_name e\<rparr>)"
    by (rule text_line [of _ "[]" "[]", OF _ a]) (use v in \<open>simp_all add: s del: ascii_simps\<close>)
  also have "\<dots> = ?parse (length ?a2) (st\<lparr>fs_name := ef_name e, fs_id := Some (ef_id e)\<rparr>)"
    unfolding simp_thms if_True
    by (rule id_line [of _ ?a1 "[0x0A]"]) (use v in \<open>simp_all add: s is_eol_char_def del: ascii_simps\<close>)
  also have "\<dots> = ?parse (length ?a3) (st\<lparr>fs_name := ef_name e, fs_id := Some (ef_id e),
      fs_fields := ef_fields e, fs_common := ef_common_field_count e\<rparr>)"
    by (rule format_line [OF e a, of _ ?a2]) (use st in \<open>simp_all add: s del: ascii_simps\<close>)
  also have "\<dots> = ?parse (length ?a4) (st\<lparr>fs_name := ef_name e, fs_id := Some (ef_id e),
      fs_fields := ef_fields e, fs_common := ef_common_field_count e, fs_print_fmt := ef_print_fmt e\<rparr>)"
    by (subst text_line [of _ ?a3 "[0x0A]" ?pf "ef_print_fmt e" "[]", OF _ a])
      (use v in \<open>simp_all add: s is_eol_char_def ascii_def del: ascii_simps\<close>)
  also have "\<dots> = Some (st\<lparr>fs_name := ef_name e, fs_id := Some (ef_id e),
      fs_fields := ef_fields e, fs_common := ef_common_field_count e, fs_print_fmt := ef_print_fmt e\<rparr>)"
    by (rule parse_lines_end [of _ ?a4]) (simp_all add: s del: ascii_simps)
  finally show ?thesis by simp
qed

section \<open>Properties\<close>

text \<open>
  C7. Writing a format and parsing the text gives the format back: for an event format whose texts are in
  the grammar of tracefs \<open>format\<close> files (\<open>format_ok\<close>: no line breaks in the name and the declarations,
  closed string literals in the print format, fields that are what \<open>PerfFieldFormat::new\<close> makes of
  their declarations, at least one common field), \<open>PerfEventFormat::parse\<close> of what \<open>write_to\<close> writes
  returns the same format: name, id, print format, every field with its deduced type, the split between common
  and user fields, the size of the common fields and the decoding style. It does not panic, in debug builds either.
\<close>

theorem format_round_trip:
  assumes "format_ok dbg l64 e"
  shows "PerfEventFormat_parse dbg l64 (ef_system_name e) (write_to e) = Some (Some e)"
  using assms by (simp add: PerfEventFormat_parse_def parse_lines_written format_ok_def)

definition example_field :: "string \<Rightarrow> nat \<Rightarrow> nat \<Rightarrow> bool option \<Rightarrow> PerfFieldFormat" where
  "example_field d ofs sz sg = the (PerfFieldFormat_new True True (ascii d) ofs sz sg)"

definition example_format :: PerfEventFormat where
  "example_format = \<lparr>ef_system_name = ascii ''sched'', ef_name = ascii ''sched_switch'',
     ef_print_fmt = [0x22] @ ascii ''pid %d'' @ [0x5C, 0x6E, 0x22] @ ascii '', REC->prev_pid'',
     ef_fields = [example_field ''u16 common_type'' 0 2 (Some False), example_field ''char comm[16]'' 8 16 None],
     ef_id = 314, ef_common_field_count = 1, ef_common_fields_size = 2, ef_decoding_style = Style_TraceEventFormat\<rparr>"

theorem format_round_trip_witness:
  "format_ok True True example_format \<and>
   PerfEventFormat_parse True True (ascii ''sched'') (write_to example_format) = Some (Some example_format)"
proof -
  have "format_ok True True example_format" by code_simp
  moreover have "ef_system_name example_format = ascii ''sched''" by (simp add: example_format_def)
  ultimately show ?thesis using format_round_trip [of True True example_format] by simp
qed

end
