(* ===== verification/Perf_Session.thy ===== *)
theory Perf_Session
  imports Byte_Reader
begin

text \<open>
  \<open>tracepoint_decode/src/perf_session.rs\<close>: \<open>PerfTimeSpec\<close>, a time as seconds and nanoseconds since 1970,
  and the clock of a perf session, which turns the timestamps of events into such times. Seconds are an
  \<open>i64\<close>, here an \<open>int\<close> with the arithmetic of 64 bits written out; nanoseconds are a \<open>u32\<close>.
\<close>

section \<open>Signed arithmetic of a fixed width\<close>

definition in_signed :: "nat \<Rightarrow> int \<Rightarrow> bool" where
  "in_signed w x \<longleftrightarrow> - (2 ^ (w - 1)) \<le> x \<and> x < 2 ^ (w - 1)"

definition swrap :: "nat \<Rightarrow> int \<Rightarrow> int" where
  "swrap w x = (x + 2 ^ (w - 1)) mod 2 ^ w - 2 ^ (w - 1)"

definition sadd :: "nat \<Rightarrow> bool \<Rightarrow> int \<Rightarrow> int \<Rightarrow> int option" where
  "sadd w dbg a b = (if in_signed w (a + b) then Some (a + b) else if dbg then Panic else Some (swrap w (a + b)))"

definition sneg :: "nat \<Rightarrow> bool \<Rightarrow> int \<Rightarrow> int option" where
  "sneg w dbg a = (if in_signed w (- a) then Some (- a) else if dbg then Panic else Some (swrap w (- a)))"

lemma sadd_exact [simp]: "in_signed w (a + b) \<Longrightarrow> sadd w dbg a b = Some (a + b)"
  by (simp add: sadd_def)

lemma sneg_exact [simp]: "in_signed w (- a) \<Longrightarrow> sneg w dbg a = Some (- a)"
  by (simp add: sneg_def)

lemma swrap_exact: "in_signed w x \<Longrightarrow> 0 < w \<Longrightarrow> swrap w x = x"
proof -
  assume x: "in_signed w x" and w: "0 < w"
  then obtain k where k: "w = Suc k" by (cases w) auto
  have "(x + 2 ^ k) mod 2 ^ Suc k = x + 2 ^ k"
    using x unfolding in_signed_def k by (intro mod_pos_pos_trivial) simp_all
  then show ?thesis by (simp add: swrap_def k)
qed

section \<open>PerfTimeSpec\<close>

definition BILLION :: nat where
  "BILLION = 1000000000"

datatype PerfTimeSpec = PerfTimeSpec (ts_seconds: int) (ts_nanoseconds: nat)

definition UNIX_EPOCH :: PerfTimeSpec where
  "UNIX_EPOCH = PerfTimeSpec 0 0"

definition TimeSpec_MAX :: PerfTimeSpec where
  "TimeSpec_MAX = PerfTimeSpec (2 ^ 63 - 1) (BILLION - 1)"

definition TimeSpec_MIN :: PerfTimeSpec where
  "TimeSpec_MIN = PerfTimeSpec (- (2 ^ 63)) 0"

text \<open>The derived \<open>Ord\<close> compares the fields in the order of their declaration.\<close>

definition PerfTimeSpec_cmp :: "PerfTimeSpec \<Rightarrow> PerfTimeSpec \<Rightarrow> Ordering" where
  "PerfTimeSpec_cmp self other =
     (case rust_cmp (ts_seconds self) (ts_seconds other) of
        Ordering_Equal \<Rightarrow> rust_cmp (ts_nanoseconds self) (ts_nanoseconds other)
      | seconds_ordering \<Rightarrow> seconds_ordering)"

lemma PerfTimeSpec_cmp_iff:
  "PerfTimeSpec_cmp a b = Ordering_Less \<longleftrightarrow> ts_seconds a < ts_seconds b \<or> ts_seconds a = ts_seconds b \<and> ts_nanoseconds a < ts_nanoseconds b"
  "PerfTimeSpec_cmp a b = Ordering_Equal \<longleftrightarrow> a = b"
  by (cases a; cases b; auto simp: PerfTimeSpec_cmp_def rust_cmp_def)+

instantiation PerfTimeSpec :: linorder
begin

definition less_PerfTimeSpec :: "PerfTimeSpec \<Rightarrow> PerfTimeSpec \<Rightarrow> bool" where
  "less_PerfTimeSpec a b \<longleftrightarrow> PerfTimeSpec_cmp a b = Ordering_Less"

definition less_eq_PerfTimeSpec :: "PerfTimeSpec \<Rightarrow> PerfTimeSpec \<Rightarrow> bool" where
  "less_eq_PerfTimeSpec a b \<longleftrightarrow> PerfTimeSpec_cmp a b \<in> {Ordering_Less, Ordering_Equal}"

instance
proof
  fix x y z :: PerfTimeSpec
  show "x \<le> y \<or> y \<le> x" by (cases x; cases y) (auto simp: less_PerfTimeSpec_def less_eq_PerfTimeSpec_def PerfTimeSpec_cmp_iff)
qed (auto simp: less_PerfTimeSpec_def less_eq_PerfTimeSpec_def PerfTimeSpec_cmp_iff)

end

lemmas time_order = less_PerfTimeSpec_def less_eq_PerfTimeSpec_def PerfTimeSpec_cmp_iff

function PerfTimeSpec_new :: "bool \<Rightarrow> int \<Rightarrow> nat \<Rightarrow> PerfTimeSpec option" where
  "PerfTimeSpec_new dbg seconds nanoseconds =
     (if BILLION \<le> nanoseconds then do {
        seconds \<leftarrow> sadd 64 dbg seconds 1;
        PerfTimeSpec_new dbg seconds (nanoseconds - BILLION)
      }
      else Some (PerfTimeSpec seconds nanoseconds))"
  by auto
termination by (relation "measure (\<lambda>(dbg, s, n). n)") (auto simp: BILLION_def)

declare PerfTimeSpec_new.simps [simp del]

text \<open>A \<open>Duration\<close> is its seconds, a \<open>u64\<close>, and the nanoseconds of its last second.\<close>

definition from_duration_after_epoch :: "bool \<Rightarrow> nat \<times> nat \<Rightarrow> PerfTimeSpec option" where
  "from_duration_after_epoch dbg d = do {
     rust_assert (fst d \<le> 2 ^ 63 - 1);
     PerfTimeSpec_new dbg (swrap 64 (int (fst d))) (snd d)
   }"

definition as_duration_after_epoch :: "PerfTimeSpec \<Rightarrow> (nat \<times> nat) option" where
  "as_duration_after_epoch t = (if ts_seconds t < 0 then None else Some (nat (ts_seconds t), ts_nanoseconds t))"

definition add_nanoseconds :: "bool \<Rightarrow> PerfTimeSpec \<Rightarrow> u64 \<Rightarrow> PerfTimeSpec option" where
  "add_nanoseconds dbg t nanoseconds = do {
     let sec = swrap 64 (int (unat nanoseconds div BILLION));
     let nsec = ucast_to 32 (unat nanoseconds mod BILLION);
     s \<leftarrow> sadd 64 dbg (ts_seconds t) sec;
     n \<leftarrow> uadd 32 dbg (ts_nanoseconds t) nsec;
     PerfTimeSpec_new dbg s n
   }"

section \<open>PerfSessionInfo\<close>

record PerfSessionInfo =
  clock_offset_seconds :: int
  clock_offset_nanoseconds :: nat
  clock_id :: u32
  clock_offset_known :: bool
  si_byte_reader :: PerfByteReader

definition PerfSessionInfo_new :: "PerfByteReader \<Rightarrow> PerfSessionInfo" where
  "PerfSessionInfo_new r = \<lparr>clock_offset_seconds = 0, clock_offset_nanoseconds = 0, clock_id = 0,
     clock_offset_known = False, si_byte_reader = r\<rparr>"

definition clock_offset :: "bool \<Rightarrow> PerfSessionInfo \<Rightarrow> PerfTimeSpec option" where
  "clock_offset dbg s = PerfTimeSpec_new dbg (clock_offset_seconds s) (clock_offset_nanoseconds s)"

definition set_clock_id :: "u32 \<Rightarrow> PerfSessionInfo \<Rightarrow> PerfSessionInfo" where
  "set_clock_id cid s = s\<lparr>clock_id := cid\<rparr>"

definition set_clock_data :: "bool \<Rightarrow> u32 \<Rightarrow> u64 \<Rightarrow> u64 \<Rightarrow> PerfSessionInfo \<Rightarrow> PerfSessionInfo option" where
  "set_clock_data dbg cid wall_clock_ns clock_id_time_ns s =
     (if cid = 0xFFFFFFFF then
        Some (s\<lparr>clock_offset_seconds := 0, clock_offset_nanoseconds := 0, clock_id := cid, clock_offset_known := False\<rparr>)
      else if clock_id_time_ns \<le> wall_clock_ns then do {
        offset_ns \<leftarrow> usub 64 dbg (unat wall_clock_ns) (unat clock_id_time_ns);
        Some (s\<lparr>clock_offset_seconds := swrap 64 (int (offset_ns div BILLION)),
          clock_offset_nanoseconds := ucast_to 32 (offset_ns mod BILLION), clock_id := cid, clock_offset_known := True\<rparr>)
      }
      else do {
        neg_offset_ns \<leftarrow> usub 64 dbg (unat clock_id_time_ns) (unat wall_clock_ns);
        neg_sec \<leftarrow> sneg 64 dbg (swrap 64 (int (neg_offset_ns div BILLION)));
        sec \<leftarrow> sadd 64 dbg neg_sec (- 1);
        nsec \<leftarrow> usub 32 dbg BILLION (ucast_to 32 (neg_offset_ns mod BILLION));
        (sec, nsec) \<leftarrow> (if nsec = BILLION then do {
            sec \<leftarrow> sadd 64 dbg sec 1;
            nsec \<leftarrow> usub 32 dbg nsec BILLION;
            Some (sec, nsec)
          }
          else Some (sec, nsec));
        Some (s\<lparr>clock_offset_seconds := sec, clock_offset_nanoseconds := nsec, clock_id := cid, clock_offset_known := True\<rparr>)
      })"

definition as_u64 :: "int \<Rightarrow> nat" where
  "as_u64 x = nat (x mod 2 ^ 64)"

definition get_clock_data :: "bool \<Rightarrow> PerfSessionInfo \<Rightarrow> (nat \<times> nat) option" where
  "get_clock_data dbg s =
     (if clock_offset_seconds s \<ge> 0 then do {
        m \<leftarrow> umul 64 dbg (as_u64 (clock_offset_seconds s)) BILLION;
        w \<leftarrow> uadd 64 dbg m (clock_offset_nanoseconds s);
        Some (w, 0)
      }
      else do {
        sec \<leftarrow> sneg 64 dbg (clock_offset_seconds s);
        m \<leftarrow> umul 64 dbg (as_u64 sec) BILLION;
        c \<leftarrow> usub 64 dbg m (clock_offset_nanoseconds s);
        Some (0, c)
      })"

definition time_to_time_spec :: "bool \<Rightarrow> PerfSessionInfo \<Rightarrow> u64 \<Rightarrow> PerfTimeSpec option" where
  "time_to_time_spec dbg s time = do {
     let sec = swrap 64 (int (unat time div BILLION));
     let nsec = ucast_to 32 (unat time mod BILLION);
     sec \<leftarrow> sadd 64 dbg sec (clock_offset_seconds s);
     nsec \<leftarrow> uadd 32 dbg nsec (clock_offset_nanoseconds s);
     (sec, nsec) \<leftarrow> (if nsec \<ge> BILLION then do {
         sec \<leftarrow> sadd 64 dbg sec 1;
         nsec \<leftarrow> usub 32 dbg nsec BILLION;
         Some (sec, nsec)
       }
       else Some (sec, nsec));
     PerfTimeSpec_new dbg sec nsec
   }"

section \<open>The value of a time\<close>

definition ns_value :: "PerfTimeSpec \<Rightarrow> int" where
  "ns_value t = ts_seconds t * 1000000000 + int (ts_nanoseconds t)"

definition normal :: "PerfTimeSpec \<Rightarrow> bool" where
  "normal t \<longleftrightarrow> ts_nanoseconds t < 1000000000"

lemma PerfTimeSpec_new_value:
  assumes "in_signed 64 (seconds + int (nanoseconds div BILLION))" "in_signed 64 seconds"
  shows "PerfTimeSpec_new dbg seconds nanoseconds =
    Some (PerfTimeSpec (seconds + int (nanoseconds div BILLION)) (nanoseconds mod BILLION))"
  using assms
proof (induction dbg seconds nanoseconds rule: PerfTimeSpec_new.induct)
  case (1 dbg seconds nanoseconds)
  show ?case
  proof (cases "BILLION \<le> nanoseconds")
    case True
    then have d: "nanoseconds div BILLION = Suc ((nanoseconds - BILLION) div BILLION)"
      and m: "nanoseconds mod BILLION = (nanoseconds - BILLION) mod BILLION"
      by (simp_all add: le_div_geq le_mod_geq BILLION_def)
    have s: "in_signed 64 (seconds + 1)" using "1.prems" d by (simp add: in_signed_def)
    with "1.IH" [OF True, of "seconds + 1"] "1.prems" True d m show ?thesis
      by (subst PerfTimeSpec_new.simps) (simp add: algebra_simps)
  next
    case False
    then show ?thesis by (subst PerfTimeSpec_new.simps) simp
  qed
qed

lemma PerfTimeSpec_new_normal [simp]: "n < BILLION \<Longrightarrow> PerfTimeSpec_new dbg s n = Some (PerfTimeSpec s n)"
  by (subst PerfTimeSpec_new.simps) simp

lemma normal_le_iff: "normal a \<Longrightarrow> normal b \<Longrightarrow> a \<le> b \<longleftrightarrow> ns_value a \<le> ns_value b"
  by (cases a; cases b) (auto simp: normal_def ns_value_def time_order)

lemma u64_seconds: "unat (x :: u64) div BILLION \<le> 18446744073"
proof -
  have "unat x \<le> 18446744073709551615" using unsigned_less [of x, where 'a = nat] by simp
  from div_le_mono [OF this, of BILLION] show ?thesis by (simp add: BILLION_def)
qed

section \<open>The offset of a session's clock\<close>

definition offset_value :: "PerfSessionInfo \<Rightarrow> int" where
  "offset_value s = clock_offset_seconds s * 1000000000 + int (clock_offset_nanoseconds s)"

definition clock_ok :: "PerfSessionInfo \<Rightarrow> bool" where
  "clock_ok s \<longleftrightarrow> \<bar>clock_offset_seconds s\<bar> \<le> 18446744074 \<and> clock_offset_nanoseconds s < 1000000000"

lemma div_mod_billion: "int n = int (n div BILLION) * 1000000000 + int (n mod BILLION)" "n mod BILLION < 1000000000"
proof -
  have "n div BILLION * BILLION + n mod BILLION = n" by simp
  then have "int (n div BILLION) * int BILLION + int (n mod BILLION) = int n"
    by (metis of_nat_add of_nat_mult)
  then show "int n = int (n div BILLION) * 1000000000 + int (n mod BILLION)" unfolding BILLION_def by simp
  show "n mod BILLION < 1000000000" using mod_less_divisor [of BILLION n] by (simp add: BILLION_def)
qed

lemma in_signed_64: "\<bar>x\<bar> \<le> 40000000000 \<Longrightarrow> in_signed 64 x"
  unfolding in_signed_def by (auto simp: abs_le_iff)

lemma swrap_64 [simp]: "\<bar>x\<bar> \<le> 40000000000 \<Longrightarrow> swrap 64 x = x"
  by (simp add: swrap_exact in_signed_64)

lemma billion_arith: "(0 :: nat) < BILLION" "BILLION < 2 ^ 32" "int BILLION = 1000000000" "n < BILLION \<longleftrightarrow> n < 1000000000"
  "BILLION \<le> n \<longleftrightarrow> 1000000000 \<le> n" "n = BILLION \<longleftrightarrow> n = 1000000000"
  by (simp_all add: BILLION_def)

lemma set_clock_data_value:
  assumes "cid \<noteq> 0xFFFFFFFF"
  shows "\<exists>s'. set_clock_data dbg cid wall cns s = Some s' \<and> clock_ok s' \<and> offset_value s' = uint wall - uint cns
    \<and> clock_offset_known s' \<and> clock_id s' = cid \<and> si_byte_reader s' = si_byte_reader s"
proof (cases "cns \<le> wall")
  case True
  define n where "n = unat wall - unat cns"
  have le: "unat cns \<le> unat wall" using True by (simp add: word_le_nat_alt)
  have "n \<le> unat wall" by (simp add: n_def)
  then have q: "n div BILLION \<le> 18446744073" using div_le_mono [of n "unat wall" BILLION] u64_seconds [of wall] by linarith
  have n: "int n = uint wall - uint cns" using le by (simp add: n_def of_nat_diff)
  have r: "ucast_to 32 (n mod BILLION) = n mod BILLION" using div_mod_billion(2) [of n] by simp
  from assms True q le n r show ?thesis
    using div_mod_billion [of n] by (simp add: set_clock_data_def n_def [symmetric] clock_ok_def offset_value_def)
next
  case False
  define n where "n = unat cns - unat wall"
  have le: "unat wall \<le> unat cns" using False by (simp add: word_le_nat_alt)
  have "n \<le> unat cns" by (simp add: n_def)
  then have q: "n div BILLION \<le> 18446744073" using div_le_mono [of n "unat cns" BILLION] u64_seconds [of cns] by linarith
  have n: "int n = uint cns - uint wall" using le by (simp add: n_def of_nat_diff)
  define k m where "k = n div BILLION" and "m = n mod BILLION"
  have k: "k \<le> 18446744073" using q by (simp add: k_def)
  have m: "m < BILLION" using div_mod_billion(2) [of n] by (simp add: m_def billion_arith)
  have v: "uint wall - uint cns = - int k * 1000000000 - int m" using div_mod_billion [of n] n by (simp add: k_def m_def)
  have e: "set_clock_data dbg cid wall cns s =
      Some (s\<lparr>clock_offset_seconds := if m = 0 then - int k else - int k - 1,
        clock_offset_nanoseconds := if m = 0 then 0 else BILLION - m, clock_id := cid, clock_offset_known := True\<rparr>)"
  proof -
    have "usub 64 dbg (unat cns) (unat wall) = Some n" using le by (simp add: n_def)
    moreover have "ucast_to 32 m = m" "BILLION - m = BILLION \<longleftrightarrow> m = 0" "usub 32 dbg BILLION m = Some (BILLION - m)"
      using m by (auto simp: BILLION_def)
    moreover have "sneg 64 dbg (swrap 64 (int k)) = Some (- int k)" "sadd 64 dbg (- int k) (- 1) = Some (- int k - 1)"
      "sadd 64 dbg (- int k - 1) 1 = Some (- int k)"
      using k by (simp_all add: in_signed_64)
    ultimately show ?thesis
      using assms False by (simp add: set_clock_data_def k_def [symmetric] m_def [symmetric])
  qed
  show ?thesis
  proof (cases "m = 0")
    case True
    with v k show ?thesis unfolding e by (simp add: clock_ok_def offset_value_def)
  next
    case nz: False
    have "int (BILLION - m) = 1000000000 - int m" "BILLION - m < 1000000000" using m nz by (simp_all add: BILLION_def)
    with nz v k show ?thesis unfolding e by (simp add: clock_ok_def offset_value_def)
  qed
qed

lemma time_to_time_spec_value:
  assumes "clock_ok s"
  shows "\<exists>r. time_to_time_spec dbg s t = Some r \<and> normal r \<and> ns_value r = uint t + offset_value s"
proof -
  define q m where "q = unat t div BILLION" and "m = unat t mod BILLION"
  have t: "uint t = int q * 1000000000 + int m" "m < 1000000000" "q \<le> 18446744073"
    using div_mod_billion [of "unat t"] u64_seconds [of t] by (simp_all add: q_def m_def)
  have r: "ucast_to 32 m = m" using t(2) by simp
  let ?n = "m + clock_offset_nanoseconds s"
  have o: "\<bar>clock_offset_seconds s\<bar> \<le> 18446744074" "?n < 2000000000" using assms t(2) by (simp_all add: clock_ok_def)
  have b: "in_signed 64 (int q + clock_offset_seconds s)" "in_signed 64 (int q + clock_offset_seconds s + 1)"
    using o t(3) by (auto intro!: in_signed_64)
  note defs = time_to_time_spec_def q_def [symmetric] m_def [symmetric] r billion_arith normal_def ns_value_def offset_value_def
  show ?thesis
  proof (cases "?n < 1000000000")
    case True
    with o t b show ?thesis by (simp add: defs)
  next
    case False
    then have "int (?n - BILLION) = int ?n - 1000000000" "?n - BILLION < 1000000000" using o by (simp_all add: BILLION_def)
    with False o t b show ?thesis by (simp add: defs)
  qed
qed

lemma get_clock_data_value:
  assumes "clock_ok s" "- (2 ^ 64) < offset_value s" "offset_value s < 2 ^ 64"
  shows "\<exists>w c. get_clock_data False s = Some (w, c) \<and> w < 2 ^ 64 \<and> c < 2 ^ 64 \<and> int w - int c = offset_value s \<and> (w = 0 \<or> c = 0)"
    "get_clock_data True s = (if clock_offset_seconds s < - 18446744073 then Panic else get_clock_data False s)"
proof -
  let ?n = "clock_offset_nanoseconds s"
  have n: "?n < 1000000000" and sec: "\<bar>clock_offset_seconds s\<bar> \<le> 18446744074" using assms(1) by (simp_all add: clock_ok_def)
  have "(\<exists>w c. get_clock_data False s = Some (w, c) \<and> w < 2 ^ 64 \<and> c < 2 ^ 64 \<and> int w - int c = offset_value s \<and> (w = 0 \<or> c = 0))
    \<and> get_clock_data True s = (if clock_offset_seconds s < - 18446744073 then Panic else get_clock_data False s)"
  proof (cases "0 \<le> clock_offset_seconds s")
    case True
    then obtain k where k: "clock_offset_seconds s = int k" using nonneg_int_cases by blast
    have v: "k * 1000000000 + ?n < 2 ^ 64" using assms(3) by (simp add: offset_value_def k)
    have u: "as_u64 (int k) = k" using sec by (simp add: as_u64_def k nat_mod_distrib)
    have "get_clock_data dbg s = Some (k * 1000000000 + ?n, 0)" for dbg
      using v u by (simp add: get_clock_data_def k BILLION_def)
    with v show ?thesis by (simp add: offset_value_def k)
  next
    case False
    then obtain k where k: "clock_offset_seconds s = - int k" "0 < k" by (metis neg_int_cases not_le)
    have v: "k * 1000000000 < 2 ^ 64 + ?n" using assms(2) by (simp add: offset_value_def k(1))
    have b: "k \<le> 18446744074" "?n \<le> k * 1000000000" using sec n k by simp_all
    have u: "as_u64 (int k) = k" using b by (simp add: as_u64_def nat_mod_distrib)
    have g: "get_clock_data dbg s = do { m \<leftarrow> umul 64 dbg k BILLION; c \<leftarrow> usub 64 dbg m ?n; Some (0, c) }" for dbg
      using k b u by (simp add: get_clock_data_def in_signed_64)
    have o: "offset_value s = - (int k * 1000000000 - int ?n)" by (simp add: offset_value_def k)
    show ?thesis
    proof (cases "k \<le> 18446744073")
      case True
      then have "get_clock_data dbg s = Some (0, k * 1000000000 - ?n)" for dbg
        using b by (simp add: g BILLION_def)
      with True b v o show ?thesis by (simp add: k of_nat_diff)
    next
      case False
      then have k': "k = 18446744074" using b by simp
      have n': "290448384 < ?n" using v by (simp add: k')
      define c where "c = 18446744074000000000 - ?n"
      have "get_clock_data False s = Some (0, c)" "get_clock_data True s = Panic"
        using n n' by (simp_all add: g k' c_def BILLION_def umul_def usub_def)
      moreover have "c < 2 ^ 64" "int c = - offset_value s" unfolding o c_def k' using n n' by (simp_all add: of_nat_diff)
      moreover have "clock_offset_seconds s < - 18446744073" by (simp add: k k')
      ultimately show ?thesis by simp
    qed
  qed
  then show "\<exists>w c. get_clock_data False s = Some (w, c) \<and> w < 2 ^ 64 \<and> c < 2 ^ 64 \<and> int w - int c = offset_value s \<and> (w = 0 \<or> c = 0)"
    "get_clock_data True s = (if clock_offset_seconds s < - 18446744073 then Panic else get_clock_data False s)"
    by blast+
qed

lemma seconds_unique:
  fixes a b :: int
  assumes "a * k + int x = b * k + int y" "int x < k" "int y < k"
  shows "a = b"
proof -
  have "(a * k + int x) div k = a" "(b * k + int y) div k = b" using assms(2,3) by simp_all
  with assms(1) show ?thesis by simp
qed

lemma offset_unique:
  assumes "clock_ok s" "clock_ok s'" "offset_value s = offset_value s'"
  shows "clock_offset_seconds s = clock_offset_seconds s'" "clock_offset_nanoseconds s = clock_offset_nanoseconds s'"
proof -
  show e: "clock_offset_seconds s = clock_offset_seconds s'"
    by (rule seconds_unique [OF assms(3) [unfolded offset_value_def]]) (use assms(1,2) in \<open>simp_all add: clock_ok_def\<close>)
  show "clock_offset_nanoseconds s = clock_offset_nanoseconds s'"
    using assms(3) by (simp add: offset_value_def e)
qed

lemma u64_bounds: "0 \<le> uint (x :: u64)" "uint (x :: u64) < 2 ^ 64"
  using uint_lt2p [of x] by simp_all

section \<open>Properties\<close>

text \<open>
  C13. The times of a session are exact. After \<open>set_clock_data\<close> with any readings of the wall clock and of
  the session's clock taken at one moment, every timestamp is turned into a normalised time whose value is
  the timestamp plus the difference of the two readings, for negative differences as well, and
  the order of timestamps is the order of times. No build panics or wraps.
\<close>

theorem clock_times_exact:
  assumes "cid \<noteq> 0xFFFFFFFF"
  shows "\<exists>s'. set_clock_data dbg cid wall_clock_ns clock_id_time_ns s = Some s'
    \<and> clock_offset_known s' \<and> clock_id s' = cid
    \<and> (\<forall>t. \<exists>r. time_to_time_spec dbg s' t = Some r \<and> normal r
           \<and> ns_value r = uint t + (uint wall_clock_ns - uint clock_id_time_ns))
    \<and> (\<forall>t u r v. time_to_time_spec dbg s' t = Some r \<and> time_to_time_spec dbg s' u = Some v \<longrightarrow> (t \<le> u \<longleftrightarrow> r \<le> v))"
proof -
  obtain s' where s': "set_clock_data dbg cid wall_clock_ns clock_id_time_ns s = Some s'" "clock_ok s'"
    "offset_value s' = uint wall_clock_ns - uint clock_id_time_ns" "clock_offset_known s'" "clock_id s' = cid"
    using set_clock_data_value [OF assms] by blast
  have "t \<le> u \<longleftrightarrow> r \<le> v" if "time_to_time_spec dbg s' t = Some r" "time_to_time_spec dbg s' u = Some v" for t u r v
    using time_to_time_spec_value [OF s'(2), of dbg t] time_to_time_spec_value [OF s'(2), of dbg u] that
    by (auto simp: normal_le_iff word_le_def)
  with s' time_to_time_spec_value [OF s'(2), of dbg] show ?thesis by auto
qed

theorem clock_times_exact_witness:
  "\<exists>s'. set_clock_data True 1 5 2000000007 (PerfSessionInfo_new (PerfByteReader_new False)) = Some s'
    \<and> (\<exists>r. time_to_time_spec True s' 3000000008 = Some r \<and> ns_value r = 1000000006)"
proof -
  obtain s' where s': "set_clock_data True 1 5 2000000007 (PerfSessionInfo_new (PerfByteReader_new False)) = Some s'"
    and t: "\<And>t. \<exists>r. time_to_time_spec True s' t = Some r \<and> normal r \<and> ns_value r = uint t + (uint (5 :: u64) - uint (2000000007 :: u64))"
    using clock_times_exact [of 1 True 5 2000000007 "PerfSessionInfo_new (PerfByteReader_new False)"] by auto
  then show ?thesis using t [of 3000000008] by auto
qed

text \<open>
  C14. \<open>get_clock_data\<close> undoes \<open>set_clock_data\<close> up to a common shift of both clocks: in a release build it
  returns two readings, one of them zero, with the same difference, and a session set to them has the same clock
  offset. A debug build panics, through the overflow of a multiplication, exactly when
  the session's clock is ahead of the wall clock by more than 18446744073 seconds.
\<close>

theorem clock_data_round_trip:
  assumes "cid \<noteq> 0xFFFFFFFF" and s: "set_clock_data False cid wall_clock_ns clock_id_time_ns s0 = Some s"
  shows "\<exists>w c. get_clock_data False s = Some (w, c) \<and> w < 2 ^ 64 \<and> c < 2 ^ 64 \<and> (w = 0 \<or> c = 0)
    \<and> int w - int c = uint wall_clock_ns - uint clock_id_time_ns
    \<and> set_clock_data False cid (word_of_nat w) (word_of_nat c) s0 = Some s
    \<and> get_clock_data True s =
        (if uint clock_id_time_ns - uint wall_clock_ns > 18446744073000000000 then Panic else Some (w, c))"
proof -
  have s': "clock_ok s" "offset_value s = uint wall_clock_ns - uint clock_id_time_ns"
    using set_clock_data_value [OF assms(1), of False wall_clock_ns clock_id_time_ns s0] s by auto
  have b: "- (2 ^ 64) < offset_value s" "offset_value s < 2 ^ 64"
    unfolding s'(2) using u64_bounds [of wall_clock_ns] u64_bounds [of clock_id_time_ns] by linarith+
  obtain w c where g: "get_clock_data False s = Some (w, c)" "w < 2 ^ 64" "c < 2 ^ 64" "int w - int c = offset_value s" "w = 0 \<or> c = 0"
    using get_clock_data_value(1) [OF s'(1) b] by blast
  have u: "uint (word_of_nat w :: u64) = int w" "uint (word_of_nat c :: u64) = int c"
    using g by (simp_all add: unsigned_of_nat take_bit_nat_eq_self)
  obtain t where t: "set_clock_data False cid (word_of_nat w) (word_of_nat c) s0 = Some t" "clock_ok t"
      "offset_value t = int w - int c"
    using set_clock_data_value [OF assms(1), of False "word_of_nat w" "word_of_nat c" s0] u by auto
  have "t = s"
  proof -
    have "clock_offset_seconds t = clock_offset_seconds s" "clock_offset_nanoseconds t = clock_offset_nanoseconds s"
      using offset_unique [OF t(2) s'(1)] t(3) g(4) by simp_all
    moreover have "t = s0\<lparr>clock_offset_seconds := clock_offset_seconds t,
        clock_offset_nanoseconds := clock_offset_nanoseconds t, clock_id := cid, clock_offset_known := True\<rparr>"
      and "s = s0\<lparr>clock_offset_seconds := clock_offset_seconds s,
        clock_offset_nanoseconds := clock_offset_nanoseconds s, clock_id := cid, clock_offset_known := True\<rparr>"
      using t(1) s assms(1) by (auto simp: set_clock_data_def bind_eq_Some_conv split: if_splits)
    ultimately show ?thesis by metis
  qed
  moreover have "clock_offset_seconds s < - 18446744073 \<longleftrightarrow> uint clock_id_time_ns - uint wall_clock_ns > 18446744073000000000"
    using s' by (auto simp: clock_ok_def offset_value_def)
  ultimately show ?thesis
    using g s'(2) t(1) get_clock_data_value(2) [OF s'(1) b] by auto
qed

theorem clock_data_round_trip_witness:
  "\<exists>s. set_clock_data False 1 5 2000000007 (PerfSessionInfo_new (PerfByteReader_new False)) = Some s
    \<and> get_clock_data True s = Some (0, 2000000002)"
proof -
  obtain s where s: "set_clock_data False 1 5 2000000007 (PerfSessionInfo_new (PerfByteReader_new False)) = Some s"
    using set_clock_data_value [of 1 False 5 2000000007] by force
  have "(1 :: u32) \<noteq> 0xFFFFFFFF" by simp
  from clock_data_round_trip [OF this s] obtain w c where r: "w = 0 \<or> c = 0"
      "int w - int c = uint (5 :: u64) - uint (2000000007 :: u64)"
      "get_clock_data True s = (if uint (2000000007 :: u64) - uint (5 :: u64) > 18446744073000000000 then Panic else Some (w, c))"
    by blast
  have "w = 0" "c = 2000000002" using r(1,2) by auto
  with r(3) s show ?thesis by simp
qed

text \<open>
  C15. Arithmetic on \<open>PerfTimeSpec\<close>: adding any number of nanoseconds to a normalised time gives a normalised
  time later by exactly that much, as long as its seconds fit an \<open>i64\<close>; past that a debug build panics.
  Every duration since 1970 of less than 2^63 seconds becomes a time and back without loss.
\<close>

theorem time_arithmetic_exact:
  assumes "normal t" "in_signed 64 (ts_seconds t)" "secs < 2 ^ 63" "nanos < 1000000000"
  shows "(if ns_value t + uint n < 2 ^ 63 * 1000000000
      then \<exists>r. add_nanoseconds dbg t n = Some r \<and> normal r \<and> ns_value r = ns_value t + uint n
      else add_nanoseconds True t n = Panic)
    \<and> Option.bind (from_duration_after_epoch dbg (secs, nanos)) as_duration_after_epoch = Some (secs, nanos)"
proof
  define q m where "q = unat n div BILLION" and "m = unat n mod BILLION"
  have n: "uint n = int q * 1000000000 + int m" "m < 1000000000" "q \<le> 18446744073"
    using div_mod_billion [of "unat n"] u64_seconds [of n] by (simp_all add: q_def m_def)
  let ?s = "ts_seconds t + int q" and ?m = "ts_nanoseconds t + m"
  have m: "?m < 2000000000" "ts_nanoseconds t < 1000000000" using assms(1) n(2) by (simp_all add: normal_def)
  have lo: "- (2 ^ 63) \<le> ts_seconds t" using assms(2) by (simp add: in_signed_def)
  have add: "add_nanoseconds dbg t n = do { s \<leftarrow> sadd 64 dbg (ts_seconds t) (int q); PerfTimeSpec_new dbg s ?m }" for dbg
    using n(2,3) m by (simp add: add_nanoseconds_def q_def [symmetric] m_def [symmetric])
  show "if ns_value t + uint n < 2 ^ 63 * 1000000000
      then \<exists>r. add_nanoseconds dbg t n = Some r \<and> normal r \<and> ns_value r = ns_value t + uint n
      else add_nanoseconds True t n = Panic"
  proof (cases "ns_value t + uint n < 2 ^ 63 * 1000000000")
    case True
    have v: "ns_value t + uint n = ?s * 1000000000 + int ?m" by (simp add: ns_value_def n(1) algebra_simps)
    have c: "int ?m = int (?m div BILLION) * 1000000000 + int (?m mod BILLION)" by (rule div_mod_billion)
    have d: "?s + int d < 2 ^ 63 \<and> ?s < 2 ^ 63" if "?s * 1000000000 + (int d * 1000000000 + int r) < 2 ^ 63 * 1000000000" for d r
      using that by simp
    have "?s + int (?m div BILLION) < 2 ^ 63" "?s < 2 ^ 63"
      using d [of "?m div BILLION" "?m mod BILLION"] True unfolding v c by simp_all
    then have b: "in_signed 64 ?s" "in_signed 64 (?s + int (?m div BILLION))" using lo by (simp_all add: in_signed_def)
    then have "add_nanoseconds dbg t n = Some (PerfTimeSpec (?s + int (?m div BILLION)) (?m mod BILLION))"
      by (simp add: add PerfTimeSpec_new_value)
    moreover have "?m mod BILLION < 1000000000" by (rule div_mod_billion)
    ultimately show ?thesis using True v c by (simp add: normal_def ns_value_def algebra_simps)
  next
    case False
    then have f: "2 ^ 63 * 1000000000 \<le> ?s * 1000000000 + int ?m" by (simp add: ns_value_def n(1) algebra_simps)
    show ?thesis
    proof (cases "?s < 2 ^ 63")
      case True
      then have "BILLION \<le> ?m" "\<not> in_signed 64 (?s + 1)" "in_signed 64 ?s" using f m lo by (auto simp: BILLION_def in_signed_def)
      then have "PerfTimeSpec_new True ?s ?m = Panic" by (subst PerfTimeSpec_new.simps) (simp add: sadd_def)
      with False \<open>in_signed 64 ?s\<close> show ?thesis by (simp add: add)
    next
      case nb: False
      then have "sadd 64 True (ts_seconds t) (int q) = Panic" by (simp add: sadd_def in_signed_def)
      with False show ?thesis by (simp add: add)
    qed
  qed
  have "in_signed 64 (int secs)" using assms(3) by (simp add: in_signed_def)
  then show "Option.bind (from_duration_after_epoch dbg (secs, nanos)) as_duration_after_epoch = Some (secs, nanos)"
    using assms(3,4) by (simp add: from_duration_after_epoch_def as_duration_after_epoch_def rust_assert_def swrap_exact BILLION_def)
qed

theorem time_arithmetic_exact_witness:
  "add_nanoseconds True (PerfTimeSpec (2 ^ 63 - 1) 999999999) 1 = Panic
    \<and> (\<exists>r. add_nanoseconds True (PerfTimeSpec (- 5) 999999999) 1 = Some r \<and> ns_value r = - 4000000000)"
  using time_arithmetic_exact [of "PerfTimeSpec (2 ^ 63 - 1) 999999999" 0 0 1 True]
    time_arithmetic_exact [of "PerfTimeSpec (- 5) 999999999" 0 0 1 True]
  by (auto simp: normal_def in_signed_def ns_value_def)

end
