(* ===== verification/Perf_Abi.thy ===== *)
theory Perf_Abi
  imports Byte_Reader Text_Scan
begin

unbundle bit_operations_syntax

text \<open>
  \<open>tracepoint_decode/src/perf_abi.rs\<close>: the parts of the kernel's \<open>perf_event.h\<close> that the readers and
  writers of perf.data files use. Newtypes are the words they wrap. The structs are \<open>repr(C)\<close> and are read
  and written by copying their memory, so each has a function to its bytes on a host and one back; the
  field names keep the order and the offsets of the struct.
\<close>

section \<open>Numbers\<close>

type_synonym PerfEventAttrType = u32
type_synonym PerfEventAttrSize = u32
type_synonym PerfEventAttrSampleType = u64
type_synonym PerfEventAttrReadFormat = u64
type_synonym PerfEventAttrOptions = u64
type_synonym PerfEventHeaderType = u32
type_synonym PerfEventHeaderMisc = u16

definition AttrType_Tracepoint :: PerfEventAttrType where
  [enum_consts]: "AttrType_Tracepoint = 2"

definition AttrSize_Ver0 :: PerfEventAttrSize where
  [enum_consts]: "AttrSize_Ver0 = 64"

definition SampleType_IP :: PerfEventAttrSampleType where
  [enum_consts]: "SampleType_IP = push_bit 0 1"

definition SampleType_Tid :: PerfEventAttrSampleType where
  [enum_consts]: "SampleType_Tid = push_bit 1 1"

definition SampleType_Time :: PerfEventAttrSampleType where
  [enum_consts]: "SampleType_Time = push_bit 2 1"

definition SampleType_Addr :: PerfEventAttrSampleType where
  [enum_consts]: "SampleType_Addr = push_bit 3 1"

definition SampleType_Read :: PerfEventAttrSampleType where
  [enum_consts]: "SampleType_Read = push_bit 4 1"

definition SampleType_Callchain :: PerfEventAttrSampleType where
  [enum_consts]: "SampleType_Callchain = push_bit 5 1"

definition SampleType_Id :: PerfEventAttrSampleType where
  [enum_consts]: "SampleType_Id = push_bit 6 1"

definition SampleType_Cpu :: PerfEventAttrSampleType where
  [enum_consts]: "SampleType_Cpu = push_bit 7 1"

definition SampleType_Period :: PerfEventAttrSampleType where
  [enum_consts]: "SampleType_Period = push_bit 8 1"

definition SampleType_StreamId :: PerfEventAttrSampleType where
  [enum_consts]: "SampleType_StreamId = push_bit 9 1"

definition SampleType_Raw :: PerfEventAttrSampleType where
  [enum_consts]: "SampleType_Raw = push_bit 10 1"

definition SampleType_Identifier :: PerfEventAttrSampleType where
  [enum_consts]: "SampleType_Identifier = push_bit 16 1"

definition ReadFormat_TotalTimeEnabled :: PerfEventAttrReadFormat where
  [enum_consts]: "ReadFormat_TotalTimeEnabled = push_bit 0 1"

definition ReadFormat_TotalTimeRunning :: PerfEventAttrReadFormat where
  [enum_consts]: "ReadFormat_TotalTimeRunning = push_bit 1 1"

definition ReadFormat_Id :: PerfEventAttrReadFormat where
  [enum_consts]: "ReadFormat_Id = push_bit 2 1"

definition ReadFormat_Group :: PerfEventAttrReadFormat where
  [enum_consts]: "ReadFormat_Group = push_bit 3 1"

definition ReadFormat_Lost :: PerfEventAttrReadFormat where
  [enum_consts]: "ReadFormat_Lost = push_bit 4 1"

definition Options_SampleIdAll :: PerfEventAttrOptions where
  [enum_consts]: "Options_SampleIdAll = push_bit 18 1"

definition HeaderType_None :: PerfEventHeaderType where
  [enum_consts]: "HeaderType_None = 0"

definition HeaderType_Sample :: PerfEventHeaderType where
  [enum_consts]: "HeaderType_Sample = 9"

definition HeaderType_HeaderAttr :: PerfEventHeaderType where
  [enum_consts]: "HeaderType_HeaderAttr = 64"

definition HeaderType_UserTypeStart :: PerfEventHeaderType where
  [enum_consts]: "HeaderType_UserTypeStart = HeaderType_HeaderAttr"

definition HeaderType_HeaderTracingData :: PerfEventHeaderType where
  [enum_consts]: "HeaderType_HeaderTracingData = 66"

definition HeaderType_HeaderBuildId :: PerfEventHeaderType where
  [enum_consts]: "HeaderType_HeaderBuildId = 67"

definition HeaderType_FinishedRound :: PerfEventHeaderType where
  [enum_consts]: "HeaderType_FinishedRound = 68"

definition HeaderType_Auxtrace :: PerfEventHeaderType where
  [enum_consts]: "HeaderType_Auxtrace = 71"

definition HeaderType_HeaderFeature :: PerfEventHeaderType where
  [enum_consts]: "HeaderType_HeaderFeature = 80"

definition HeaderType_FinishedInit :: PerfEventHeaderType where
  [enum_consts]: "HeaderType_FinishedInit = 82"

text \<open>\<open>has_flag\<close> and \<open>or\<close> are the same for sample types, read formats and options.\<close>

definition has_flag :: "u64 \<Rightarrow> u64 \<Rightarrow> bool" where
  "has_flag self flag = (self AND flag \<noteq> 0)"

definition flags_or :: "u64 \<Rightarrow> u64 \<Rightarrow> u64" where
  "flags_or self other = self OR other"

definition AttrType_as_string :: "PerfEventAttrType \<Rightarrow> string option" where
  "AttrType_as_string self =
     (let names = [''Hardware'', ''Software'', ''Tracepoint'', ''HwCache'', ''Raw'', ''Breakpoint'']; index = unat self in
      if index < length names then Some (names ! index) else None)"

definition HeaderType_as_string :: "PerfEventHeaderType \<Rightarrow> string option" where
  "HeaderType_as_string self = map_of
     [(0, ''None''), (1, ''Mmap''), (2, ''Lost''), (3, ''Comm''), (4, ''Exit''), (5, ''Throttle''), (6, ''Unthrottle''),
      (7, ''Fork''), (8, ''Read''), (9, ''Sample''), (10, ''Mmap2''), (11, ''Aux''), (12, ''ItraceStart''),
      (13, ''LostSamples''), (14, ''Switch''), (15, ''SwitchCpuWide''), (16, ''Namespaces''), (17, ''Ksymbol''),
      (18, ''BpfEvent''), (19, ''Cgroup''), (20, ''TextPoke''), (21, ''AuxOutputHwId''), (64, ''HeaderAttr''),
      (65, ''HeaderEventType''), (66, ''HeaderTracingData''), (67, ''HeaderBuildId''), (68, ''FinishedRound''),
      (69, ''IdIndex''), (70, ''AuxtraceInfo''), (71, ''Auxtrace''), (72, ''AuxtraceError''), (73, ''ThreadMap''),
      (74, ''CpuMap''), (75, ''StatConfig''), (76, ''Stat''), (77, ''StatRound''), (78, ''EventUpdate''), (79, ''TimeConv''),
      (80, ''HeaderFeature''), (81, ''Compressed''), (82, ''FinishedInit'')] self"

definition cpu_mode :: "PerfEventHeaderMisc \<Rightarrow> u8" where
  "cpu_mode self = ucast (self AND 7)"

text \<open>\<open>mmap_data\<close>, \<open>comm_exec\<close>, \<open>fork_exec\<close> and \<open>switch_out\<close> are one bit, used by different events.\<close>

definition misc_bit :: "PerfEventHeaderMisc \<Rightarrow> PerfEventHeaderMisc \<Rightarrow> bool" where
  "misc_bit flag self = (self AND flag \<noteq> 0)"

definition proc_map_parse_timeout :: "PerfEventHeaderMisc \<Rightarrow> bool" where
  "proc_map_parse_timeout = misc_bit 0x1000"

definition mmap_data :: "PerfEventHeaderMisc \<Rightarrow> bool" where
  "mmap_data = misc_bit 0x2000"

definition exact_ip :: "PerfEventHeaderMisc \<Rightarrow> bool" where
  "exact_ip = misc_bit 0x4000"

definition ext_reserved :: "PerfEventHeaderMisc \<Rightarrow> bool" where
  "ext_reserved = misc_bit 0x8000"

section \<open>Words in memory\<close>

text \<open>A field of \<open>n\<close> bytes at an offset of a struct's memory, in the byte order of the host.\<close>

definition field_at :: "bool \<Rightarrow> bytes \<Rightarrow> nat \<Rightarrow> nat \<Rightarrow> nat" where
  "field_at be bs off n = from_bytes be (take n (drop off bs))"

definition swap_word :: "'a :: len word \<Rightarrow> 'a word" where
  "swap_word x = word_of_nat (swap_bytes (LENGTH('a) div 8) (unat x))"

definition word_bytes :: "bool \<Rightarrow> 'a :: len word \<Rightarrow> bytes" where
  "word_bytes be x = to_ne_bytes be (LENGTH('a) div 8) (unat x)"

definition word_at :: "bool \<Rightarrow> bytes \<Rightarrow> nat \<Rightarrow> 'a :: len word" where
  "word_at be bs off = word_of_nat (field_at be bs off (LENGTH('a) div 8))"

section \<open>PerfEventAttr\<close>

record PerfEventAttr =
  at_attr_type :: u32
  at_attr_size :: u32
  at_attr_config :: u64
  at_sample_time :: u64
  at_sample_type :: u64
  at_read_format :: u64
  at_options :: u64
  at_wakeup_value :: u32
  at_bp_type :: u32
  at_config1 :: u64
  at_config2 :: u64
  at_branch_sample_type :: u64
  at_sample_regs_user :: u64
  at_sample_stack_user :: u32
  at_clockid :: u32
  at_sample_regs_intr :: u64
  at_aux_watermark :: u32
  at_sample_max_stack :: u16
  at_reserved2 :: u16
  at_aux_sample_size :: u32
  at_reserved3 :: u32
  at_sig_data :: u64

definition PERF_EVENT_ATTR_SIZE :: nat where
  [simp]: "PERF_EVENT_ATTR_SIZE = 128"

definition PerfEventAttr_of_bytes :: "bool \<Rightarrow> bytes \<Rightarrow> PerfEventAttr" where
  "PerfEventAttr_of_bytes be bs = \<lparr>
     at_attr_type = word_at be bs 0,
     at_attr_size = word_at be bs 4,
     at_attr_config = word_at be bs 8,
     at_sample_time = word_at be bs 16,
     at_sample_type = word_at be bs 24,
     at_read_format = word_at be bs 32,
     at_options = word_at be bs 40,
     at_wakeup_value = word_at be bs 48,
     at_bp_type = word_at be bs 52,
     at_config1 = word_at be bs 56,
     at_config2 = word_at be bs 64,
     at_branch_sample_type = word_at be bs 72,
     at_sample_regs_user = word_at be bs 80,
     at_sample_stack_user = word_at be bs 88,
     at_clockid = word_at be bs 92,
     at_sample_regs_intr = word_at be bs 96,
     at_aux_watermark = word_at be bs 104,
     at_sample_max_stack = word_at be bs 108,
     at_reserved2 = word_at be bs 110,
     at_aux_sample_size = word_at be bs 112,
     at_reserved3 = word_at be bs 116,
     at_sig_data = word_at be bs 120\<rparr>"

definition PerfEventAttr_bytes :: "bool \<Rightarrow> PerfEventAttr \<Rightarrow> bytes" where
  "PerfEventAttr_bytes be a =
     word_bytes be (at_attr_type a)
     @ word_bytes be (at_attr_size a)
     @ word_bytes be (at_attr_config a)
     @ word_bytes be (at_sample_time a)
     @ word_bytes be (at_sample_type a)
     @ word_bytes be (at_read_format a)
     @ word_bytes be (at_options a)
     @ word_bytes be (at_wakeup_value a)
     @ word_bytes be (at_bp_type a)
     @ word_bytes be (at_config1 a)
     @ word_bytes be (at_config2 a)
     @ word_bytes be (at_branch_sample_type a)
     @ word_bytes be (at_sample_regs_user a)
     @ word_bytes be (at_sample_stack_user a)
     @ word_bytes be (at_clockid a)
     @ word_bytes be (at_sample_regs_intr a)
     @ word_bytes be (at_aux_watermark a)
     @ word_bytes be (at_sample_max_stack a)
     @ word_bytes be (at_reserved2 a)
     @ word_bytes be (at_aux_sample_size a)
     @ word_bytes be (at_reserved3 a)
     @ word_bytes be (at_sig_data a)"

text \<open>The bits of \<open>options\<close> are a C bit field: they are reversed within each byte.\<close>

definition PerfEventAttr_byte_swap :: "PerfEventAttr \<Rightarrow> PerfEventAttr" where
  "PerfEventAttr_byte_swap a = a\<lparr>
     at_attr_type := swap_word (at_attr_type a),
     at_attr_size := swap_word (at_attr_size a),
     at_attr_config := swap_word (at_attr_config a),
     at_sample_time := swap_word (at_sample_time a),
     at_sample_type := swap_word (at_sample_type a),
     at_read_format := swap_word (at_read_format a),
     at_options := swap_word (word_reverse (at_options a)),
     at_wakeup_value := swap_word (at_wakeup_value a),
     at_bp_type := swap_word (at_bp_type a),
     at_config1 := swap_word (at_config1 a),
     at_config2 := swap_word (at_config2 a),
     at_branch_sample_type := swap_word (at_branch_sample_type a),
     at_sample_regs_user := swap_word (at_sample_regs_user a),
     at_sample_stack_user := swap_word (at_sample_stack_user a),
     at_aux_watermark := swap_word (at_aux_watermark a),
     at_sample_max_stack := swap_word (at_sample_max_stack a),
     at_aux_sample_size := swap_word (at_aux_sample_size a)\<rparr>"

section \<open>PerfEventHeader\<close>

record PerfEventHeader =
  ph_ty :: PerfEventHeaderType
  ph_misc :: PerfEventHeaderMisc
  ph_size :: u16

definition PERF_EVENT_HEADER_SIZE :: nat where
  [simp]: "PERF_EVENT_HEADER_SIZE = 8"

definition PerfEventHeader_new :: PerfEventHeader where
  "PerfEventHeader_new = \<lparr>ph_ty = HeaderType_None, ph_misc = 0, ph_size = 0\<rparr>"

definition PerfEventHeader_of_bytes :: "bool \<Rightarrow> bytes \<Rightarrow> PerfEventHeader" where
  "PerfEventHeader_of_bytes be bs = \<lparr>ph_ty = word_at be bs 0, ph_misc = word_at be bs 4, ph_size = word_at be bs 6\<rparr>"

definition PerfEventHeader_bytes :: "bool \<Rightarrow> PerfEventHeader \<Rightarrow> bytes" where
  "PerfEventHeader_bytes be h = word_bytes be (ph_ty h) @ word_bytes be (ph_misc h) @ word_bytes be (ph_size h)"

definition PerfEventHeader_byte_swap :: "PerfEventHeader \<Rightarrow> PerfEventHeader" where
  "PerfEventHeader_byte_swap h = \<lparr>ph_ty = swap_word (ph_ty h), ph_misc = swap_word (ph_misc h), ph_size = swap_word (ph_size h)\<rparr>"

definition PerfEventHeader_from_bytes :: "target \<Rightarrow> bytes \<Rightarrow> PerfByteReader \<Rightarrow> PerfEventHeader" where
  "PerfEventHeader_from_bytes tgt bs r =
     (let header = PerfEventHeader_of_bytes (big_endian tgt) bs in
      if byte_swap_needed tgt r then PerfEventHeader_byte_swap header else header)"

section \<open>Lemmas\<close>

lemma length_word_bytes [simp]: "length (word_bytes be (x :: 'a :: len word)) = LENGTH('a) div 8"
  by (simp add: word_bytes_def)

lemma field_at_append:
  "off = length a \<Longrightarrow> n = length b \<Longrightarrow> field_at be (a @ b @ c) off n = from_bytes be b"
  by (simp add: field_at_def)

lemma swap_bytes_from_bytes: "length bs = n \<Longrightarrow> swap_bytes n (from_bytes be bs) = from_bytes (\<not> be) bs"
  using nat_to_le_le_to_nat [of bs] nat_to_le_le_to_nat [of "rev bs"]
  by (auto simp: swap_bytes_def from_bytes_def)

text \<open>The widths of words whose bytes fill them.\<close>

lemma pow256: "8 * (n div 8) = n \<Longrightarrow> (256 :: nat) ^ (n div 8) = 2 ^ n"
  using power_mult [of "2 :: nat" 8 "n div 8"] by simp

lemma field_at_bound: "field_at be bs off n < 256 ^ n"
proof -
  have "(256 :: nat) ^ length (take n (drop off bs)) \<le> 256 ^ n" by (intro power_increasing) simp_all
  with from_bytes_bound [of be "take n (drop off bs)"] show ?thesis unfolding field_at_def by (rule less_le_trans)
qed

lemma unat_word_at:
  assumes "8 * (LENGTH('a) div 8) = LENGTH('a :: len)"
  shows "unat (word_at be bs off :: 'a word) = field_at be bs off (LENGTH('a) div 8)"
  using field_at_bound [of be bs off "LENGTH('a) div 8"] pow256 [OF assms]
  by (simp add: word_at_def unsigned_of_nat take_bit_nat_eq_self)

lemma word_at_bytes:
  fixes x :: "'a :: len word"
  assumes "8 * (LENGTH('a) div 8) = LENGTH('a)" "off = length a"
  shows "word_at be (a @ word_bytes be x @ c) off = x"
proof -
  have "unat x mod 256 ^ (LENGTH('a) div 8) = unat x"
    using unsigned_less [of x, where 'a = nat] pow256 [OF assms(1)] by simp
  then show ?thesis
    by (simp add: word_at_def assms(2) field_at_append word_bytes_def from_bytes_to_ne_bytes)
qed

lemma swap_word_at:
  assumes "8 * (LENGTH('a) div 8) = LENGTH('a :: len)" "off + LENGTH('a) div 8 \<le> length bs"
  shows "swap_word (word_at be bs off :: 'a word) = word_at (\<not> be) bs off"
  using assms(2) unfolding swap_word_def unat_word_at [OF assms(1)]
  by (simp add: word_at_def field_at_def swap_bytes_from_bytes)

lemma word_at_skip: "length a \<le> off \<Longrightarrow> word_at be (a @ c) off = word_at be c (off - length a)"
  by (simp add: word_at_def field_at_def)

lemma word_at_skips [simp]:
  "2 \<le> off \<Longrightarrow> word_at be (word_bytes be' (x :: u16) @ c) off = word_at be c (off - 2)"
  "4 \<le> off \<Longrightarrow> word_at be (word_bytes be' (y :: u32) @ c) off = word_at be c (off - 4)"
  "8 \<le> off \<Longrightarrow> word_at be (word_bytes be' (z :: u64) @ c) off = word_at be c (off - 8)"
  by (simp_all add: word_at_skip)

lemma word_at_here [simp]:
  "word_at be (word_bytes be (x :: u16) @ c) 0 = x" "word_at be (word_bytes be (y :: u32) @ c) 0 = y"
  "word_at be (word_bytes be (z :: u64) @ c) 0 = z" "word_at be (word_bytes be (x :: u16)) 0 = x"
  "word_at be (word_bytes be (y :: u32)) 0 = y" "word_at be (word_bytes be (z :: u64)) 0 = z"
  using word_at_bytes [of 0 "[]" be x c] word_at_bytes [of 0 "[]" be y c] word_at_bytes [of 0 "[]" be z c]
    word_at_bytes [of 0 "[]" be x "[]"] word_at_bytes [of 0 "[]" be y "[]"] word_at_bytes [of 0 "[]" be z "[]"]
  by simp_all

lemmas swap_word_sizes [simp] =
  swap_word_at [where 'a = 16, simplified] swap_word_at [where 'a = 32, simplified] swap_word_at [where 'a = 64, simplified]

lemma PerfEventAttr_of_bytes_bytes [simp]: "PerfEventAttr_of_bytes be (PerfEventAttr_bytes be a @ r) = a"
  "PerfEventAttr_of_bytes be (PerfEventAttr_bytes be a) = a"
  by (simp_all add: PerfEventAttr_of_bytes_def PerfEventAttr_bytes_def)

lemma length_PerfEventAttr_bytes [simp]: "length (PerfEventAttr_bytes be a) = PERF_EVENT_ATTR_SIZE"
  by (simp add: PerfEventAttr_bytes_def)

lemma PerfEventHeader_of_bytes_bytes [simp]: "PerfEventHeader_of_bytes be (PerfEventHeader_bytes be h @ r) = h"
  "PerfEventHeader_of_bytes be (PerfEventHeader_bytes be h) = h"
  by (simp_all add: PerfEventHeader_of_bytes_def PerfEventHeader_bytes_def)

lemma length_PerfEventHeader_bytes [simp]: "length (PerfEventHeader_bytes be h) = PERF_EVENT_HEADER_SIZE"
  by (simp add: PerfEventHeader_bytes_def)

lemma PerfEventHeader_from_bytes_source:
  "8 \<le> length bs \<Longrightarrow> PerfEventHeader_from_bytes tgt bs r = PerfEventHeader_of_bytes (source_big_endian r) bs"
  by (auto simp: PerfEventHeader_from_bytes_def byte_swap_needed_def PerfEventHeader_byte_swap_def
      PerfEventHeader_of_bytes_def Let_def)

end
