(* ===== verification/Perf_File.thy ===== *)
theory Perf_File
  imports Perf_Abi
begin

unbundle bit_operations_syntax

text \<open>
  The layout of perf.data files and the files themselves: \<open>tracepoint_perf/src/file_abi.rs\<close>,
  \<open>header_index.rs\<close>, \<open>input_file.rs\<close> and \<open>output_file.rs\<close>.

  A file is the list of its bytes together with the position of the operating system's file pointer; \<open>InputFile\<close> and \<open>OutputFile\<close> add the
  position and length that they remember. Files do not change while they are read, and the only
  error of the operating system that the model has is the end of the file. \<open>io_result\<close> is a Rust function that
  takes \<open>&mut\<close> state and returns \<open>io::Result\<close>: it may panic, or return an error or a value with the new state.
\<close>

section \<open>Results with state\<close>

datatype io_error = IoUnexpectedEof | IoInvalidData | IoInvalidInput | IoOutOfMemory

type_synonym ('s, 'a) io_result = "((io_error + 'a) \<times> 's) option"

text \<open>The operator \<open>?\<close>: an error ends the function, a value goes on.\<close>

definition try_io :: "('s, 'a) io_result \<Rightarrow> ('a \<Rightarrow> 's \<Rightarrow> ('s, 'b) io_result) \<Rightarrow> ('s, 'b) io_result" where
  "try_io m f = (case m of Panic \<Rightarrow> Panic | Some (Inl e, s) \<Rightarrow> Some (Inl e, s) | Some (Inr x, s) \<Rightarrow> f x s)"

lemma try_io_simps [simp]:
  "try_io Panic f = Panic" "try_io (Some (Inl e, s)) f = Some (Inl e, s)" "try_io (Some (Inr x, s)) f = f x s"
  by (simp_all add: try_io_def)

lemma wp_try_io:
  "wp m (\<lambda>(r, s). case r of Inl e \<Rightarrow> Q (Inl e, s) | Inr x \<Rightarrow> wp (f x s) Q) \<Longrightarrow> wp (try_io m f) Q"
  by (cases m) (auto simp: try_io_def split: sum.splits prod.splits)

section \<open>Structures of the file\<close>

record PerfFileSection =
  fs_offset :: u64
  fs_size :: u64

definition PERF_FILE_SECTION_SIZE :: nat where
  [simp]: "PERF_FILE_SECTION_SIZE = 16"

definition PerfFileSection_of_bytes :: "bool \<Rightarrow> bytes \<Rightarrow> PerfFileSection" where
  "PerfFileSection_of_bytes be bs = \<lparr>fs_offset = word_at be bs 0, fs_size = word_at be bs 8\<rparr>"

definition PerfFileSection_bytes :: "bool \<Rightarrow> PerfFileSection \<Rightarrow> bytes" where
  "PerfFileSection_bytes be s = word_bytes be (fs_offset s) @ word_bytes be (fs_size s)"

definition PerfFileSection_byte_swap :: "PerfFileSection \<Rightarrow> PerfFileSection" where
  "PerfFileSection_byte_swap s = \<lparr>fs_offset = swap_word (fs_offset s), fs_size = swap_word (fs_size s)\<rparr>"

record PerfFileHeaderPipe =
  fp_magic :: u64
  fp_size :: u64

definition PERF_PIPE_HEADER_SIZE :: nat where
  [simp]: "PERF_PIPE_HEADER_SIZE = 16"

definition PerfFileHeaderPipe_of_bytes :: "bool \<Rightarrow> bytes \<Rightarrow> PerfFileHeaderPipe" where
  "PerfFileHeaderPipe_of_bytes be bs = \<lparr>fp_magic = word_at be bs 0, fp_size = word_at be bs 8\<rparr>"

definition PerfFileHeaderPipe_bytes :: "bool \<Rightarrow> PerfFileHeaderPipe \<Rightarrow> bytes" where
  "PerfFileHeaderPipe_bytes be p = word_bytes be (fp_magic p) @ word_bytes be (fp_size p)"

definition PerfFileHeaderPipe_byte_swap :: "PerfFileHeaderPipe \<Rightarrow> PerfFileHeaderPipe" where
  "PerfFileHeaderPipe_byte_swap p = \<lparr>fp_magic = swap_word (fp_magic p), fp_size = swap_word (fp_size p)\<rparr>"

record PerfFileHeaderRest =
  fr_attr_size :: u64
  fr_attrs :: PerfFileSection
  fr_data :: PerfFileSection
  fr_event_types :: PerfFileSection
  fr_flags :: "u64 list"

definition PERF_REST_HEADER_SIZE :: nat where
  [simp]: "PERF_REST_HEADER_SIZE = 88"

definition PerfFileHeaderRest_of_bytes :: "bool \<Rightarrow> bytes \<Rightarrow> PerfFileHeaderRest" where
  "PerfFileHeaderRest_of_bytes be bs = \<lparr>fr_attr_size = word_at be bs 0,
     fr_attrs = PerfFileSection_of_bytes be (drop 8 bs), fr_data = PerfFileSection_of_bytes be (drop 24 bs),
     fr_event_types = PerfFileSection_of_bytes be (drop 40 bs), fr_flags = map (\<lambda>i. word_at be bs (56 + 8 * i)) [0..<4]\<rparr>"

definition PerfFileHeaderRest_bytes :: "bool \<Rightarrow> PerfFileHeaderRest \<Rightarrow> bytes" where
  "PerfFileHeaderRest_bytes be r =
     word_bytes be (fr_attr_size r) @ PerfFileSection_bytes be (fr_attrs r) @ PerfFileSection_bytes be (fr_data r)
     @ PerfFileSection_bytes be (fr_event_types r) @ concat (map (word_bytes be) (fr_flags r))"

definition PerfFileHeaderRest_byte_swap :: "PerfFileHeaderRest \<Rightarrow> PerfFileHeaderRest" where
  "PerfFileHeaderRest_byte_swap r = \<lparr>fr_attr_size = swap_word (fr_attr_size r),
     fr_attrs = PerfFileSection_byte_swap (fr_attrs r), fr_data = PerfFileSection_byte_swap (fr_data r),
     fr_event_types = PerfFileSection_byte_swap (fr_event_types r), fr_flags = map swap_word (fr_flags r)\<rparr>"

record PerfFileHeader =
  fh_pipe :: PerfFileHeaderPipe
  fh_rest :: PerfFileHeaderRest

definition PERF_FILE_HEADER_SIZE :: nat where
  [simp]: "PERF_FILE_HEADER_SIZE = 104"

definition PerfFileHeader_bytes :: "bool \<Rightarrow> PerfFileHeader \<Rightarrow> bytes" where
  "PerfFileHeader_bytes be h = PerfFileHeaderPipe_bytes be (fh_pipe h) @ PerfFileHeaderRest_bytes be (fh_rest h)"

definition PerfFileHeader_byte_swap :: "PerfFileHeader \<Rightarrow> PerfFileHeader" where
  "PerfFileHeader_byte_swap h = \<lparr>fh_pipe = PerfFileHeaderPipe_byte_swap (fh_pipe h), fh_rest = PerfFileHeaderRest_byte_swap (fh_rest h)\<rparr>"

definition PerfFileHeader_default :: PerfFileHeader where
  "PerfFileHeader_default = \<lparr>fh_pipe = \<lparr>fp_magic = 0, fp_size = 0\<rparr>,
     fh_rest = \<lparr>fr_attr_size = 0, fr_attrs = \<lparr>fs_offset = 0, fs_size = 0\<rparr>, fr_data = \<lparr>fs_offset = 0, fs_size = 0\<rparr>,
       fr_event_types = \<lparr>fs_offset = 0, fs_size = 0\<rparr>, fr_flags = [0, 0, 0, 0]\<rparr>\<rparr>"

record ClockData =
  cd_version :: u32
  cd_clockid :: u32
  cd_wall_clock_ns :: u64
  cd_clockid_time_ns :: u64

definition CLOCK_DATA_SIZE :: nat where
  [simp]: "CLOCK_DATA_SIZE = 24"

definition ClockData_of_bytes :: "bool \<Rightarrow> bytes \<Rightarrow> ClockData" where
  "ClockData_of_bytes be bs = \<lparr>cd_version = word_at be bs 0, cd_clockid = word_at be bs 4,
     cd_wall_clock_ns = word_at be bs 8, cd_clockid_time_ns = word_at be bs 16\<rparr>"

definition ClockData_byte_swap :: "ClockData \<Rightarrow> ClockData" where
  "ClockData_byte_swap c = \<lparr>cd_version = swap_word (cd_version c), cd_clockid = swap_word (cd_clockid c),
     cd_wall_clock_ns = swap_word (cd_wall_clock_ns c), cd_clockid_time_ns = swap_word (cd_clockid_time_ns c)\<rparr>"

text \<open>\<open>PerfHeaderIndex\<close>: the headers that the code names.\<close>

definition Index_TracingData :: nat where
  [simp]: "Index_TracingData = 1"

definition Index_BuildId :: nat where
  [simp]: "Index_BuildId = 2"

definition Index_Hostname :: nat where
  [simp]: "Index_Hostname = 3"

definition Index_OSRelease :: nat where
  [simp]: "Index_OSRelease = 4"

definition Index_Arch :: nat where
  [simp]: "Index_Arch = 6"

definition Index_NrCpus :: nat where
  [simp]: "Index_NrCpus = 7"

definition Index_EventDesc :: nat where
  [simp]: "Index_EventDesc = 12"

definition Index_SampleTime :: nat where
  [simp]: "Index_SampleTime = 21"

definition Index_ClockId :: nat where
  [simp]: "Index_ClockId = 23"

definition Index_ClockData :: nat where
  [simp]: "Index_ClockData = 29"

definition Index_LastFeature :: nat where
  [simp]: "Index_LastFeature = 32"

section \<open>Reading files\<close>

record InputFile =
  in_bytes :: bytes
  in_seek :: nat
  in_pos :: nat
  in_len :: nat

definition InputFile_new :: "bytes \<Rightarrow> InputFile" where
  "InputFile_new contents = \<lparr>in_bytes = contents, in_seek = 0, in_pos = 0, in_len = 0\<rparr>"

definition update_len :: "InputFile \<Rightarrow> InputFile" where
  "update_len f = f\<lparr>in_len := length (in_bytes f)\<rparr>"

definition seek_absolute :: "nat \<Rightarrow> InputFile \<Rightarrow> (io_error + nat) \<times> InputFile" where
  "seek_absolute new_pos f =
     (if new_pos = in_pos f then (Inr new_pos, f)
      else if new_pos > in_len f then (Inl IoUnexpectedEof, f)
      else (Inr new_pos, f\<lparr>in_seek := new_pos, in_pos := new_pos\<rparr>))"

text \<open>
  \<open>read_exact\<close> of the standard library reads until it has all bytes or meets the end of the file, where the
  file pointer then stays.
\<close>

definition read_exact :: "nat \<Rightarrow> InputFile \<Rightarrow> (io_error + bytes) \<times> InputFile" where
  "read_exact n f =
     (if length (drop (in_seek f) (in_bytes f)) < n
      then (Inl IoUnexpectedEof, f\<lparr>in_seek := max (in_seek f) (length (in_bytes f))\<rparr>)
      else (Inr (take n (drop (in_seek f) (in_bytes f))), f\<lparr>in_seek := in_seek f + n, in_pos := in_pos f + n\<rparr>))"

definition read_append_vec :: "bytes \<Rightarrow> nat \<Rightarrow> InputFile \<Rightarrow> (io_error + bytes) \<times> InputFile" where
  "read_append_vec vec n f =
     (case read_exact n f of (Inl e, f) \<Rightarrow> (Inl e, f) | (Inr bs, f) \<Rightarrow> (Inr (vec @ bs), f))"

definition read_assign_vec :: "nat \<Rightarrow> InputFile \<Rightarrow> (io_error + bytes) \<times> InputFile" where
  "read_assign_vec n f = read_append_vec [] n f"

section \<open>Writing files\<close>

record OutputFile =
  out_bytes :: bytes
  out_pos :: nat

definition OutputFile_new :: OutputFile where
  "OutputFile_new = \<lparr>out_bytes = [], out_pos = 0\<rparr>"

definition out_seek :: "nat \<Rightarrow> OutputFile \<Rightarrow> OutputFile" where
  "out_seek new_pos f = f\<lparr>out_pos := new_pos\<rparr>"

text \<open>Bytes written after the end of a file extend it, with zeros before them where there is a gap.\<close>

definition overwrite :: "bytes \<Rightarrow> nat \<Rightarrow> bytes \<Rightarrow> bytes" where
  "overwrite file_bytes pos d =
     take pos file_bytes @ replicate (pos - length file_bytes) 0 @ d @ drop (pos + length d) file_bytes"

definition write_all :: "bytes \<Rightarrow> OutputFile \<Rightarrow> OutputFile" where
  "write_all d f = f\<lparr>out_bytes := overwrite (out_bytes f) (out_pos f) d, out_pos := out_pos f + length d\<rparr>"

text \<open>\<open>write_vectored\<close> writes the first bytes of the buffers; the operating system decides how many.\<close>

definition write_vectored :: "nat \<Rightarrow> bytes list \<Rightarrow> OutputFile \<Rightarrow> nat \<times> OutputFile" where
  "write_vectored accepted bufs f =
     (let d = take accepted (concat bufs) in (length d, write_all d f))"

section \<open>Lemmas\<close>

lemma PerfFileSection_of_bytes_bytes [simp]:
  "PerfFileSection_of_bytes be (PerfFileSection_bytes be s @ r) = s" "PerfFileSection_of_bytes be (PerfFileSection_bytes be s) = s"
  by (simp_all add: PerfFileSection_of_bytes_def PerfFileSection_bytes_def)

lemma length_PerfFileSection_bytes [simp]: "length (PerfFileSection_bytes be s) = 16"
  by (simp add: PerfFileSection_bytes_def)

lemma PerfFileHeaderPipe_of_bytes_bytes [simp]:
  "PerfFileHeaderPipe_of_bytes be (PerfFileHeaderPipe_bytes be p @ r) = p" "PerfFileHeaderPipe_of_bytes be (PerfFileHeaderPipe_bytes be p) = p"
  by (simp_all add: PerfFileHeaderPipe_of_bytes_def PerfFileHeaderPipe_bytes_def)

lemma length_PerfFileHeaderPipe_bytes [simp]: "length (PerfFileHeaderPipe_bytes be p) = 16"
  by (simp add: PerfFileHeaderPipe_bytes_def)

lemma length_flag_bytes [simp]: "length (concat (map (word_bytes be) (ws :: u64 list))) = 8 * length ws"
  by (induction ws) simp_all

lemma length_PerfFileHeaderRest_bytes [simp]: "length (fr_flags r) = 4 \<Longrightarrow> length (PerfFileHeaderRest_bytes be r) = 88"
  by (simp add: PerfFileHeaderRest_bytes_def)

lemma length_PerfFileHeader_bytes [simp]: "length (fr_flags (fh_rest h)) = 4 \<Longrightarrow> length (PerfFileHeader_bytes be h) = 104"
  by (simp add: PerfFileHeader_bytes_def)

lemma PerfFileHeaderRest_of_bytes_bytes [simp]:
  "length (fr_flags r) = 4 \<Longrightarrow> PerfFileHeaderRest_of_bytes be (PerfFileHeaderRest_bytes be r @ x) = r"
proof -
  assume "length (fr_flags r) = 4"
  then obtain a b c d where f: "fr_flags r = [a, b, c, d]" by (auto simp: eval_nat_numeral length_Suc_conv)
  have s: "word_at be (PerfFileSection_bytes be s @ y) (16 + n) = word_at be y n" for s y n
    by (simp add: word_at_skip PerfFileSection_bytes_def)
  show ?thesis
    using f s [of _ _ 0] s
    by (simp add: PerfFileHeaderRest_of_bytes_def PerfFileHeaderRest_bytes_def upt_rec word_at_skip)
qed

text \<open>
  Where the remembered position is the position of the file, the operations read the bytes at that position.
\<close>

definition file_at :: "InputFile \<Rightarrow> bool" where
  "file_at f \<longleftrightarrow> in_seek f = in_pos f \<and> in_pos f \<le> length (in_bytes f)"

lemma seek_then_read:
  assumes "file_at f" "in_len f = length (in_bytes f)" "in_bytes f = a @ b @ c" "p = length a" "n = length b"
  shows "seek_absolute p f = (Inr p, f\<lparr>in_seek := p, in_pos := p\<rparr>)"
    "read_exact n (f\<lparr>in_seek := p, in_pos := p\<rparr>) = (Inr b, f\<lparr>in_seek := p + n, in_pos := p + n\<rparr>)"
  using assms by (auto simp: seek_absolute_def read_exact_def file_at_def)

lemma write_all_end: "out_pos f = length (out_bytes f) \<Longrightarrow> write_all d f = \<lparr>out_bytes = out_bytes f @ d, out_pos = length (out_bytes f @ d)\<rparr>"
  by (simp add: write_all_def overwrite_def)

end
