(* ===== verification/Perf_Event_Data.thy ===== *)
theory Perf_Event_Data
  imports Perf_Abi Perf_Session Event_Format
begin

text \<open>
  \<open>tracepoint_decode/src/perf_event_desc.rs\<close> and \<open>perf_event_data.rs\<close>: the description of an event (its
  \<open>perf_event_attr\<close>, name, format and ids) and what is known of one event: its bytes, the fields of its
  sample record and the ranges of its variable parts.
\<close>

section \<open>PerfEventDesc\<close>

record PerfEventDesc =
  pd_attr :: PerfEventAttr
  pd_name :: bytes
  pd_format :: "PerfEventFormat option"
  pd_ids :: "u64 list"

definition update_name :: "PerfEventDesc \<Rightarrow> PerfEventDesc" where
  "update_name d =
     (if pd_name d = [] then
        (case pd_format d of
           Some f \<Rightarrow> d\<lparr>pd_name := ef_system_name f @ [0x3A] @ ef_name f\<rparr>
         | None \<Rightarrow> d)
      else d)"

definition PerfEventDesc_new ::
  "PerfEventAttr \<Rightarrow> bytes \<Rightarrow> PerfEventFormat option \<Rightarrow> u64 list \<Rightarrow> PerfEventDesc" where
  "PerfEventDesc_new attr name fmt ids = update_name \<lparr>pd_attr = attr, pd_name = name, pd_format = fmt, pd_ids = ids\<rparr>"

definition set_format :: "PerfEventFormat \<Rightarrow> PerfEventDesc \<Rightarrow> PerfEventDesc" where
  "set_format fmt d = update_name (d\<lparr>pd_format := Some fmt\<rparr>)"

lemma update_name_simps [simp]:
  "pd_attr (update_name d) = pd_attr d" "pd_format (update_name d) = pd_format d" "pd_ids (update_name d) = pd_ids d"
  by (simp_all add: update_name_def split: option.split)

lemma PerfEventDesc_new_simps [simp]:
  "pd_attr (PerfEventDesc_new a n f i) = a" "pd_format (PerfEventDesc_new a n f i) = f" "pd_ids (PerfEventDesc_new a n f i) = i"
  by (simp_all add: PerfEventDesc_new_def)

lemma set_format_simps [simp]:
  "pd_attr (set_format f d) = pd_attr d" "pd_format (set_format f d) = Some f" "pd_ids (set_format f d) = pd_ids d"
  by (simp_all add: set_format_def)

section \<open>The bytes of an event\<close>

record PerfEventBytes =
  pb_header :: PerfEventHeader
  pb_data :: bytes

definition PerfEventBytes_new :: "bool \<Rightarrow> PerfEventHeader \<Rightarrow> bytes \<Rightarrow> PerfEventBytes option" where
  "PerfEventBytes_new dbg header data = do {
     debug_assert dbg (length data \<ge> PERF_EVENT_HEADER_SIZE);
     Some \<lparr>pb_header = header, pb_data = data\<rparr>
   }"

section \<open>What is known of an event\<close>

record PerfNonSampleEventInfo =
  ni_data :: bytes
  ni_session_info :: PerfSessionInfo
  ni_event_desc :: PerfEventDesc
  ni_id :: u64
  ni_cpu :: u32
  ni_cpu_reserved :: u32
  ni_stream_id :: u64
  ni_time :: u64
  ni_pid :: u32
  ni_tid :: u32

definition PerfNonSampleEventInfo_new ::
  "bool \<Rightarrow> bytes \<Rightarrow> PerfSessionInfo \<Rightarrow> PerfEventDesc \<Rightarrow> PerfNonSampleEventInfo option" where
  "PerfNonSampleEventInfo_new dbg data s d = do {
     debug_assert dbg (length data \<ge> PERF_EVENT_HEADER_SIZE);
     Some \<lparr>ni_data = data, ni_session_info = s, ni_event_desc = d, ni_id = 0, ni_cpu = 0, ni_cpu_reserved = 0,
       ni_stream_id = 0, ni_time = 0, ni_pid = 0, ni_tid = 0\<rparr>
   }"

text \<open>Ranges are \<open>Range<u16>\<close>: a start and an end.\<close>

record PerfSampleEventInfo =
  si_data :: bytes
  si_session_info :: PerfSessionInfo
  si_event_desc :: PerfEventDesc
  si_id :: u64
  si_ip :: u64
  si_pid :: u32
  si_tid :: u32
  si_time :: u64
  si_addr :: u64
  si_stream_id :: u64
  si_cpu :: u32
  si_cpu_reserved :: u32
  si_period :: u64
  si_read_range :: "nat \<times> nat"
  si_callchain_range :: "nat \<times> nat"
  si_raw_range :: "nat \<times> nat"

definition PerfSampleEventInfo_new :: "bool \<Rightarrow> bytes \<Rightarrow> PerfSessionInfo \<Rightarrow> PerfEventDesc \<Rightarrow> PerfSampleEventInfo option" where
  "PerfSampleEventInfo_new dbg data s d = do {
     debug_assert dbg (length data \<ge> PERF_EVENT_HEADER_SIZE);
     Some \<lparr>si_data = data, si_session_info = s, si_event_desc = d, si_id = 0, si_ip = 0, si_pid = 0, si_tid = 0,
       si_time = 0, si_addr = 0, si_stream_id = 0, si_cpu = 0, si_cpu_reserved = 0, si_period = 0,
       si_read_range = (0, 0), si_callchain_range = (0, 0), si_raw_range = (0, 0)\<rparr>
   }"

definition event_header_of :: "target \<Rightarrow> PerfSessionInfo \<Rightarrow> bytes \<Rightarrow> PerfEventHeader option" where
  "event_header_of tgt s data = do {
     a \<leftarrow> slice data 0 8;
     Some (PerfEventHeader_from_bytes tgt a (si_byte_reader s))
   }"

definition si_header :: "target \<Rightarrow> PerfSampleEventInfo \<Rightarrow> PerfEventHeader option" where
  "si_header tgt i = event_header_of tgt (si_session_info i) (si_data i)"

definition ni_header :: "target \<Rightarrow> PerfNonSampleEventInfo \<Rightarrow> PerfEventHeader option" where
  "ni_header tgt i = event_header_of tgt (ni_session_info i) (ni_data i)"

definition sample_time_spec :: "bool \<Rightarrow> PerfSampleEventInfo \<Rightarrow> PerfTimeSpec option" where
  "sample_time_spec dbg i = time_to_time_spec dbg (si_session_info i) (si_time i)"

definition non_sample_time_spec :: "bool \<Rightarrow> PerfNonSampleEventInfo \<Rightarrow> PerfTimeSpec option" where
  "non_sample_time_spec dbg i = time_to_time_spec dbg (ni_session_info i) (ni_time i)"

definition si_read_format :: "PerfSampleEventInfo \<Rightarrow> bytes option" where
  "si_read_format i = slice (si_data i) (fst (si_read_range i)) (snd (si_read_range i))"

definition si_callchain :: "PerfSampleEventInfo \<Rightarrow> bytes option" where
  "si_callchain i = slice (si_data i) (fst (si_callchain_range i)) (snd (si_callchain_range i))"

definition si_raw_data :: "PerfSampleEventInfo \<Rightarrow> bytes option" where
  "si_raw_data i = slice (si_data i) (fst (si_raw_range i)) (snd (si_raw_range i))"

definition si_user_data :: "bool \<Rightarrow> PerfSampleEventInfo \<Rightarrow> bytes option" where
  "si_user_data dbg i =
     (case pd_format (si_event_desc i) of
        Some fmt \<Rightarrow> do {
          raw_len \<leftarrow> usub 16 dbg (snd (si_raw_range i)) (fst (si_raw_range i));
          let user_offset = ef_common_fields_size fmt;
          (if user_offset \<le> raw_len then do {
             a \<leftarrow> uadd 16 dbg (fst (si_raw_range i)) user_offset;
             slice (si_data i) a (snd (si_raw_range i))
           }
           else Some [])
        }
      | None \<Rightarrow> Some [])"

section \<open>Well-formed infos\<close>

definition data_range :: "bytes \<Rightarrow> nat \<times> nat \<Rightarrow> bool" where
  "data_range bs r \<longleftrightarrow> fst r \<le> snd r \<and> snd r \<le> length bs"

definition sample_info_ok :: "PerfSampleEventInfo \<Rightarrow> bool" where
  "sample_info_ok i \<longleftrightarrow> 8 \<le> length (si_data i) \<and> length (si_data i) < 2 ^ 16 \<and> data_range (si_data i) (si_read_range i)
     \<and> data_range (si_data i) (si_callchain_range i) \<and> data_range (si_data i) (si_raw_range i)"

lemma sample_info_access:
  assumes "sample_info_ok i"
  shows "\<exists>a. si_read_format i = Some a" "\<exists>a. si_callchain i = Some a" "\<exists>a. si_raw_data i = Some a"
    "\<exists>a. si_header tgt i = Some a"
    "si_raw_data i = Some raw \<Longrightarrow> si_user_data dbg i = Some (case pd_format (si_event_desc i) of
       Some fmt \<Rightarrow> if ef_common_fields_size fmt \<le> length raw then drop (ef_common_fields_size fmt) raw else []
     | None \<Rightarrow> [])"
  using assms
  by (auto simp: sample_info_ok_def data_range_def si_read_format_def si_callchain_def si_raw_data_def si_header_def
      event_header_of_def si_user_data_def add.commute take_drop split: option.split)

end
