(* ===== verification/Perf_Attrs.thy ===== *)
theory Perf_Attrs
  imports Perf_Event_Data
begin

unbundle bit_operations_syntax

text \<open>
  \<open>ReaderAttrs\<close> of \<open>tracepoint_perf/src/file_reader.rs\<close>: the event descriptions of a perf.data file, the map
  from sample ids to them, and the offsets at which the id and the time of an event are found. All
  events of a file have to agree on these offsets, since they are needed before the event's description is known.
  Then the two operations that decode an event with them, \<open>get_sample_event_info\<close> and \<open>get_non_sample_event_info\<close>.

  Offsets are \<open>i8\<close>; \<open>-1\<close> is unset, \<open>-2\<close> not present. The sums of at most six are far from overflow.
\<close>

section \<open>Descriptions\<close>

definition OFFSET_UNSET :: int where
  "OFFSET_UNSET = - 1"

definition OFFSET_NOT_PRESENT :: int where
  "OFFSET_NOT_PRESENT = - 2"

record ReaderAttrs =
  event_desc_list :: "PerfEventDesc list"
  event_desc_id_to_index :: "u64 \<rightharpoonup> nat"
  format_by_id :: "u32 \<rightharpoonup> PerfEventFormat"
  sample_id_offset :: int
  non_sample_id_offset :: int
  sample_time_offset :: int
  non_sample_time_offset :: int

definition ReaderAttrs_new :: ReaderAttrs where
  "ReaderAttrs_new = \<lparr>event_desc_list = [], event_desc_id_to_index = Map.empty, format_by_id = Map.empty,
     sample_id_offset = OFFSET_UNSET, non_sample_id_offset = OFFSET_UNSET,
     sample_time_offset = OFFSET_UNSET, non_sample_time_offset = OFFSET_UNSET\<rparr>"

definition ReaderAttrs_clear :: "ReaderAttrs \<Rightarrow> ReaderAttrs" where
  "ReaderAttrs_clear ra = \<lparr>event_desc_list = [], event_desc_id_to_index = Map.empty, format_by_id = Map.empty,
     sample_id_offset = OFFSET_UNSET, non_sample_id_offset = OFFSET_UNSET,
     sample_time_offset = OFFSET_UNSET, non_sample_time_offset = OFFSET_UNSET\<rparr>"

text \<open>\<open>s.push(b as char)\<close>: the UTF-8 of a Latin-1 character.\<close>

definition latin1_char :: "u8 \<Rightarrow> bytes" where
  "latin1_char b = (if b < 0x80 then [b] else [0xC0 OR drop_bit 6 b, 0x80 OR (b AND 0x3F)])"

definition string_from_latin1 :: "bytes \<Rightarrow> bytes" where
  "string_from_latin1 bs = concat (map latin1_char bs)"

fun chunks_exact :: "nat \<Rightarrow> 'a list \<Rightarrow> 'a list list" where
  "chunks_exact n xs = (if n = 0 \<or> length xs < n then [] else take n xs # chunks_exact n (drop n xs))"

declare chunks_exact.simps [simp del]

definition flag_count :: "u64 \<Rightarrow> u64 list \<Rightarrow> int" where
  "flag_count st flags = int (length (filter (has_flag st) flags))"

definition id_offsets :: "u64 \<Rightarrow> int \<times> int" where
  "id_offsets st =
     (if has_flag st SampleType_Identifier then (8, 8)
      else if \<not> has_flag st SampleType_Id then (OFFSET_NOT_PRESENT, OFFSET_NOT_PRESENT)
      else (8 * (1 + flag_count st [SampleType_IP, SampleType_Tid, SampleType_Time, SampleType_Addr]),
            8 * (1 + flag_count st [SampleType_Cpu, SampleType_StreamId])))"

definition time_offsets :: "u64 \<Rightarrow> int \<times> int" where
  "time_offsets st =
     (if \<not> has_flag st SampleType_Time then (OFFSET_NOT_PRESENT, OFFSET_NOT_PRESENT)
      else (8 * (1 + flag_count st [SampleType_Identifier, SampleType_IP, SampleType_Tid]),
            8 * (1 + flag_count st [SampleType_Identifier, SampleType_Cpu, SampleType_StreamId, SampleType_Id])))"

definition attr_from_file :: "target \<Rightarrow> PerfByteReader \<Rightarrow> bytes \<Rightarrow> PerfEventAttr option" where
  "attr_from_file tgt r attr_bytes = do {
     debug_assert (debug_assertions tgt) (length attr_bytes \<le> PERF_EVENT_ATTR_SIZE);
     rust_assert (length attr_bytes \<le> PERF_EVENT_ATTR_SIZE);
     let attr = PerfEventAttr_of_bytes (big_endian tgt)
       (attr_bytes @ replicate (PERF_EVENT_ATTR_SIZE - length attr_bytes) 0);
     let attr = (if byte_swap_needed tgt r then PerfEventAttr_byte_swap attr else attr);
     Some (attr\<lparr>at_attr_size := word_of_nat (length attr_bytes)\<rparr>)
   }"

definition all_offsets :: "PerfEventAttr \<Rightarrow> int \<times> int \<times> int \<times> int" where
  "all_offsets attr =
     (let (si, ni) = id_offsets (at_sample_type attr); (st, nt) = time_offsets (at_sample_type attr) in
      if \<not> has_flag (at_options attr) Options_SampleIdAll then (si, OFFSET_NOT_PRESENT, st, OFFSET_NOT_PRESENT)
      else (si, ni, st, nt))"

text \<open>Each offset is stored when it is unset; a different offset ends the operation.\<close>

definition agrees :: "int \<Rightarrow> int \<Rightarrow> bool" where
  "agrees new old \<longleftrightarrow> new = old \<or> old = OFFSET_UNSET"

definition set_offsets :: "int \<times> int \<times> int \<times> int \<Rightarrow> ReaderAttrs \<Rightarrow> bool \<times> ReaderAttrs" where
  "set_offsets offs ra =
     (let (si, ni, st, nt) = offs in
      if \<not> agrees si (sample_id_offset ra) then (False, ra)
      else let ra = ra\<lparr>sample_id_offset := si\<rparr> in
      if \<not> agrees ni (non_sample_id_offset ra) then (False, ra)
      else let ra = ra\<lparr>non_sample_id_offset := ni\<rparr> in
      if \<not> agrees st (sample_time_offset ra) then (False, ra)
      else let ra = ra\<lparr>sample_time_offset := st\<rparr> in
      if \<not> agrees nt (non_sample_time_offset ra) then (False, ra)
      else (True, ra\<lparr>non_sample_time_offset := nt\<rparr>))"

definition read_ids :: "PerfByteReader \<Rightarrow> bytes \<Rightarrow> u64 list option" where
  "read_ids r ids_bytes = those (map (read_u64 r) (chunks_exact 8 ids_bytes))"

definition add_attr ::
  "target \<Rightarrow> PerfByteReader \<Rightarrow> bytes \<Rightarrow> bytes \<Rightarrow> bytes \<Rightarrow> ReaderAttrs \<Rightarrow> (bool \<times> ReaderAttrs) option" where
  "add_attr tgt r attr_bytes name ids_bytes ra = do {
     attr \<leftarrow> attr_from_file tgt r attr_bytes;
     let (ok, ra) = set_offsets (all_offsets attr) ra;
     (if \<not> ok then Some (False, ra)
      else do {
        ids \<leftarrow> read_ids r ids_bytes;
        let fmt = (if at_attr_type attr \<noteq> AttrType_Tracepoint then None else format_by_id ra (ucast (at_attr_config attr)));
        let event_desc_index = length (event_desc_list ra);
        let desc = PerfEventDesc_new attr (string_from_latin1 name) fmt ids;
        Some (True, ra\<lparr>event_desc_list := event_desc_list ra @ [desc],
          event_desc_id_to_index := foldl (\<lambda>m k. m(k \<mapsto> event_desc_index)) (event_desc_id_to_index ra) ids\<rparr>)
      })
   }"

section \<open>Results\<close>

text \<open>A \<open>Result\<close> that may panic; \<open>and_then\<close> is the operator \<open>?\<close>.\<close>

datatype PerfDataFileError = FileInvalidData | IdNotFound | FileNotSupported | NoData

definition and_then :: "('e + 'a) option \<Rightarrow> ('a \<Rightarrow> ('e + 'b) option) \<Rightarrow> ('e + 'b) option" where
  "and_then m f = (case m of None \<Rightarrow> Panic | Some (Inl e) \<Rightarrow> Some (Inl e) | Some (Inr x) \<Rightarrow> f x)"

lemma and_then_simps [simp]:
  "and_then None f = None" "and_then (Some (Inl e)) f = Some (Inl e)" "and_then (Some (Inr x)) f = f x"
  by (simp_all add: and_then_def)

text \<open>
  The body of both operations is a sequence of parts, one for each kind of field that the sample type of the
  event can have. A part has the position and the info collected so far.
\<close>

type_synonym 'i part = "nat \<times> 'i \<Rightarrow> (PerfDataFileError + nat \<times> 'i) option"

definition part_if :: "bool \<Rightarrow> 'i part \<Rightarrow> 'i part" where
  "part_if b p s = (if b then p s else Some (Inr s))"

fun run_parts :: "'i part list \<Rightarrow> 'i part" where
  "run_parts [] s = Some (Inr s)"
| "run_parts (p # ps) s = and_then (p s) (run_parts ps)"

section \<open>Sample events\<close>

definition part_identifier :: "bool \<Rightarrow> nat \<Rightarrow> 'i part" where
  "part_identifier dbg end_pos s = do {
     debug_assert dbg (fst s \<noteq> end_pos);
     pos \<leftarrow> uadd 64 dbg (fst s) 8;
     Some (Inr (pos, snd s))
   }"

definition part_skip :: "bool \<Rightarrow> nat \<Rightarrow> 'i part" where
  "part_skip dbg end_pos s =
     (if fst s = end_pos then Some (Inl FileInvalidData)
      else do {
        pos \<leftarrow> uadd 64 dbg (fst s) 8;
        Some (Inr (pos, snd s))
      })"

definition part_u64 :: "bool \<Rightarrow> PerfByteReader \<Rightarrow> bytes \<Rightarrow> nat \<Rightarrow> (u64 \<Rightarrow> 'i \<Rightarrow> 'i) \<Rightarrow> 'i part" where
  "part_u64 dbg r data end_pos upd s =
     (if fst s = end_pos then Some (Inl FileInvalidData)
      else do {
        d \<leftarrow> slice_from data (fst s);
        v \<leftarrow> read_u64 r d;
        pos \<leftarrow> uadd 64 dbg (fst s) 8;
        Some (Inr (pos, upd v (snd s)))
      })"

definition part_u32s :: "bool \<Rightarrow> PerfByteReader \<Rightarrow> bytes \<Rightarrow> nat \<Rightarrow> (u32 \<Rightarrow> u32 \<Rightarrow> 'i \<Rightarrow> 'i) \<Rightarrow> 'i part" where
  "part_u32s dbg r data end_pos upd s =
     (if fst s = end_pos then Some (Inl FileInvalidData)
      else do {
        d \<leftarrow> slice_from data (fst s);
        v \<leftarrow> read_u32 r d;
        pos \<leftarrow> uadd 64 dbg (fst s) 4;
        d \<leftarrow> slice_from data pos;
        w \<leftarrow> read_u32 r d;
        pos \<leftarrow> uadd 64 dbg pos 4;
        Some (Inr (pos, upd v w (snd s)))
      })"

definition SUPPORTED_READ_FORMATS :: u64 where
  "SUPPORTED_READ_FORMATS = ReadFormat_TotalTimeEnabled OR ReadFormat_TotalTimeRunning OR ReadFormat_Id
     OR ReadFormat_Group OR ReadFormat_Lost"

definition flag_nat :: "u64 \<Rightarrow> u64 \<Rightarrow> nat" where
  "flag_nat self flag = (if has_flag self flag then 1 else 0)"

text \<open>Sizes and counts stay far below 2^64: a record has less than 2^13 counters or frames.\<close>

definition part_read :: "bool \<Rightarrow> PerfByteReader \<Rightarrow> bytes \<Rightarrow> nat \<Rightarrow> u64 \<Rightarrow> PerfSampleEventInfo part" where
  "part_read dbg r data end_pos rf s =
     (let start = ucast_to 16 (fst s) in
      if rf AND NOT SUPPORTED_READ_FORMATS \<noteq> 0 then Some (Inl FileNotSupported)
      else if \<not> has_flag rf ReadFormat_Group then do {
        let items_count = 1 + flag_nat rf ReadFormat_TotalTimeEnabled + flag_nat rf ReadFormat_TotalTimeRunning
          + flag_nat rf ReadFormat_Id + flag_nat rf ReadFormat_Lost;
        let sz = items_count * 8;
        left \<leftarrow> usub 64 dbg end_pos (fst s);
        (if left < sz then Some (Inl FileInvalidData)
         else do {
           pos \<leftarrow> uadd 64 dbg (fst s) sz;
           Some (Inr (pos, (snd s)\<lparr>si_read_range := (start, ucast_to 16 pos)\<rparr>))
         })
      }
      else if fst s = end_pos then Some (Inl FileInvalidData)
      else do {
        d \<leftarrow> slice_from data (fst s);
        nr \<leftarrow> read_u64 r d;
        (if nr \<ge> 0x10000 div 8 then Some (Inl FileInvalidData)
         else do {
           let static_count = 1 + flag_nat rf ReadFormat_TotalTimeEnabled + flag_nat rf ReadFormat_TotalTimeRunning;
           let dyn_count = 1 + flag_nat rf ReadFormat_Id + flag_nat rf ReadFormat_Lost;
           let sz = 8 * (static_count + unat nr * dyn_count);
           left \<leftarrow> usub 64 dbg end_pos (fst s);
           (if left < sz then Some (Inl FileInvalidData)
            else do {
              pos \<leftarrow> uadd 64 dbg (fst s) sz;
              Some (Inr (pos, (snd s)\<lparr>si_read_range := (start, ucast_to 16 pos)\<rparr>))
            })
         })
      })"

definition part_callchain :: "bool \<Rightarrow> PerfByteReader \<Rightarrow> bytes \<Rightarrow> nat \<Rightarrow> PerfSampleEventInfo part" where
  "part_callchain dbg r data end_pos s =
     (if fst s = end_pos then Some (Inl FileInvalidData)
      else do {
        d \<leftarrow> slice_from data (fst s);
        nr \<leftarrow> read_u64 r d;
        (if nr \<ge> 0x10000 div 8 then Some (Inl FileInvalidData)
         else do {
           let sz = 8 * (1 + unat nr);
           left \<leftarrow> usub 64 dbg end_pos (fst s);
           (if left < sz then Some (Inl FileInvalidData)
            else do {
              pos \<leftarrow> uadd 64 dbg (fst s) sz;
              Some (Inr (pos, (snd s)\<lparr>si_callchain_range := (ucast_to 16 (fst s), ucast_to 16 pos)\<rparr>))
            })
         })
      })"

definition part_raw :: "bool \<Rightarrow> PerfByteReader \<Rightarrow> bytes \<Rightarrow> nat \<Rightarrow> PerfSampleEventInfo part" where
  "part_raw dbg r data end_pos s =
     (if fst s = end_pos then Some (Inl FileInvalidData)
      else do {
        d \<leftarrow> slice_from data (fst s);
        raw_size \<leftarrow> read_u32 r d;
        left \<leftarrow> usub 64 dbg end_pos (fst s);
        left \<leftarrow> usub 64 dbg left 4;
        (if unat raw_size > ucast_to 32 left then Some (Inl FileInvalidData)
         else do {
           let start = ucast_to 16 (fst s + 4);
           e \<leftarrow> uadd 16 dbg start (ucast_to 16 (unat raw_size));
           pos \<leftarrow> uadd 64 dbg (fst s) (and_not (4 + unat raw_size + 8 - 1) 7);
           Some (Inr (pos, (snd s)\<lparr>si_raw_range := (start, e)\<rparr>))
         })
      })"

definition sample_parts ::
  "bool \<Rightarrow> PerfByteReader \<Rightarrow> bytes \<Rightarrow> nat \<Rightarrow> PerfEventAttr \<Rightarrow> PerfSampleEventInfo part list" where
  "sample_parts dbg r data end_pos attr =
     (let st = at_sample_type attr in
      [part_if (has_flag st SampleType_Identifier) (part_identifier dbg end_pos),
       part_if (has_flag st SampleType_IP) (part_u64 dbg r data end_pos (\<lambda>v i. i\<lparr>si_ip := v\<rparr>)),
       part_if (has_flag st SampleType_Tid) (part_u32s dbg r data end_pos (\<lambda>v w i. i\<lparr>si_pid := v, si_tid := w\<rparr>)),
       part_if (has_flag st SampleType_Time) (part_u64 dbg r data end_pos (\<lambda>v i. i\<lparr>si_time := v\<rparr>)),
       part_if (has_flag st SampleType_Addr) (part_u64 dbg r data end_pos (\<lambda>v i. i\<lparr>si_addr := v\<rparr>)),
       part_if (has_flag st SampleType_Id) (part_skip dbg end_pos),
       part_if (has_flag st SampleType_StreamId) (part_u64 dbg r data end_pos (\<lambda>v i. i\<lparr>si_stream_id := v\<rparr>)),
       part_if (has_flag st SampleType_Cpu) (part_u32s dbg r data end_pos (\<lambda>v w i. i\<lparr>si_cpu := v, si_cpu_reserved := w\<rparr>)),
       part_if (has_flag st SampleType_Period) (part_u64 dbg r data end_pos (\<lambda>v i. i\<lparr>si_period := v\<rparr>)),
       part_if (has_flag st SampleType_Read) (part_read dbg r data end_pos (at_read_format attr)),
       part_if (has_flag st SampleType_Callchain) (part_callchain dbg r data end_pos),
       part_if (has_flag st SampleType_Raw) (part_raw dbg r data end_pos)])"

definition sample_info_start :: "bytes \<Rightarrow> PerfSessionInfo \<Rightarrow> PerfEventDesc \<Rightarrow> u64 \<Rightarrow> PerfSampleEventInfo" where
  "sample_info_start data s d k = \<lparr>si_data = data, si_session_info = s, si_event_desc = d, si_id = k, si_ip = 0, si_pid = 0,
     si_tid = 0, si_time = 0, si_addr = 0, si_stream_id = 0, si_cpu = 0, si_cpu_reserved = 0, si_period = 0,
     si_read_range = (0, 0), si_callchain_range = (0, 0), si_raw_range = (0, 0)\<rparr>"

definition get_sample_event_info ::
  "bool \<Rightarrow> PerfSessionInfo \<Rightarrow> ReaderAttrs \<Rightarrow> PerfEventBytes \<Rightarrow> (PerfDataFileError + PerfSampleEventInfo) option" where
  "get_sample_event_info dbg session ra eb =
     (let data = pb_data eb; r = si_byte_reader session in
      if sample_id_offset ra < 8 then Some (Inl NoData)
      else if nat (sample_id_offset ra) + 8 > length data then Some (Inl FileInvalidData)
      else do {
        d \<leftarrow> slice_from data (nat (sample_id_offset ra));
        k \<leftarrow> read_u64 r d;
        (case event_desc_id_to_index ra k of
           None \<Rightarrow> Some (Inl IdNotFound)
         | Some i \<Rightarrow> do {
             desc \<leftarrow> index (event_desc_list ra) i;
             debug_assert dbg (length data \<ge> 2 * 8);
             let end_pos = and_not (length data) 7;
             and_then (run_parts (sample_parts dbg r data end_pos (pd_attr desc)) (8, sample_info_start data session desc k))
               (\<lambda>(pos, info). do {
                 debug_assert dbg (pos \<le> end_pos);
                 Some (Inr info)
               })
           })
      })"

section \<open>Other events\<close>

text \<open>The fields are at the end of the record, in the opposite order, and are read backwards.\<close>

definition part_back :: "'i part" where
  "part_back s = (if fst s = 0 then Some (Inl FileInvalidData) else Some (Inr s))"

definition back_identifier :: "bool \<Rightarrow> 'i part" where
  "back_identifier dbg s = do {
     pos \<leftarrow> usub 64 dbg (fst s) 8;
     debug_assert dbg (pos \<noteq> 0);
     Some (Inr (pos, snd s))
   }"

definition back_cpu :: "bool \<Rightarrow> PerfByteReader \<Rightarrow> bytes \<Rightarrow> PerfNonSampleEventInfo part" where
  "back_cpu dbg r data s = do {
     pos \<leftarrow> usub 64 dbg (fst s) 4;
     d \<leftarrow> slice_from data pos;
     v \<leftarrow> read_u32 r d;
     pos \<leftarrow> usub 64 dbg pos 4;
     d \<leftarrow> slice_from data pos;
     w \<leftarrow> read_u32 r d;
     part_back (pos, (snd s)\<lparr>ni_cpu_reserved := v, ni_cpu := w\<rparr>)
   }"

definition back_u64 :: "bool \<Rightarrow> PerfByteReader \<Rightarrow> bytes \<Rightarrow> (u64 \<Rightarrow> 'i \<Rightarrow> 'i) \<Rightarrow> 'i part" where
  "back_u64 dbg r data upd s = do {
     pos \<leftarrow> usub 64 dbg (fst s) 8;
     d \<leftarrow> slice_from data pos;
     v \<leftarrow> read_u64 r d;
     part_back (pos, upd v (snd s))
   }"

definition back_skip :: "bool \<Rightarrow> 'i part" where
  "back_skip dbg s = do {
     pos \<leftarrow> usub 64 dbg (fst s) 8;
     part_back (pos, snd s)
   }"

definition back_tid :: "bool \<Rightarrow> PerfByteReader \<Rightarrow> bytes \<Rightarrow> PerfNonSampleEventInfo part" where
  "back_tid dbg r data s = do {
     pos \<leftarrow> usub 64 dbg (fst s) 8;
     d \<leftarrow> slice_from data pos;
     v \<leftarrow> read_u32 r d;
     pos4 \<leftarrow> uadd 64 dbg pos 4;
     d \<leftarrow> slice_from data pos4;
     w \<leftarrow> read_u32 r d;
     part_back (pos, (snd s)\<lparr>ni_pid := v, ni_tid := w\<rparr>)
   }"

definition non_sample_parts :: "bool \<Rightarrow> PerfByteReader \<Rightarrow> bytes \<Rightarrow> u64 \<Rightarrow> PerfNonSampleEventInfo part list" where
  "non_sample_parts dbg r data st =
     [part_if (has_flag st SampleType_Identifier) (back_identifier dbg),
      part_if (has_flag st SampleType_Cpu) (back_cpu dbg r data),
      part_if (has_flag st SampleType_StreamId) (back_u64 dbg r data (\<lambda>v i. i\<lparr>ni_stream_id := v\<rparr>)),
      part_if (has_flag st SampleType_Id) (back_skip dbg),
      part_if (has_flag st SampleType_Time) (back_u64 dbg r data (\<lambda>v i. i\<lparr>ni_time := v\<rparr>)),
      part_if (has_flag st SampleType_Tid) (back_tid dbg r data)]"

definition get_non_sample_event_info ::
  "bool \<Rightarrow> PerfSessionInfo \<Rightarrow> ReaderAttrs \<Rightarrow> PerfEventBytes \<Rightarrow> (PerfDataFileError + PerfNonSampleEventInfo) option" where
  "get_non_sample_event_info dbg session ra eb =
     (let data = pb_data eb; r = si_byte_reader session in
      if ph_ty (pb_header eb) \<ge> HeaderType_UserTypeStart then Some (Inl IdNotFound)
      else if non_sample_id_offset ra < 8 then Some (Inl NoData)
      else if nat (non_sample_id_offset ra) > length data then Some (Inl FileInvalidData)
      else do {
        d \<leftarrow> slice_from data (length data - nat (non_sample_id_offset ra));
        k \<leftarrow> read_u64 r d;
        (case event_desc_id_to_index ra k of
           None \<Rightarrow> Some (Inl IdNotFound)
         | Some i \<Rightarrow> do {
             desc \<leftarrow> index (event_desc_list ra) i;
             debug_assert dbg (length data \<ge> 8 * 2);
             and_then (run_parts (non_sample_parts dbg r data (at_sample_type (pd_attr desc)))
               (and_not (length data) 7, \<lparr>ni_data = data, ni_session_info = session, ni_event_desc = desc, ni_id = k,
                  ni_cpu = 0, ni_cpu_reserved = 0, ni_stream_id = 0, ni_time = 0, ni_pid = 0, ni_tid = 0\<rparr>))
               (\<lambda>(pos, info). do {
                 debug_assert dbg (pos \<ge> 8);
                 debug_assert dbg (pos < 0x10000 div 8);
                 Some (Inr info)
               })
           })
      })"

end
