(* ===== verification/Event_Info.thy ===== *)
theory Event_Info
  imports Perf_Attrs
begin

unbundle bit_operations_syntax

text \<open>
  What the reader's event descriptions and event infos guarantee: the invariant of \<open>ReaderAttrs\<close>, that every
  \<open>add_attr\<close> keeps it, and that decoding the record of an event on any bytes does not panic and gives ranges
  inside the record.
\<close>

section \<open>Ids\<close>

lemma chunks_exact_length: "c \<in> set (chunks_exact n xs) \<Longrightarrow> length c = n"
  by (induction n xs rule: chunks_exact.induct) (subst (asm) (2) chunks_exact.simps, auto split: if_splits)

lemma those_total: "\<forall>x \<in> set xs. \<exists>y. f x = Some y \<Longrightarrow> \<exists>ys. those (map f xs) = Some ys"
  by (induction xs) auto

lemma read_u64_total: "8 \<le> length d \<Longrightarrow> \<exists>v. read_u64 r d = Some v"
  by (simp add: read_u64_def)

lemma read_u32_total: "4 \<le> length d \<Longrightarrow> \<exists>v. read_u32 r d = Some v"
  by (simp add: read_u32_def)

lemma read_u64_at: "p + 8 \<le> length d \<Longrightarrow> \<exists>v. read_u64 r (drop p d) = Some v"
  by (simp add: read_u64_def)

lemma read_u32_at: "p + 4 \<le> length d \<Longrightarrow> \<exists>v. read_u32 r (drop p d) = Some v"
  by (simp add: read_u32_def)

lemma read_ids_total: "\<exists>ids. read_ids r b = Some ids"
  unfolding read_ids_def by (rule those_total) (use chunks_exact_length read_u64_total in fastforce)

lemma read_ids_written: "read_ids (PerfByteReader_new be) (concat (map (word_bytes be) ids)) = Some ids"
proof (induction ids)
  case Nil
  then show ?case by (simp add: read_ids_def chunks_exact.simps)
next
  case (Cons k ids)
  have "read_u64 (PerfByteReader_new be) (word_bytes be k) = Some k"
    using read_u64_encoded [of be k "[]"] by (simp add: word_bytes_def)
  with Cons show ?case by (simp add: read_ids_def chunks_exact.simps [of _ "word_bytes be k @ _"])
qed

lemma foldl_map_upd: "foldl (\<lambda>m k. m(k \<mapsto> v)) m ks k = (if k \<in> set ks then Some v else m k)"
  by (induction ks arbitrary: m) auto

section \<open>The invariant of the descriptions\<close>

definition offsets :: "ReaderAttrs \<Rightarrow> int \<times> int \<times> int \<times> int" where
  "offsets ra = (sample_id_offset ra, non_sample_id_offset ra, sample_time_offset ra, non_sample_time_offset ra)"

definition attrs_inv :: "ReaderAttrs \<Rightarrow> bool" where
  "attrs_inv ra \<longleftrightarrow>
     (event_desc_list ra = [] \<longrightarrow> offsets ra = (OFFSET_UNSET, OFFSET_UNSET, OFFSET_UNSET, OFFSET_UNSET))
     \<and> (\<forall>d \<in> set (event_desc_list ra). all_offsets (pd_attr d) = offsets ra)
     \<and> (\<forall>k i. event_desc_id_to_index ra k = Some i \<longrightarrow>
          i < length (event_desc_list ra) \<and> k \<in> set (pd_ids (event_desc_list ra ! i)))"

lemma attrs_inv_new: "attrs_inv ReaderAttrs_new"
  by (simp add: attrs_inv_def offsets_def ReaderAttrs_new_def)

lemma flag_count_nonneg [simp]: "0 \<le> flag_count st fs"
  by (simp add: flag_count_def)

lemma flag_count_bound: "flag_count st fs \<le> int (length fs)"
  by (simp add: flag_count_def)

lemma counted_offset:
  "x = - 2 \<or> x = 8 \<or> x = 8 * (1 + flag_count st fs) \<Longrightarrow> x = - 2 \<or> 8 \<le> x \<and> x \<le> 8 * (1 + int (length fs))"
  using flag_count_bound [of st fs] by auto

lemma all_offsets_range:
  assumes "all_offsets attr = (si, ni, st, nt)"
  shows "si = - 2 \<or> 8 \<le> si \<and> si \<le> 40" "ni = - 2 \<or> 8 \<le> ni \<and> ni \<le> 24" "st = - 2 \<or> 8 \<le> st \<and> st \<le> 32" "nt = - 2 \<or> 8 \<le> nt \<and> nt \<le> 40"
proof -
  note c = counted_offset [of _ "at_sample_type attr"]
  note defs = all_offsets_def id_offsets_def time_offsets_def OFFSET_NOT_PRESENT_def
  have 1: "si = - 2 \<or> si = 8 \<or> si = 8 * (1 + flag_count (at_sample_type attr) [SampleType_IP, SampleType_Tid, SampleType_Time, SampleType_Addr])"
    using assms by (auto simp: defs split: if_splits)
  have 2: "ni = - 2 \<or> ni = 8 \<or> ni = 8 * (1 + flag_count (at_sample_type attr) [SampleType_Cpu, SampleType_StreamId])"
    using assms by (auto simp: defs split: if_splits)
  have 3: "st = - 2 \<or> st = 8 \<or> st = 8 * (1 + flag_count (at_sample_type attr) [SampleType_Identifier, SampleType_IP, SampleType_Tid])"
    using assms by (auto simp: defs split: if_splits)
  have 4: "nt = - 2 \<or> nt = 8
      \<or> nt = 8 * (1 + flag_count (at_sample_type attr) [SampleType_Identifier, SampleType_Cpu, SampleType_StreamId, SampleType_Id])"
    using assms by (auto simp: defs split: if_splits)
  show "si = - 2 \<or> 8 \<le> si \<and> si \<le> 40" "ni = - 2 \<or> 8 \<le> ni \<and> ni \<le> 24" "st = - 2 \<or> 8 \<le> st \<and> st \<le> 32" "nt = - 2 \<or> 8 \<le> nt \<and> nt \<le> 40"
    using c [OF 1] c [OF 2] c [OF 3] c [OF 4] by simp_all
qed

lemma all_offsets_set:
  assumes "all_offsets attr = (si, ni, st, nt)"
  shows "si \<noteq> OFFSET_UNSET" "ni \<noteq> OFFSET_UNSET" "st \<noteq> OFFSET_UNSET" "nt \<noteq> OFFSET_UNSET"
  using all_offsets_range [OF assms] by (auto simp: OFFSET_UNSET_def)

lemma set_offsets_cases:
  assumes "attrs_inv ra"
  shows "set_offsets (all_offsets attr) ra =
    (if event_desc_list ra = [] \<or> offsets ra = all_offsets attr
     then (True, ra\<lparr>sample_id_offset := fst (all_offsets attr), non_sample_id_offset := fst (snd (all_offsets attr)),
       sample_time_offset := fst (snd (snd (all_offsets attr))), non_sample_time_offset := snd (snd (snd (all_offsets attr)))\<rparr>)
     else (False, ra))"
proof (cases "event_desc_list ra")
  case Nil
  then show ?thesis
    using assms by (auto simp: attrs_inv_def offsets_def set_offsets_def agrees_def Let_def split: prod.split)
next
  case (Cons d ds)
  then have o: "all_offsets (pd_attr d) = offsets ra" using assms by (simp add: attrs_inv_def)
  note n = all_offsets_set [OF o [unfolded offsets_def]]
  show ?thesis using n Cons by (auto simp: offsets_def set_offsets_def agrees_def Let_def split: prod.split)
qed

lemma attr_from_file_total: "length b \<le> 128 \<Longrightarrow> \<exists>a. attr_from_file tgt r b = Some a"
  by (simp add: attr_from_file_def debug_assert_def rust_assert_def Let_def)

text \<open>The descriptions with one more.\<close>

definition with_desc :: "PerfEventDesc \<Rightarrow> ReaderAttrs \<Rightarrow> ReaderAttrs" where
  "with_desc d ra =
     (let (si, ni, st, nt) = all_offsets (pd_attr d) in
      ra\<lparr>event_desc_list := event_desc_list ra @ [d],
         event_desc_id_to_index := (\<lambda>k. if k \<in> set (pd_ids d) then Some (length (event_desc_list ra)) else event_desc_id_to_index ra k),
         sample_id_offset := si, non_sample_id_offset := ni, sample_time_offset := st, non_sample_time_offset := nt\<rparr>)"

definition format_of_attr :: "PerfEventAttr \<Rightarrow> ReaderAttrs \<Rightarrow> PerfEventFormat option" where
  "format_of_attr attr ra = (if at_attr_type attr = AttrType_Tracepoint then format_by_id ra (ucast (at_attr_config attr)) else None)"

lemma with_desc_simps [simp]:
  "event_desc_list (with_desc d ra) = event_desc_list ra @ [d]" "format_by_id (with_desc d ra) = format_by_id ra"
  "event_desc_id_to_index (with_desc d ra) =
     (\<lambda>k. if k \<in> set (pd_ids d) then Some (length (event_desc_list ra)) else event_desc_id_to_index ra k)"
  "offsets (with_desc d ra) = all_offsets (pd_attr d)"
  by (simp_all add: with_desc_def offsets_def split: prod.split)

lemma add_attr_result:
  assumes inv: "attrs_inv ra" and attr: "attr_from_file tgt r attr_bytes = Some attr" and ids: "read_ids r ids_bytes = Some ids"
  shows "add_attr tgt r attr_bytes name ids_bytes ra =
    (if event_desc_list ra = [] \<or> offsets ra = all_offsets attr
     then Some (True, with_desc (PerfEventDesc_new attr (string_from_latin1 name) (format_of_attr attr ra) ids) ra)
     else Some (False, ra))"
proof -
  have f: "foldl (\<lambda>m k. m(k \<mapsto> v)) m ks = (\<lambda>k. if k \<in> set ks then Some v else m k)" for v m and ks :: "u64 list"
    by (rule ext) (simp add: foldl_map_upd)
  obtain si ni st nt where o: "all_offsets attr = (si, ni, st, nt)" by (cases "all_offsets attr") auto
  show ?thesis
    by (simp add: add_attr_def attr ids set_offsets_cases [OF inv] f o with_desc_def format_of_attr_def cong: if_cong)
qed

lemma with_desc_inv:
  assumes "attrs_inv ra" "event_desc_list ra = [] \<or> offsets ra = all_offsets (pd_attr d)"
  shows "attrs_inv (with_desc d ra)"
  using assms unfolding attrs_inv_def by (auto simp: nth_append dest: less_SucI split: if_splits)

lemma add_attr_inv:
  assumes inv: "attrs_inv ra" and "add_attr tgt r attr_bytes name ids_bytes ra = Some (ok, ra')"
  shows "attrs_inv ra'"
proof -
  obtain attr where a: "attr_from_file tgt r attr_bytes = Some attr"
    using assms(2) by (auto simp: add_attr_def bind_eq_Some_conv)
  obtain ids where ids: "read_ids r ids_bytes = Some ids" using read_ids_total by blast
  show ?thesis
    using assms(2) with_desc_inv [OF inv] inv unfolding add_attr_result [OF inv a ids] by (auto split: if_splits)
qed

section \<open>Safety of the parts\<close>

definition part_safe :: "(nat \<times> 'i \<Rightarrow> bool) \<Rightarrow> 'i part \<Rightarrow> bool" where
  "part_safe I p \<longleftrightarrow> (\<forall>s. I s \<longrightarrow> wp (p s) (\<lambda>r. \<forall>s'. r = Inr s' \<longrightarrow> I s'))"

lemma part_safe_if: "part_safe I p \<Longrightarrow> part_safe I (part_if b p)"
  by (simp add: part_safe_def part_if_def)

lemma wp_and_then:
  "wp m (\<lambda>r. \<forall>x. r = Inr x \<longrightarrow> wp (f x) Q) \<Longrightarrow> (\<And>e. Q (Inl e)) \<Longrightarrow> wp (and_then m f) Q"
  by (cases m) (auto simp: and_then_def split: sum.splits)

lemma run_parts_safe: "\<forall>p \<in> set ps. part_safe I p \<Longrightarrow> part_safe I (run_parts ps)"
proof (induction ps)
  case (Cons p ps)
  then have p: "part_safe I p" and ps: "part_safe I (run_parts ps)" by simp_all
  show ?case unfolding part_safe_def run_parts.simps
  proof (intro allI impI wp_and_then)
    fix s assume "I s"
    with p have "wp (p s) (\<lambda>r. \<forall>x. r = Inr x \<longrightarrow> I x)" unfolding part_safe_def by blast
    then show "wp (p s) (\<lambda>r. \<forall>x. r = Inr x \<longrightarrow> wp (run_parts ps x) (\<lambda>r. \<forall>s'. r = Inr s' \<longrightarrow> I s'))"
      by (rule wp_mono) (use ps in \<open>unfold part_safe_def, blast\<close>)
  qed simp
qed (simp add: part_safe_def)

text \<open>
  While a sample is decoded, the position is a multiple of 8 up to \<open>end_pos\<close>, and the ranges found so far
  are in the data.
\<close>

definition sample_inv :: "bytes \<Rightarrow> nat \<Rightarrow> nat \<times> PerfSampleEventInfo \<Rightarrow> bool" where
  "sample_inv data e s \<longleftrightarrow> 8 dvd fst s \<and> fst s \<le> e \<and> si_data (snd s) = data
     \<and> data_range data (si_read_range (snd s)) \<and> data_range data (si_callchain_range (snd s)) \<and> data_range data (si_raw_range (snd s))"

definition sample_end :: "bytes \<Rightarrow> nat \<Rightarrow> bool" where
  "sample_end data e \<longleftrightarrow> 8 dvd e \<and> e \<le> length data \<and> length data < 2 ^ 16"

lemma aligned_room: "8 dvd p \<Longrightarrow> 8 dvd e \<Longrightarrow> p \<le> e \<Longrightarrow> p \<noteq> e \<Longrightarrow> p + 8 \<le> (e :: nat)"
  by presburger

lemma sample_room:
  assumes "sample_inv data e s" "sample_end data e" "fst s \<noteq> e"
  shows "fst s + 8 \<le> e" "fst s + 8 \<le> length data" "fst s + 8 < 2 ^ 64" "8 dvd (fst s + 8)"
  using assms aligned_room [of "fst s" e] by (auto simp: sample_inv_def sample_end_def)

lemma part_skip_safe:
  assumes e: "sample_end data e"
  shows "part_safe (sample_inv data e) (part_skip dbg e)"
  unfolding part_safe_def
proof (intro allI impI)
  fix s assume s: "sample_inv data e s"
  show "wp (part_skip dbg e s) (\<lambda>r. \<forall>s'. r = Inr s' \<longrightarrow> sample_inv data e s')"
    using s sample_room [OF s e] by (cases "fst s = e") (auto simp: part_skip_def sample_inv_def)
qed

lemma part_u64_safe:
  assumes e: "sample_end data e"
    and upd: "\<And>v i. si_data (upd v i) = si_data i \<and> si_read_range (upd v i) = si_read_range i
      \<and> si_callchain_range (upd v i) = si_callchain_range i \<and> si_raw_range (upd v i) = si_raw_range i"
  shows "part_safe (sample_inv data e) (part_u64 dbg r data e upd)"
  unfolding part_safe_def
proof (intro allI impI)
  fix s assume s: "sample_inv data e s"
  show "wp (part_u64 dbg r data e upd s) (\<lambda>r. \<forall>s'. r = Inr s' \<longrightarrow> sample_inv data e s')"
  proof (cases "fst s = e")
    case False
    note room = sample_room [OF s e False]
    obtain v where "read_u64 r (drop (fst s) data) = Some v" using read_u64_at [of "fst s" data r] room by auto
    with s room False upd show ?thesis by (simp add: part_u64_def sample_inv_def)
  qed (simp add: part_u64_def)
qed

lemma part_u32s_safe:
  assumes e: "sample_end data e"
    and upd: "\<And>v w i. si_data (upd v w i) = si_data i \<and> si_read_range (upd v w i) = si_read_range i
      \<and> si_callchain_range (upd v w i) = si_callchain_range i \<and> si_raw_range (upd v w i) = si_raw_range i"
  shows "part_safe (sample_inv data e) (part_u32s dbg r data e upd)"
  unfolding part_safe_def
proof (intro allI impI)
  fix s assume s: "sample_inv data e s"
  show "wp (part_u32s dbg r data e upd s) (\<lambda>r. \<forall>s'. r = Inr s' \<longrightarrow> sample_inv data e s')"
  proof (cases "fst s = e")
    case False
    note room = sample_room [OF s e False]
    obtain v where v: "read_u32 r (drop (fst s) data) = Some v" using read_u32_at [of "fst s" data r] room by auto
    obtain w where "read_u32 r (drop (fst s + 4) data) = Some w" using read_u32_at [of "fst s + 4" data r] room by auto
    with s v room False upd show ?thesis by (simp add: part_u32s_def sample_inv_def add.assoc)
  qed (simp add: part_u32s_def)
qed

lemma data_range_cast:
  "sample_end data e \<Longrightarrow> p \<le> q \<Longrightarrow> q \<le> e \<Longrightarrow> data_range data (ucast_to 16 p, ucast_to 16 q)"
  by (simp add: sample_end_def data_range_def)

lemma part_read_safe:
  assumes e: "sample_end data e"
  shows "part_safe (sample_inv data e) (part_read dbg r data e rf)"
  unfolding part_safe_def
proof (intro allI impI)
  fix s assume s: "sample_inv data e s"
  let ?Q = "\<lambda>r. \<forall>s'. r = Inr s' \<longrightarrow> sample_inv data e s'"
  have le: "fst s \<le> e" "8 dvd fst s" "e < 2 ^ 16" using s e by (auto simp: sample_inv_def sample_end_def)
  have ok: "sample_inv data e (fst s + sz, (snd s)\<lparr>si_read_range := (ucast_to 16 (fst s), ucast_to 16 (fst s + sz))\<rparr>)"
      "fst s + sz < 2 ^ 64"
    if "sz \<le> e - fst s" "8 dvd sz" for sz
    using s that le data_range_cast [OF e, of "fst s" "fst s + sz"] by (auto simp: sample_inv_def)
  show "wp (part_read dbg r data e rf s) ?Q"
  proof (cases "has_flag rf ReadFormat_Group \<and> fst s \<noteq> e")
    case True
    obtain nr where "read_u64 r (drop (fst s) data) = Some nr"
      using read_u64_at [of "fst s" data r] sample_room [OF s e] True by auto
    with True le sample_room [OF s e] ok show ?thesis by (simp add: part_read_def Let_def)
  next
    case False
    with le ok show ?thesis by (auto simp: part_read_def Let_def)
  qed
qed

lemma part_callchain_safe:
  assumes e: "sample_end data e"
  shows "part_safe (sample_inv data e) (part_callchain dbg r data e)"
  unfolding part_safe_def
proof (intro allI impI)
  fix s assume s: "sample_inv data e s"
  have le: "fst s \<le> e" "8 dvd fst s" "e < 2 ^ 16" using s e by (auto simp: sample_inv_def sample_end_def)
  have ok: "sample_inv data e (fst s + sz, (snd s)\<lparr>si_callchain_range := (ucast_to 16 (fst s), ucast_to 16 (fst s + sz))\<rparr>)"
      "fst s + sz < 2 ^ 64"
    if "sz \<le> e - fst s" "8 dvd sz" for sz
    using s that le data_range_cast [OF e, of "fst s" "fst s + sz"] by (auto simp: sample_inv_def)
  show "wp (part_callchain dbg r data e s) (\<lambda>r. \<forall>s'. r = Inr s' \<longrightarrow> sample_inv data e s')"
  proof (cases "fst s = e")
    case False
    obtain nr where "read_u64 r (drop (fst s) data) = Some nr"
      using read_u64_at [of "fst s" data r] sample_room [OF s e False] by auto
    with False le sample_room [OF s e] ok [of "8 * (1 + unat nr)"] show ?thesis by (simp add: part_callchain_def Let_def)
  qed (simp add: part_callchain_def)
qed

lemma and_not_7: "n < 2 ^ 64 \<Longrightarrow> and_not n 7 = n - n mod 8"
  using and_not_mask [of n 3] by simp

lemma align_down_ge: "8 * k \<le> n \<Longrightarrow> 8 * k \<le> n - n mod (8 :: nat)"
  using div_le_mono [of "8 * k" n 8] by (simp add: minus_mod_eq_mult_div)

lemma round_up_in:
  fixes p e v :: nat
  assumes "8 dvd p" "8 dvd e" "p + 8 \<le> e" "v \<le> e - p - 4"
  shows "p + (4 + v + 8 - 1 - (4 + v + 8 - 1) mod 8) \<le> e" "8 dvd p + (4 + v + 8 - 1 - (4 + v + 8 - 1) mod 8)"
proof -
  let ?n = "4 + v + 8 - 1"
  obtain a b where ab: "p = 8 * a" "e = 8 * b" using assms(1,2) by (auto elim!: dvdE)
  have "?n < (b - a + 1) * 8" using assms(3,4) ab by simp
  then have "?n div 8 \<le> b - a" using less_mult_imp_div_less [of ?n "b - a + 1" 8] by simp
  moreover have "?n - ?n mod 8 = 8 * (?n div 8)" by (simp add: minus_mod_eq_mult_div)
  ultimately show "p + (?n - ?n mod 8) \<le> e" "8 dvd p + (?n - ?n mod 8)" using assms(3) ab by simp_all
qed

lemma part_raw_safe:
  assumes e: "sample_end data e"
  shows "part_safe (sample_inv data e) (part_raw dbg r data e)"
  unfolding part_safe_def
proof (intro allI impI)
  fix s assume s: "sample_inv data e s"
  have le: "fst s \<le> e" "8 dvd fst s" "8 dvd e" "e < 2 ^ 16" "e \<le> length data" using s e by (auto simp: sample_inv_def sample_end_def)
  show "wp (part_raw dbg r data e s) (\<lambda>r. \<forall>s'. r = Inr s' \<longrightarrow> sample_inv data e s')"
  proof (cases "fst s = e")
    case False
    note room = sample_room [OF s e False]
    obtain v where v: "read_u32 r (drop (fst s) data) = Some v"
      using read_u32_at [of "fst s" data r] room by auto
    show ?thesis
    proof (cases "unat v > e - fst s - 4")
      case True
      with False le v room show ?thesis by (simp add: part_raw_def)
    next
      case small: False
      let ?n = "4 + unat v + 8 - 1"
      have n: "?n < 2 ^ 64" using small le by simp
      have up: "fst s + (?n - ?n mod 8) \<le> e" "8 dvd fst s + (?n - ?n mod 8)"
        using round_up_in [of "fst s" e "unat v"] small le room(1) by simp_all
      define q where "q = ?n - ?n mod 8"
      have q: "and_not (11 + unat v) 7 = q" "fst s + q \<le> e" "8 dvd fst s + q" using up and_not_7 [OF n] by (simp_all add: q_def)
      have "data_range data (fst s + 4, fst s + 4 + unat v)" using small le room by (auto simp: data_range_def)
      moreover have "unat v < 2 ^ 16" "fst s + 4 + unat v < 2 ^ 16" using small le room(1) by linarith+
      ultimately show ?thesis
        using False small le v room s q by (simp add: part_raw_def Let_def sample_inv_def)
    qed
  qed (simp add: part_raw_def)
qed

lemma sample_parts_safe:
  assumes e: "sample_end data e" and s: "sample_inv data e s" and i: "fst s = 8" "16 \<le> e"
  shows "wp (run_parts (sample_parts dbg r data e attr) s) (\<lambda>r. \<forall>s'. r = Inr s' \<longrightarrow> sample_inv data e s')"
proof -
  define ps where "ps = tl (sample_parts dbg r data e attr)"
  have ps: "sample_parts dbg r data e attr =
      part_if (has_flag (at_sample_type attr) SampleType_Identifier) (part_identifier dbg e) # ps"
    by (simp add: ps_def sample_parts_def Let_def)
  have safe: "\<forall>p \<in> set ps. part_safe (sample_inv data e) p"
    unfolding ps_def sample_parts_def Let_def list.sel
    by (auto intro!: part_safe_if part_u64_safe [OF e] part_u32s_safe [OF e] part_skip_safe [OF e] part_read_safe [OF e]
        part_callchain_safe [OF e] part_raw_safe [OF e])
  show ?thesis unfolding ps run_parts.simps
    by (rule wp_and_then)
      (use s i run_parts_safe [OF safe] in \<open>auto simp: part_if_def part_identifier_def part_safe_def sample_inv_def debug_assert_def\<close>)
qed

section \<open>Properties\<close>

text \<open>
  C18. \<open>add_attr\<close> keeps the descriptions of a file consistent. On any attribute of at most 128 bytes, any name
  and any list of ids it does not panic. Either it adds exactly one description, built from the attribute,
  after the others, and makes exactly its ids lead to it, which also sets the offsets of the first
  description; or it changes nothing at all and returns false, and that is so exactly when the attribute
  puts ids or times of events at other offsets than the attributes before it.
\<close>

theorem add_attr_correct:
  assumes "attrs_inv ra" "length attr_bytes \<le> 128"
  shows "\<exists>attr ids ok ra'. attr_from_file tgt r attr_bytes = Some attr \<and> read_ids r ids_bytes = Some ids
    \<and> add_attr tgt r attr_bytes name ids_bytes ra = Some (ok, ra')
    \<and> attrs_inv ra' \<and> (ok \<longleftrightarrow> event_desc_list ra = [] \<or> offsets ra = all_offsets attr)
    \<and> (if ok
       then event_desc_list ra' = event_desc_list ra @ [PerfEventDesc_new attr (string_from_latin1 name) (format_of_attr attr ra) ids]
         \<and> (\<forall>k. event_desc_id_to_index ra' k =
               (if k \<in> set ids then Some (length (event_desc_list ra)) else event_desc_id_to_index ra k))
         \<and> offsets ra' = all_offsets attr \<and> format_by_id ra' = format_by_id ra
       else ra' = ra)"
proof -
  obtain attr where a: "attr_from_file tgt r attr_bytes = Some attr" using attr_from_file_total [OF assms(2)] by blast
  obtain ids where i: "read_ids r ids_bytes = Some ids" using read_ids_total by blast
  note r = add_attr_result [OF assms(1) a i, of name]
  show ?thesis
  proof (cases "event_desc_list ra = [] \<or> offsets ra = all_offsets attr")
    case True
    with a i r add_attr_inv [OF assms(1)] show ?thesis by (intro exI [of _ attr] exI [of _ ids] exI [of _ True]) auto
  next
    case False
    with a i r assms(1) show ?thesis by (intro exI [of _ attr] exI [of _ ids] exI [of _ False]) auto
  qed
qed

theorem add_attr_correct_witness:
  "\<exists>ra'. add_attr \<lparr>big_endian = False, pointer64 = True, debug_assertions = True\<rparr> (PerfByteReader_new False)
      (replicate 64 0) [] [1, 0, 0, 0, 0, 0, 0, 0] ReaderAttrs_new = Some (True, ra')
    \<and> length (event_desc_list ra') = 1 \<and> event_desc_id_to_index ra' 1 = Some 0"
proof -
  have ids: "read_ids (PerfByteReader_new False) [1, 0, 0, 0, 0, 0, 0, 0] = Some [1]" by code_simp
  show ?thesis
    using add_attr_correct [OF attrs_inv_new, of "replicate 64 0" "\<lparr>big_endian = False, pointer64 = True, debug_assertions = True\<rparr>"
        "PerfByteReader_new False" "[1, 0, 0, 0, 0, 0, 0, 0]" "[]"] ids
    by (auto simp: ReaderAttrs_new_def)
qed

text \<open>
  C17. Decoding the record of a sample is safe: whatever the bytes of the record (up to the largest size of an
  event) and whatever attributes the file had, \<open>get_sample_event_info\<close> returns one of its errors or an info
  about these bytes, in debug builds without a failing assertion; then the read, callchain and raw ranges are in the bytes, so that none of
  the accessors \<open>header\<close>, \<open>read_format\<close>, \<open>callchain\<close>, \<open>raw_data\<close>, \<open>user_data\<close> panics.
\<close>

theorem sample_event_info_safe:
  assumes "attrs_inv ra" "length (pb_data eb) < 2 ^ 16"
  shows "\<exists>res. get_sample_event_info dbg session ra eb = Some res
    \<and> (\<forall>info. res = Inr info \<longrightarrow> sample_info_ok info \<and> si_data info = pb_data eb
        \<and> (\<exists>a b c h u. si_read_format info = Some a \<and> si_callchain info = Some b \<and> si_raw_data info = Some c
             \<and> si_header tgt info = Some h \<and> si_user_data dbg info = Some u))"
proof -
  have access: "\<exists>a b c h u. si_read_format i = Some a \<and> si_callchain i = Some b \<and> si_raw_data i = Some c
      \<and> si_header tgt i = Some h \<and> si_user_data dbg i = Some u" if "sample_info_ok i" for i
  proof -
    note ok = that
    obtain c where c: "si_raw_data i = Some c" using sample_info_access(3) [OF ok] by blast
    then show ?thesis
      using sample_info_access(1,2) [OF ok] sample_info_access(4) [OF ok, of tgt] sample_info_access(5) [OF ok c, of dbg] by blast
  qed
  have "wp (get_sample_event_info dbg session ra eb) (\<lambda>r. \<forall>i. r = Inr i \<longrightarrow> sample_info_ok i \<and> si_data i = pb_data eb)"
  proof (cases "sample_id_offset ra < 8 \<or> nat (sample_id_offset ra) + 8 > length (pb_data eb)")
    case True
    then show ?thesis by (auto simp: get_sample_event_info_def Let_def)
  next
    case False
    let ?d = "pb_data eb" and ?r = "si_byte_reader session"
    obtain k where k: "read_u64 ?r (drop (nat (sample_id_offset ra)) ?d) = Some k"
      using read_u64_at [of "nat (sample_id_offset ra)" ?d] False by auto
    have len: "16 \<le> length ?d" using False by auto
    have e: "and_not (length ?d) 7 = length ?d - length ?d mod 8" using assms(2) by (intro and_not_7) simp
    have fin: "sample_end ?d (and_not (length ?d) 7)" "16 \<le> and_not (length ?d) 7"
      unfolding e using assms(2) align_down_ge [of 2 "length ?d"] len by (auto simp: sample_end_def dvd_minus_mod)
    show ?thesis
    proof (cases "event_desc_id_to_index ra k")
      case None
      with False k show ?thesis by (auto simp: get_sample_event_info_def Let_def)
    next
      case (Some i)
      have i: "i < length (event_desc_list ra)" using assms(1) Some by (simp add: attrs_inv_def)
      let ?s = "(8, sample_info_start ?d session (event_desc_list ra ! i) k)"
      let ?run = "run_parts (sample_parts dbg ?r ?d (and_not (length ?d) 7) (pd_attr (event_desc_list ra ! i))) ?s"
      have "sample_inv ?d (and_not (length ?d) 7) ?s"
        using fin by (simp add: sample_inv_def sample_info_start_def data_range_def)
      from sample_parts_safe [OF fin(1) this _ fin(2)]
      have run: "wp ?run (\<lambda>r. \<forall>s'. r = Inr s' \<longrightarrow> sample_inv ?d (and_not (length ?d) 7) s')" by simp
      have "wp (and_then ?run (\<lambda>(pos, info). do { debug_assert dbg (pos \<le> and_not (length ?d) 7); Some (Inr info) }))
          (\<lambda>r. \<forall>i. r = Inr i \<longrightarrow> sample_info_ok i \<and> si_data i = ?d)"
        by (rule wp_and_then [OF wp_mono [OF run]])
          (use assms(2) len in \<open>auto simp: sample_inv_def sample_info_ok_def debug_assert_def\<close>)
      with False k Some i len show ?thesis by (auto simp: get_sample_event_info_def Let_def debug_assert_def)
    qed
  qed
  then show ?thesis using access by (auto simp: wp_iff)
qed

definition sample_desc :: PerfEventDesc where
  "sample_desc = \<lparr>pd_attr = (PerfEventAttr_of_bytes False (replicate 128 0))\<lparr>at_sample_type := 0x10407\<rparr>, pd_name = [],
     pd_format = None, pd_ids = [7]\<rparr>"

definition sample_attrs :: ReaderAttrs where
  "sample_attrs = with_desc sample_desc ReaderAttrs_new"

lemma sample_attrs_inv: "attrs_inv sample_attrs"
  unfolding sample_attrs_def by (rule with_desc_inv [OF attrs_inv_new]) (simp add: ReaderAttrs_new_def)

theorem sample_event_info_safe_witness:
  "attrs_inv sample_attrs
   \<and> get_sample_event_info True (PerfSessionInfo_new (PerfByteReader_new False)) sample_attrs
       \<lparr>pb_header = PerfEventHeader_new, pb_data = replicate 8 0 @ 7 # replicate 15 0\<rparr> \<noteq> None"
  using sample_attrs_inv sample_event_info_safe [OF sample_attrs_inv,
    of "\<lparr>pb_header = PerfEventHeader_new, pb_data = replicate 8 0 @ 7 # replicate 15 0\<rparr>" True
       "PerfSessionInfo_new (PerfByteReader_new False)"]
  by auto

end
