(* ===== verification/Sample_Record.thy ===== *)
theory Sample_Record
  imports Event_Info
begin

unbundle bit_operations_syntax

text \<open>
  The record of a sample as the kernel lays it out (\<open>PERF_RECORD_SAMPLE\<close> of \<open>perf_event.h\<close>): after the header, the
  fields that the sample type of its event selects, in a fixed order. \<open>sample_record\<close> writes such a record;
  the property is that \<open>get_sample_event_info\<close> reads it back.
\<close>

section \<open>The layout\<close>

record sample_fields =
  sf_id :: u64
  sf_ip :: u64
  sf_pid :: u32
  sf_tid :: u32
  sf_time :: u64
  sf_addr :: u64
  sf_stream_id :: u64
  sf_cpu :: u32
  sf_cpu_reserved :: u32
  sf_period :: u64
  sf_read :: bytes
  sf_callchain :: "u64 list"
  sf_raw :: bytes
  sf_raw_pad :: bytes

text \<open>The counter values of a read: a fixed number of words, or for a group of counters their number and then the words.\<close>

definition read_ok :: "bool \<Rightarrow> u64 \<Rightarrow> bytes \<Rightarrow> bool" where
  "read_ok be rf b \<longleftrightarrow> rf AND NOT SUPPORTED_READ_FORMATS = 0
     \<and> (if has_flag rf ReadFormat_Group
        then \<exists>(nr :: u64) c. b = word_bytes be nr @ c \<and> nr < 0x2000
          \<and> length b = 8 * (1 + flag_nat rf ReadFormat_TotalTimeEnabled + flag_nat rf ReadFormat_TotalTimeRunning
              + unat nr * (1 + flag_nat rf ReadFormat_Id + flag_nat rf ReadFormat_Lost))
        else length b = 8 * (1 + flag_nat rf ReadFormat_TotalTimeEnabled + flag_nat rf ReadFormat_TotalTimeRunning
              + flag_nat rf ReadFormat_Id + flag_nat rf ReadFormat_Lost))"

definition callchain_bytes :: "bool \<Rightarrow> u64 list \<Rightarrow> bytes" where
  "callchain_bytes be ips = word_bytes be (word_of_nat (length ips) :: u64) @ concat (map (word_bytes be) ips)"

definition raw_bytes :: "bool \<Rightarrow> bytes \<Rightarrow> bytes \<Rightarrow> bytes" where
  "raw_bytes be raw pad = word_bytes be (word_of_nat (length raw) :: u32) @ raw @ pad"

text \<open>Each part is its bytes and what it adds to the info, given its position.\<close>

definition encode_if :: "bool \<Rightarrow> bytes \<times> (nat \<Rightarrow> 'i \<Rightarrow> 'i) \<Rightarrow> bytes \<times> (nat \<Rightarrow> 'i \<Rightarrow> 'i)" where
  "encode_if b e = (if b then e else ([], \<lambda>_ i. i))"

definition sample_encoding ::
  "bool \<Rightarrow> PerfEventAttr \<Rightarrow> sample_fields \<Rightarrow> (bytes \<times> (nat \<Rightarrow> PerfSampleEventInfo \<Rightarrow> PerfSampleEventInfo)) list" where
  "sample_encoding be attr f =
     (let st = at_sample_type attr in
      [encode_if (has_flag st SampleType_Identifier) (word_bytes be (sf_id f), \<lambda>_ i. i),
       encode_if (has_flag st SampleType_IP) (word_bytes be (sf_ip f), \<lambda>_ i. i\<lparr>si_ip := sf_ip f\<rparr>),
       encode_if (has_flag st SampleType_Tid) (word_bytes be (sf_pid f) @ word_bytes be (sf_tid f),
         \<lambda>_ i. i\<lparr>si_pid := sf_pid f, si_tid := sf_tid f\<rparr>),
       encode_if (has_flag st SampleType_Time) (word_bytes be (sf_time f), \<lambda>_ i. i\<lparr>si_time := sf_time f\<rparr>),
       encode_if (has_flag st SampleType_Addr) (word_bytes be (sf_addr f), \<lambda>_ i. i\<lparr>si_addr := sf_addr f\<rparr>),
       encode_if (has_flag st SampleType_Id) (word_bytes be (sf_id f), \<lambda>_ i. i),
       encode_if (has_flag st SampleType_StreamId) (word_bytes be (sf_stream_id f), \<lambda>_ i. i\<lparr>si_stream_id := sf_stream_id f\<rparr>),
       encode_if (has_flag st SampleType_Cpu) (word_bytes be (sf_cpu f) @ word_bytes be (sf_cpu_reserved f),
         \<lambda>_ i. i\<lparr>si_cpu := sf_cpu f, si_cpu_reserved := sf_cpu_reserved f\<rparr>),
       encode_if (has_flag st SampleType_Period) (word_bytes be (sf_period f), \<lambda>_ i. i\<lparr>si_period := sf_period f\<rparr>),
       encode_if (has_flag st SampleType_Read) (sf_read f, \<lambda>p i. i\<lparr>si_read_range := (p, p + length (sf_read f))\<rparr>),
       encode_if (has_flag st SampleType_Callchain) (callchain_bytes be (sf_callchain f),
         \<lambda>p i. i\<lparr>si_callchain_range := (p, p + length (callchain_bytes be (sf_callchain f)))\<rparr>),
       encode_if (has_flag st SampleType_Raw) (raw_bytes be (sf_raw f) (sf_raw_pad f),
         \<lambda>p i. i\<lparr>si_raw_range := (p + 4, p + 4 + length (sf_raw f))\<rparr>)])"

definition sample_record :: "bool \<Rightarrow> PerfEventAttr \<Rightarrow> bytes \<Rightarrow> sample_fields \<Rightarrow> bytes \<Rightarrow> bytes" where
  "sample_record be attr header f rest = header @ concat (map fst (sample_encoding be attr f)) @ rest"

definition sample_fields_ok :: "bool \<Rightarrow> PerfEventAttr \<Rightarrow> sample_fields \<Rightarrow> bool" where
  "sample_fields_ok be attr f \<longleftrightarrow>
     (has_flag (at_sample_type attr) SampleType_Read \<longrightarrow> read_ok be (at_read_format attr) (sf_read f))
     \<and> (has_flag (at_sample_type attr) SampleType_Callchain \<longrightarrow> length (sf_callchain f) < 0x2000)
     \<and> (has_flag (at_sample_type attr) SampleType_Raw \<longrightarrow>
          8 dvd 4 + length (sf_raw f) + length (sf_raw_pad f) \<and> length (sf_raw_pad f) < 8)"

section \<open>Reading a part back\<close>

definition part_reads :: "bytes \<Rightarrow> 'i part \<Rightarrow> bytes \<times> (nat \<Rightarrow> 'i \<Rightarrow> 'i) \<Rightarrow> bool" where
  "part_reads data p e \<longleftrightarrow> 8 dvd length (fst e) \<and>
     (\<forall>a c i. data = a @ fst e @ c \<longrightarrow> 8 dvd length a \<longrightarrow>
        p (length a, i) = Some (Inr (length a + length (fst e), snd e (length a) i)))"

fun apply_all :: "(bytes \<times> (nat \<Rightarrow> 'i \<Rightarrow> 'i)) list \<Rightarrow> nat \<Rightarrow> 'i \<Rightarrow> 'i" where
  "apply_all [] pos i = i"
| "apply_all (e # es) pos i = apply_all es (pos + length (fst e)) (snd e pos i)"

lemma run_parts_reads:
  assumes "list_all2 (part_reads data) ps es" "data = a @ concat (map fst es) @ c" "8 dvd length a"
  shows "run_parts ps (length a, i) = Some (Inr (length a + length (concat (map fst es)), apply_all es (length a) i))"
  using assms
proof (induction ps es arbitrary: a i rule: list_all2_induct)
  case (Cons p ps e es)
  have "p (length a, i) = Some (Inr (length a + length (fst e), snd e (length a) i))"
    using Cons.hyps(1) Cons.prems unfolding part_reads_def by auto
  moreover have "8 dvd length (fst e)" using Cons.hyps(1) by (simp add: part_reads_def)
  ultimately show ?case
    using Cons.IH [of "a @ fst e" "snd e (length a) i"] Cons.prems by (simp add: add.assoc)
qed simp

lemma part_reads_if: "(b \<Longrightarrow> part_reads data p e) \<Longrightarrow> part_reads data (part_if b p) (encode_if b e)"
  by (auto simp: part_reads_def part_if_def encode_if_def)

lemma read_u64_word: "read_u64 r (word_bytes (source_big_endian r) v @ c) = Some v"
  using read_u64_encoded [of "source_big_endian r" v c] by (cases r) (simp add: word_bytes_def PerfByteReader_new_def)

lemma read_u32_word: "read_u32 r (word_bytes (source_big_endian r) v @ c) = Some v"
  using read_u32_encoded [of "source_big_endian r" v c] by (cases r) (simp add: word_bytes_def PerfByteReader_new_def)

lemma identifier_reads:
  "length data < 2 ^ 16 \<Longrightarrow> part_reads data (part_identifier dbg (length data)) (word_bytes be (k :: u64), \<lambda>_ i. i)"
  by (auto simp: part_reads_def part_identifier_def debug_assert_def)

lemma skip_reads: "length data < 2 ^ 16 \<Longrightarrow> part_reads data (part_skip dbg (length data)) (word_bytes be (k :: u64), \<lambda>_ i. i)"
  by (auto simp: part_reads_def part_skip_def)

lemma u64_reads:
  "length data < 2 ^ 16 \<Longrightarrow>
   part_reads data (part_u64 dbg r data (length data) upd) (word_bytes (source_big_endian r) v, \<lambda>_. upd v)"
  by (auto simp: part_reads_def part_u64_def read_u64_word)

lemma u32s_reads:
  assumes "length data < 2 ^ 16"
  shows "part_reads data (part_u32s dbg r data (length data) upd)
    (word_bytes (source_big_endian r) v @ word_bytes (source_big_endian r) w, \<lambda>_. upd v w)"
  unfolding part_reads_def
proof (intro conjI allI impI)
  fix a c i
  assume d: "data = a @ fst (word_bytes (source_big_endian r) v @ word_bytes (source_big_endian r) w, \<lambda>_. upd v w) @ c"
  then have 1: "drop (length a) data = word_bytes (source_big_endian r) v @ word_bytes (source_big_endian r) w @ c"
    and 2: "drop (length a + 4) data = word_bytes (source_big_endian r) w @ c" and "length a + 8 \<le> length data"
    by simp_all
  with assms show "part_u32s dbg r data (length data) upd (length a, i) = Some (Inr (length a +
      length (fst (word_bytes (source_big_endian r) v @ word_bytes (source_big_endian r) w, \<lambda>_. upd v w)),
      snd (word_bytes (source_big_endian r) v @ word_bytes (source_big_endian r) w, \<lambda>_. upd v w) (length a) i))"
    by (simp add: part_u32s_def 1 2 read_u32_word)
qed simp

lemma read_reads:
  assumes "length data < 2 ^ 16" and b: "read_ok (source_big_endian r) rf b"
  shows "part_reads data (part_read dbg r data (length data) rf) (b, \<lambda>p i. i\<lparr>si_read_range := (p, p + length b)\<rparr>)"
proof -
  have d: "8 dvd length b" using b by (auto simp: read_ok_def split: if_splits)
  have "part_read dbg r data (length data) rf (length a, i) =
      Some (Inr (length a + length b, i\<lparr>si_read_range := (length a, length a + length b)\<rparr>))" if data: "data = a @ b @ c" for a c i
  proof -
    have l: "length data - length a \<ge> length b" "length a + length b < 2 ^ 16" "length a \<le> length data" using assms(1) data by simp_all
    show ?thesis
    proof (cases "has_flag rf ReadFormat_Group")
      case True
      then obtain nr :: u64 and c' where nr: "b = word_bytes (source_big_endian r) nr @ c'" "nr < 0x2000"
        and lb: "length b = 8 * (1 + flag_nat rf ReadFormat_TotalTimeEnabled + flag_nat rf ReadFormat_TotalTimeRunning
              + unat nr * (1 + flag_nat rf ReadFormat_Id + flag_nat rf ReadFormat_Lost))"
        using b by (auto simp: read_ok_def)
      have rd: "read_u64 r (drop (length a) data) = Some nr" using data nr(1) read_u64_word by simp
      have ne: "length a \<noteq> length data" using data nr(1) by simp
      have sup: "rf AND NOT SUPPORTED_READ_FORMATS = 0" "\<not> 0x10000 div 8 \<le> nr" using b nr(2) by (simp_all add: read_ok_def not_le)
      show ?thesis
        using True ne sup l rd by (simp add: part_read_def Let_def lb)
    next
      case False
      then have lb: "length b = 8 * (1 + flag_nat rf ReadFormat_TotalTimeEnabled + flag_nat rf ReadFormat_TotalTimeRunning
              + flag_nat rf ReadFormat_Id + flag_nat rf ReadFormat_Lost)" using b by (simp add: read_ok_def)
      with False b l show ?thesis
        unfolding part_read_def Let_def fst_conv snd_conv lb [symmetric, unfolded mult.commute [of 8]] by (simp add: read_ok_def)
    qed
  qed
  with d show ?thesis by (auto simp: part_reads_def)
qed

lemma callchain_reads:
  assumes "length data < 2 ^ 16" "length ips < 0x2000"
  shows "part_reads data (part_callchain dbg r data (length data)) (callchain_bytes (source_big_endian r) ips,
    \<lambda>p i. i\<lparr>si_callchain_range := (p, p + length (callchain_bytes (source_big_endian r) ips))\<rparr>)"
proof -
  let ?b = "callchain_bytes (source_big_endian r) ips"
  have lb: "length ?b = 8 * (1 + length ips)"
    by (simp add: callchain_bytes_def length_concat comp_def sum_list_triv)
  have nr: "unat (word_of_nat (length ips) :: u64) = length ips" "(word_of_nat (length ips) :: u64) < 0x2000"
    using assms(2) by (simp_all add: unsigned_of_nat take_bit_nat_eq_self word_less_nat_alt)
  have "part_callchain dbg r data (length data) (length a, i) =
      Some (Inr (length a + length ?b, i\<lparr>si_callchain_range := (length a, length a + length ?b)\<rparr>))" if data: "data = a @ ?b @ c" for a c i
  proof -
    have l: "length data - length a \<ge> length ?b" "length a + length ?b < 2 ^ 16" "length a \<le> length data" "length a \<noteq> length data"
      using assms(1) data lb by simp_all
    have rd: "read_u64 r (drop (length a) data) = Some (word_of_nat (length ips))"
      using data by (simp add: callchain_bytes_def read_u64_word)
    with nr l show ?thesis by (simp add: part_callchain_def Let_def lb not_le [symmetric])
  qed
  then show ?thesis by (auto simp: part_reads_def lb)
qed

lemma raw_reads:
  assumes "length data < 2 ^ 16" and pad: "8 dvd 4 + length raw + length pad" "length pad < 8"
  shows "part_reads data (part_raw dbg r data (length data)) (raw_bytes (source_big_endian r) raw pad,
    \<lambda>p i. i\<lparr>si_raw_range := (p + 4, p + 4 + length raw)\<rparr>)"
proof -
  let ?b = "raw_bytes (source_big_endian r) raw pad"
  have lb: "length ?b = 4 + length raw + length pad" by (simp add: raw_bytes_def)
  have "part_raw dbg r data (length data) (length a, i) =
      Some (Inr (length a + length ?b, i\<lparr>si_raw_range := (length a + 4, length a + 4 + length raw)\<rparr>))" if data: "data = a @ ?b @ c" for a c i
  proof -
    have l: "length a + 4 + length raw + length pad \<le> length data" "length a \<noteq> length data" using data lb by simp_all
    have n: "unat (word_of_nat (length raw) :: u32) = length raw" "length raw < 2 ^ 16"
      using l assms(1) by (simp_all add: unsigned_of_nat take_bit_nat_eq_self)
    have rd: "read_u32 r (drop (length a) data) = Some (word_of_nat (length raw))"
      using data by (simp add: raw_bytes_def read_u32_word)
    have up: "and_not (11 + length raw) 7 = 4 + length raw + length pad"
    proof -
      obtain k where k: "4 + length raw + length pad = 8 * k" using pad(1) by (elim dvdE)
      define m where "m = 7 - length pad"
      have m: "11 + length raw = 8 * k + m" "m < 8" "length pad = 7 - m" "m \<le> 7" using k pad(2) by (simp_all add: m_def)
      then have "(11 + length raw) mod 8 = m" by simp
      with k m n(2) show ?thesis by (subst and_not_7) simp_all
    qed
    have left: "length data - length a - 4 < 2 ^ 32" using assms(1) by simp
    show ?thesis using l n rd up left assms(1) by (simp add: part_raw_def Let_def lb)
  qed
  with pad show ?thesis by (auto simp: part_reads_def lb)
qed

lemma sample_parts_read:
  assumes "length data < 2 ^ 16" "sample_fields_ok (source_big_endian r) attr f"
  shows "list_all2 (part_reads data) (sample_parts dbg r data (length data) attr) (sample_encoding (source_big_endian r) attr f)"
  using assms(2) unfolding sample_parts_def sample_encoding_def Let_def sample_fields_ok_def
  by (auto intro!: part_reads_if identifier_reads skip_reads u64_reads u32s_reads read_reads callchain_reads raw_reads assms(1))

lemma sample_encoding_parts:
  "length (concat (map fst (sample_encoding be attr f))) = (\<Sum>e \<leftarrow> sample_encoding be attr f. length (fst e))"
  by (simp add: length_concat comp_def)

lemma aligned_length: "list_all2 (part_reads data) ps es \<Longrightarrow> 8 dvd length (concat (map fst es))"
  by (induction ps es rule: list_all2_induct) (auto simp: part_reads_def)

text \<open>The id stands where \<open>id_offsets\<close> says.\<close>

lemma sample_record_id:
  assumes "length header = 8" "8 \<le> fst (id_offsets (at_sample_type attr))"
  shows "\<exists>c. drop (nat (fst (id_offsets (at_sample_type attr)))) (sample_record be attr header f rest) = word_bytes be (sf_id f) @ c"
proof (cases "has_flag (at_sample_type attr) SampleType_Identifier")
  case True
  then show ?thesis
    using assms(1) by (simp add: id_offsets_def sample_record_def sample_encoding_def Let_def encode_if_def)
next
  case False
  let ?st = "at_sample_type attr"
  have i: "has_flag ?st SampleType_Id" using assms(2) False by (auto simp: id_offsets_def OFFSET_NOT_PRESENT_def split: if_splits)
  let ?n = "\<lambda>g. if has_flag ?st g then 8 else 0 :: nat"
  have o: "nat (fst (id_offsets ?st)) = 8 + (?n SampleType_IP + (?n SampleType_Tid + (?n SampleType_Time + ?n SampleType_Addr)))"
    using False i by (simp add: id_offsets_def flag_count_def)
  show ?thesis
    unfolding o using assms(1) False i
    by (auto simp: sample_record_def sample_encoding_def Let_def encode_if_def)
qed

lemma apply_encode_if [simp]: "snd (encode_if b e) p i = (if b then snd e p i else i)"
  by (simp add: encode_if_def)

definition info_of_fields ::
  "PerfEventAttr \<Rightarrow> sample_fields \<Rightarrow> PerfSampleEventInfo \<Rightarrow> bool" where
  "info_of_fields attr f i \<longleftrightarrow>
     (let st = at_sample_type attr in
      si_id i = sf_id f
      \<and> si_ip i = (if has_flag st SampleType_IP then sf_ip f else 0)
      \<and> si_pid i = (if has_flag st SampleType_Tid then sf_pid f else 0)
      \<and> si_tid i = (if has_flag st SampleType_Tid then sf_tid f else 0)
      \<and> si_time i = (if has_flag st SampleType_Time then sf_time f else 0)
      \<and> si_addr i = (if has_flag st SampleType_Addr then sf_addr f else 0)
      \<and> si_stream_id i = (if has_flag st SampleType_StreamId then sf_stream_id f else 0)
      \<and> si_cpu i = (if has_flag st SampleType_Cpu then sf_cpu f else 0)
      \<and> si_cpu_reserved i = (if has_flag st SampleType_Cpu then sf_cpu_reserved f else 0)
      \<and> si_period i = (if has_flag st SampleType_Period then sf_period f else 0))"

lemma info_of_apply_all:
  "info_of_fields attr f (apply_all (sample_encoding be attr f) p (sample_info_start data session d (sf_id f)))"
  unfolding info_of_fields_def sample_encoding_def Let_def sample_info_start_def apply_all.simps apply_encode_if snd_conv
  by (intro conjI) (simp_all add: if_distrib [where f = si_id] if_distrib [where f = si_ip] if_distrib [where f = si_pid]
    if_distrib [where f = si_tid] if_distrib [where f = si_time] if_distrib [where f = si_addr]
    if_distrib [where f = si_stream_id] if_distrib [where f = si_cpu] if_distrib [where f = si_cpu_reserved]
    if_distrib [where f = si_period])

lemma apply_all_append: "apply_all (xs @ ys) p i = apply_all ys (p + length (concat (map fst xs))) (apply_all xs p i)"
  by (induction xs arbitrary: p i) (simp_all add: add.assoc)

definition fixed_part :: "bool \<Rightarrow> PerfEventAttr \<Rightarrow> sample_fields \<Rightarrow> (bytes \<times> (nat \<Rightarrow> PerfSampleEventInfo \<Rightarrow> PerfSampleEventInfo)) list" where
  "fixed_part be attr f = take 9 (sample_encoding be attr f)"

lemma fixed_part_frame:
  "si_data (apply_all (fixed_part be attr f) p i) = si_data i"
  "si_session_info (apply_all (fixed_part be attr f) p i) = si_session_info i"
  "si_event_desc (apply_all (fixed_part be attr f) p i) = si_event_desc i"
  "si_read_range (apply_all (fixed_part be attr f) p i) = si_read_range i"
  "si_callchain_range (apply_all (fixed_part be attr f) p i) = si_callchain_range i"
  "si_raw_range (apply_all (fixed_part be attr f) p i) = si_raw_range i"
  unfolding fixed_part_def sample_encoding_def Let_def
  by (simp_all add: if_distrib [where f = si_data] if_distrib [where f = si_session_info] if_distrib [where f = si_event_desc]
    if_distrib [where f = si_read_range] if_distrib [where f = si_callchain_range] if_distrib [where f = si_raw_range])

lemma slice_at_length: "slice (a @ b @ c) (length a) (length a + length b) = Some b"
  by simp

lemma variable_parts:
  assumes data: "data = sample_record be attr header f rest" and "length header = 8" and start: "i = sample_info_start data session d k"
  defines "i' \<equiv> apply_all (sample_encoding be attr f) 8 i"
  shows "si_data i' = data" "si_session_info i' = session" "si_event_desc i' = d"
    "si_read_format i' = Some (if has_flag (at_sample_type attr) SampleType_Read then sf_read f else [])"
    "si_callchain i' = Some (if has_flag (at_sample_type attr) SampleType_Callchain then callchain_bytes be (sf_callchain f) else [])"
    "si_raw_data i' = Some (if has_flag (at_sample_type attr) SampleType_Raw then sf_raw f else [])"
proof -
  let ?r = "encode_if (has_flag (at_sample_type attr) SampleType_Read) (sf_read f, \<lambda>p (i :: PerfSampleEventInfo). i\<lparr>si_read_range := (p, p + length (sf_read f))\<rparr>)"
  let ?c = "encode_if (has_flag (at_sample_type attr) SampleType_Callchain) (callchain_bytes be (sf_callchain f),
         \<lambda>p (i :: PerfSampleEventInfo). i\<lparr>si_callchain_range := (p, p + length (callchain_bytes be (sf_callchain f)))\<rparr>)"
  let ?w = "encode_if (has_flag (at_sample_type attr) SampleType_Raw) (raw_bytes be (sf_raw f) (sf_raw_pad f),
         \<lambda>p (i :: PerfSampleEventInfo). i\<lparr>si_raw_range := (p + 4, p + 4 + length (sf_raw f))\<rparr>)"
  define a where "a = header @ concat (map fst (fixed_part be attr f))"
  define j where "j = apply_all (fixed_part be attr f) 8 i"
  have enc: "sample_encoding be attr f = fixed_part be attr f @ [?r, ?c, ?w]"
    by (simp add: fixed_part_def sample_encoding_def Let_def)
  have d: "data = a @ fst ?r @ fst ?c @ fst ?w @ rest" by (simp add: data sample_record_def enc a_def)
  have i': "i' = snd ?w (length (a @ fst ?r @ fst ?c)) (snd ?c (length (a @ fst ?r)) (snd ?r (length a) j))"
    using assms(2) by (simp add: i'_def enc apply_all_append j_def a_def add.assoc del: apply_encode_if)
  have j: "si_data j = data" "si_session_info j = session" "si_event_desc j = d"
    "si_read_range j = (0, 0)" "si_callchain_range j = (0, 0)" "si_raw_range j = (0, 0)"
    by (simp_all add: j_def fixed_part_frame start sample_info_start_def)
  show "si_data i' = data" "si_session_info i' = session" "si_event_desc i' = d" using j by (simp_all add: i')
  note sl = slice_at_length [of a "fst ?r" "fst ?c @ fst ?w @ rest"] slice_at_length [of "a @ fst ?r" "fst ?c" "fst ?w @ rest"]
    slice_at_length [of "a @ fst ?r @ fst ?c @ word_bytes be (word_of_nat (length (sf_raw f)) :: u32)" "sf_raw f" "sf_raw_pad f @ rest"]
  show "si_read_format i' = Some (if has_flag (at_sample_type attr) SampleType_Read then sf_read f else [])"
    using j d sl(1) by (simp add: si_read_format_def i' encode_if_def)
  show "si_callchain i' = Some (if has_flag (at_sample_type attr) SampleType_Callchain then callchain_bytes be (sf_callchain f) else [])"
    using j d sl(2) by (simp add: si_callchain_def i' encode_if_def)
  show "si_raw_data i' = Some (if has_flag (at_sample_type attr) SampleType_Raw then sf_raw f else [])"
    using j d sl(3) by (simp add: si_raw_data_def i' encode_if_def raw_bytes_def add.assoc)
qed

section \<open>Properties\<close>

text \<open>
  C16. A sample is read back as it was written. Take a file whose descriptions lead from an id to an event, and
  the record of a sample of that event laid out as \<open>perf_event.h\<close> says for the event's sample type (any of
  the fields up to the raw data, in either byte order), possibly followed by more
  fields. Then \<open>get_sample_event_info\<close> finds the event by the id in the record and returns exactly the fields
  of the sample, zero for those that the sample type leaves out; the accessors return exactly its counter
  values, its call chain and its raw data. This holds in both builds.
\<close>

theorem sample_event_decoded:
  assumes r: "r = si_byte_reader session" and desc: "desc = event_desc_list ra ! i" and attr: "attr = pd_attr desc"
    and "attrs_inv ra" "event_desc_id_to_index ra (sf_id f) = Some i"
    and "has_flag (at_sample_type attr) SampleType_Identifier \<or> has_flag (at_sample_type attr) SampleType_Id"
    and "sample_fields_ok (source_big_endian r) attr f" "length header = 8" "8 dvd length rest"
    and "pb_data eb = sample_record (source_big_endian r) attr header f rest" "length (pb_data eb) < 2 ^ 16"
  shows "\<exists>info. get_sample_event_info dbg session ra eb = Some (Inr info)
    \<and> si_data info = pb_data eb \<and> si_session_info info = session \<and> si_event_desc info = desc \<and> info_of_fields attr f info
    \<and> si_read_format info = Some (if has_flag (at_sample_type attr) SampleType_Read then sf_read f else [])
    \<and> si_callchain info = Some (if has_flag (at_sample_type attr) SampleType_Callchain
        then callchain_bytes (source_big_endian r) (sf_callchain f) else [])
    \<and> si_raw_data info = Some (if has_flag (at_sample_type attr) SampleType_Raw then sf_raw f else [])"
proof -
  let ?d = "pb_data eb" and ?be = "source_big_endian r" and ?st = "at_sample_type attr"
  let ?es = "sample_encoding ?be attr f" and ?i = "sample_info_start ?d session desc (sf_id f)"
  have i: "i < length (event_desc_list ra)" using assms(4,5) by (simp add: attrs_inv_def)
  then have o: "all_offsets attr = offsets ra" using assms(4) unfolding attr desc attrs_inv_def by simp
  then have so: "sample_id_offset ra = fst (id_offsets ?st)"
    by (auto simp: all_offsets_def offsets_def Let_def split: prod.splits if_splits)
  have eight: "8 \<le> fst (id_offsets ?st)" using assms(6) by (auto simp: id_offsets_def)
  obtain c where c: "drop (nat (sample_id_offset ra)) ?d = word_bytes ?be (sf_id f) @ c"
    using sample_record_id [OF assms(8) eight] assms(10) so by metis
  then have k: "read_u64 r (drop (nat (sample_id_offset ra)) ?d) = Some (sf_id f)" by (simp add: read_u64_word)
  have "length (drop (nat (sample_id_offset ra)) ?d) \<ge> 8" using arg_cong [OF c, of length] by simp
  then have len: "nat (sample_id_offset ra) + 8 \<le> length ?d" "16 \<le> length ?d" using eight so by auto
  note reads = sample_parts_read [OF assms(11,7), of dbg]
  have aligned: "8 dvd length ?d" using aligned_length [OF reads] assms(8,9,10) by (simp add: sample_record_def)
  then have e: "and_not (length ?d) 7 = length ?d" using assms(11) by (subst and_not_7) (auto elim!: dvdE)
  have d: "?d = header @ concat (map fst ?es) @ rest" using assms(10) by (simp add: sample_record_def)
  have run: "run_parts (sample_parts dbg r ?d (length ?d) attr) (8, ?i) =
      Some (Inr (8 + length (concat (map fst ?es)), apply_all ?es 8 ?i))"
    using run_parts_reads [OF reads d, of ?i] assms(8) by simp
  have le: "8 + length (concat (map fst ?es)) \<le> length ?d" using d assms(8) by simp
  have "get_sample_event_info dbg session ra eb = Some (Inr (apply_all ?es 8 ?i))"
    using len k eight so i assms(5) run le
    by (simp add: get_sample_event_info_def Let_def r [symmetric] desc [symmetric] attr [symmetric] e debug_assert_def)
  with variable_parts [OF assms(10,8) refl, of session desc "sf_id f"] info_of_apply_all show ?thesis
    by blast
qed

definition example_fields :: sample_fields where
  "example_fields = \<lparr>sf_id = 7, sf_ip = 0xFFFF, sf_pid = 4, sf_tid = 5, sf_time = 6, sf_addr = 0, sf_stream_id = 0, sf_cpu = 0,
     sf_cpu_reserved = 0, sf_period = 0, sf_read = [], sf_callchain = [], sf_raw = [1, 2, 3, 4, 5], sf_raw_pad = [0, 0, 0, 0, 0, 0, 0]\<rparr>"

theorem sample_event_decoded_witness:
  "\<exists>info. get_sample_event_info True (PerfSessionInfo_new (PerfByteReader_new False)) sample_attrs
      \<lparr>pb_header = PerfEventHeader_new, pb_data = sample_record False (pd_attr sample_desc) (replicate 8 0) example_fields []\<rparr> =
      Some (Inr info) \<and> si_time info = 6 \<and> si_raw_data info = Some [1, 2, 3, 4, 5]"
proof -
  let ?s = "PerfSessionInfo_new (PerfByteReader_new False)" and ?a = "pd_attr sample_desc"
  let ?eb = "\<lparr>pb_header = PerfEventHeader_new, pb_data = sample_record False ?a (replicate 8 0) example_fields []\<rparr>"
  have st: "at_sample_type ?a = 0x10407" by (simp add: sample_desc_def)
  have flags: "has_flag 0x10407 SampleType_Identifier" "has_flag 0x10407 SampleType_Raw" "has_flag 0x10407 SampleType_Time"
    "\<not> has_flag 0x10407 SampleType_Read" "\<not> has_flag 0x10407 SampleType_Callchain"
    by (simp_all add: has_flag_def enum_consts)
  have "length (sample_record False ?a (replicate 8 0) example_fields []) < 2 ^ 16" by code_simp
  moreover have "event_desc_id_to_index sample_attrs (sf_id example_fields) = Some 0" "event_desc_list sample_attrs ! 0 = sample_desc"
    by (simp_all add: sample_attrs_def sample_desc_def example_fields_def ReaderAttrs_new_def)
  moreover have "sample_fields_ok False ?a example_fields"
    using flags by (simp add: sample_fields_ok_def st example_fields_def)
  ultimately obtain info where "get_sample_event_info True ?s sample_attrs ?eb = Some (Inr info)"
    "info_of_fields ?a example_fields info"
    "si_raw_data info = Some (if has_flag (at_sample_type ?a) SampleType_Raw then sf_raw example_fields else [])"
    using sample_event_decoded [of "si_byte_reader ?s" ?s sample_desc sample_attrs 0 ?a example_fields "replicate 8 0" "[]" ?eb True]
      sample_attrs_inv flags st by (auto simp: PerfSessionInfo_new_def)
  then show ?thesis using flags by (auto simp: info_of_fields_def st Let_def example_fields_def)
qed

end
