(* ===== verification/Trailer_Record.thy ===== *)
theory Trailer_Record
  imports Sample_Record
begin

unbundle bit_operations_syntax

text \<open>
  Events other than samples carry their id, time and thread in a trailer (\<open>struct sample_id\<close> of
  \<open>perf_event.h\<close>) at the end of the record. \<open>get_non_sample_event_info\<close> reads it backwards.
\<close>

section \<open>Safety\<close>

definition back_inv :: "bytes \<Rightarrow> nat \<times> PerfNonSampleEventInfo \<Rightarrow> bool" where
  "back_inv data s \<longleftrightarrow> 8 dvd fst s \<and> 0 < fst s \<and> fst s \<le> length data \<and> ni_data (snd s) = data"

lemma back_room: "back_inv data s \<Longrightarrow> 8 \<le> fst s \<and> fst s - 8 + 8 \<le> length data \<and> 8 dvd (fst s - 8)"
  using dvd_imp_le [of 8 "fst s"] by (auto simp: back_inv_def)

lemma part_back_inv:
  "back_inv data s \<Longrightarrow> ni_data i = data \<Longrightarrow> wp (part_back (fst s - 8, i)) (\<lambda>r. \<forall>s'. r = Inr s' \<longrightarrow> back_inv data s')"
  using back_room [of data s] by (auto simp: part_back_def back_inv_def)

lemma back_cpu_safe: "part_safe (back_inv data) (back_cpu dbg r data)"
  unfolding part_safe_def
proof (intro allI impI)
  fix s assume s: "back_inv data s"
  obtain q where q: "fst s = q + 8" "q + 4 + 4 \<le> length data" using back_room [OF s] by (metis add.assoc le_add_diff_inverse2 numeral_Bit0)
  obtain v where v: "read_u32 r (drop (q + 4) data) = Some v" using read_u32_at [OF q(2)] by blast
  obtain w where w: "read_u32 r (drop q data) = Some w" using read_u32_at [of q data r] q(2) by auto
  have "back_cpu dbg r data s = part_back (fst s - 8, (snd s)\<lparr>ni_cpu_reserved := v, ni_cpu := w\<rparr>)"
    using q by (simp add: back_cpu_def v [unfolded add.commute [of q]] v w)
  with part_back_inv [OF s] s show "wp (back_cpu dbg r data s) (\<lambda>r. \<forall>s'. r = Inr s' \<longrightarrow> back_inv data s')"
    by (simp add: back_inv_def)
qed

lemma back_u64_safe:
  assumes "\<And>v i. ni_data (upd v i) = ni_data i"
  shows "part_safe (back_inv data) (back_u64 dbg r data upd)"
  unfolding part_safe_def
proof (intro allI impI)
  fix s assume s: "back_inv data s"
  note room = back_room [OF s]
  have room4: "fst s - 4 + 4 \<le> length data" "fst s - 8 + 4 \<le> length data" "fst s - 8 + 4 + 4 \<le> length data" using room by linarith+
  obtain v where v: "read_u64 r (drop (fst s - 8) data) = Some v" using read_u64_at [of "fst s - 8" data r] room by auto
  with room part_back_inv [OF s, of "upd v (snd s)"] s assms
  show "wp (back_u64 dbg r data upd s) (\<lambda>r. \<forall>s'. r = Inr s' \<longrightarrow> back_inv data s')"
    by (simp add: back_u64_def back_inv_def)
qed

lemma back_skip_safe: "part_safe (back_inv data) (back_skip dbg)"
  unfolding part_safe_def
proof (intro allI impI)
  fix s assume s: "back_inv data s"
  with back_room [OF s] part_back_inv [OF s, of "snd s"]
  show "wp (back_skip dbg s) (\<lambda>r. \<forall>s'. r = Inr s' \<longrightarrow> back_inv data s')" by (simp add: back_skip_def back_inv_def)
qed

lemma back_tid_safe: "length data < 2 ^ 16 \<Longrightarrow> part_safe (back_inv data) (back_tid dbg r data)"
  unfolding part_safe_def
proof (intro allI impI)
  fix s assume s: "back_inv data s" and len: "length data < 2 ^ 16"
  obtain q where q: "fst s = q + 8" "q + 4 + 4 \<le> length data" using back_room [OF s] by (metis add.assoc le_add_diff_inverse2 numeral_Bit0)
  obtain v where v: "read_u32 r (drop q data) = Some v" using read_u32_at [of q data r] q(2) by auto
  obtain w where w: "read_u32 r (drop (q + 4) data) = Some w" using read_u32_at [OF q(2)] by blast
  have "back_tid dbg r data s = part_back (fst s - 8, (snd s)\<lparr>ni_pid := v, ni_tid := w\<rparr>)"
    using q len by (simp add: back_tid_def v w)
  with part_back_inv [OF s] s show "wp (back_tid dbg r data s) (\<lambda>r. \<forall>s'. r = Inr s' \<longrightarrow> back_inv data s')"
    by (simp add: back_inv_def)
qed

lemma non_sample_parts_safe:
  assumes "back_inv data s" "16 \<le> fst s" "length data < 2 ^ 16"
  shows "wp (run_parts (non_sample_parts dbg r data st) s) (\<lambda>r. \<forall>s'. r = Inr s' \<longrightarrow> back_inv data s')"
proof -
  define ps where "ps = tl (non_sample_parts dbg r data st)"
  have ps: "non_sample_parts dbg r data st = part_if (has_flag st SampleType_Identifier) (back_identifier dbg) # ps"
    by (simp add: ps_def non_sample_parts_def)
  have safe: "\<forall>p \<in> set ps. part_safe (back_inv data) p"
    unfolding ps_def non_sample_parts_def list.sel
    by (auto intro!: part_safe_if back_cpu_safe back_u64_safe back_skip_safe back_tid_safe assms(3))
  show ?thesis unfolding ps run_parts.simps
    by (rule wp_and_then)
      (use assms run_parts_safe [OF safe] in
        \<open>auto simp: part_if_def back_identifier_def part_safe_def back_inv_def debug_assert_def\<close>)
qed

section \<open>The layout\<close>

record trailer_fields =
  tf_pid :: u32
  tf_tid :: u32
  tf_time :: u64
  tf_id :: u64
  tf_stream_id :: u64
  tf_cpu :: u32
  tf_cpu_reserved :: u32

definition bytes_if :: "bool \<Rightarrow> bytes \<Rightarrow> bytes" where
  "bytes_if b x = (if b then x else [])"

definition trailer_bytes :: "bool \<Rightarrow> u64 \<Rightarrow> trailer_fields \<Rightarrow> bytes" where
  "trailer_bytes be st f =
     bytes_if (has_flag st SampleType_Tid) (word_bytes be (tf_pid f) @ word_bytes be (tf_tid f))
     @ bytes_if (has_flag st SampleType_Time) (word_bytes be (tf_time f))
     @ bytes_if (has_flag st SampleType_Id) (word_bytes be (tf_id f))
     @ bytes_if (has_flag st SampleType_StreamId) (word_bytes be (tf_stream_id f))
     @ bytes_if (has_flag st SampleType_Cpu) (word_bytes be (tf_cpu f) @ word_bytes be (tf_cpu_reserved f))
     @ bytes_if (has_flag st SampleType_Identifier) (word_bytes be (tf_id f))"

text \<open>A part of the trailer, read backwards from its end; something stands before it.\<close>

definition back_reads :: "bytes \<Rightarrow> 'i part \<Rightarrow> bytes \<Rightarrow> ('i \<Rightarrow> 'i) \<Rightarrow> bool" where
  "back_reads data p b f \<longleftrightarrow> (\<forall>a c i. data = a @ b @ c \<longrightarrow> a \<noteq> [] \<longrightarrow> p (length a + length b, i) = Some (Inr (length a, f i)))"

lemma back_readsD:
  "back_reads data p b f \<Longrightarrow> data = a @ b @ c \<Longrightarrow> a \<noteq> [] \<Longrightarrow> n = length a + length b \<Longrightarrow> p (n, i) = Some (Inr (length a, f i))"
  by (simp add: back_reads_def)

lemma back_reads_if: "back_reads data p b f \<Longrightarrow> back_reads data (part_if x p) (bytes_if x b) (if x then f else (\<lambda>i. i))"
  by (auto simp: back_reads_def part_if_def bytes_if_def)

lemma back_identifier_reads: "back_reads data (back_identifier dbg) (word_bytes be (k :: u64)) (\<lambda>i. i)"
  by (auto simp: back_reads_def back_identifier_def debug_assert_def)

lemma back_skip_reads: "back_reads data (back_skip dbg) (word_bytes be (k :: u64)) (\<lambda>i. i)"
  by (auto simp: back_reads_def back_skip_def part_back_def)

lemma back_u64_reads: "back_reads data (back_u64 dbg r data upd) (word_bytes (source_big_endian r) v) (upd v)"
  by (auto simp: back_reads_def back_u64_def part_back_def read_u64_word)

lemma back_cpu_reads:
  "back_reads data (back_cpu dbg r data) (word_bytes (source_big_endian r) v @ word_bytes (source_big_endian r) w)
    (\<lambda>i. i\<lparr>ni_cpu_reserved := w, ni_cpu := v\<rparr>)"
proof -
  have "back_cpu dbg r data (length a + 8, i) = Some (Inr (length a, i\<lparr>ni_cpu_reserved := w, ni_cpu := v\<rparr>))"
    if d: "data = a @ word_bytes (source_big_endian r) v @ word_bytes (source_big_endian r) w @ c" and "a \<noteq> []" for a c i
  proof -
    have "drop (length a + 4) data = word_bytes (source_big_endian r) w @ c"
      "drop (length a) data = word_bytes (source_big_endian r) v @ word_bytes (source_big_endian r) w @ c" using d by simp_all
    then have "read_u32 r (drop (length a + 4) data) = Some w" "read_u32 r (drop (length a) data) = Some v" "length a + 4 \<le> length data"
      using d by (simp_all add: read_u32_word)
    with \<open>a \<noteq> []\<close> show ?thesis by (simp add: back_cpu_def part_back_def add.commute [of 4])
  qed
  then show ?thesis by (simp add: back_reads_def)
qed

lemma back_tid_reads:
  "length data < 2 ^ 16 \<Longrightarrow>
   back_reads data (back_tid dbg r data) (word_bytes (source_big_endian r) v @ word_bytes (source_big_endian r) w)
    (\<lambda>i. i\<lparr>ni_pid := v, ni_tid := w\<rparr>)"
proof -
  assume len: "length data < 2 ^ 16"
  have "back_tid dbg r data (length a + 8, i) = Some (Inr (length a, i\<lparr>ni_pid := v, ni_tid := w\<rparr>))"
    if d: "data = a @ word_bytes (source_big_endian r) v @ word_bytes (source_big_endian r) w @ c" and "a \<noteq> []" for a c i
  proof -
    have "drop (length a + 4) data = word_bytes (source_big_endian r) w @ c"
      "drop (length a) data = word_bytes (source_big_endian r) v @ word_bytes (source_big_endian r) w @ c" using d by simp_all
    then have "read_u32 r (drop (length a + 4) data) = Some w" "read_u32 r (drop (length a) data) = Some v" "length a + 8 \<le> length data"
      using d by (simp_all add: read_u32_word)
    with \<open>a \<noteq> []\<close> len show ?thesis by (simp add: back_tid_def part_back_def)
  qed
  then show ?thesis by (simp add: back_reads_def)
qed

lemma run_parts_back:
  "list_all (\<lambda>(p, b, f). back_reads data p b f) L \<Longrightarrow> data = a @ concat (rev (map (\<lambda>(p, b, f). b) L)) @ c \<Longrightarrow> a \<noteq> [] \<Longrightarrow>
   run_parts (map fst L) (length a + length (concat (rev (map (\<lambda>(p, b, f). b) L))), i) =
     Some (Inr (length a, fold (\<lambda>(p, b, f). f) L i))"
proof (induction L arbitrary: c i)
  case (Cons x L)
  obtain p b f where x: "x = (p, b, f)" by (cases x)
  let ?a = "a @ concat (rev (map (\<lambda>(p, b, f). b) L))"
  have "p (length ?a + length b, i) = Some (Inr (length ?a, f i))"
    by (rule back_readsD [of data _ _ _ ?a c]) (use Cons.prems x in auto)
  moreover have "run_parts (map fst L) (length ?a, f i) = Some (Inr (length a, fold (\<lambda>(p, b, f). f) L (f i)))"
    using Cons.IH [of "b @ c" "f i"] Cons.prems x by simp
  ultimately show ?case by (simp add: x and_then_def add_ac)
qed simp

definition non_sample_start :: "bytes \<Rightarrow> PerfSessionInfo \<Rightarrow> PerfEventDesc \<Rightarrow> u64 \<Rightarrow> PerfNonSampleEventInfo" where
  "non_sample_start data s d k = \<lparr>ni_data = data, ni_session_info = s, ni_event_desc = d, ni_id = k, ni_cpu = 0,
     ni_cpu_reserved = 0, ni_stream_id = 0, ni_time = 0, ni_pid = 0, ni_tid = 0\<rparr>"

definition trailer_info :: "u64 \<Rightarrow> trailer_fields \<Rightarrow> PerfNonSampleEventInfo \<Rightarrow> PerfNonSampleEventInfo" where
  "trailer_info st f i = i\<lparr>
     ni_cpu := if has_flag st SampleType_Cpu then tf_cpu f else 0,
     ni_cpu_reserved := if has_flag st SampleType_Cpu then tf_cpu_reserved f else 0,
     ni_stream_id := if has_flag st SampleType_StreamId then tf_stream_id f else 0,
     ni_time := if has_flag st SampleType_Time then tf_time f else 0,
     ni_pid := if has_flag st SampleType_Tid then tf_pid f else 0,
     ni_tid := if has_flag st SampleType_Tid then tf_tid f else 0\<rparr>"

lemma trailer_parts_read:
  assumes d: "data = body @ trailer_bytes (source_big_endian r) st f" and "body \<noteq> []" and len: "length data < 2 ^ 16"
  shows "run_parts (non_sample_parts dbg r data st) (length data, non_sample_start data s desc k) =
    Some (Inr (length body, trailer_info st f (non_sample_start data s desc k)))"
proof -
  let ?be = "source_big_endian r" and ?has = "has_flag st"
  let ?if = "\<lambda>x f. if ?has x then f else (\<lambda>i :: PerfNonSampleEventInfo. i)"
  define L where "L =
    [(part_if (?has SampleType_Identifier) (back_identifier dbg), bytes_if (?has SampleType_Identifier) (word_bytes ?be (tf_id f)),
       ?if SampleType_Identifier (\<lambda>i. i)),
     (part_if (?has SampleType_Cpu) (back_cpu dbg r data),
       bytes_if (?has SampleType_Cpu) (word_bytes ?be (tf_cpu f) @ word_bytes ?be (tf_cpu_reserved f)),
       ?if SampleType_Cpu (\<lambda>i. i\<lparr>ni_cpu_reserved := tf_cpu_reserved f, ni_cpu := tf_cpu f\<rparr>)),
     (part_if (?has SampleType_StreamId) (back_u64 dbg r data (\<lambda>v i. i\<lparr>ni_stream_id := v\<rparr>)),
       bytes_if (?has SampleType_StreamId) (word_bytes ?be (tf_stream_id f)), ?if SampleType_StreamId (\<lambda>i. i\<lparr>ni_stream_id := tf_stream_id f\<rparr>)),
     (part_if (?has SampleType_Id) (back_skip dbg), bytes_if (?has SampleType_Id) (word_bytes ?be (tf_id f)), ?if SampleType_Id (\<lambda>i. i)),
     (part_if (?has SampleType_Time) (back_u64 dbg r data (\<lambda>v i. i\<lparr>ni_time := v\<rparr>)),
       bytes_if (?has SampleType_Time) (word_bytes ?be (tf_time f)), ?if SampleType_Time (\<lambda>i. i\<lparr>ni_time := tf_time f\<rparr>)),
     (part_if (?has SampleType_Tid) (back_tid dbg r data),
       bytes_if (?has SampleType_Tid) (word_bytes ?be (tf_pid f) @ word_bytes ?be (tf_tid f)),
       ?if SampleType_Tid (\<lambda>i. i\<lparr>ni_pid := tf_pid f, ni_tid := tf_tid f\<rparr>))]"
  have "list_all (\<lambda>(p, b, f). back_reads data p b f) L"
    unfolding L_def list_all_iff list.set ball_simps prod.case
    by (intro conjI TrueI back_reads_if back_identifier_reads back_cpu_reads back_skip_reads back_tid_reads len back_u64_reads [of data _ _ "\<lambda>v i. i\<lparr>ni_stream_id := v\<rparr>"]
      back_u64_reads [of data _ _ "\<lambda>v i. i\<lparr>ni_time := v\<rparr>"])
  from run_parts_back [OF this, of body "[]" "non_sample_start data s desc k"] \<open>body \<noteq> []\<close>
  have "run_parts (map fst L) (length data, non_sample_start data s desc k) =
      Some (Inr (length body, fold (\<lambda>(p, b, f). f) L (non_sample_start data s desc k)))"
    by (simp add: d L_def trailer_bytes_def add_ac)
  moreover have "map fst L = non_sample_parts dbg r data st" by (simp add: L_def non_sample_parts_def)
  moreover have "fold (\<lambda>(p, b, f). f) L (non_sample_start data s desc k) = trailer_info st f (non_sample_start data s desc k)"
    by (simp add: L_def trailer_info_def non_sample_start_def)
  ultimately show ?thesis by simp
qed

text \<open>The id of the trailer stands where \<open>id_offsets\<close> says, counted from the end.\<close>

lemma trailer_id:
  assumes "8 \<le> snd (id_offsets st)"
  shows "\<exists>a c. trailer_bytes be st f = a @ word_bytes be (tf_id f) @ c \<and> nat (snd (id_offsets st)) = 8 + length c"
proof (cases "has_flag st SampleType_Identifier")
  case True
  then show ?thesis by (auto simp: id_offsets_def trailer_bytes_def bytes_if_def intro!: exI [where x = "[] :: bytes"])
next
  case False
  then have i: "has_flag st SampleType_Id" using assms by (auto simp: id_offsets_def OFFSET_NOT_PRESENT_def split: if_splits)
  let ?c = "bytes_if (has_flag st SampleType_StreamId) (word_bytes be (tf_stream_id f))
     @ bytes_if (has_flag st SampleType_Cpu) (word_bytes be (tf_cpu f) @ word_bytes be (tf_cpu_reserved f))"
  have "nat (snd (id_offsets st)) = 8 + length ?c"
    using False i by (simp add: id_offsets_def flag_count_def bytes_if_def)
  moreover have "\<exists>a. trailer_bytes be st f = a @ word_bytes be (tf_id f) @ ?c"
    using False i by (auto simp: trailer_bytes_def bytes_if_def)
  ultimately show ?thesis by blast
qed

lemma non_sample_offset:
  "attrs_inv ra \<Longrightarrow> d \<in> set (event_desc_list ra) \<Longrightarrow> has_flag (at_options (pd_attr d)) Options_SampleIdAll \<Longrightarrow>
   non_sample_id_offset ra = snd (id_offsets (at_sample_type (pd_attr d)))"
proof -
  assume "attrs_inv ra" "d \<in> set (event_desc_list ra)" and f: "has_flag (at_options (pd_attr d)) Options_SampleIdAll"
  then have "all_offsets (pd_attr d) = offsets ra" by (simp add: attrs_inv_def)
  with f show ?thesis by (auto simp: all_offsets_def offsets_def Let_def split: prod.splits)
qed

lemma trailer_length: "8 dvd length (trailer_bytes be st f)"
  by (simp add: trailer_bytes_def bytes_if_def)

text \<open>All assertions but the last hold.\<close>

lemma non_sample_event_result:
  assumes r: "r = si_byte_reader session" and desc: "desc = event_desc_list ra ! i" and st: "st = at_sample_type (pd_attr desc)"
    and "attrs_inv ra" "event_desc_id_to_index ra (tf_id f) = Some i" "has_flag (at_options (pd_attr desc)) Options_SampleIdAll"
    and "has_flag st SampleType_Identifier \<or> has_flag st SampleType_Id" "ph_ty (pb_header eb) < HeaderType_UserTypeStart"
    and d: "pb_data eb = body @ trailer_bytes (source_big_endian r) st f" and "8 dvd length body" "body \<noteq> []"
    and "length (pb_data eb) < 2 ^ 16"
  shows "get_non_sample_event_info dbg session ra eb = (if dbg \<and> 8192 \<le> length body then None
    else Some (Inr (trailer_info st f (non_sample_start (pb_data eb) session desc (tf_id f)))))"
proof -
  let ?d = "pb_data eb" and ?be = "source_big_endian r"
  have i: "i < length (event_desc_list ra)" using assms(4,5) by (simp add: attrs_inv_def)
  have o: "non_sample_id_offset ra = snd (id_offsets st)" using non_sample_offset [OF assms(4) _ assms(6)] i by (simp add: desc st)
  have eight: "8 \<le> snd (id_offsets st)" using assms(7) by (auto simp: id_offsets_def)
  obtain a c where t: "trailer_bytes ?be st f = a @ word_bytes ?be (tf_id f) @ c" and n: "nat (snd (id_offsets st)) = 8 + length c"
    using trailer_id [OF eight] by blast
  have off: "nat (snd (id_offsets st)) \<le> length ?d" "length ?d - nat (snd (id_offsets st)) = length (body @ a)"
    unfolding n d t by simp_all
  then have k: "read_u64 r (drop (length ?d - nat (snd (id_offsets st))) ?d) = Some (tf_id f)"
    by (simp add: d t read_u64_word)
  have len: "8 \<le> length body" using assms(10,11) by (auto dest: dvd_imp_le)
  then have "16 \<le> length ?d" by (simp add: d t)
  have e: "and_not (length ?d) 7 = length ?d"
    using assms(10,12) trailer_length [of ?be st f] by (subst and_not_7) (auto simp: d elim!: dvdE)
  show ?thesis
    using off k eight i len assms(5,8) \<open>16 \<le> length ?d\<close> trailer_parts_read [OF d assms(11,12), of dbg session desc "tf_id f"]
    by (auto simp: get_non_sample_event_info_def Let_def r [symmetric] desc [symmetric] st [symmetric] o e debug_assert_def
      non_sample_start_def trailer_info_def t and_then_def not_le)
qed

section \<open>Properties\<close>

text \<open>
  C19. The trailer of an event that is not a sample is read back as it was written. Take a file whose
  descriptions lead from an id to an event with \<open>sample_id_all\<close>, and a record of at least its 8-byte header
  that ends with the trailer that \<open>perf_event.h\<close> lays out for the event's sample type, in either byte order.
  Then \<open>get_non_sample_event_info\<close> finds the event by the id in the trailer and returns exactly the fields of
  the trailer, zero for those that the sample type leaves out. Builds with debug assertions need a record
  whose trailer begins before byte 8192.
\<close>

theorem non_sample_event_decoded:
  assumes r: "r = si_byte_reader session" and desc: "desc = event_desc_list ra ! i" and st: "st = at_sample_type (pd_attr desc)"
    and "attrs_inv ra" "event_desc_id_to_index ra (tf_id f) = Some i" "has_flag (at_options (pd_attr desc)) Options_SampleIdAll"
    and "has_flag st SampleType_Identifier \<or> has_flag st SampleType_Id" "ph_ty (pb_header eb) < HeaderType_UserTypeStart"
    and d: "pb_data eb = body @ trailer_bytes (source_big_endian r) st f" and "8 dvd length body" "body \<noteq> []"
    and "length (pb_data eb) < 2 ^ 16" "dbg \<Longrightarrow> length body < 8192"
  shows "get_non_sample_event_info dbg session ra eb = Some (Inr \<lparr>ni_data = pb_data eb, ni_session_info = session,
      ni_event_desc = desc, ni_id = tf_id f,
      ni_cpu = if has_flag st SampleType_Cpu then tf_cpu f else 0,
      ni_cpu_reserved = if has_flag st SampleType_Cpu then tf_cpu_reserved f else 0,
      ni_stream_id = if has_flag st SampleType_StreamId then tf_stream_id f else 0,
      ni_time = if has_flag st SampleType_Time then tf_time f else 0,
      ni_pid = if has_flag st SampleType_Tid then tf_pid f else 0,
      ni_tid = if has_flag st SampleType_Tid then tf_tid f else 0\<rparr>)"
  using non_sample_event_result [OF assms(1-12), of dbg] assms(13)
  by (auto simp: trailer_info_def non_sample_start_def not_le)

definition lost_desc :: PerfEventDesc where
  "lost_desc = \<lparr>pd_attr = (PerfEventAttr_of_bytes False (replicate 128 0))\<lparr>at_sample_type := 0x10086, at_options := Options_SampleIdAll\<rparr>,
     pd_name = [], pd_format = None, pd_ids = [0x8000000000002]\<rparr>"

definition lost_attrs :: ReaderAttrs where
  "lost_attrs = with_desc lost_desc ReaderAttrs_new"

definition lost_trailer :: trailer_fields where
  "lost_trailer = \<lparr>tf_pid = 4, tf_tid = 5, tf_time = 6, tf_id = 0x8000000000002, tf_stream_id = 0, tf_cpu = 1, tf_cpu_reserved = 0\<rparr>"

definition lost_event :: "nat \<Rightarrow> PerfEventBytes" where
  "lost_event n = \<lparr>pb_header = \<lparr>ph_ty = 2, ph_misc = 0, ph_size = 0\<rparr>, pb_data = replicate n 0 @ trailer_bytes False 0x10086 lost_trailer\<rparr>"

definition short_event :: PerfEventBytes where
  "short_event = \<lparr>pb_header = \<lparr>ph_ty = 2, ph_misc = 0, ph_size = 8\<rparr>, pb_data = [2, 0, 0, 0, 0, 0, 8, 0]\<rparr>"

lemma lost_flags:
  "has_flag 0x10086 SampleType_Identifier" "has_flag 0x10086 SampleType_Cpu" "has_flag 0x10086 SampleType_Tid"
  "has_flag 0x10086 SampleType_Time" "\<not> has_flag 0x10086 SampleType_Id" "\<not> has_flag 0x10086 SampleType_StreamId"
  by (simp_all add: has_flag_def enum_consts)

lemma lost_facts:
  "attrs_inv lost_attrs" "event_desc_id_to_index lost_attrs 0x8000000000002 = Some 0" "event_desc_list lost_attrs ! 0 = lost_desc"
  "has_flag (at_options (pd_attr lost_desc)) Options_SampleIdAll" "at_sample_type (pd_attr lost_desc) = 0x10086"
  "length (trailer_bytes False 0x10086 lost_trailer) = 32" "event_desc_list lost_attrs = [lost_desc]" "(2 :: u32) < HeaderType_UserTypeStart"
  "non_sample_id_offset lost_attrs = 8"
proof -
  show "attrs_inv lost_attrs"
    unfolding lost_attrs_def by (rule with_desc_inv [OF attrs_inv_new]) (simp add: ReaderAttrs_new_def)
  show "length (trailer_bytes False 0x10086 lost_trailer) = 32" by (simp add: trailer_bytes_def bytes_if_def lost_flags)
  show "(2 :: u32) < HeaderType_UserTypeStart" by code_simp
  show "non_sample_id_offset lost_attrs = 8"
    by (simp add: lost_attrs_def with_desc_def all_offsets_def id_offsets_def time_offsets_def lost_desc_def lost_flags has_flag_def [of 262144]
      Options_SampleIdAll_def Let_def)
qed (simp_all add: lost_attrs_def lost_desc_def ReaderAttrs_new_def has_flag_def Options_SampleIdAll_def)

abbreviation (input) le_session :: PerfSessionInfo where
  "le_session \<equiv> PerfSessionInfo_new (PerfByteReader_new False)"

lemma lost_event_result:
  assumes "8 dvd n" "0 < n" "n \<le> 65000"
  shows "get_non_sample_event_info dbg le_session lost_attrs (lost_event n) = None \<longleftrightarrow> dbg \<and> 8192 \<le> n"
proof -
  have "replicate n (0 :: u8) \<noteq> []" using assms(2) by simp
  from non_sample_event_result [OF refl refl refl lost_facts(1), where session = le_session and f = lost_trailer and i = 0
      and eb = "lost_event n" and body = "replicate n 0" and dbg = dbg] this
  show ?thesis using assms lost_facts
    by (simp add: lost_event_def lost_trailer_def PerfSessionInfo_new_def lost_flags)
qed

theorem non_sample_event_decoded_witness:
  "\<exists>info. get_non_sample_event_info True le_session lost_attrs (lost_event 16) = Some (Inr info)
     \<and> ni_time info = 6 \<and> ni_tid info = 5 \<and> ni_cpu info = 1 \<and> ni_stream_id info = 0"
  using non_sample_event_decoded [OF refl refl refl lost_facts(1), where session = le_session and f = lost_trailer and i = 0 and eb = "lost_event 16"
      and body = "replicate 16 0" and dbg = True] lost_facts
  by (simp add: lost_event_def lost_trailer_def PerfSessionInfo_new_def lost_flags)




end
