(* ===== verification/Reader_Headers.thy ===== *)
theory Reader_Headers
  imports Perf_File Trailer_Record "HOL-Library.Product_Lexorder"
begin

unbundle bit_operations_syntax

text \<open>
  \<open>DataFileReader\<close> of \<open>tracepoint_perf/src/file_reader.rs\<close>: its state, and the parsers of the headers of a file (clock, event
  descriptions, tracing data). A parser that finds something unexpected returns early and keeps what it
  has stored so far; here it then returns no position. Positions are bounded by the length of the header, so only their
  subtractions are written at their width.
\<close>

section \<open>State\<close>

datatype PerfDataFileEventOrder = Order_File | Order_Time

record EventBytesRef =
  er_buffer_index :: nat
  er_range :: "nat \<times> nat"

definition EventBytesRef_default :: EventBytesRef where
  "EventBytesRef_default = \<lparr>er_buffer_index = 0, er_range = (0, 0)\<rparr>"

record QueueEntry =
  qe_time :: u64
  qe_round_sequence :: u32
  qe_bytes_ref :: EventBytesRef

record DataFileReader =
  data_begin_file_pos :: nat
  data_end_file_pos :: nat
  rd_attrs :: ReaderAttrs
  buffers :: "bytes list"
  headers :: "bytes list"
  event_queue :: "QueueEntry list"
  event_queue_consumed :: nat
  session_info :: PerfSessionInfo
  current_buffer :: nat
  parsed_header_event_desc :: bool
  event_order :: PerfDataFileEventOrder
  event_queue_pending_result :: "(io_error + bool) option"
  common_type_size :: nat
  common_type_offset :: int
  parsed_tracing_data :: bool
  tracing_data_long_size :: u8
  tracing_data_page_size :: u32
  header_page :: "nat \<times> nat"
  header_event :: "nat \<times> nat"
  ftraces :: "(nat \<times> nat) list"
  kallsyms :: "nat \<times> nat"
  printk :: "nat \<times> nat"
  cmd_line :: "nat \<times> nat"

definition DataFileReader_new :: DataFileReader where
  "DataFileReader_new = \<lparr>data_begin_file_pos = 0, data_end_file_pos = 0, rd_attrs = ReaderAttrs_new,
     buffers = [[]], headers = replicate Index_LastFeature [], event_queue = [], event_queue_consumed = 0,
     session_info = PerfSessionInfo_new (PerfByteReader_new False), current_buffer = 0, parsed_header_event_desc = False,
     event_order = Order_File, event_queue_pending_result = None, common_type_size = 0, common_type_offset = OFFSET_UNSET,
     parsed_tracing_data = False, tracing_data_long_size = 0, tracing_data_page_size = 0, header_page = (0, 0),
     header_event = (0, 0), ftraces = [], kallsyms = (0, 0), printk = (0, 0), cmd_line = (0, 0)\<rparr>"

text \<open>The vectors keep their number but lose their contents.\<close>

definition DataFileReader_close :: "DataFileReader \<Rightarrow> DataFileReader" where
  "DataFileReader_close self = \<lparr>data_begin_file_pos = 0, data_end_file_pos = 0, rd_attrs = ReaderAttrs_clear (rd_attrs self),
     buffers = map (\<lambda>b. []) (buffers self), headers = map (\<lambda>h. []) (headers self), event_queue = [], event_queue_consumed = 0,
     session_info = PerfSessionInfo_new (PerfByteReader_new False), current_buffer = 0, parsed_header_event_desc = False,
     event_order = Order_File, event_queue_pending_result = None, common_type_size = 0, common_type_offset = OFFSET_UNSET,
     parsed_tracing_data = False, tracing_data_long_size = 0, tracing_data_page_size = 0, header_page = (0, 0),
     header_event = (0, 0), ftraces = [], kallsyms = (0, 0), printk = (0, 0), cmd_line = (0, 0)\<rparr>"

section \<open>Clock headers\<close>

definition parse_header_clockid :: "DataFileReader \<Rightarrow> DataFileReader option" where
  "parse_header_clockid self = do {
     data \<leftarrow> index (headers self) Index_ClockId;
     (if length data \<ge> 8 then do {
        v \<leftarrow> read_u64 (si_byte_reader (session_info self)) data;
        Some (self\<lparr>session_info := set_clock_id (ucast v) (session_info self)\<rparr>)
      }
      else Some self)
   }"

definition parse_header_clock_data :: "target \<Rightarrow> DataFileReader \<Rightarrow> DataFileReader option" where
  "parse_header_clock_data tgt self = do {
     data \<leftarrow> index (headers self) Index_ClockData;
     (if length data < CLOCK_DATA_SIZE then Some self
      else do {
        let c = ClockData_of_bytes (big_endian tgt) data;
        let c = (if byte_swap_needed tgt (si_byte_reader (session_info self)) then ClockData_byte_swap c else c);
        (if 1 \<le> cd_version c then do {
           s \<leftarrow> set_clock_data (debug_assertions tgt) (cd_clockid c) (cd_wall_clock_ns c) (cd_clockid_time_ns c) (session_info self);
           Some (self\<lparr>session_info := s\<rparr>)
         }
         else Some self)
      })
   }"

section \<open>Event descriptions\<close>

fun event_desc_loop ::
  "target \<Rightarrow> PerfByteReader \<Rightarrow> bytes \<Rightarrow> nat \<Rightarrow> nat \<Rightarrow> nat \<Rightarrow> ReaderAttrs \<Rightarrow> ReaderAttrs option" where
  "event_desc_loop tgt r data attr_size 0 pos ra = Some ra"
| "event_desc_loop tgt r data attr_size (Suc n) pos ra = do {
     left \<leftarrow> usub 64 (debug_assertions tgt) (length data) pos;
     (if left < attr_size + 4 + 4 then Some ra
      else do {
        let attr_pos = pos;
        let pos = pos + attr_size;
        d \<leftarrow> slice_from data pos;
        ids_count \<leftarrow> read_u32 r d;
        let pos = pos + 4;
        d \<leftarrow> slice_from data pos;
        string_size \<leftarrow> read_u32 r d;
        let pos = pos + 4;
        d \<leftarrow> slice_from data (attr_pos + 4);
        size \<leftarrow> read_u32 r d;
        left \<leftarrow> usub 64 (debug_assertions tgt) (length data) pos;
        (if attr_size \<noteq> unat size \<or> unat ids_count > 0x10000 \<or> unat string_size > 0x10000
            \<or> left < unat string_size + unat ids_count * 8
         then Some ra
         else do {
           let string_pos = pos;
           let pos = pos + unat string_size;
           s \<leftarrow> slice data string_pos (string_pos + unat string_size);
           (if 0 \<notin> set s then Some ra
            else do {
              let string_len = length (takeWhile (\<lambda>x. x \<noteq> 0) s);
              ids_bytes \<leftarrow> slice data pos (pos + unat ids_count * 8);
              let pos = pos + length ids_bytes;
              let attr_size_capped = min attr_size PERF_EVENT_ATTR_SIZE;
              attr_bytes \<leftarrow> slice data attr_pos (attr_pos + attr_size_capped);
              name \<leftarrow> slice data string_pos (string_pos + string_len);
              (added, ra) \<leftarrow> add_attr tgt r attr_bytes name ids_bytes ra;
              event_desc_loop tgt r data attr_size n pos ra
            })
         })
      })
   }"

definition parse_header_event_desc :: "target \<Rightarrow> DataFileReader \<Rightarrow> DataFileReader option" where
  "parse_header_event_desc tgt self = do {
     data \<leftarrow> index (headers self) Index_EventDesc;
     (if parsed_header_event_desc self \<or> length data < 4 + 4 then Some self
      else do {
        let self = self\<lparr>parsed_header_event_desc := True\<rparr>;
        let r = si_byte_reader (session_info self);
        event_count \<leftarrow> read_u32 r data;
        d \<leftarrow> slice_from data 4;
        attr_size \<leftarrow> read_u32 r d;
        (if unat attr_size < unat AttrSize_Ver0 \<or> unat attr_size > 0x10000 then Some self
         else do {
           ra \<leftarrow> event_desc_loop tgt r data (unat attr_size) (unat event_count) 8 (rd_attrs self);
           Some (self\<lparr>rd_attrs := ra\<rparr>)
         })
      })
   }"

section \<open>Tracing data\<close>

definition TRACING_SIGNATURE :: bytes where
  "TRACING_SIGNATURE = [0x17, 0x08, 0x44] @ ascii ''tracing''"

definition read_sz :: "bytes \<Rightarrow> nat \<Rightarrow> bytes option" where
  "read_sz data pos = (let d = drop pos data in if 0 \<in> set d then Some (takeWhile (\<lambda>x. x \<noteq> 0) d) else None)"

definition read_section :: "bool \<Rightarrow> nat \<Rightarrow> PerfByteReader \<Rightarrow> bytes \<Rightarrow> nat \<Rightarrow> (nat \<times> nat) option" where
  "read_section dbg n r data pos = do {
     debug_assert dbg (n = 4 \<or> n = 8);
     debug_assert dbg (pos \<le> length data);
     left \<leftarrow> usub 64 dbg (length data) pos;
     (if left < n then Some (0, 0)
      else do {
        d \<leftarrow> slice_from data pos;
        section_size \<leftarrow> (if n = 8 then map_option unat (read_u64 r d) else map_option unat (read_u32 r d));
        let pos = pos + n;
        left \<leftarrow> usub 64 dbg (length data) pos;
        Some (if section_size > left then (0, 0) else (pos, pos + section_size))
      })
   }"

definition read_named_section_64 :: "bool \<Rightarrow> PerfByteReader \<Rightarrow> bytes \<Rightarrow> nat \<Rightarrow> bytes \<Rightarrow> (nat \<times> nat) option" where
  "read_named_section_64 dbg r data pos expected_name = do {
     debug_assert dbg (pos \<le> length data);
     left \<leftarrow> usub 64 dbg (length data) pos;
     (if left < length expected_name then Some (pos, pos)
      else do {
        d \<leftarrow> slice data pos (pos + length expected_name);
        (if expected_name \<noteq> d then Some (pos, pos)
         else read_section dbg 8 r data (pos + length expected_name))
      })
   }"

text \<open>
  The version of the tracing data is parsed as a floating-point number and compared with 0.6. \<open>parse::<f64>\<close> accepts a sign,
  digits with an optional point, and an optional exponent, or the names of the special values. It rounds to the nearest
  double, ties to even. The double nearest to 0.6 is \<open>5404319552844595 / 2 ^ 53\<close>; a number rounds to it or to a larger double exactly
  when it is greater than \<open>10808639105689189 / 2 ^ 54\<close>, half way to the next lower double, whose last bit is even.
\<close>

definition digit_byte :: "u8 \<Rightarrow> bool" where
  "digit_byte b \<longleftrightarrow> 0x30 \<le> b \<and> b \<le> 0x39"

definition digits_value :: "bytes \<Rightarrow> nat" where
  "digits_value s = foldl (\<lambda>n b. 10 * n + (unat b - 0x30)) 0 s"

definition lower_case :: "bytes \<Rightarrow> bytes" where
  "lower_case s = map (\<lambda>b. if 0x41 \<le> b \<and> b \<le> 0x5A then b + 0x20 else b) s"

definition split_sign :: "bytes \<Rightarrow> bool \<times> bytes" where
  "split_sign s = (case s of b # s' \<Rightarrow> if b = 0x2D then (True, s') else if b = 0x2B then (False, s') else (False, s) | [] \<Rightarrow> (False, []))"

definition parse_exponent :: "bytes \<Rightarrow> int option" where
  "parse_exponent s =
     (case s of
        [] \<Rightarrow> Some 0
      | b # s' \<Rightarrow>
          if b = 0x65 \<or> b = 0x45 then
            let (neg, ds) = split_sign s' in
            if ds \<noteq> [] \<and> (\<forall>d \<in> set ds. digit_byte d)
            then Some (if neg then - int (digits_value ds) else int (digits_value ds)) else None
          else None)"

definition exceeds_0_6 :: "nat \<Rightarrow> int \<Rightarrow> bool" where
  "exceeds_0_6 n e =
     (if e \<ge> 0 then n * 10 ^ nat e * 2 ^ 54 > 10808639105689189 else n * 2 ^ 54 > 10808639105689189 * 10 ^ nat (- e))"

definition version_at_least_0_6 :: "bytes \<Rightarrow> bool" where
  "version_at_least_0_6 v =
     (let (neg, s) = split_sign v in
      if lower_case s = ascii ''inf'' \<or> lower_case s = ascii ''infinity'' then \<not> neg
      else
        let whole = takeWhile digit_byte s;
            rest = dropWhile digit_byte s;
            frac = (case rest of b # r \<Rightarrow> if b = 0x2E then takeWhile digit_byte r else [] | [] \<Rightarrow> []);
            tail = (case rest of b # r \<Rightarrow> if b = 0x2E then dropWhile digit_byte r else rest | [] \<Rightarrow> [])
        in
        if whole = [] \<and> frac = [] then False
        else case parse_exponent tail of
               None \<Rightarrow> False
             | Some e \<Rightarrow> \<not> neg \<and> exceeds_0_6 (digits_value (whole @ frac)) (e - int (length frac)))"

fun ftrace_loop :: "bool \<Rightarrow> PerfByteReader \<Rightarrow> bytes \<Rightarrow> nat \<Rightarrow> nat \<Rightarrow> DataFileReader \<Rightarrow> (DataFileReader \<times> nat option) option" where
  "ftrace_loop dbg r data 0 pos self = Some (self, Some pos)"
| "ftrace_loop dbg r data (Suc n) pos self = do {
     section_value \<leftarrow> read_section dbg 8 r data pos;
     (if snd section_value = 0 then Some (self, None)
      else ftrace_loop dbg r data n (snd section_value) (self\<lparr>ftraces := ftraces self @ [section_value]\<rparr>))
   }"

definition read_ftraces :: "bool \<Rightarrow> PerfByteReader \<Rightarrow> bytes \<Rightarrow> nat \<Rightarrow> DataFileReader \<Rightarrow> (DataFileReader \<times> nat option) option" where
  "read_ftraces dbg r data pos self = do {
     left \<leftarrow> usub 64 dbg (length data) pos;
     (if left < 4 then Some (self, None)
      else do {
        d \<leftarrow> slice_from data pos;
        ftrace_count \<leftarrow> read_u32 r d;
        let pos = pos + 4;
        left \<leftarrow> usub 64 dbg (length data) pos;
        (if unat ftrace_count > ucast_to 32 left div 8 then Some (self, None)
         else ftrace_loop dbg r data (unat ftrace_count) pos self)
      })
   }"

text \<open>The first common field called \<open>common_type\<close> decides; indices come from \<open>0..common_field_count\<close>.\<close>

fun find_common_type :: "PerfFieldFormat list \<Rightarrow> nat list \<Rightarrow> (int \<times> nat) option" where
  "find_common_type fs [] = Some (OFFSET_UNSET, 0)"
| "find_common_type fs (i # is) = do {
     f \<leftarrow> index fs i;
     name \<leftarrow> pf_name f;
     (if name = ascii ''common_type'' then
        Some (if pf_offset f \<le> 127 \<and> (pf_size f = 1 \<or> pf_size f = 2 \<or> pf_size f = 4) \<and> pf_array f = Array_None
              then (int (pf_offset f), pf_size f) else (OFFSET_UNSET, 0))
      else find_common_type fs is)
   }"

definition add_event_format :: "PerfEventFormat \<Rightarrow> DataFileReader \<Rightarrow> DataFileReader option" where
  "add_event_format event_format self = do {
     (type_offset, type_size) \<leftarrow> find_common_type (ef_fields event_format) [0..<ef_common_field_count event_format];
     let insert = (\<lambda>self. self\<lparr>rd_attrs := (rd_attrs self)\<lparr>format_by_id :=
       (format_by_id (rd_attrs self))(word_of_nat (ef_id event_format) \<mapsto> event_format)\<rparr>\<rparr>);
     Some (if type_offset = OFFSET_UNSET then self
           else if common_type_offset self = OFFSET_UNSET
           then insert (self\<lparr>common_type_offset := type_offset, common_type_size := type_size\<rparr>)
           else if common_type_offset self \<noteq> type_offset \<or> common_type_size self \<noteq> type_size then self
           else insert self)
   }"

fun event_loop ::
  "bool \<Rightarrow> PerfByteReader \<Rightarrow> bytes \<Rightarrow> bytes \<Rightarrow> nat \<Rightarrow> nat \<Rightarrow> DataFileReader \<Rightarrow> (DataFileReader \<times> nat option) option" where
  "event_loop dbg r data system_name 0 pos self = Some (self, Some pos)"
| "event_loop dbg r data system_name (Suc n) pos self = do {
     section_value \<leftarrow> read_section dbg 8 r data pos;
     (if snd section_value = 0 then Some (self, None)
      else do {
        text \<leftarrow> slice data (fst section_value) (snd section_value);
        parsed \<leftarrow> PerfEventFormat_parse dbg (tracing_data_long_size self \<noteq> 4) system_name (string_from_latin1 text);
        self \<leftarrow> (case parsed of None \<Rightarrow> Some self | Some event_format \<Rightarrow> add_event_format event_format self);
        event_loop dbg r data system_name n (snd section_value) self
      })
   }"

fun system_loop :: "bool \<Rightarrow> PerfByteReader \<Rightarrow> bytes \<Rightarrow> nat \<Rightarrow> nat \<Rightarrow> DataFileReader \<Rightarrow> (DataFileReader \<times> nat option) option" where
  "system_loop dbg r data 0 pos self = Some (self, Some pos)"
| "system_loop dbg r data (Suc n) pos self =
     (case read_sz data pos of
        None \<Rightarrow> Some (self, None)
      | Some system_sz \<Rightarrow> do {
          let pos = pos + length system_sz + 1;
          left \<leftarrow> usub 64 dbg (length data) pos;
          (if left < 4 then Some (self, None)
           else do {
             d \<leftarrow> slice_from data pos;
             event_count \<leftarrow> read_u32 r d;
             (self, next) \<leftarrow> event_loop dbg r data (string_from_latin1 system_sz) (unat event_count) (pos + 4) self;
             (case next of
                None \<Rightarrow> Some (self, None)
              | Some pos \<Rightarrow> system_loop dbg r data n pos self)
           })
        })"

definition read_systems :: "bool \<Rightarrow> PerfByteReader \<Rightarrow> bytes \<Rightarrow> nat \<Rightarrow> DataFileReader \<Rightarrow> (DataFileReader \<times> nat option) option" where
  "read_systems dbg r data pos self = do {
     left \<leftarrow> usub 64 dbg (length data) pos;
     (if left < 4 then Some (self, None)
      else do {
        d \<leftarrow> slice_from data pos;
        system_count \<leftarrow> read_u32 r d;
        system_loop dbg r data (unat system_count) (pos + 4) self
      })
   }"

definition update_desc :: "(u32 \<rightharpoonup> PerfEventFormat) \<Rightarrow> PerfEventDesc \<Rightarrow> PerfEventDesc" where
  "update_desc formats desc =
     (if pd_format desc = None \<and> at_attr_type (pd_attr desc) = AttrType_Tracepoint then
        (case formats (ucast (at_attr_config (pd_attr desc))) of Some fmt \<Rightarrow> set_format fmt desc | None \<Rightarrow> desc)
      else desc)"

definition update_formats :: "DataFileReader \<Rightarrow> DataFileReader" where
  "update_formats self = self\<lparr>rd_attrs := (rd_attrs self)\<lparr>event_desc_list :=
     map (update_desc (format_by_id (rd_attrs self))) (event_desc_list (rd_attrs self))\<rparr>\<rparr>"

definition read_last_sections :: "bool \<Rightarrow> PerfByteReader \<Rightarrow> bytes \<Rightarrow> bytes \<Rightarrow> nat \<Rightarrow> DataFileReader \<Rightarrow> DataFileReader option" where
  "read_last_sections dbg r data version_sz pos self = do {
     k \<leftarrow> read_section dbg 4 r data pos;
     (if snd k = 0 then Some self
      else do {
        let self = self\<lparr>kallsyms := k\<rparr>;
        p \<leftarrow> read_section dbg 4 r data (snd k);
        (if snd p = 0 then Some self
         else do {
           let self = self\<lparr>printk := p\<rparr>;
           (if version_at_least_0_6 version_sz then do {
              c \<leftarrow> read_section dbg 8 r data (snd p);
              Some (if snd c = 0 then self else self\<lparr>cmd_line := c\<rparr>)
            }
            else Some self)
         })
      })
   }"

definition and_at :: "(DataFileReader \<times> nat option) option \<Rightarrow> (nat \<Rightarrow> DataFileReader \<Rightarrow> DataFileReader option) \<Rightarrow> DataFileReader option" where
  "and_at m f = (case m of None \<Rightarrow> None | Some (self, None) \<Rightarrow> Some self | Some (self, Some pos) \<Rightarrow> f pos self)"

definition tracing_sections :: "bool \<Rightarrow> PerfByteReader \<Rightarrow> bytes \<Rightarrow> bytes \<Rightarrow> nat \<Rightarrow> DataFileReader \<Rightarrow> DataFileReader option" where
  "tracing_sections dbg r data version_sz pos self = do {
     page \<leftarrow> read_named_section_64 dbg r data pos (ascii ''header_page'' @ [0]);
     (if snd page = 0 then Some self
      else do {
        let self = self\<lparr>header_page := page\<rparr>;
        event \<leftarrow> read_named_section_64 dbg r data (snd page) (ascii ''header_event'' @ [0]);
        (if snd event = 0 then Some self
         else
           and_at (read_ftraces dbg r data (snd event) (self\<lparr>header_event := event\<rparr>))
             (\<lambda>pos self. and_at (read_systems dbg r data pos self)
               (\<lambda>pos self. read_last_sections dbg r data version_sz pos (update_formats self))))
      })
   }"

definition parse_tracing_data :: "bool \<Rightarrow> DataFileReader \<Rightarrow> DataFileReader option" where
  "parse_tracing_data dbg self = do {
     data \<leftarrow> index (headers self) Index_TracingData;
     (if length data < length TRACING_SIGNATURE \<or> take (length TRACING_SIGNATURE) data \<noteq> TRACING_SIGNATURE
      then Some self
      else
        let self = self\<lparr>parsed_tracing_data := True\<rparr>; pos = length TRACING_SIGNATURE in
        case read_sz data pos of
          None \<Rightarrow> Some self
        | Some version_sz \<Rightarrow> do {
            let pos = pos + length version_sz + 1;
            left \<leftarrow> usub 64 dbg (length data) pos;
            (if left < 1 + 1 + 4 then Some self
             else do {
               be \<leftarrow> index data pos;
               let r = PerfByteReader_new (be \<noteq> 0);
               long_size \<leftarrow> index data (pos + 1);
               d \<leftarrow> slice_from data (pos + 2);
               page_size \<leftarrow> read_u32 r d;
               tracing_sections dbg r data version_sz (pos + 6)
                 (self\<lparr>tracing_data_long_size := long_size, tracing_data_page_size := page_size\<rparr>)
             })
          })
   }"

section \<open>What the parsers leave alone\<close>

text \<open>
  The parsers change the session's clock, the event descriptions and what they find in the tracing data. They keep the events, the
  number of headers and the byte order of the file; the event descriptions stay consistent.
\<close>

definition keeps :: "DataFileReader \<Rightarrow> DataFileReader \<Rightarrow> bool" where
  "keeps s s' \<longleftrightarrow> event_queue s' = event_queue s \<and> event_queue_consumed s' = event_queue_consumed s
     \<and> event_queue_pending_result s' = event_queue_pending_result s \<and> event_order s' = event_order s
     \<and> data_begin_file_pos s' = data_begin_file_pos s \<and> data_end_file_pos s' = data_end_file_pos s
     \<and> current_buffer s' = current_buffer s \<and> buffers s' = buffers s \<and> headers s' = headers s
     \<and> si_byte_reader (session_info s') = si_byte_reader (session_info s)
     \<and> (attrs_inv (rd_attrs s) \<longrightarrow> attrs_inv (rd_attrs s'))"

lemma keeps_refl [simp]: "keeps s s"
  by (simp add: keeps_def)

lemma keeps_trans: "keeps a b \<Longrightarrow> keeps b c \<Longrightarrow> keeps a c"
  by (simp add: keeps_def)

lemma keeps_updates [simp]:
  "keeps s (s'\<lparr>parsed_header_event_desc := b\<rparr>) = keeps s s'" "keeps s (s'\<lparr>parsed_tracing_data := b\<rparr>) = keeps s s'"
  "keeps s (s'\<lparr>ftraces := fs\<rparr>) = keeps s s'" "keeps s (s'\<lparr>header_page := p\<rparr>) = keeps s s'"
  "keeps s (s'\<lparr>header_event := p\<rparr>) = keeps s s'" "keeps s (s'\<lparr>kallsyms := p\<rparr>) = keeps s s'"
  "keeps s (s'\<lparr>printk := p\<rparr>) = keeps s s'" "keeps s (s'\<lparr>cmd_line := p\<rparr>) = keeps s s'"
  "keeps s (s'\<lparr>tracing_data_long_size := l\<rparr>) = keeps s s'" "keeps s (s'\<lparr>tracing_data_page_size := g\<rparr>) = keeps s s'"
  "keeps s (s'\<lparr>common_type_offset := x\<rparr>) = keeps s s'" "keeps s (s'\<lparr>common_type_size := y\<rparr>) = keeps s s'"
  "keeps (s\<lparr>parsed_header_event_desc := b\<rparr>) s' = keeps s s'" "keeps (s\<lparr>parsed_tracing_data := b\<rparr>) s' = keeps s s'"
  "keeps (s\<lparr>ftraces := fs\<rparr>) s' = keeps s s'" "keeps (s\<lparr>header_page := p\<rparr>) s' = keeps s s'"
  "keeps (s\<lparr>header_event := p\<rparr>) s' = keeps s s'"
  "keeps (s\<lparr>tracing_data_long_size := l\<rparr>) s' = keeps s s'" "keeps (s\<lparr>tracing_data_page_size := g\<rparr>) s' = keeps s s'"
  by (simp_all add: keeps_def)

lemma keeps_session:
  "si_byte_reader i = si_byte_reader (session_info s) \<Longrightarrow> keeps s (s\<lparr>session_info := i\<rparr>)"
  by (simp add: keeps_def)

lemma keeps_attrs: "(attrs_inv (rd_attrs s) \<Longrightarrow> attrs_inv ra) \<Longrightarrow> keeps s (s\<lparr>rd_attrs := ra\<rparr>)"
  by (simp add: keeps_def)

lemma set_clock_data_reader: "set_clock_data dbg c w t s = Some s' \<Longrightarrow> si_byte_reader s' = si_byte_reader s"
  by (auto simp: set_clock_data_def bind_eq_Some_conv split: if_split_asm prod.split_asm)

lemma parse_header_clockid_keeps: "parse_header_clockid self = Some self' \<Longrightarrow> keeps self self'"
  by (auto simp: parse_header_clockid_def set_clock_id_def bind_eq_Some_conv intro: keeps_session split: if_split_asm)

lemma parse_header_clock_data_keeps: "parse_header_clock_data tgt self = Some self' \<Longrightarrow> keeps self self'"
  by (auto simp: parse_header_clock_data_def Let_def bind_eq_Some_conv intro: keeps_session dest: set_clock_data_reader
      split: if_split_asm)

lemma event_desc_loop_inv: "event_desc_loop tgt r data sz n pos ra = Some ra' \<Longrightarrow> attrs_inv ra \<Longrightarrow> attrs_inv ra'"
proof (induction tgt r data sz n pos ra rule: event_desc_loop.induct)
  case (2 tgt r data sz n pos ra)
  from "2.prems" show ?case
    by (auto simp: Let_def dest: add_attr_inv "2.IH" split: Option.bind_split_asm if_split_asm prod.split_asm)
qed simp

lemma parse_header_event_desc_keeps: "parse_header_event_desc tgt self = Some self' \<Longrightarrow> keeps self self'"
  by (auto simp: parse_header_event_desc_def Let_def keeps_def dest: event_desc_loop_inv
      split: Option.bind_split_asm if_split_asm)

lemma ftrace_loop_keeps: "ftrace_loop dbg r data n pos self = Some (self', p) \<Longrightarrow> keeps self self'"
  by (induction dbg r data n pos self rule: ftrace_loop.induct) (auto split: Option.bind_split_asm if_split_asm)

lemma read_ftraces_keeps: "read_ftraces dbg r data pos self = Some (self', p) \<Longrightarrow> keeps self self'"
  by (auto simp: read_ftraces_def Let_def dest: ftrace_loop_keeps split: Option.bind_split_asm if_split_asm)

lemma attrs_inv_formats [simp]: "attrs_inv (ra\<lparr>format_by_id := m\<rparr>) = attrs_inv ra"
  by (simp add: attrs_inv_def offsets_def)

lemma add_event_format_keeps: "add_event_format e self = Some self' \<Longrightarrow> keeps self self'"
  by (auto simp: add_event_format_def Let_def keeps_def split: Option.bind_split_asm prod.split_asm)

lemma event_loop_keeps: "event_loop dbg r data sys n pos self = Some (self', p) \<Longrightarrow> keeps self self'"
proof (induction dbg r data sys n pos self rule: event_loop.induct)
  case (2 dbg r data sys n pos self)
  from "2.prems" show ?case
    by (auto dest!: "2.IH" dest: add_event_format_keeps intro: keeps_trans split: Option.bind_split_asm if_split_asm option.split_asm)
qed simp

lemma system_loop_keeps: "system_loop dbg r data n pos self = Some (self', p) \<Longrightarrow> keeps self self'"
proof (induction n arbitrary: pos self)
  case (Suc n)
  from Suc.prems show ?case
    by (auto simp: Let_def dest!: Suc.IH event_loop_keeps intro: keeps_trans split: Option.bind_split_asm if_split_asm option.split_asm prod.split_asm)
qed simp

lemma read_systems_keeps: "read_systems dbg r data pos self = Some (self', p) \<Longrightarrow> keeps self self'"
  by (auto simp: read_systems_def Let_def dest: system_loop_keeps split: Option.bind_split_asm if_split_asm)

lemma update_desc_simps [simp]: "pd_attr (update_desc m d) = pd_attr d" "pd_ids (update_desc m d) = pd_ids d"
  by (simp_all add: update_desc_def split: option.split)

lemma update_formats_keeps: "keeps self (update_formats self)"
  by (auto simp: keeps_def update_formats_def attrs_inv_def offsets_def)

lemma read_last_sections_keeps: "read_last_sections dbg r data v pos self = Some self' \<Longrightarrow> keeps self self'"
  by (auto simp: read_last_sections_def Let_def split: Option.bind_split_asm if_split_asm)

lemma tracing_sections_keeps: "tracing_sections dbg r data v pos self = Some self' \<Longrightarrow> keeps self self'"
  by (auto simp: tracing_sections_def Let_def and_at_def
      dest!: read_ftraces_keeps read_systems_keeps read_last_sections_keeps
      intro: keeps_trans keeps_trans [OF keeps_trans] keeps_trans [OF keeps_trans [OF keeps_trans]] update_formats_keeps
      split: Option.bind_split_asm if_split_asm option.split_asm prod.split_asm)

lemma parse_tracing_data_keeps: "parse_tracing_data dbg self = Some self' \<Longrightarrow> keeps self self'"
  by (auto simp: parse_tracing_data_def Let_def dest!: tracing_sections_keeps
      split: Option.bind_split_asm if_split_asm option.split_asm)

end
