(* ===== verification/File_Reader.thy ===== *)
theory File_Reader
  imports Reader_Headers
begin

unbundle bit_operations_syntax

text \<open>
  The rest of \<open>tracepoint_perf/src/file_reader.rs\<close>: opening a file (header, attributes, feature headers), reading its events
  in the order of the file or by time, and the public \<open>PerfDataFileReader\<close>. The capacities of buffers are not
  modelled.
\<close>

section \<open>Opening\<close>

definition PERFILE2_MAGIC_HOST_ENDIAN :: u64 where
  "PERFILE2_MAGIC_HOST_ENDIAN = 0x32454C4946524550"

definition PERFILE2_MAGIC_SWAP_ENDIAN :: u64 where
  "PERFILE2_MAGIC_SWAP_ENDIAN = 0x50455246494C4532"

definition KEEP_ENDIAN :: "target \<Rightarrow> PerfByteReader" where
  "KEEP_ENDIAN tgt = PerfByteReader_new (big_endian tgt)"

definition SWAP_ENDIAN :: "target \<Rightarrow> PerfByteReader" where
  "SWAP_ENDIAN tgt = PerfByteReader_new (\<not> big_endian tgt)"

definition from_be :: "target \<Rightarrow> u64 \<Rightarrow> u64" where
  "from_be tgt x = (if big_endian tgt then x else swap_word x)"

definition NORMAL_EVENT_MAX_SIZE :: nat where
  [simp]: "NORMAL_EVENT_MAX_SIZE = 0x10000"

definition U64_MAX :: nat where
  "U64_MAX = 2 ^ 64 - 1"

definition section_valid :: "InputFile \<Rightarrow> PerfFileSection \<Rightarrow> bool" where
  "section_valid f s \<longleftrightarrow> unat (fs_offset s) < in_len f \<and> unat (fs_size s) \<le> in_len f - unat (fs_offset s)"

text \<open>An operation on the file, with \<open>?\<close>.\<close>

definition try_file ::
  "(io_error + 'a) \<times> InputFile \<Rightarrow> DataFileReader \<Rightarrow> ('a \<Rightarrow> InputFile \<Rightarrow> (DataFileReader \<times> InputFile, 'b) io_result)
    \<Rightarrow> (DataFileReader \<times> InputFile, 'b) io_result" where
  "try_file r self k = (case r of (Inl e, f) \<Rightarrow> Some (Inl e, self, f) | (Inr x, f) \<Rightarrow> k x f)"

lemma try_file_simps [simp]:
  "try_file (Inl e, f) self k = Some (Inl e, self, f)" "try_file (Inr x, f) self k = k x f"
  by (simp_all add: try_file_def)

lemma try_file_cong [fundef_cong]:
  "r = r' \<Longrightarrow> self = self' \<Longrightarrow> (\<And>x f. r' = (Inr x, f) \<Longrightarrow> k x f = k' x f) \<Longrightarrow> try_file r self k = try_file r' self' k'"
  by (cases r') (auto simp: try_file_def split: sum.splits)

function load_attrs_loop ::
  "target \<Rightarrow> nat \<Rightarrow> nat \<Rightarrow> nat \<Rightarrow> DataFileReader \<Rightarrow> InputFile \<Rightarrow> (DataFileReader \<times> InputFile, unit) io_result" where
  "load_attrs_loop tgt attr_size_in_file end_pos pos self f =
     (if pos < end_pos then
        try_file (seek_absolute pos f) self (\<lambda>p f.
        try_file (read_exact (min attr_size_in_file PERF_EVENT_ATTR_SIZE) f) self (\<lambda>attr_bytes f.
        try_file (seek_absolute (pos + attr_size_in_file) f) self (\<lambda>p f.
        try_file (read_exact PERF_FILE_SECTION_SIZE f) self (\<lambda>section_bytes f.
          let s = PerfFileSection_of_bytes (big_endian tgt) section_bytes in
          if \<not> section_valid f s \<or> fs_size s AND 7 \<noteq> 0 \<or> fs_size s \<ge> 0x80000000 then Some (Inl IoInvalidData, self, f)
          else
            try_file (seek_absolute (unat (fs_offset s)) f) self (\<lambda>p f. do {
              buf \<leftarrow> index (buffers self) 0;
              let self = self\<lparr>buffers := (buffers self)[0 := []]\<rparr>;
              try_file (read_assign_vec (unat (fs_size s)) f) self (\<lambda>buf f. do {
                let self = self\<lparr>buffers := (buffers self)[0 := buf]\<rparr>;
                (added, ra) \<leftarrow> add_attr tgt (si_byte_reader (session_info self)) attr_bytes [] buf (rd_attrs self);
                load_attrs_loop tgt attr_size_in_file end_pos (pos + attr_size_in_file + PERF_FILE_SECTION_SIZE)
                  (self\<lparr>rd_attrs := ra\<rparr>) f
              })
            })))))
      else Some (Inr (), self, f))"
  by pat_completeness auto
termination
  by (relation "measure (\<lambda>(tgt, n, e, p, self, f). e - p)") auto

declare load_attrs_loop.simps [simp del]

definition load_attrs ::
  "target \<Rightarrow> PerfFileSection \<Rightarrow> u64 \<Rightarrow> DataFileReader \<Rightarrow> InputFile \<Rightarrow> (DataFileReader \<times> InputFile, unit) io_result" where
  "load_attrs tgt attrs_section attr_and_id_section_size self f = do {
     buf \<leftarrow> index (buffers self) 0;
     debug_assert (debug_assertions tgt) (buf = []);
     (if fs_size attrs_section \<ge> 0x80000000 \<or> unat attr_and_id_section_size < unat AttrSize_Ver0 + PERF_FILE_SECTION_SIZE
         \<or> attr_and_id_section_size > 0x10000
      then Some (Inl IoInvalidData, self, f)
      else do {
        end_pos \<leftarrow> uadd 64 (debug_assertions tgt) (unat (fs_offset attrs_section)) (unat (fs_size attrs_section));
        load_attrs_loop tgt (unat attr_and_id_section_size - PERF_FILE_SECTION_SIZE) end_pos (unat (fs_offset attrs_section)) self f
      })
   }"

text \<open>What is done with a feature header when it has been loaded.\<close>

definition header_loaded :: "target \<Rightarrow> nat \<Rightarrow> DataFileReader \<Rightarrow> DataFileReader option" where
  "header_loaded tgt i self =
     (if i = Index_ClockId then parse_header_clockid self
      else if i = Index_ClockData then parse_header_clock_data tgt self
      else if i = Index_EventDesc then parse_header_event_desc tgt self
      else if i = Index_TracingData then parse_tracing_data (debug_assertions tgt) self
      else Some self)"

fun load_headers_loop ::
  "target \<Rightarrow> u64 \<Rightarrow> nat list \<Rightarrow> nat \<Rightarrow> DataFileReader \<Rightarrow> InputFile \<Rightarrow> (DataFileReader \<times> InputFile, unit) io_result" where
  "load_headers_loop tgt flags [] file_pos self f = Some (Inr (), self, f)"
| "load_headers_loop tgt flags (i # is) file_pos self f =
     (if flags AND push_bit i 1 \<noteq> 0 then
        try_file (seek_absolute file_pos f) self (\<lambda>p f.
        try_file (read_exact PERF_FILE_SECTION_SIZE f) self (\<lambda>section_bytes f.
          let s = PerfFileSection_of_bytes (big_endian tgt) section_bytes in
          if \<not> section_valid f s \<or> fs_size s \<ge> 0x80000000 then Some (Inl IoInvalidData, self, f)
          else
            try_file (seek_absolute (unat (fs_offset s)) f) self (\<lambda>p f. do {
              h \<leftarrow> index (headers self) i;
              let self = self\<lparr>headers := (headers self)[i := []]\<rparr>;
              try_file (read_assign_vec (unat (fs_size s)) f) self (\<lambda>h f. do {
                self \<leftarrow> header_loaded tgt i (self\<lparr>headers := (headers self)[i := h]\<rparr>);
                load_headers_loop tgt flags is (file_pos + PERF_FILE_SECTION_SIZE) self f
              })
            })))
      else load_headers_loop tgt flags is file_pos self f)"

definition load_headers ::
  "target \<Rightarrow> PerfFileSection \<Rightarrow> u64 \<Rightarrow> DataFileReader \<Rightarrow> InputFile \<Rightarrow> (DataFileReader \<times> InputFile, unit) io_result" where
  "load_headers tgt data_section flags self f = do {
     file_pos \<leftarrow> uadd 64 (debug_assertions tgt) (unat (fs_offset data_section)) (unat (fs_size data_section));
     load_headers_loop tgt flags [0..<length (headers self)] file_pos self f
   }"

text \<open>The file from the second part of its header on.\<close>

definition open_rest :: "target \<Rightarrow> DataFileReader \<Rightarrow> InputFile \<Rightarrow> (DataFileReader \<times> InputFile, unit) io_result" where
  "open_rest tgt self f =
     (let f = update_len f in
      try_file (read_exact PERF_REST_HEADER_SIZE f) self (\<lambda>rest_bytes f.
        let rest = PerfFileHeaderRest_of_bytes (big_endian tgt) rest_bytes;
            rest = (if byte_swap_needed tgt (si_byte_reader (session_info self)) then PerfFileHeaderRest_byte_swap rest else rest)
        in
        if \<not> section_valid f (fr_attrs rest) \<or> \<not> section_valid f (fr_data rest) \<or> \<not> section_valid f (fr_event_types rest)
        then Some (Inl IoInvalidData, self, f)
        else
          try_io (load_attrs tgt (fr_attrs rest) (fr_attr_size rest) self f) (\<lambda>u (self, f).
          try_io (load_headers tgt (fr_data rest) (fr_flags rest ! 0) self f) (\<lambda>u (self, f).
          try_file (seek_absolute (unat (fs_offset (fr_data rest))) f) self (\<lambda>p f. do {
            debug_assert (debug_assertions tgt) (in_pos f = unat (fs_offset (fr_data rest)));
            data_end \<leftarrow> uadd 64 (debug_assertions tgt) (unat (fs_offset (fr_data rest))) (unat (fs_size (fr_data rest)));
            Some (Inr (), self\<lparr>data_begin_file_pos := unat (fs_offset (fr_data rest)), data_end_file_pos := data_end\<rparr>, f)
          })))))"

definition reader_open ::
  "target \<Rightarrow> PerfDataFileEventOrder \<Rightarrow> DataFileReader \<Rightarrow> InputFile \<Rightarrow> (DataFileReader \<times> InputFile, unit) io_result" where
  "reader_open tgt order self f =
     (let self = self\<lparr>event_order := order\<rparr> in
      try_file (read_exact PERF_PIPE_HEADER_SIZE f) self (\<lambda>pipe_bytes f.
        let pipe = PerfFileHeaderPipe_of_bytes (big_endian tgt) pipe_bytes in
        if fp_magic pipe \<noteq> PERFILE2_MAGIC_HOST_ENDIAN \<and> fp_magic pipe \<noteq> PERFILE2_MAGIC_SWAP_ENDIAN
        then Some (Inl IoInvalidData, self, f)
        else do {
          let host = (fp_magic pipe = PERFILE2_MAGIC_HOST_ENDIAN);
          let header_size = (if host then fp_size pipe else from_be tgt (fp_size pipe));
          let self = self\<lparr>session_info := PerfSessionInfo_new (if host then KEEP_ENDIAN tgt else SWAP_ENDIAN tgt)\<rparr>;
          buf \<leftarrow> index (buffers self) 0;
          debug_assert (debug_assertions tgt) (buf = []);
          (if unat header_size = PERF_PIPE_HEADER_SIZE then do {
             debug_assert (debug_assertions tgt) (in_pos f = PERF_PIPE_HEADER_SIZE);
             Some (Inr (), self\<lparr>data_begin_file_pos := PERF_PIPE_HEADER_SIZE, data_end_file_pos := U64_MAX\<rparr>, f)
           }
           else if unat header_size < PERF_FILE_HEADER_SIZE then Some (Inl IoInvalidData, self, f)
           else open_rest tgt self f)
        }))"

section \<open>Reading an event\<close>

definition read_post_event_data ::
  "bool \<Rightarrow> nat \<Rightarrow> nat \<Rightarrow> bytes \<Rightarrow> InputFile \<Rightarrow> ((io_error + bool) \<times> bytes \<times> InputFile) option" where
  "read_post_event_data dbg data_end data_size buffer f = do {
     left \<leftarrow> usub 64 dbg data_end (in_pos f);
     (if data_size \<ge> 0x80000000 \<or> data_size mod 8 \<noteq> 0 \<or> data_size > left then Some (Inr False, buffer, f)
      else do {
        new_end \<leftarrow> uadd 64 dbg (length buffer) data_size;
        (if new_end < data_size \<or> new_end \<ge> 0x80000000 then Some (Inr False, buffer, f)
         else Some (case read_append_vec buffer data_size f of
                      (Inl e, f) \<Rightarrow> (Inl e, buffer, f)
                    | (Inr buffer, f) \<Rightarrow> (Inr True, buffer, f)))
      })
   }"

definition set_buffer :: "nat \<Rightarrow> bytes \<Rightarrow> DataFileReader \<Rightarrow> DataFileReader" where
  "set_buffer cb b self = self\<lparr>buffers := (buffers self)[cb := b]\<rparr>"

definition set_header :: "nat \<Rightarrow> bytes \<Rightarrow> DataFileReader \<Rightarrow> DataFileReader option" where
  "set_header i value self = do {
     hs \<leftarrow> store (headers self) i value;
     Some (self\<lparr>headers := hs\<rparr>)
   }"

definition event_header_attr :: "target \<Rightarrow> nat \<Rightarrow> nat \<Rightarrow> bytes \<Rightarrow> DataFileReader \<Rightarrow> DataFileReader option" where
  "event_header_attr tgt event_data_pos event_data_len buf self =
     (if event_data_len \<ge> unat AttrSize_Ver0 then do {
        d \<leftarrow> slice_from buf (event_data_pos + 4);
        attr_size \<leftarrow> read_u32 (si_byte_reader (session_info self)) d;
        (if attr_size \<ge> AttrSize_Ver0 \<and> unat attr_size < event_data_len then do {
           let attr_size_capped = min (unat attr_size) PERF_EVENT_ATTR_SIZE;
           attr_bytes \<leftarrow> slice buf event_data_pos (event_data_pos + attr_size_capped);
           ids_bytes \<leftarrow> slice_from buf (event_data_pos + unat attr_size);
           (added, ra) \<leftarrow> add_attr tgt (si_byte_reader (session_info self)) attr_bytes [] ids_bytes (rd_attrs self);
           Some (self\<lparr>rd_attrs := ra\<rparr>)
         }
         else Some self)
      }
      else Some self)"

definition event_header_feature :: "target \<Rightarrow> nat \<Rightarrow> nat \<Rightarrow> bytes \<Rightarrow> DataFileReader \<Rightarrow> DataFileReader option" where
  "event_header_feature tgt event_data_pos event_data_len buf self =
     (if event_data_len \<ge> 8 then do {
        d \<leftarrow> slice_from buf event_data_pos;
        index64 \<leftarrow> read_u64 (si_byte_reader (session_info self)) d;
        (if unat index64 < length (headers self) then do {
           value \<leftarrow> slice_from buf (event_data_pos + 8);
           self \<leftarrow> set_header (unat index64) value self;
           (if unat index64 = Index_ClockId then parse_header_clockid self
            else if unat index64 = Index_ClockData then parse_header_clock_data tgt self
            else Some self)
         }
         else Some self)
      }
      else Some self)"

text \<open>Data that follows an event: it is appended to the buffer. The result is an error, or the reader and file.\<close>

definition event_post_data ::
  "target \<Rightarrow> nat \<Rightarrow> nat \<Rightarrow> DataFileReader \<Rightarrow> InputFile \<Rightarrow> (DataFileReader \<times> InputFile, unit) io_result" where
  "event_post_data tgt cb data_size self f = do {
     buf \<leftarrow> index (buffers self) cb;
     (r, buf, f) \<leftarrow> read_post_event_data (debug_assertions tgt) (data_end_file_pos self) data_size buf f;
     let self = set_buffer cb buf self;
     Some (case r of Inr True \<Rightarrow> (Inr (), self, f) | Inr False \<Rightarrow> (Inl IoInvalidData, self, f) | Inl e \<Rightarrow> (Inl e, self, f))
   }"

text \<open>The special cases of the event types.\<close>

definition event_special ::
  "target \<Rightarrow> PerfEventHeader \<Rightarrow> nat \<Rightarrow> nat \<Rightarrow> nat \<Rightarrow> nat \<Rightarrow> DataFileReader \<Rightarrow> InputFile
    \<Rightarrow> (DataFileReader \<times> InputFile, unit) io_result" where
  "event_special tgt h cb header_pos event_data_pos event_data_len self f = do {
     buf \<leftarrow> index (buffers self) cb;
     let done = map_option (\<lambda>self. (Inr (), self, f));
     let r = si_byte_reader (session_info self);
     (if ph_ty h = HeaderType_HeaderAttr then done (event_header_attr tgt event_data_pos event_data_len buf self)
      else if ph_ty h = HeaderType_HeaderTracingData then
        (if event_data_len < 4 then Some (Inl IoInvalidData, self, f)
         else do {
           d \<leftarrow> slice_from buf event_data_pos;
           data_size \<leftarrow> read_u32 r d;
           try_io (event_post_data tgt cb (unat data_size) self f) (\<lambda>u (self, f).
             if parsed_tracing_data self then Some (Inr (), self, f)
             else do {
               buf \<leftarrow> index (buffers self) cb;
               value \<leftarrow> slice_from buf (header_pos + unat (ph_size h));
               self \<leftarrow> set_header Index_TracingData value self;
               self \<leftarrow> parse_tracing_data (debug_assertions tgt) self;
               Some (Inr (), self, f)
             })
         })
      else if ph_ty h = HeaderType_HeaderBuildId then do {
        value \<leftarrow> slice_from buf event_data_pos;
        done (set_header Index_BuildId value self)
      }
      else if ph_ty h = HeaderType_Auxtrace then
        (if event_data_len < 8 then Some (Inl IoInvalidData, self, f)
         else do {
           d \<leftarrow> slice_from buf event_data_pos;
           data_size \<leftarrow> read_u64 r d;
           event_post_data tgt cb (unat data_size) self f
         })
      else if ph_ty h = HeaderType_HeaderFeature then done (event_header_feature tgt event_data_pos event_data_len buf self)
      else if ph_ty h = HeaderType_FinishedInit then do {
        desc \<leftarrow> index (headers self) Index_EventDesc;
        (if desc \<noteq> [] then done (parse_header_event_desc tgt self) else Some (Inr (), self, f))
      }
      else Some (Inr (), self, f))
   }"

text \<open>The next buffer, when an event does not fit into the current one.\<close>

definition next_buffer :: "bool \<Rightarrow> DataFileReader \<Rightarrow> (io_error option \<times> DataFileReader) option" where
  "next_buffer dbg self = do {
     debug_assert dbg (event_order self = Order_Time);
     cb \<leftarrow> uadd 32 dbg (current_buffer self) 1;
     let self = self\<lparr>current_buffer := cb\<rparr>;
     (if cb < 1 then Some (Some IoOutOfMemory, self)
      else do {
        self \<leftarrow> (if cb \<ge> length (buffers self) then do {
            debug_assert dbg (cb = length (buffers self));
            Some (self\<lparr>buffers := buffers self @ [[]]\<rparr>)
          }
          else Some self);
        buf \<leftarrow> index (buffers self) cb;
        debug_assert dbg (buf = []);
        Some (None, self)
      })
   }"

type_synonym read_result = "((io_error + bool) \<times> EventBytesRef \<times> DataFileReader \<times> InputFile) option"

text \<open>An event whose header has been read: its data, and what is special about its type.\<close>

definition read_event_body ::
  "target \<Rightarrow> bytes \<Rightarrow> PerfEventHeader \<Rightarrow> DataFileReader \<Rightarrow> InputFile \<Rightarrow> EventBytesRef \<Rightarrow> read_result" where
  "read_event_body tgt header_bytes h self f event_bytes = do {
     let cb = current_buffer self;
     let event_data_len = unat (ph_size h) - PERF_EVENT_HEADER_SIZE;
     buf \<leftarrow> index (buffers self) cb;
     let header_pos = length buf;
     let buf = buf @ header_bytes;
     let event_data_pos = length buf;
     let self = set_buffer cb buf self;
     (case read_append_vec buf event_data_len f of
        (Inl e, f) \<Rightarrow> Some (Inl e, event_bytes, self, f)
      | (Inr buf, f) \<Rightarrow> do {
          (r, self, f) \<leftarrow> event_special tgt h cb header_pos event_data_pos event_data_len (set_buffer cb buf self) f;
          (case r of
             Inl e \<Rightarrow> Some (Inl e, EventBytesRef_default, self, f)
           | Inr u \<Rightarrow> do {
               debug_assert (debug_assertions tgt) (in_pos f \<le> data_end_file_pos self);
               debug_assert (debug_assertions tgt) (event_data_pos = header_pos + PERF_EVENT_HEADER_SIZE);
               buf \<leftarrow> index (buffers self) cb;
               Some (Inr True, \<lparr>er_buffer_index = ucast_to 32 cb, er_range = (ucast_to 32 header_pos, ucast_to 32 (length buf))\<rparr>, self, f)
             })
        })
   }"

definition read_one_event :: "target \<Rightarrow> DataFileReader \<Rightarrow> InputFile \<Rightarrow> EventBytesRef \<Rightarrow> read_result" where
  "read_one_event tgt self f event_bytes = do {
     let dbg = debug_assertions tgt;
     buf \<leftarrow> index (buffers self) (current_buffer self);
     debug_assert dbg (length buf \<le> NORMAL_EVENT_MAX_SIZE);
     (if in_pos f \<ge> data_end_file_pos self then Some (Inr False, EventBytesRef_default, self, f)
      else if PERF_EVENT_HEADER_SIZE > data_end_file_pos self - in_pos f then Some (Inl IoInvalidData, EventBytesRef_default, self, f)
      else
        case read_exact PERF_EVENT_HEADER_SIZE f of
          (Inl e, f) \<Rightarrow>
            if e = IoUnexpectedEof \<and> data_end_file_pos self = U64_MAX then Some (Inr False, EventBytesRef_default, self, f)
            else Some (Inl e, EventBytesRef_default, self, f)
        | (Inr header_bytes, f) \<Rightarrow> do {
            let h = PerfEventHeader_from_bytes tgt header_bytes (si_byte_reader (session_info self));
            (if unat (ph_size h) < PERF_EVENT_HEADER_SIZE then Some (Inl IoInvalidData, EventBytesRef_default, self, f)
             else do {
               left \<leftarrow> usub 64 dbg (data_end_file_pos self) (in_pos f);
               (if unat (ph_size h) - PERF_EVENT_HEADER_SIZE > left then Some (Inl IoInvalidData, EventBytesRef_default, self, f)
                else do {
                  room \<leftarrow> usub 64 dbg NORMAL_EVENT_MAX_SIZE (length buf);
                  (failed, self) \<leftarrow> (if unat (ph_size h) > room then next_buffer dbg self else Some (None, self));
                  (case failed of
                     Some e \<Rightarrow> Some (Inl e, EventBytesRef_default, self, f)
                   | None \<Rightarrow> read_event_body tgt header_bytes h self f event_bytes)
                })
             })
          })
   }"

definition read_event_file_order :: "target \<Rightarrow> DataFileReader \<Rightarrow> InputFile \<Rightarrow> EventBytesRef \<Rightarrow> read_result" where
  "read_event_file_order tgt self f event_bytes = do {
     debug_assert (debug_assertions tgt) (current_buffer self = 0);
     bs \<leftarrow> store (buffers self) 0 [];
     read_one_event tgt (self\<lparr>buffers := bs\<rparr>) f event_bytes
   }"

section \<open>The file moves on\<close>

text \<open>Reading never moves the file pointer back, and an event moves it on by the size of a header at least.\<close>

definition advances :: "InputFile \<Rightarrow> InputFile \<Rightarrow> bool" where
  "advances f f' \<longleftrightarrow> in_bytes f' = in_bytes f \<and> in_len f' = in_len f \<and> in_seek f \<le> in_seek f' \<and> in_seek f' \<le> max (in_seek f) (length (in_bytes f))"

lemma advances_refl [simp]: "advances f f"
  by (simp add: advances_def)

lemma advances_trans: "advances f g \<Longrightarrow> advances g h \<Longrightarrow> advances f h"
  by (auto simp: advances_def)

lemma read_exact_advances: "read_exact n f = (r, f') \<Longrightarrow> advances f f'"
  by (auto simp: read_exact_def advances_def split: if_splits)

lemma read_append_vec_advances: "read_append_vec v n f = (r, f') \<Longrightarrow> advances f f'"
  by (auto simp: read_append_vec_def dest: read_exact_advances split: prod.splits sum.splits)

lemma read_post_event_data_advances: "read_post_event_data dbg e n b f = Some (r, b', f') \<Longrightarrow> advances f f'"
  by (auto simp: read_post_event_data_def bind_eq_Some_conv dest: read_append_vec_advances split: if_splits prod.splits sum.splits)

lemma event_post_data_advances: "event_post_data tgt cb n self f = Some (r, self', f') \<Longrightarrow> advances f f'"
  by (auto simp: event_post_data_def Let_def dest!: read_post_event_data_advances
      split: Option.bind_split_asm prod.split_asm sum.split_asm bool.split_asm)

lemma event_special_advances: "event_special tgt h cb hp dp dl self f = Some (r, self', f') \<Longrightarrow> advances f f'"
  by (auto simp: event_special_def Let_def try_io_def dest!: event_post_data_advances
      split: Option.bind_split_asm if_split_asm option.split_asm sum.split_asm prod.split_asm)

lemma read_event_body_advances: "read_event_body tgt hb h self f eb = Some (r, eb', self', f') \<Longrightarrow> advances f f'"
  by (auto simp: read_event_body_def Let_def dest!: event_special_advances read_append_vec_advances
      intro: advances_trans split: Option.bind_split_asm sum.split_asm prod.split_asm)

lemma read_one_event_advances:
  assumes "read_one_event tgt self f eb = Some (Inr True, eb', self', f')"
  shows "in_bytes f' = in_bytes f" "in_seek f + 8 \<le> in_seek f'" "in_seek f' \<le> length (in_bytes f)"
proof -
  obtain hb g h self2 where g: "read_exact PERF_EVENT_HEADER_SIZE f = (Inr hb, g)"
    and b: "read_event_body tgt hb h self2 g eb = Some (Inr True, eb', self', f')"
    using assms by (auto simp: read_one_event_def Let_def
      split: Option.bind_split_asm if_split_asm sum.split_asm prod.split_asm option.split_asm)
  then have "advances g f'" "in_seek g = in_seek f + 8" "in_bytes g = in_bytes f" "in_seek g \<le> length (in_bytes f)"
    by (auto simp: read_exact_def dest: read_event_body_advances split: if_splits)
  then show "in_bytes f' = in_bytes f" "in_seek f + 8 \<le> in_seek f'" "in_seek f' \<le> length (in_bytes f)"
    by (auto simp: advances_def)
qed

section \<open>What reading an event leaves alone\<close>

definition same_events :: "DataFileReader \<Rightarrow> DataFileReader \<Rightarrow> bool" where
  "same_events s s' \<longleftrightarrow> event_queue s' = event_queue s \<and> event_queue_consumed s' = event_queue_consumed s
     \<and> event_queue_pending_result s' = event_queue_pending_result s \<and> event_order s' = event_order s
     \<and> data_begin_file_pos s' = data_begin_file_pos s \<and> data_end_file_pos s' = data_end_file_pos s
     \<and> si_byte_reader (session_info s') = si_byte_reader (session_info s) \<and> length (headers s') = length (headers s)
     \<and> (attrs_inv (rd_attrs s) \<longrightarrow> attrs_inv (rd_attrs s'))
     \<and> (current_buffer s < length (buffers s) \<longrightarrow> current_buffer s' < length (buffers s'))"

lemma same_events_refl [simp]: "same_events s s"
  by (simp add: same_events_def)

lemma same_events_trans: "same_events a b \<Longrightarrow> same_events b c \<Longrightarrow> same_events a c"
  by (simp add: same_events_def)

lemma keeps_same_events: "keeps s s' \<Longrightarrow> same_events s s'"
  by (simp add: keeps_def same_events_def)

lemma set_buffer_same [simp]: "same_events s (set_buffer cb b s') = same_events s s'"
  by (simp add: same_events_def set_buffer_def)

lemma set_header_same: "set_header i v s = Some s' \<Longrightarrow> same_events s s'"
  by (auto simp: set_header_def store_def same_events_def split: if_split_asm)

lemmas parse_same =
  keeps_same_events [OF parse_header_clockid_keeps] keeps_same_events [OF parse_header_clock_data_keeps]
  keeps_same_events [OF parse_header_event_desc_keeps] keeps_same_events [OF parse_tracing_data_keeps]

lemma event_header_attr_same: "event_header_attr tgt dp dl buf self = Some self' \<Longrightarrow> same_events self self'"
  by (auto simp: event_header_attr_def Let_def same_events_def dest: add_attr_inv
      split: Option.bind_split_asm if_split_asm prod.split_asm)

lemma event_header_feature_same: "event_header_feature tgt dp dl buf self = Some self' \<Longrightarrow> same_events self self'"
  by (auto simp: event_header_feature_def dest!: set_header_same parse_same intro: same_events_trans
      split: Option.bind_split_asm if_split_asm)

lemma event_post_data_same: "event_post_data tgt cb n self f = Some (r, self', f') \<Longrightarrow> same_events self self'"
  by (auto simp: event_post_data_def Let_def split: Option.bind_split_asm prod.split_asm sum.split_asm bool.split_asm)

lemma event_special_same: "event_special tgt h cb hp dp dl self f = Some (r, self', f') \<Longrightarrow> same_events self self'"
  by (auto simp: event_special_def Let_def try_io_def
      dest!: event_post_data_same set_header_same parse_same event_header_attr_same event_header_feature_same
      intro: same_events_trans same_events_trans [OF same_events_trans]
      split: Option.bind_split_asm if_split_asm option.split_asm sum.split_asm prod.split_asm)

lemma next_buffer_same: "next_buffer dbg self = Some (e, self') \<Longrightarrow> same_events self self'"
  by (auto simp: next_buffer_def Let_def same_events_def uadd_def split: Option.bind_split_asm if_split_asm)

lemma read_event_body_same: "read_event_body tgt hb h self f eb = Some (r, eb', self', f') \<Longrightarrow> same_events self self'"
  by (auto simp: read_event_body_def Let_def dest!: event_special_same
      intro: same_events_trans [rotated] split: Option.bind_split_asm sum.split_asm prod.split_asm)

lemma read_one_event_same: "read_one_event tgt self f eb = Some (r, eb', self', f') \<Longrightarrow> same_events self self'"
  by (auto simp: read_one_event_def Let_def dest!: read_event_body_same next_buffer_same intro: same_events_trans
      split: Option.bind_split_asm if_split_asm sum.split_asm prod.split_asm option.split_asm)

section \<open>Reading by time\<close>

text \<open>The time of an event, 0 where it has none.\<close>

definition event_time :: "PerfByteReader \<Rightarrow> ReaderAttrs \<Rightarrow> PerfEventHeaderType \<Rightarrow> bytes \<Rightarrow> u64 option" where
  "event_time r ra header_type bs =
     (if header_type = HeaderType_Sample then
        (if sample_time_offset ra < 8 \<or> nat (sample_time_offset ra) + 8 > length bs then Some 0
         else do {
           d \<leftarrow> slice_from bs (nat (sample_time_offset ra));
           read_u64 r d
         })
      else if header_type \<ge> HeaderType_UserTypeStart \<or> non_sample_time_offset ra < 8
              \<or> nat (non_sample_time_offset ra) > length bs then Some 0
      else do {
        d \<leftarrow> slice_from bs (length bs - nat (non_sample_time_offset ra));
        read_u64 r d
      })"

text \<open>One turn of the loop that collects a round: the result that ends the loop, or the next entry and whether it ends the round.\<close>

definition read_entry ::
  "target \<Rightarrow> PerfByteReader \<Rightarrow> DataFileReader \<Rightarrow> InputFile
    \<Rightarrow> (((io_error + bool) + QueueEntry \<times> bool) \<times> DataFileReader \<times> InputFile) option" where
  "read_entry tgt r self f = do {
     (result, bytes_ref, self, f) \<leftarrow> read_one_event tgt self f EventBytesRef_default;
     (if result \<noteq> Inr True then Some (Inl result, self, f)
      else do {
        buf \<leftarrow> index (buffers self) (er_buffer_index bytes_ref);
        bs \<leftarrow> slice buf (fst (er_range bytes_ref)) (snd (er_range bytes_ref));
        header_type \<leftarrow> read_u32 r bs;
        time \<leftarrow> event_time r (rd_attrs self) header_type bs;
        let final = (header_type = HeaderType_FinishedRound \<or> header_type = HeaderType_FinishedInit);
        Some (Inr (\<lparr>qe_time = if final then - 1 else time, qe_round_sequence = word_of_nat (length (event_queue self)),
          qe_bytes_ref = bytes_ref\<rparr>, final), self, f)
      })
   }"

definition push_entry :: "QueueEntry \<Rightarrow> DataFileReader \<Rightarrow> DataFileReader" where
  "push_entry e self = self\<lparr>event_queue := event_queue self @ [e]\<rparr>"

lemma read_entry_event:
  assumes "read_entry tgt r self f = Some (Inr (e, final), self', f')"
  shows "\<exists>br. read_one_event tgt self f EventBytesRef_default = Some (Inr True, br, self', f')"
  using assms by (auto simp: read_entry_def Let_def split: Option.bind_split_asm if_split_asm)

lemma read_entry_advances:
  "read_entry tgt r self f = Some (Inr (e, final), self', f') \<Longrightarrow> length (in_bytes f') - in_seek f' < length (in_bytes f) - in_seek f"
proof -
  assume "read_entry tgt r self f = Some (Inr (e, final), self', f')"
  then obtain br where "read_one_event tgt self f EventBytesRef_default = Some (Inr True, br, self', f')"
    using read_entry_event by blast
  from read_one_event_advances [OF this] show ?thesis by simp
qed

lemma read_entry_same: "read_entry tgt r self f = Some (x, self', f') \<Longrightarrow> same_events self self'"
  by (auto simp: read_entry_def Let_def dest: read_one_event_same split: Option.bind_split_asm if_split_asm)

function collect_round ::
  "target \<Rightarrow> PerfByteReader \<Rightarrow> DataFileReader \<Rightarrow> InputFile \<Rightarrow> (DataFileReader \<times> InputFile) option" where
  "collect_round tgt r self f =
     (case read_entry tgt r self f of
        None \<Rightarrow> None
      | Some (Inl result, self, f') \<Rightarrow> Some (self\<lparr>event_queue_pending_result := Some result\<rparr>, f')
      | Some (Inr (e, final), self, f') \<Rightarrow>
          if final then Some (push_entry e self, f') else collect_round tgt r (push_entry e self) f')"
  by pat_completeness auto
termination
  by (relation "measure (\<lambda>(tgt, r, self, f). length (in_bytes f) - in_seek f)")
    (auto dest: read_entry_advances)

declare collect_round.simps [simp del]

lemma collect_round_induct [consumes 1, case_names ended final more]:
  assumes "collect_round tgt r self f = Some (self', f')"
    and ended: "\<And>self f result s f'. read_entry tgt r self f = Some (Inl result, s, f') \<Longrightarrow> P self f (s\<lparr>event_queue_pending_result := Some result\<rparr>) f'"
    and final: "\<And>self f e s f'. read_entry tgt r self f = Some (Inr (e, True), s, f') \<Longrightarrow> P self f (push_entry e s) f'"
    and more: "\<And>self f e s g self' f'. read_entry tgt r self f = Some (Inr (e, False), s, g) \<Longrightarrow>
      collect_round tgt r (push_entry e s) g = Some (self', f') \<Longrightarrow> P (push_entry e s) g self' f' \<Longrightarrow> P self f self' f'"
  shows "P self f self' f'"
  using assms(1)
proof (induction "length (in_bytes f) - in_seek f" arbitrary: self f rule: less_induct)
  case less
  obtain x s g where e: "read_entry tgt r self f = Some (x, s, g)"
    using less.prems by (cases "read_entry tgt r self f") (auto simp: collect_round.simps [of tgt r self f])
  show ?case
  proof (cases x)
    case (Inl result)
    with e less.prems ended [of self f] show ?thesis by (simp add: collect_round.simps [of tgt r self f])
  next
    case (Inr p)
    obtain q b where p: "p = (q, b)" by (cases p)
    show ?thesis
    proof (cases b)
      case True
      with e Inr p less.prems final [of self f] show ?thesis by (simp add: collect_round.simps [of tgt r self f])
    next
      case False
      have c: "collect_round tgt r (push_entry q s) g = Some (self', f')"
        using e Inr p False less.prems by (simp add: collect_round.simps [of tgt r self f])
      from more [OF _ c less.hyps [OF read_entry_advances c]] e Inr p False show ?thesis by simp
    qed
  qed
qed

text \<open>\<open>QueueEntry\<close> is ordered by time, then by the position in the round.\<close>

definition entry_key :: "QueueEntry \<Rightarrow> u64 \<times> u32" where
  "entry_key e = (qe_time e, qe_round_sequence e)"

lemma collect_round_leaves:
  "collect_round tgt r self f = Some (self', f') \<Longrightarrow>
     event_queue_consumed self' = event_queue_consumed self \<and> (event_queue_pending_result self' \<noteq> None \<or> event_queue self' \<noteq> [])"
  by (induction rule: collect_round_induct) (auto simp: push_entry_def same_events_def dest!: read_entry_same)

function read_event_time_order :: "target \<Rightarrow> DataFileReader \<Rightarrow> InputFile \<Rightarrow> EventBytesRef \<Rightarrow> read_result" where
  "read_event_time_order tgt self f event_bytes =
     (if event_queue_consumed self < length (event_queue self) then
        Some (Inr True, qe_bytes_ref (event_queue self ! event_queue_consumed self),
          self\<lparr>event_queue_consumed := event_queue_consumed self + 1\<rparr>, f)
      else
        case event_queue_pending_result self of
          Some result \<Rightarrow> Some (result, EventBytesRef_default, self\<lparr>event_queue_pending_result := None\<rparr>, f)
        | None \<Rightarrow>
            (case collect_round tgt (si_byte_reader (session_info self)) (self\<lparr>event_queue := [], event_queue_consumed := 0\<rparr>) f of
               None \<Rightarrow> None
             | Some (self, f) \<Rightarrow>
                 read_event_time_order tgt (self\<lparr>event_queue := sort_key entry_key (event_queue self)\<rparr>) f event_bytes))"
  by pat_completeness auto
termination
  by (relation "measure (\<lambda>(tgt, self, f, eb). if event_queue_consumed self < length (event_queue self) \<or> event_queue_pending_result self \<noteq> None then 0 else 1)")
    (auto dest: collect_round_leaves)

declare read_event_time_order.simps [simp del]

section \<open>PerfDataFileReader\<close>

record PerfDataFileReader =
  pr_inner :: DataFileReader
  pr_current :: EventBytesRef
  pr_file :: "InputFile option"

definition PerfDataFileReader_new :: PerfDataFileReader where
  "PerfDataFileReader_new = \<lparr>pr_inner = DataFileReader_new, pr_current = EventBytesRef_default, pr_file = None\<rparr>"

definition PerfDataFileReader_close :: "PerfDataFileReader \<Rightarrow> PerfDataFileReader" where
  "PerfDataFileReader_close pr = \<lparr>pr_inner = DataFileReader_close (pr_inner pr), pr_current = EventBytesRef_default, pr_file = None\<rparr>"

text \<open>The file of the path is given by its contents.\<close>

definition open_file :: "target \<Rightarrow> bytes \<Rightarrow> PerfDataFileEventOrder \<Rightarrow> PerfDataFileReader \<Rightarrow> (PerfDataFileReader, unit) io_result" where
  "open_file tgt contents order pr =
     (let pr = PerfDataFileReader_close pr in
      case reader_open tgt order (pr_inner pr) (InputFile_new contents) of
        None \<Rightarrow> None
      | Some (Inl e, self, f) \<Rightarrow> Some (Inl e, pr\<lparr>pr_inner := self\<rparr>)
      | Some (Inr u, self, f) \<Rightarrow> Some (Inr (), pr\<lparr>pr_inner := self, pr_file := Some f\<rparr>))"

definition read_magic :: "target \<Rightarrow> bytes \<Rightarrow> u64" where
  "read_magic tgt contents = (if length contents < 8 then 0 else word_at (big_endian tgt) contents 0)"

definition file_starts_with_magic :: "target \<Rightarrow> bytes \<Rightarrow> bool" where
  "file_starts_with_magic tgt contents \<longleftrightarrow>
     read_magic tgt contents = PERFILE2_MAGIC_HOST_ENDIAN \<or> read_magic tgt contents = PERFILE2_MAGIC_SWAP_ENDIAN"

definition event_desc_by_id :: "u64 \<Rightarrow> PerfDataFileReader \<Rightarrow> PerfEventDesc option option" where
  "event_desc_by_id k pr =
     (case event_desc_id_to_index (rd_attrs (pr_inner pr)) k of
        None \<Rightarrow> Some None
      | Some i \<Rightarrow> map_option Some (index (event_desc_list (rd_attrs (pr_inner pr))) i))"

text \<open>The parts of the tracing data: \<open>tracing_data_header_page\<close> and its like.\<close>

definition tracing_part :: "nat \<times> nat \<Rightarrow> PerfDataFileReader \<Rightarrow> bytes option" where
  "tracing_part part pr = do {
     h \<leftarrow> index (headers (pr_inner pr)) Index_TracingData;
     slice h (fst part) (snd part)
   }"

definition tracing_data_header_page :: "PerfDataFileReader \<Rightarrow> bytes option" where
  "tracing_data_header_page pr = tracing_part (header_page (pr_inner pr)) pr"

definition tracing_data_header_event :: "PerfDataFileReader \<Rightarrow> bytes option" where
  "tracing_data_header_event pr = tracing_part (header_event (pr_inner pr)) pr"

definition tracing_data_ftrace :: "nat \<Rightarrow> PerfDataFileReader \<Rightarrow> bytes option" where
  "tracing_data_ftrace i pr = do {
     part \<leftarrow> index (ftraces (pr_inner pr)) i;
     tracing_part part pr
   }"

definition tracing_data_kallsyms :: "PerfDataFileReader \<Rightarrow> bytes option" where
  "tracing_data_kallsyms pr = tracing_part (kallsyms (pr_inner pr)) pr"

definition tracing_data_printk :: "PerfDataFileReader \<Rightarrow> bytes option" where
  "tracing_data_printk pr = tracing_part (printk (pr_inner pr)) pr"

definition tracing_data_saved_cmd_line :: "PerfDataFileReader \<Rightarrow> bytes option" where
  "tracing_data_saved_cmd_line pr = tracing_part (cmd_line (pr_inner pr)) pr"

definition reader_header :: "nat \<Rightarrow> PerfDataFileReader \<Rightarrow> bytes" where
  "reader_header i pr = (if i < length (headers (pr_inner pr)) then headers (pr_inner pr) ! i else [])"

definition header_string :: "nat \<Rightarrow> PerfDataFileReader \<Rightarrow> bytes" where
  "header_string i pr =
     (if i < length (headers (pr_inner pr)) then
        let header = headers (pr_inner pr) ! i in
        if length header \<ge> 4 then takeWhile (\<lambda>b. b \<noteq> 0) (drop 4 header) else []
      else [])"

definition current_event :: "target \<Rightarrow> PerfDataFileReader \<Rightarrow> PerfEventBytes option" where
  "current_event tgt pr =
     (let (a, b) = er_range (pr_current pr) in
      if b - a < PERF_EVENT_HEADER_SIZE then PerfEventBytes_new (debug_assertions tgt) PerfEventHeader_new []
      else do {
        buf \<leftarrow> index (buffers (pr_inner pr)) (er_buffer_index (pr_current pr));
        bs \<leftarrow> slice buf a b;
        hb \<leftarrow> slice bs 0 PERF_EVENT_HEADER_SIZE;
        PerfEventBytes_new (debug_assertions tgt)
          (PerfEventHeader_from_bytes tgt hb (si_byte_reader (session_info (pr_inner pr)))) bs
      })"

definition move_next_event :: "target \<Rightarrow> PerfDataFileReader \<Rightarrow> (PerfDataFileReader, bool) io_result" where
  "move_next_event tgt pr =
     (case pr_file pr of
        None \<Rightarrow> Some (Inl IoInvalidInput, pr)
      | Some f \<Rightarrow> do {
          (result, current, inner, f) \<leftarrow>
            (case event_order (pr_inner pr) of
               Order_File \<Rightarrow> read_event_file_order tgt (pr_inner pr) f (pr_current pr)
             | Order_Time \<Rightarrow> read_event_time_order tgt (pr_inner pr) f (pr_current pr));
          Some (result, \<lparr>pr_inner = inner, pr_current = current, pr_file = Some f\<rparr>)
        })"

end
