(* ===== verification/File_Writer.thy ===== *)
theory File_Writer
  imports File_Reader Dynamic_Provider "HOL-Library.List_Lexorder"
begin

unbundle bit_operations_syntax

text \<open>
  \<open>tracepoint_perf/src/file_writer.rs\<close>: \<open>PerfDataFileWriter\<close>. Event data goes straight to the file; the descriptions of events, their formats and
  the headers are kept until \<open>finalize_and_close\<close> writes them behind the data and then rewrites the header at the start of the file.
  Writing to a file does not fail here.
\<close>

section \<open>Bytes of headers\<close>

definition NAME_MAX_SIZE :: nat where
  [simp]: "NAME_MAX_SIZE = 64 * 1024"

definition SAMPLE_IDS_MAX_SIZE :: nat where
  [simp]: "SAMPLE_IDS_MAX_SIZE = 0xFFFFFFFF"

definition strlen :: "bytes \<Rightarrow> nat" where
  "strlen value = length (takeWhile (\<lambda>c. c \<noteq> 0) value)"

definition append_string_z :: "bytes \<Rightarrow> bytes \<Rightarrow> bytes" where
  "append_string_z buf value = buf @ value @ [0]"

definition append_section32 :: "target \<Rightarrow> bytes \<Rightarrow> bytes \<Rightarrow> bytes option" where
  "append_section32 tgt buf value = do {
     debug_assert (debug_assertions tgt) (length value \<le> 0xFFFFFFFF);
     Some (buf @ word_bytes (big_endian tgt) (word_of_nat (length value) :: u32) @ value)
   }"

definition append_section64 :: "target \<Rightarrow> bytes \<Rightarrow> bytes \<Rightarrow> bytes" where
  "append_section64 tgt buf value = buf @ word_bytes (big_endian tgt) (word_of_nat (length value) :: u64) @ value"

definition append_named_section64 :: "target \<Rightarrow> bytes \<Rightarrow> bytes \<Rightarrow> bytes \<Rightarrow> bytes \<Rightarrow> bytes" where
  "append_named_section64 tgt buf name default_value value =
     append_section64 tgt (append_string_z buf name) (if value = [] then default_value else value)"

text \<open>The characters of a string in UTF-8, and the string in Latin-1 with a question mark for other characters.\<close>

definition continuation :: "bytes \<Rightarrow> nat \<Rightarrow> nat" where
  "continuation s i = (if i < length s then unat (s ! i AND 0x3F) else 0)"

function utf8_chars :: "bytes \<Rightarrow> nat list" where
  "utf8_chars s =
     (case s of
        [] \<Rightarrow> []
      | b # r \<Rightarrow>
          if b < 0x80 then unat b # utf8_chars r
          else if b < 0xE0 then (unat (b AND 0x1F) * 64 + continuation r 0) # utf8_chars (drop 1 r)
          else if b < 0xF0 then (unat (b AND 0x0F) * 4096 + continuation r 0 * 64 + continuation r 1) # utf8_chars (drop 2 r)
          else (unat (b AND 0x07) * 262144 + continuation r 0 * 4096 + continuation r 1 * 64 + continuation r 2) # utf8_chars (drop 3 r))"
  by pat_completeness auto
termination
  by (relation "measure length") auto

declare utf8_chars.simps [simp del]

definition as_latin1 :: "bytes \<Rightarrow> bytes" where
  "as_latin1 value =
     (if \<exists>c \<in> set value. c > 0x7F
      then map (\<lambda>c. if c > 0xFF then 0x3F else word_of_nat c) (utf8_chars value)
      else value)"

section \<open>State\<close>

record EventDesc =
  ed_name :: bytes
  ed_sample_ids :: "u64 list"
  ed_attr :: PerfEventAttr

record DataFileWriter =
  dw_event_descs :: "EventDesc list"
  dw_formats :: "(nat \<times> PerfEventFormat) list"
  dw_headers :: "bytes list"
  dw_header_page :: bytes
  dw_header_event :: bytes
  dw_ftraces :: "bytes list"
  dw_kallsyms :: bytes
  dw_printk :: bytes
  dw_cmd_line :: bytes
  dw_page_size :: u32
  dw_long_size :: u8

definition DataFileWriter_new :: DataFileWriter where
  "DataFileWriter_new = \<lparr>dw_event_descs = [], dw_formats = [], dw_headers = replicate Index_LastFeature [],
     dw_header_page = [], dw_header_event = [], dw_ftraces = [], dw_kallsyms = [], dw_printk = [], dw_cmd_line = [],
     dw_page_size = 0, dw_long_size = 0\<rparr>"

definition DataFileWriter_close :: "DataFileWriter \<Rightarrow> DataFileWriter" where
  "DataFileWriter_close w = \<lparr>dw_event_descs = [], dw_formats = [], dw_headers = map (\<lambda>h. []) (dw_headers w),
     dw_header_page = [], dw_header_event = [], dw_ftraces = [], dw_kallsyms = [], dw_printk = [], dw_cmd_line = [],
     dw_page_size = 0, dw_long_size = 0\<rparr>"

record PerfDataFileWriter =
  pw_inner :: DataFileWriter
  pw_file :: "OutputFile option"

definition PerfDataFileWriter_new :: PerfDataFileWriter where
  "PerfDataFileWriter_new = \<lparr>pw_inner = DataFileWriter_new, pw_file = None\<rparr>"

definition close_no_finalize :: "PerfDataFileWriter \<Rightarrow> PerfDataFileWriter" where
  "close_no_finalize pw = \<lparr>pw_inner = DataFileWriter_close (pw_inner pw), pw_file = None\<rparr>"

definition create_file :: "target \<Rightarrow> PerfDataFileWriter \<Rightarrow> PerfDataFileWriter" where
  "create_file tgt pw =
     (close_no_finalize pw)\<lparr>pw_file := Some (write_all (PerfFileHeader_bytes (big_endian tgt) PerfFileHeader_default) OutputFile_new)\<rparr>"

definition file_pos :: "PerfDataFileWriter \<Rightarrow> nat option" where
  "file_pos pw = map_option out_pos (pw_file pw)"

section \<open>Event data\<close>

definition write_event_data :: "bytes \<Rightarrow> PerfDataFileWriter \<Rightarrow> (io_error + unit) \<times> PerfDataFileWriter" where
  "write_event_data d pw =
     (case pw_file pw of
        None \<Rightarrow> (Inl IoInvalidInput, pw)
      | Some f \<Rightarrow> (Inr (), pw\<lparr>pw_file := Some (write_all d f)\<rparr>))"

definition write_event_data_vectored :: "nat \<Rightarrow> bytes list \<Rightarrow> PerfDataFileWriter \<Rightarrow> (io_error + nat) \<times> PerfDataFileWriter" where
  "write_event_data_vectored accepted bufs pw =
     (case pw_file pw of
        None \<Rightarrow> (Inl IoInvalidInput, pw)
      | Some f \<Rightarrow> let (n, f) = write_vectored accepted bufs f in (Inr n, pw\<lparr>pw_file := Some f\<rparr>))"

definition write_finished_init :: "target \<Rightarrow> PerfDataFileWriter \<Rightarrow> (io_error + unit) \<times> PerfDataFileWriter" where
  "write_finished_init tgt pw =
     write_event_data (PerfEventHeader_bytes (big_endian tgt) \<lparr>ph_ty = HeaderType_FinishedInit, ph_misc = 0, ph_size = 8\<rparr>) pw"

definition write_finished_round :: "target \<Rightarrow> PerfDataFileWriter \<Rightarrow> (io_error + unit) \<times> PerfDataFileWriter" where
  "write_finished_round tgt pw =
     write_event_data (PerfEventHeader_bytes (big_endian tgt) \<lparr>ph_ty = HeaderType_FinishedRound, ph_misc = 0, ph_size = 8\<rparr>) pw"

section \<open>Headers\<close>

definition writer_get_header :: "nat \<Rightarrow> PerfDataFileWriter \<Rightarrow> bytes" where
  "writer_get_header i pw = (if i < length (dw_headers (pw_inner pw)) then dw_headers (pw_inner pw) ! i else [])"

definition put_header :: "nat \<Rightarrow> bytes \<Rightarrow> PerfDataFileWriter \<Rightarrow> PerfDataFileWriter" where
  "put_header i d pw = pw\<lparr>pw_inner := (pw_inner pw)\<lparr>dw_headers := (dw_headers (pw_inner pw))[i := d]\<rparr>\<rparr>"

definition writer_set_header :: "nat \<Rightarrow> bytes \<Rightarrow> PerfDataFileWriter \<Rightarrow> bool \<times> PerfDataFileWriter" where
  "writer_set_header i d pw =
     (if i < length (dw_headers (pw_inner pw)) then (True, put_header i d pw) else (False, pw))"

definition set_string_header :: "target \<Rightarrow> nat \<Rightarrow> bytes \<Rightarrow> PerfDataFileWriter \<Rightarrow> bool \<times> PerfDataFileWriter" where
  "set_string_header tgt i d pw =
     (if i < length (dw_headers (pw_inner pw)) then
        let value_len = strlen d;
            header_len = and_not (4 + value_len + 1 + 7) 7;
            header = word_bytes (big_endian tgt) (word_of_nat (value_len + 1) :: u32) @ take value_len d
        in (True, put_header i (header @ replicate (header_len - length header) 0) pw)
      else (False, pw))"

text \<open>The next setters unwrap the header's vector: its index is in range.\<close>

definition unwrap_header :: "nat \<Rightarrow> bytes \<Rightarrow> PerfDataFileWriter \<Rightarrow> PerfDataFileWriter option" where
  "unwrap_header i d pw = (if i < length (dw_headers (pw_inner pw)) then Some (put_header i d pw) else Panic)"

definition set_nr_cpus_header :: "target \<Rightarrow> u32 \<Rightarrow> u32 \<Rightarrow> PerfDataFileWriter \<Rightarrow> PerfDataFileWriter option" where
  "set_nr_cpus_header tgt available online = unwrap_header Index_NrCpus
     (word_bytes (big_endian tgt) available @ word_bytes (big_endian tgt) online)"

definition set_sample_time_header :: "target \<Rightarrow> u64 \<Rightarrow> u64 \<Rightarrow> PerfDataFileWriter \<Rightarrow> PerfDataFileWriter option" where
  "set_sample_time_header tgt first final = unwrap_header Index_SampleTime
     (word_bytes (big_endian tgt) first @ word_bytes (big_endian tgt) final)"

definition set_clockid_header :: "target \<Rightarrow> u32 \<Rightarrow> PerfDataFileWriter \<Rightarrow> PerfDataFileWriter option" where
  "set_clockid_header tgt clockid = unwrap_header Index_ClockId (word_bytes (big_endian tgt) (ucast clockid :: u64))"

definition set_clock_data_header :: "target \<Rightarrow> u32 \<Rightarrow> u64 \<Rightarrow> u64 \<Rightarrow> PerfDataFileWriter \<Rightarrow> PerfDataFileWriter option" where
  "set_clock_data_header tgt clockid wall_clock_ns clockid_time_ns = unwrap_header Index_ClockData
     (word_bytes (big_endian tgt) (1 :: u32) @ word_bytes (big_endian tgt) clockid
      @ word_bytes (big_endian tgt) wall_clock_ns @ word_bytes (big_endian tgt) clockid_time_ns)"

definition set_session_info_headers :: "target \<Rightarrow> PerfSessionInfo \<Rightarrow> PerfDataFileWriter \<Rightarrow> PerfDataFileWriter option" where
  "set_session_info_headers tgt s pw = do {
     pw \<leftarrow> (if clock_id s = 0xFFFFFFFF then unwrap_header Index_ClockId [] pw else set_clockid_header tgt (clock_id s) pw);
     (if \<not> clock_offset_known s then unwrap_header Index_ClockData [] pw
      else do {
        (wall_clock_ns, clock_offset_ns) \<leftarrow> get_clock_data (debug_assertions tgt) s;
        set_clock_data_header tgt (clock_id s) (word_of_nat wall_clock_ns) (word_of_nat clock_offset_ns) pw
      })
   }"

definition set_utsname_headers :: "target \<Rightarrow> bytes \<Rightarrow> bytes \<Rightarrow> bytes \<Rightarrow> PerfDataFileWriter \<Rightarrow> bool \<times> PerfDataFileWriter" where
  "set_utsname_headers tgt hostname os_release arch pw =
     (if length hostname \<ge> 0x80000000 \<or> length os_release \<ge> 0x80000000 \<or> length arch \<ge> 0x80000000 then (False, pw)
      else (True, snd (set_string_header tgt Index_Arch arch (snd (set_string_header tgt Index_OSRelease os_release
             (snd (set_string_header tgt Index_Hostname hostname pw)))))))"

section \<open>Tracing data\<close>

definition upd_inner :: "(DataFileWriter \<Rightarrow> DataFileWriter) \<Rightarrow> PerfDataFileWriter \<Rightarrow> PerfDataFileWriter" where
  "upd_inner u pw = pw\<lparr>pw_inner := u (pw_inner pw)\<rparr>"

definition set_tracing_data_required :: "u8 \<Rightarrow> u32 \<Rightarrow> PerfDataFileWriter \<Rightarrow> PerfDataFileWriter" where
  "set_tracing_data_required long_size page_size = upd_inner (\<lambda>w. w\<lparr>dw_long_size := long_size, dw_page_size := page_size\<rparr>)"

definition set_tracing_data_header_page :: "bytes \<Rightarrow> PerfDataFileWriter \<Rightarrow> bool \<times> PerfDataFileWriter" where
  "set_tracing_data_header_page d pw =
     (if length d \<ge> 0x80000000 then (False, pw) else (True, upd_inner (\<lambda>w. w\<lparr>dw_header_page := d\<rparr>) pw))"

definition set_tracing_data_header_event :: "bytes \<Rightarrow> PerfDataFileWriter \<Rightarrow> bool \<times> PerfDataFileWriter" where
  "set_tracing_data_header_event d pw =
     (if length d \<ge> 0x80000000 then (False, pw) else (True, upd_inner (\<lambda>w. w\<lparr>dw_header_event := d\<rparr>) pw))"

definition set_tracing_data_kallsyms :: "bytes \<Rightarrow> PerfDataFileWriter \<Rightarrow> bool \<times> PerfDataFileWriter" where
  "set_tracing_data_kallsyms d pw =
     (if length d \<ge> 0x80000000 then (False, pw) else (True, upd_inner (\<lambda>w. w\<lparr>dw_kallsyms := d\<rparr>) pw))"

definition set_tracing_data_printk :: "bytes \<Rightarrow> PerfDataFileWriter \<Rightarrow> bool \<times> PerfDataFileWriter" where
  "set_tracing_data_printk d pw =
     (if length d \<ge> 0x80000000 then (False, pw) else (True, upd_inner (\<lambda>w. w\<lparr>dw_printk := d\<rparr>) pw))"

definition set_tracing_data_saved_cmd_line :: "bytes \<Rightarrow> PerfDataFileWriter \<Rightarrow> bool \<times> PerfDataFileWriter" where
  "set_tracing_data_saved_cmd_line d pw =
     (if length d \<ge> 0x80000000 then (False, pw) else (True, upd_inner (\<lambda>w. w\<lparr>dw_cmd_line := d\<rparr>) pw))"

definition set_tracing_data_clear_ftraces :: "PerfDataFileWriter \<Rightarrow> PerfDataFileWriter" where
  "set_tracing_data_clear_ftraces = upd_inner (\<lambda>w. w\<lparr>dw_ftraces := []\<rparr>)"

definition set_tracing_data_add_ftrace :: "bytes \<Rightarrow> PerfDataFileWriter \<Rightarrow> bool \<times> PerfDataFileWriter" where
  "set_tracing_data_add_ftrace ftrace pw =
     (if length ftrace \<ge> 0x80000000 \<or> length (dw_ftraces (pw_inner pw)) \<ge> 0x80000000 then (False, pw)
      else (True, upd_inner (\<lambda>w. w\<lparr>dw_ftraces := dw_ftraces w @ [ftrace]\<rparr>) pw))"

section \<open>Event descriptions\<close>

text \<open>A name is cut at its first nul, which is a character boundary.\<close>

definition inner_add_event_desc :: "bytes \<Rightarrow> u64 list \<Rightarrow> PerfEventAttr \<Rightarrow> DataFileWriter \<Rightarrow> DataFileWriter" where
  "inner_add_event_desc name ids attr w =
     w\<lparr>dw_event_descs := dw_event_descs w @ [\<lparr>ed_name = take (strlen name) name, ed_sample_ids = ids, ed_attr = attr\<rparr>]\<rparr>"

definition desc_refused :: "u64 list \<Rightarrow> bytes \<Rightarrow> PerfDataFileWriter \<Rightarrow> bool" where
  "desc_refused ids name pw \<longleftrightarrow> length name \<ge> NAME_MAX_SIZE \<or> length ids \<ge> SAMPLE_IDS_MAX_SIZE
     \<or> length (dw_event_descs (pw_inner pw)) \<ge> 0xFFFFFFFF"

definition add_event_desc :: "u64 list \<Rightarrow> PerfEventAttr \<Rightarrow> bytes \<Rightarrow> PerfDataFileWriter \<Rightarrow> bool \<times> PerfDataFileWriter" where
  "add_event_desc ids attr name pw =
     (if desc_refused ids name pw then (False, pw) else (True, upd_inner (inner_add_event_desc name ids attr) pw))"

definition has_tracepoint_event_desc :: "nat \<Rightarrow> PerfDataFileWriter \<Rightarrow> bool" where
  "has_tracepoint_event_desc common_type pw \<longleftrightarrow> btree_get common_type (dw_formats (pw_inner pw)) \<noteq> None"

definition add_tracepoint_event_desc ::
  "u64 list \<Rightarrow> PerfEventAttr \<Rightarrow> bytes \<Rightarrow> PerfEventFormat \<Rightarrow> PerfDataFileWriter \<Rightarrow> bool \<times> PerfDataFileWriter" where
  "add_tracepoint_event_desc ids attr name fmt pw =
     (if desc_refused ids name pw then (False, pw)
      else
        case btree_get (ef_id fmt) (dw_formats (pw_inner pw)) of
          Some e \<Rightarrow> (False, pw)
        | None \<Rightarrow> (True, upd_inner (\<lambda>w. inner_add_event_desc name ids attr
                     (w\<lparr>dw_formats := btree_insert (ef_id fmt) fmt (dw_formats w)\<rparr>)) pw))"

section \<open>Synthesized headers\<close>

definition page_field :: "string \<Rightarrow> string \<Rightarrow> string \<Rightarrow> string \<Rightarrow> bytes" where
  "page_field decl ofs sz sg = [0x09] @ ascii decl @ [0x09] @ ascii ofs @ [0x09] @ ascii sz @ [0x09] @ ascii sg @ [0x0A]"

definition DEFAULT_HEADER_PAGE :: bytes where
  "DEFAULT_HEADER_PAGE =
     page_field ''field: u64 timestamp;'' ''offset:0;'' ''size:8;'' ''signed:0;''
     @ page_field ''field: local_t commit;'' ''offset:8;'' ''size:8;'' ''signed:1;''
     @ page_field ''field: int overwrite;'' ''offset:8;'' ''size:1;'' ''signed:1;''
     @ page_field ''field: char data;'' ''offset:16;'' ''size:4080;'' ''signed:0;''"

definition tab_line :: "string \<Rightarrow> bytes" where
  "tab_line s = [0x09] @ ascii s @ [0x0A]"

definition DEFAULT_HEADER_EVENT :: bytes where
  "DEFAULT_HEADER_EVENT =
     ascii ''# compressed entry header'' @ [0x0A]
     @ tab_line ''type_len    :    5 bits'' @ tab_line ''time_delta  :   27 bits'' @ tab_line ''array       :   32 bits'' @ [0x0A]
     @ tab_line ''padding     : type == 29'' @ tab_line ''time_extend : type == 30'' @ tab_line ''time_stamp : type == 31''
     @ tab_line ''data max type_len  == 28''"

text \<open>The formats of each system, systems in the order of their names, formats in the order of their ids.\<close>

fun add_to_system :: "PerfEventFormat \<Rightarrow> (bytes \<times> PerfEventFormat list) list \<Rightarrow> (bytes \<times> PerfEventFormat list) list" where
  "add_to_system e [] = [(ef_system_name e, [e])]"
| "add_to_system e ((n, fs) # ss) =
     (if ef_system_name e < n then (ef_system_name e, [e]) # (n, fs) # ss
      else if ef_system_name e = n then (n, fs @ [e]) # ss
      else (n, fs) # add_to_system e ss)"

definition formats_by_system :: "(nat \<times> PerfEventFormat) list \<Rightarrow> (bytes \<times> PerfEventFormat list) list" where
  "formats_by_system m = foldl (\<lambda>ss e. add_to_system e ss) [] (map snd m)"

definition append_format :: "target \<Rightarrow> bytes \<Rightarrow> PerfEventFormat \<Rightarrow> bytes" where
  "append_format tgt header e = append_section64 tgt header (as_latin1 (write_to e))"

definition append_system :: "target \<Rightarrow> bytes \<Rightarrow> bytes \<times> PerfEventFormat list \<Rightarrow> bytes" where
  "append_system tgt header s =
     foldl (append_format tgt)
       (append_string_z header (as_latin1 (fst s)) @ word_bytes (big_endian tgt) (word_of_nat (length (snd s)) :: u32)) (snd s)"

definition tracing_data_bytes :: "target \<Rightarrow> DataFileWriter \<Rightarrow> bytes option" where
  "tracing_data_bytes tgt w = do {
     let be = big_endian tgt;
     let header = append_string_z [] ([0x17, 0x08, 0x44] @ ascii ''tracing0.6'');
     let header = header @ [if be then 1 else 0] @ [dw_long_size w] @ word_bytes be (dw_page_size w);
     let header = append_named_section64 tgt header (ascii ''header_page'') DEFAULT_HEADER_PAGE (dw_header_page w);
     let header = append_named_section64 tgt header (ascii ''header_event'') DEFAULT_HEADER_EVENT (dw_header_event w);
     let header = header @ word_bytes be (word_of_nat (length (dw_ftraces w)) :: u32);
     let header = foldl (append_section64 tgt) header (dw_ftraces w);
     let systems = formats_by_system (dw_formats w);
     let header = header @ word_bytes be (word_of_nat (length systems) :: u32);
     let header = foldl (append_system tgt) header systems;
     header \<leftarrow> append_section32 tgt header (dw_kallsyms w);
     header \<leftarrow> append_section32 tgt header (dw_printk w);
     Some (append_section64 tgt header (dw_cmd_line w))
   }"

definition synthesize_tracing_data :: "target \<Rightarrow> DataFileWriter \<Rightarrow> DataFileWriter option" where
  "synthesize_tracing_data tgt w =
     (if dw_long_size w = 0 \<or> dw_page_size w = 0 then Some w
      else do {
        h \<leftarrow> index (dw_headers w) Index_TracingData;
        debug_assert (debug_assertions tgt) (h = []);
        header \<leftarrow> tracing_data_bytes tgt w;
        Some (w\<lparr>dw_headers := (dw_headers w)[Index_TracingData := header]\<rparr>)
      })"

definition append_desc :: "target \<Rightarrow> bytes \<Rightarrow> EventDesc \<Rightarrow> bytes option" where
  "append_desc tgt header d = do {
     let name = as_latin1 (ed_name d);
     debug_assert (debug_assertions tgt) (length (ed_name d) \<le> NAME_MAX_SIZE);
     let name_size = length (ed_name d);
     let name_pad = 8 - (name_size AND 7);
     debug_assert (debug_assertions tgt) (length (ed_sample_ids d) \<le> SAMPLE_IDS_MAX_SIZE);
     cut \<leftarrow> slice name 0 name_size;
     Some (header @ PerfEventAttr_bytes (big_endian tgt) (ed_attr d)
       @ word_bytes (big_endian tgt) (word_of_nat (length (ed_sample_ids d)) :: u32)
       @ word_bytes (big_endian tgt) (word_of_nat (name_size + name_pad) :: u32)
       @ cut @ replicate name_pad 0
       @ concat (map (word_bytes (big_endian tgt)) (ed_sample_ids d)))
   }"

fun append_descs :: "target \<Rightarrow> bytes \<Rightarrow> EventDesc list \<Rightarrow> bytes option" where
  "append_descs tgt header [] = Some header"
| "append_descs tgt header (d # ds) = do {
     header \<leftarrow> append_desc tgt header d;
     append_descs tgt header ds
   }"

definition synthesize_event_desc :: "target \<Rightarrow> DataFileWriter \<Rightarrow> DataFileWriter option" where
  "synthesize_event_desc tgt w = do {
     h \<leftarrow> index (dw_headers w) Index_EventDesc;
     debug_assert (debug_assertions tgt) (h = []);
     debug_assert (debug_assertions tgt) (length (dw_event_descs w) \<le> 0xFFFFFFFF);
     header \<leftarrow> append_descs tgt
       (word_bytes (big_endian tgt) (word_of_nat (length (dw_event_descs w)) :: u32)
        @ word_bytes (big_endian tgt) (word_of_nat PERF_EVENT_ATTR_SIZE :: u32)) (dw_event_descs w);
     Some (w\<lparr>dw_headers := (dw_headers w)[Index_EventDesc := header]\<rparr>)
   }"

section \<open>Finishing the file\<close>

definition header_flags :: "bytes list \<Rightarrow> u64" where
  "header_flags hs = foldl (\<lambda>flags i. if hs ! i = [] then flags else flags OR push_bit i 1) 0 [0..<Index_LastFeature]"

definition nonempty_headers :: "bytes list \<Rightarrow> bytes list" where
  "nonempty_headers hs = filter (\<lambda>h. h \<noteq> []) (map (\<lambda>i. hs ! i) [0..<Index_LastFeature])"

fun write_sections :: "target \<Rightarrow> bytes list \<Rightarrow> nat \<Rightarrow> OutputFile \<Rightarrow> nat \<times> OutputFile" where
  "write_sections tgt [] offset f = (offset, f)"
| "write_sections tgt (h # hs) offset f =
     write_sections tgt hs (offset + length h)
       (write_all (PerfFileSection_bytes (big_endian tgt)
          \<lparr>fs_offset = word_of_nat offset, fs_size = word_of_nat (length h)\<rparr>) f)"

definition write_headers :: "target \<Rightarrow> DataFileWriter \<Rightarrow> OutputFile \<Rightarrow> (u64 \<times> OutputFile) option" where
  "write_headers tgt w f = do {
     let hs = nonempty_headers (dw_headers w);
     let first_perf_header_offset = out_pos f + PERF_FILE_SECTION_SIZE * length hs;
     let (perf_header_offset, f) = write_sections tgt hs first_perf_header_offset f;
     let f = foldl (\<lambda>f h. write_all h f) f hs;
     rust_assert (out_pos f = perf_header_offset);
     Some (header_flags (dw_headers w), f)
   }"

fun write_attr_entries :: "target \<Rightarrow> EventDesc list \<Rightarrow> nat \<Rightarrow> OutputFile \<Rightarrow> OutputFile" where
  "write_attr_entries tgt [] attr_ids_offset f = f"
| "write_attr_entries tgt (d # ds) attr_ids_offset f =
     (let ids_size = length (ed_sample_ids d) * 8 in
      write_attr_entries tgt ds (attr_ids_offset + ids_size)
        (write_all (PerfFileSection_bytes (big_endian tgt) \<lparr>fs_offset = word_of_nat attr_ids_offset, fs_size = word_of_nat ids_size\<rparr>)
          (write_all (PerfEventAttr_bytes (big_endian tgt) (ed_attr d)) f)))"

definition write_attrs :: "target \<Rightarrow> DataFileWriter \<Rightarrow> OutputFile \<Rightarrow> PerfFileSection \<times> OutputFile" where
  "write_attrs tgt w f =
     (let entry_size = PERF_EVENT_ATTR_SIZE + PERF_FILE_SECTION_SIZE;
          start = out_pos f;
          size = entry_size * length (dw_event_descs w);
          f = write_attr_entries tgt (dw_event_descs w) (start + size) f;
          f = foldl (\<lambda>f d. write_all (concat (map (word_bytes (big_endian tgt)) (ed_sample_ids d))) f) f (dw_event_descs w)
      in (\<lparr>fs_offset = word_of_nat start, fs_size = word_of_nat size\<rparr>, f))"

text \<open>The result of a success has the bytes of the file that was closed.\<close>

definition finalize_and_close :: "target \<Rightarrow> PerfDataFileWriter \<Rightarrow> (PerfDataFileWriter, bytes) io_result" where
  "finalize_and_close tgt pw =
     (case pw_file pw of
        None \<Rightarrow> Some (Inl IoInvalidInput, pw)
      | Some f \<Rightarrow> do {
          w \<leftarrow> synthesize_tracing_data tgt (pw_inner pw);
          w \<leftarrow> synthesize_event_desc tgt w;
          data_size \<leftarrow> usub 64 (debug_assertions tgt) (out_pos f) PERF_FILE_HEADER_SIZE;
          (flags0, f) \<leftarrow> write_headers tgt w f;
          let (attrs, f) = write_attrs tgt w f;
          let file_header =
            \<lparr>fh_pipe = \<lparr>fp_magic = PERFILE2_MAGIC_HOST_ENDIAN, fp_size = word_of_nat PERF_FILE_HEADER_SIZE\<rparr>,
             fh_rest = \<lparr>fr_attr_size = word_of_nat (PERF_EVENT_ATTR_SIZE + PERF_FILE_SECTION_SIZE), fr_attrs = attrs,
               fr_data = \<lparr>fs_offset = word_of_nat PERF_FILE_HEADER_SIZE, fs_size = word_of_nat data_size\<rparr>,
               fr_event_types = \<lparr>fs_offset = 0, fs_size = 0\<rparr>, fr_flags = [flags0, 0, 0, 0]\<rparr>\<rparr>;
          let f = write_all (PerfFileHeader_bytes (big_endian tgt) file_header) (out_seek 0 f);
          Some (Inr (out_bytes f), close_no_finalize (pw\<lparr>pw_inner := w\<rparr>))
        })"

end
