(* ===== verification/Written_File.thy ===== *)
theory Written_File
  imports File_Writer
begin

unbundle bit_operations_syntax

text \<open>
  What \<open>PerfDataFileWriter\<close> writes, as a layout, and \<open>PerfDataFileReader\<close> opening it: the attributes, the feature headers and the event data are found where
  the writer put them.
\<close>

section \<open>The layout of a finished file\<close>

fun header_sections :: "bool \<Rightarrow> nat \<Rightarrow> bytes list \<Rightarrow> bytes" where
  "header_sections be off [] = []"
| "header_sections be off (h # hs) =
     PerfFileSection_bytes be \<lparr>fs_offset = word_of_nat off, fs_size = word_of_nat (length h)\<rparr> @ header_sections be (off + length h) hs"

definition id_bytes :: "bool \<Rightarrow> EventDesc \<Rightarrow> bytes" where
  "id_bytes be d = concat (map (word_bytes be) (ed_sample_ids d))"

fun attr_entries :: "bool \<Rightarrow> nat \<Rightarrow> EventDesc list \<Rightarrow> bytes" where
  "attr_entries be off [] = []"
| "attr_entries be off (d # ds) =
     PerfEventAttr_bytes be (ed_attr d)
     @ PerfFileSection_bytes be \<lparr>fs_offset = word_of_nat off, fs_size = word_of_nat (length (ed_sample_ids d) * 8)\<rparr>
     @ attr_entries be (off + length (ed_sample_ids d) * 8) ds"

lemma length_header_sections [simp]: "length (header_sections be off hs) = 16 * length hs"
  by (induction hs arbitrary: off) simp_all

lemma length_id_bytes [simp]: "length (id_bytes be d) = length (ed_sample_ids d) * 8"
  by (simp add: id_bytes_def mult.commute)

lemma length_attr_entries [simp]: "length (attr_entries be off ds) = 144 * length ds"
  by (induction ds arbitrary: off) simp_all

definition at_end :: "OutputFile \<Rightarrow> bool" where
  "at_end f \<longleftrightarrow> out_pos f = length (out_bytes f)"

definition appended_file :: "OutputFile \<Rightarrow> bytes \<Rightarrow> OutputFile" where
  "appended_file f d = \<lparr>out_bytes = out_bytes f @ d, out_pos = length (out_bytes f @ d)\<rparr>"

lemma appended_file_simps [simp]:
  "at_end f \<Longrightarrow> write_all d f = appended_file f d" "at_end (appended_file f d)" "out_bytes (appended_file f d) = out_bytes f @ d"
  "out_pos (appended_file f d) = length (out_bytes f) + length d" "appended_file (appended_file f d) e = appended_file f (d @ e)"
  by (simp_all add: at_end_def appended_file_def write_all_end)

lemma appended_file_Nil [simp]: "at_end f \<Longrightarrow> appended_file f [] = f"
  by (simp add: appended_file_def at_end_def)

lemma write_sections_layout:
  "at_end f \<Longrightarrow> write_sections tgt hs off f = (off + length (concat hs), appended_file f (header_sections (big_endian tgt) off hs))"
  by (induction hs arbitrary: off f) simp_all

lemma write_blocks_layout: "at_end f \<Longrightarrow> foldl (\<lambda>f h. write_all (b h) f) f hs = appended_file f (concat (map b hs))"
  by (induction hs arbitrary: f) simp_all

lemma write_attr_entries_layout:
  "at_end f \<Longrightarrow> write_attr_entries tgt ds off f = appended_file f (attr_entries (big_endian tgt) off ds)"
  by (induction ds arbitrary: off f) (simp_all add: Let_def)

text \<open>The parts of the file behind the event data.\<close>

definition footer_bytes :: "bool \<Rightarrow> nat \<Rightarrow> bytes list \<Rightarrow> EventDesc list \<Rightarrow> bytes" where
  "footer_bytes be pos hs ds =
     header_sections be (pos + 16 * length hs) hs @ concat hs
     @ attr_entries be (pos + 16 * length hs + length (concat hs) + 144 * length ds) ds @ concat (map (id_bytes be) ds)"

definition file_header :: "nat \<Rightarrow> nat \<Rightarrow> u64 \<Rightarrow> bytes list \<Rightarrow> EventDesc list \<Rightarrow> PerfFileHeader" where
  "file_header data_size pos flags0 hs ds =
     \<lparr>fh_pipe = \<lparr>fp_magic = PERFILE2_MAGIC_HOST_ENDIAN, fp_size = 104\<rparr>,
      fh_rest = \<lparr>fr_attr_size = 144,
        fr_attrs = \<lparr>fs_offset = word_of_nat (pos + 16 * length hs + length (concat hs)), fs_size = word_of_nat (144 * length ds)\<rparr>,
        fr_data = \<lparr>fs_offset = 104, fs_size = word_of_nat data_size\<rparr>,
        fr_event_types = \<lparr>fs_offset = 0, fs_size = 0\<rparr>, fr_flags = [flags0, 0, 0, 0]\<rparr>\<rparr>"

definition file_bytes :: "bool \<Rightarrow> bytes \<Rightarrow> DataFileWriter \<Rightarrow> bytes" where
  "file_bytes be d w =
     (let hs = nonempty_headers (dw_headers w); pos = 104 + length d in
      PerfFileHeader_bytes be (file_header (length d) pos (header_flags (dw_headers w)) hs (dw_event_descs w))
      @ d @ footer_bytes be pos hs (dw_event_descs w))"

lemma write_headers_layout:
  assumes "at_end f"
  shows "write_headers tgt w f = Some (header_flags (dw_headers w), appended_file f
    (header_sections (big_endian tgt) (length (out_bytes f) + 16 * length (nonempty_headers (dw_headers w))) (nonempty_headers (dw_headers w))
     @ concat (nonempty_headers (dw_headers w))))"
  using assms write_blocks_layout [of _ "\<lambda>h. h"]
  by (simp add: write_headers_def write_sections_layout Let_def rust_assert_def) (simp add: at_end_def)

lemma write_attrs_layout:
  assumes "at_end f"
  shows "write_attrs tgt w f =
    (\<lparr>fs_offset = word_of_nat (length (out_bytes f)), fs_size = word_of_nat (144 * length (dw_event_descs w))\<rparr>,
     appended_file f (attr_entries (big_endian tgt) (length (out_bytes f) + 144 * length (dw_event_descs w)) (dw_event_descs w)
       @ concat (map (id_bytes (big_endian tgt)) (dw_event_descs w))))"
proof -
  have p: "out_pos f = length (out_bytes f)" using assms by (simp add: at_end_def)
  show ?thesis
    using assms by (simp add: write_attrs_def Let_def write_attr_entries_layout write_blocks_layout p id_bytes_def [abs_def])
qed

definition synthesized :: "target \<Rightarrow> DataFileWriter \<Rightarrow> DataFileWriter option" where
  "synthesized tgt w = do { w \<leftarrow> synthesize_tracing_data tgt w; synthesize_event_desc tgt w }"

lemma synthesized_keeps: "synthesized tgt w = Some w' \<Longrightarrow> dw_event_descs w' = dw_event_descs w \<and> length (dw_headers w') = length (dw_headers w)"
  by (auto simp: synthesized_def synthesize_tracing_data_def synthesize_event_desc_def split: Option.bind_split_asm if_split_asm)

lemma finalize_layout:
  assumes "pw_file pw = Some f" "at_end f" "out_bytes f = h0 @ d" "length h0 = 104" "synthesized tgt (pw_inner pw) = Some w"
  shows "finalize_and_close tgt pw = Some (Inr (file_bytes (big_endian tgt) d w), close_no_finalize (pw\<lparr>pw_inner := w\<rparr>))"
proof -
  let ?be = "big_endian tgt" and ?hs = "nonempty_headers (dw_headers w)" and ?pos = "104 + length d"
  have p: "out_pos f = ?pos" using assms(2-4) by (simp add: at_end_def)
  have s: "(do { w \<leftarrow> synthesize_tracing_data tgt (pw_inner pw); w \<leftarrow> synthesize_event_desc tgt w; k w }) = k w" for k :: "DataFileWriter \<Rightarrow> 'a option"
    using assms(5) by (auto simp: synthesized_def split: Option.bind_split_asm)
  have over: "out_bytes (write_all b (out_seek 0 (appended_file f x))) = b @ d @ x" if "length b = 104" for b x
    using that assms(3,4) by (simp add: write_all_def overwrite_def out_seek_def)
  show ?thesis
    using assms(1-4) p
    by (simp add: finalize_and_close_def s write_headers_layout write_attrs_layout over file_bytes_def footer_bytes_def file_header_def Let_def add.assoc)
qed

section \<open>Reading it\<close>

text \<open>An attribute comes back with the size of the struct.\<close>

definition stored_attr :: "PerfEventAttr \<Rightarrow> PerfEventAttr" where
  "stored_attr a = a\<lparr>at_attr_size := 128\<rparr>"

lemma stored_attr_simps [simp]:
  "all_offsets (stored_attr a) = all_offsets a" "format_of_attr (stored_attr a) ra = format_of_attr a ra"
  by (simp_all add: stored_attr_def all_offsets_def format_of_attr_def)

definition add_desc :: "bytes \<Rightarrow> EventDesc \<Rightarrow> ReaderAttrs \<Rightarrow> ReaderAttrs" where
  "add_desc name d ra =
     with_desc (PerfEventDesc_new (stored_attr (ed_attr d)) name (format_of_attr (ed_attr d) ra) (ed_sample_ids d)) ra"

definition offsets_agree :: "int \<times> int \<times> int \<times> int \<Rightarrow> ReaderAttrs \<Rightarrow> bool" where
  "offsets_agree offs ra \<longleftrightarrow> attrs_inv ra \<and> (event_desc_list ra = [] \<or> offsets ra = offs)"

lemma attr_from_file_written:
  "attr_from_file tgt (KEEP_ENDIAN tgt) (PerfEventAttr_bytes (big_endian tgt) a) = Some (stored_attr a)"
  by (simp add: attr_from_file_def debug_assert_def rust_assert_def Let_def byte_swap_needed_def KEEP_ENDIAN_def stored_attr_def)

lemma add_attr_written:
  assumes "offsets_agree offs ra" "all_offsets (ed_attr d) = offs"
  shows "add_attr tgt (KEEP_ENDIAN tgt) (PerfEventAttr_bytes (big_endian tgt) (ed_attr d)) name (id_bytes (big_endian tgt) d) ra =
    Some (True, add_desc (string_from_latin1 name) d ra)"
    "offsets_agree offs (add_desc nm d ra)"
proof -
  have inv: "attrs_inv ra" and o: "event_desc_list ra = [] \<or> offsets ra = all_offsets (ed_attr d)"
    using assms by (auto simp: offsets_agree_def)
  have "read_ids (KEEP_ENDIAN tgt) (id_bytes (big_endian tgt) d) = Some (ed_sample_ids d)"
    by (simp add: id_bytes_def KEEP_ENDIAN_def read_ids_written)
  from add_attr_result [OF inv attr_from_file_written this] o
  show "add_attr tgt (KEEP_ENDIAN tgt) (PerfEventAttr_bytes (big_endian tgt) (ed_attr d)) name (id_bytes (big_endian tgt) d) ra =
      Some (True, add_desc (string_from_latin1 name) d ra)"
    by (simp add: add_desc_def)
  show "offsets_agree offs (add_desc nm d ra)"
    unfolding offsets_agree_def add_desc_def using with_desc_inv [OF inv] o assms(2) by simp
qed

text \<open>A file that is read where its remembered position is right.\<close>

definition reading :: "bytes \<Rightarrow> InputFile \<Rightarrow> bool" where
  "reading contents f \<longleftrightarrow> in_bytes f = contents \<and> in_len f = length contents \<and> in_seek f = in_pos f \<and> in_pos f \<le> length contents"

definition file_on :: "bytes \<Rightarrow> nat \<Rightarrow> InputFile" where
  "file_on contents p = \<lparr>in_bytes = contents, in_seek = p, in_pos = p, in_len = length contents\<rparr>"

lemma seek_reading: "reading contents f \<Longrightarrow> p \<le> length contents \<Longrightarrow> seek_absolute p f = (Inr p, file_on contents p)"
  by (cases f) (auto simp: seek_absolute_def reading_def file_on_def)

lemma seek_file_on [simp]: "p \<le> length contents \<Longrightarrow> seek_absolute p (file_on contents q) = (Inr p, file_on contents p)"
  by (simp add: seek_absolute_def file_on_def)

lemma read_reading:
  "contents = a @ b @ c \<Longrightarrow> p = length a \<Longrightarrow> n = length b \<Longrightarrow> read_exact n (file_on contents p) = (Inr b, file_on contents (p + n))"
  by (auto simp: read_exact_def file_on_def)

lemma reading_file_on [simp]: "p \<le> length contents \<Longrightarrow> reading contents (file_on contents p)"
  by (simp add: reading_def file_on_def)

lemma in_len_file_on [simp]: "in_len (file_on contents p) = length contents"
  by (simp add: file_on_def)

lemma section_valid_on:
  "off < length contents \<Longrightarrow> off + n \<le> length contents \<Longrightarrow> length contents < 2 ^ 64 \<Longrightarrow>
   section_valid (file_on contents p) \<lparr>fs_offset = word_of_nat off, fs_size = word_of_nat n\<rparr>"
  by (simp add: section_valid_def unsigned_of_nat take_bit_nat_eq_self)

lemma unat_small [simp]: "n < 2 ^ 64 \<Longrightarrow> unat (word_of_nat n :: u64) = n"
  by (simp add: unsigned_of_nat take_bit_nat_eq_self)

lemma word_and_7: "8 dvd n \<Longrightarrow> (word_of_nat n :: u64) AND 7 = 0"
proof -
  assume "8 dvd n"
  then have "n AND 7 = 0" using and_nat_def [of n 7] take_bit_eq_mask [of 3 n] by (auto simp: take_bit_eq_mod mask_eq_exp_minus_1 elim!: dvdE)
  then show ?thesis using of_nat_and_eq [of n 7, where ?'a = "64 word"] by simp
qed

text \<open>
  The loop over the attributes: the entries stand at the current position, the ids of the entries read so far and of those to come behind them.
\<close>

lemma load_attrs_loop_written:
  assumes "contents = pre @ attr_entries (big_endian tgt) off ds @ mid @ concat (map (id_bytes (big_endian tgt)) ds) @ post"
    and "off = length (pre @ attr_entries (big_endian tgt) off ds @ mid)" "length contents < 2 ^ 31"
    and "\<forall>d \<in> set ds. ed_sample_ids d \<noteq> [] \<and> all_offsets (ed_attr d) = offs" "offsets_agree offs (rd_attrs self)"
    and "reading contents f" "buffers self \<noteq> []" "si_byte_reader (session_info self) = KEEP_ENDIAN tgt"
  shows "\<exists>bs f'. load_attrs_loop tgt 128 (length pre + 144 * length ds) (length pre) self f =
      Some (Inr (), self\<lparr>buffers := bs, rd_attrs := fold (add_desc []) ds (rd_attrs self)\<rparr>, f')
    \<and> length bs = length (buffers self) \<and> reading contents f' \<and> offsets_agree offs (fold (add_desc []) ds (rd_attrs self))"
  using assms
proof (induction ds arbitrary: pre off mid self f)
  case Nil
  then show ?case by (intro exI [of _ "buffers self"] exI [of _ f]) (simp add: load_attrs_loop.simps)
next
  case (Cons d ds)
  define n where "n = length (ed_sample_ids d) * 8"
  let ?be = "big_endian tgt"
  have n: "length (id_bytes ?be d) = n" "8 dvd n" by (simp_all add: n_def)
  let ?s = "\<lparr>fs_offset = word_of_nat off, fs_size = word_of_nat n\<rparr> :: PerfFileSection"
  let ?entry = "PerfEventAttr_bytes ?be (ed_attr d) @ PerfFileSection_bytes ?be ?s"
  let ?self = "self\<lparr>buffers := (buffers self)[0 := id_bytes ?be d], rd_attrs := add_desc [] d (rd_attrs self)\<rparr>"
  let ?len = "length contents"
  have c: "contents = pre @ PerfEventAttr_bytes ?be (ed_attr d) @ PerfFileSection_bytes ?be ?s @ attr_entries ?be (off + n) ds
      @ mid @ id_bytes ?be d @ concat (map (id_bytes ?be) ds) @ post"
    using Cons.prems(1) by (simp add: n_def)
  have off: "off = length (pre @ ?entry @ attr_entries ?be (off + n) ds @ mid)" using Cons.prems(2) by (simp add: n_def)
  have ids: "0 < n" using Cons.prems(4) by (simp add: n_def)
  have len: "?len = off + n + length (concat (map (id_bytes ?be) ds) @ post)" using c off n by (simp only: length_append)
  have r1: "read_exact 128 (file_on contents (length pre)) = (Inr (PerfEventAttr_bytes ?be (ed_attr d)), file_on contents (length pre + 128))"
    using c by (intro read_reading) simp_all
  have r2: "read_exact 16 (file_on contents (length pre + 128)) = (Inr (PerfFileSection_bytes ?be ?s), file_on contents (length pre + 128 + 16))"
    by (rule read_reading [of _ "pre @ PerfEventAttr_bytes ?be (ed_attr d)" _
        "attr_entries ?be (off + n) ds @ mid @ id_bytes ?be d @ concat (map (id_bytes ?be) ds) @ post"])
      (use c in simp_all)
  have r3: "read_exact n (file_on contents off) = (Inr (id_bytes ?be d), file_on contents (off + n))"
    by (rule read_reading [of _ "pre @ ?entry @ attr_entries ?be (off + n) ds @ mid" _ "concat (map (id_bytes ?be) ds) @ post"])
      (use c off n in simp_all)
  have valid: "section_valid (file_on contents p) ?s" for p
    using len ids Cons.prems(3) by (intro section_valid_on) simp_all
  have small: "\<not> (0x80000000 \<le> (word_of_nat n :: u64))" "unat (word_of_nat off :: u64) = off" "unat (word_of_nat n :: u64) = n"
    using len Cons.prems(3) by (simp_all add: word_le_nat_alt)
  have pos: "length pre \<le> ?len" "length pre + 128 \<le> ?len" "length pre + 144 \<le> ?len" "off \<le> ?len" "off + n \<le> ?len"
    using c len by simp_all
  have add: "add_attr tgt (KEEP_ENDIAN tgt) (PerfEventAttr_bytes ?be (ed_attr d)) [] (id_bytes ?be d) (rd_attrs self) =
      Some (True, add_desc [] d (rd_attrs self))"
    using add_attr_written(1) [OF Cons.prems(5), of d tgt "[]"] Cons.prems(4) by (simp add: string_from_latin1_def)
  have step: "load_attrs_loop tgt 128 (length pre + 144 * length (d # ds)) (length pre) self f =
      load_attrs_loop tgt 128 (length (pre @ ?entry) + 144 * length ds) (length (pre @ ?entry)) ?self (file_on contents (off + n))"
    using Cons.prems(7-8) seek_reading [OF Cons.prems(6) pos(1)] r1 r2 r3 valid small pos add word_and_7 [OF n(2)]
    by (subst load_attrs_loop.simps)
      (simp add: Let_def read_assign_vec_def read_append_vec_def add.assoc)
  have "\<exists>bs f'. load_attrs_loop tgt 128 (length (pre @ ?entry) + 144 * length ds) (length (pre @ ?entry)) ?self (file_on contents (off + n)) =
        Some (Inr (), ?self\<lparr>buffers := bs, rd_attrs := fold (add_desc []) ds (rd_attrs ?self)\<rparr>, f')
      \<and> length bs = length (buffers ?self) \<and> reading contents f' \<and> offsets_agree offs (fold (add_desc []) ds (rd_attrs ?self))"
    using c off n Cons.prems(3,4,7,8) pos add_attr_written(2) [OF Cons.prems(5), of d]
    by (intro Cons.IH [of "pre @ ?entry" "off + n" "mid @ id_bytes ?be d"]) simp_all
  then show ?case unfolding step by simp
qed

text \<open>The feature headers: every one that is not empty is stored and parsed, in the order of their numbers.\<close>

fun load_each :: "target \<Rightarrow> bytes list \<Rightarrow> nat list \<Rightarrow> DataFileReader \<Rightarrow> DataFileReader option" where
  "load_each tgt hs [] self = Some self"
| "load_each tgt hs (i # is) self =
     (if hs ! i = [] then load_each tgt hs is self
      else do {
        self \<leftarrow> header_loaded tgt i (self\<lparr>headers := (headers self)[i := hs ! i]\<rparr>);
        load_each tgt hs is self
      })"

lemma header_loaded_keeps: "header_loaded tgt i self = Some s \<Longrightarrow> keeps self s"
  by (auto simp: header_loaded_def dest: parse_header_clockid_keeps parse_header_clock_data_keeps
      parse_header_event_desc_keeps parse_tracing_data_keeps split: if_split_asm)

lemma flags_bit:
  "n \<le> 64 \<Longrightarrow> bit (foldl (\<lambda>flags i. if hs ! i = [] then flags else flags OR push_bit i 1) 0 [0..<n] :: u64) i \<longleftrightarrow> i < n \<and> hs ! i \<noteq> []"
  by (induction n) (auto simp: bit_or_iff bit_exp_iff less_Suc_eq)

lemma header_flag: "i < 32 \<Longrightarrow> header_flags hs AND push_bit i 1 \<noteq> 0 \<longleftrightarrow> hs ! i \<noteq> []"
  using flags_bit [of 32 hs i] by (simp only: header_flags_def Index_LastFeature_def bit_iff_and_push_bit_not_eq_0) simp

lemma load_headers_loop_written:
  assumes "hs = filter (\<lambda>h. h \<noteq> []) (map ((!) all) is)" "\<forall>i \<in> set is. i < 32" "length (headers self) = 32"
    and "contents = pre @ header_sections (big_endian tgt) off hs @ mid @ concat hs @ post"
    and "off = length (pre @ header_sections (big_endian tgt) off hs @ mid)" "length contents < 2 ^ 31" "reading contents f"
  shows "\<exists>f'. load_headers_loop tgt (header_flags all) is (length pre) self f = map_option (\<lambda>s. (Inr (), s, f')) (load_each tgt all is self)
    \<and> reading contents f'"
  using assms
proof (induction "is" arbitrary: hs pre off mid self f)
  case Nil
  then show ?case by auto
next
  case (Cons i "is")
  show ?case
  proof (cases "all ! i = []")
    case True
    then have "filter (\<lambda>h. h \<noteq> []) (map ((!) all) (i # is)) = filter (\<lambda>h. h \<noteq> []) (map ((!) all) is)" by simp
    with Cons.IH [of hs self pre off mid f] Cons.prems True header_flag [of i all] show ?thesis by simp
  next
    case False
    define h where "h = all ! i"
    let ?be = "big_endian tgt" and ?hs = "filter (\<lambda>h. h \<noteq> []) (map ((!) all) is)"
    let ?s = "\<lparr>fs_offset = word_of_nat off, fs_size = word_of_nat (length h)\<rparr> :: PerfFileSection"
    let ?self = "self\<lparr>headers := (headers self)[i := h]\<rparr>"
    have c: "contents = pre @ PerfFileSection_bytes ?be ?s @ header_sections ?be (off + length h) ?hs @ mid @ h @ concat ?hs @ post"
      using Cons.prems(1,4) False by (simp add: h_def)
    have off: "off = length (pre @ PerfFileSection_bytes ?be ?s @ header_sections ?be (off + length h) ?hs @ mid)"
      using Cons.prems(1,5) False by (simp add: h_def)
    have len: "length contents = off + length h + length (concat ?hs @ post)" using c off by (simp only: length_append)
    have h: "h \<noteq> []" using False by (simp add: h_def)
    have r1: "read_exact 16 (file_on contents (length pre)) = (Inr (PerfFileSection_bytes ?be ?s), file_on contents (length pre + 16))"
      using c by (intro read_reading) simp_all
    have r2: "read_exact (length h) (file_on contents off) = (Inr h, file_on contents (off + length h))"
      by (rule read_reading [of _ "pre @ PerfFileSection_bytes ?be ?s @ header_sections ?be (off + length h) ?hs @ mid" _ "concat ?hs @ post"])
        (use c off in simp_all)
    have valid: "section_valid (file_on contents p) ?s" for p
      using len h Cons.prems(6) by (intro section_valid_on) simp_all
    have small: "\<not> (0x80000000 \<le> (word_of_nat (length h) :: u64))" "unat (word_of_nat off :: u64) = off" "unat (word_of_nat (length h) :: u64) = length h"
      using len Cons.prems(6) by (simp_all add: word_le_nat_alt)
    have pos: "length pre \<le> length contents" "length pre + 16 \<le> length contents" "off \<le> length contents" "off + length h \<le> length contents"
      using c len by simp_all
    have i: "i < 32" "i < length (headers self)" using Cons.prems(2,3) by simp_all
    have flag: "header_flags all AND push_bit i 1 \<noteq> 0" using False i header_flag by blast
    have step: "load_headers_loop tgt (header_flags all) (i # is) (length pre) self f =
        header_loaded tgt i ?self \<bind> (\<lambda>s. load_headers_loop tgt (header_flags all) is (length pre + 16) s (file_on contents (off + length h)))"
      using flag i seek_reading [OF Cons.prems(7) pos(1)] r1 r2 valid small pos
      by (simp add: Let_def read_assign_vec_def read_append_vec_def index_def)
    show ?thesis
    proof (cases "header_loaded tgt i ?self")
      case None
      then have e: "load_each tgt all (i # is) self = None" using False by (simp add: h_def)
      show ?thesis unfolding step e None using Cons.prems(7) by auto
    next
      case (Some s)
      then have "length (headers s) = 32" using header_loaded_keeps [OF Some] Cons.prems(3) by (simp add: keeps_def)
      then have "\<exists>f'. load_headers_loop tgt (header_flags all) is (length (pre @ PerfFileSection_bytes ?be ?s)) s (file_on contents (off + length h)) =
          map_option (\<lambda>s. (Inr (), s, f')) (load_each tgt all is s) \<and> reading contents f'"
        using c off Cons.prems(2,6) pos
        by (intro Cons.IH [of ?hs s "pre @ PerfFileSection_bytes ?be ?s" "off + length h" "mid @ h"]) simp_all
      moreover have e: "load_each tgt all (i # is) self = load_each tgt all is s" using Some False by (simp add: h_def)
      ultimately show ?thesis unfolding step e Some by simp
    qed
  qed
qed

text \<open>Opening the file: the header, the attributes, the feature headers, and the file at the start of the event data.\<close>

definition opened :: "bytes \<Rightarrow> nat \<Rightarrow> DataFileReader \<Rightarrow> (io_error + unit) \<times> DataFileReader \<times> InputFile" where
  "opened contents n s = (Inr (), s\<lparr>data_begin_file_pos := 104, data_end_file_pos := 104 + n\<rparr>, file_on contents 104)"

definition fresh_reader :: "PerfDataFileEventOrder \<Rightarrow> target \<Rightarrow> DataFileReader \<Rightarrow> DataFileReader" where
  "fresh_reader order tgt self = self\<lparr>event_order := order, session_info := PerfSessionInfo_new (KEEP_ENDIAN tgt)\<rparr>"

lemma footer_length: "length (footer_bytes be pos hs ds) =
    16 * length hs + length (concat hs) + 144 * length ds + length (concat (map (id_bytes be) ds))"
  by (simp add: footer_bytes_def)

lemma open_rest_written:
  assumes "hs = nonempty_headers (dw_headers w)" "ds = dw_event_descs w" "contents = file_bytes (big_endian tgt) d w"
    and "length contents < 2 ^ 31" "ds \<noteq> []" "\<forall>x \<in> set ds. ed_sample_ids x \<noteq> [] \<and> all_offsets (ed_attr x) = offs"
    and "offsets_agree offs (rd_attrs self)" "buffers self = [] # bufs" "length (headers self) = 32"
    and "si_byte_reader (session_info self) = KEEP_ENDIAN tgt" "in_bytes f = contents" "in_seek f = 16" "in_pos f = 16"
  shows "\<exists>bs. open_rest tgt self f = map_option (opened contents (length d))
      (load_each tgt (dw_headers w) [0..<32] (self\<lparr>buffers := bs, rd_attrs := fold (add_desc []) ds (rd_attrs self)\<rparr>))
    \<and> length bs = length (buffers self)"
proof -
  let ?be = "big_endian tgt"
  define pos where "pos = 104 + length d"
  define hd where "hd = file_header (length d) pos (header_flags (dw_headers w)) hs ds"
  define H where "H = PerfFileHeader_bytes ?be hd"
  define ids_off where "ids_off = pos + 16 * length hs + length (concat hs) + 144 * length ds"
  let ?sections = "header_sections ?be (pos + 16 * length hs) hs" and ?attrs = "attr_entries ?be ids_off ds"
  let ?ids = "concat (map (id_bytes ?be) ds)"
  have H: "length H = 104" by (simp add: H_def hd_def file_header_def)
  have c: "contents = H @ d @ ?sections @ concat hs @ ?attrs @ ?ids"
    using assms(1-3) by (simp add: file_bytes_def footer_bytes_def Let_def H_def hd_def pos_def ids_off_def)
  have len: "length contents = ids_off + length ?ids" unfolding c using H by (simp add: ids_off_def pos_def)
  have ids: "ids_off < length contents" using len assms(5,6) by (cases ds) auto
  define attrs_off where "attrs_off = pos + 16 * length hs + length (concat hs)"
  have attrs: "attrs_off + 144 * length ds = ids_off" by (simp add: attrs_off_def ids_off_def)
  define a_size where "a_size = 144 * length ds"
  have rest: "fh_rest hd = \<lparr>fr_attr_size = 144, fr_attrs = \<lparr>fs_offset = word_of_nat attrs_off, fs_size = word_of_nat a_size\<rparr>,
      fr_data = \<lparr>fs_offset = word_of_nat 104, fs_size = word_of_nat (length d)\<rparr>,
      fr_event_types = \<lparr>fs_offset = word_of_nat 0, fs_size = word_of_nat 0\<rparr>, fr_flags = [header_flags (dw_headers w), 0, 0, 0]\<rparr>"
    by (simp add: hd_def file_header_def attrs_off_def a_size_def)
  have f: "update_len f = file_on contents 16" using assms(11-13) by (cases f) (simp add: update_len_def file_on_def)
  have r: "read_exact 88 (file_on contents 16) = (Inr (PerfFileHeaderRest_bytes ?be (fh_rest hd)), file_on contents (16 + 88))"
    by (rule read_reading [of _ "PerfFileHeaderPipe_bytes ?be (fh_pipe hd)" _ "d @ ?sections @ concat hs @ ?attrs @ ?ids"])
      (simp_all add: c H_def PerfFileHeader_bytes_def rest)
  have rest': "PerfFileHeaderRest_of_bytes ?be (PerfFileHeaderRest_bytes ?be (fh_rest hd)) = fh_rest hd"
    using PerfFileHeaderRest_of_bytes_bytes [of "fh_rest hd" ?be "[]"] by (simp add: rest)
  have ds: "0 < length ds" and size: "length contents < 2147483648" using assms(4,5) by simp_all
  have bound: "a_size < 2147483648" "attrs_off < 2147483648" "length d < 2147483648" "attrs_off + a_size < 2147483648" "104 + length d < 2147483648"
      "attrs_off < length contents" "attrs_off + a_size \<le> length contents" "104 + length d \<le> length contents" "104 < length contents"
    using attrs len size ds ids unfolding a_size_def attrs_off_def pos_def by linarith+
  have valid: "section_valid (file_on contents 104) (fr_attrs (fh_rest hd))" "section_valid (file_on contents 104) (fr_data (fh_rest hd))"
      "section_valid (file_on contents 104) (fr_event_types (fh_rest hd))"
    using bound size section_valid_on [of attrs_off contents a_size 104] section_valid_on [of 104 contents "length d" 104]
      section_valid_on [of 0 contents 0 104] by (cases contents; simp add: rest)+
  obtain bs g where a: "load_attrs_loop tgt 128 (attrs_off + a_size) attrs_off self (file_on contents 104) =
        Some (Inr (), self\<lparr>buffers := bs, rd_attrs := fold (add_desc []) ds (rd_attrs self)\<rparr>, g)"
      and bs: "length bs = length (buffers self)" and g: "reading contents g"
    using load_attrs_loop_written [of contents "H @ d @ ?sections @ concat hs" tgt ids_off ds "[]" "[]" offs self "file_on contents 104"]
      c H assms(4,6-8,10) bound by (auto simp: attrs_off_def a_size_def pos_def ids_off_def add.assoc)
  obtain h where h: "load_headers_loop tgt (header_flags (dw_headers w)) [0..<32] (104 + length d)
        (self\<lparr>buffers := bs, rd_attrs := fold (add_desc []) ds (rd_attrs self)\<rparr>) g =
      map_option (\<lambda>s. (Inr (), s, h)) (load_each tgt (dw_headers w) [0..<32]
        (self\<lparr>buffers := bs, rd_attrs := fold (add_desc []) ds (rd_attrs self)\<rparr>))" and h': "reading contents h"
    using load_headers_loop_written [of hs "dw_headers w" "[0..<32]" "self\<lparr>buffers := bs, rd_attrs := fold (add_desc []) ds (rd_attrs self)\<rparr>"
        contents "H @ d" tgt "pos + 16 * length hs" "[]" "?attrs @ ?ids" g]
      c H assms(1,4,9) g by (auto simp: nonempty_headers_def pos_def)
  show ?thesis
    using f r rest' rest valid a h assms(8-10) bs seek_reading [OF h', of 104] bound
    by (intro exI [of _ bs], cases "load_each tgt (dw_headers w) [0..<32] (self\<lparr>buffers := bs, rd_attrs := fold (add_desc []) ds (rd_attrs self)\<rparr>)")
      (simp_all add: AttrSize_Ver0_def open_rest_def Let_def byte_swap_needed_def KEEP_ENDIAN_def load_attrs_def load_headers_def opened_def
        debug_assert_def rust_assert_def file_on_def word_le_nat_alt)
qed

end
