(* ===== verification/Written_Events.thy ===== *)
theory Written_Events
  imports Written_File
begin

unbundle bit_operations_syntax

text \<open>
  A finished file is opened and read: the descriptions of events come back with their names, and the events that were written come back one by one.
\<close>

section \<open>Opening a finished file\<close>

lemma reader_open_written:
  assumes "contents = file_bytes (big_endian tgt) d w" "length contents < 2 ^ 31" "dw_event_descs w \<noteq> []"
    and "\<forall>x \<in> set (dw_event_descs w). ed_sample_ids x \<noteq> [] \<and> all_offsets (ed_attr x) = offs"
    and "offsets_agree offs (rd_attrs self)" "buffers self = [] # bufs" "length (headers self) = 32"
  shows "\<exists>bs. reader_open tgt order self (InputFile_new contents) = map_option (opened contents (length d))
      (load_each tgt (dw_headers w) [0..<32]
        ((fresh_reader order tgt self)\<lparr>buffers := bs, rd_attrs := fold (add_desc []) (dw_event_descs w) (rd_attrs self)\<rparr>))
    \<and> length bs = length (buffers self)"
proof -
  let ?be = "big_endian tgt" and ?hs = "nonempty_headers (dw_headers w)"
  let ?hd = "file_header (length d) (104 + length d) (header_flags (dw_headers w)) ?hs (dw_event_descs w)"
  let ?f = "\<lparr>in_bytes = contents, in_seek = 16, in_pos = 16, in_len = 0\<rparr>"
  have c: "contents = PerfFileHeaderPipe_bytes ?be (fh_pipe ?hd) @ PerfFileHeaderRest_bytes ?be (fh_rest ?hd)
      @ d @ footer_bytes ?be (104 + length d) ?hs (dw_event_descs w)"
    using assms(1) by (simp add: file_bytes_def Let_def PerfFileHeader_bytes_def)
  have r: "read_exact 16 (InputFile_new contents) = (Inr (PerfFileHeaderPipe_bytes ?be (fh_pipe ?hd)), ?f)"
    using c by (simp add: read_exact_def InputFile_new_def)
  have p: "fh_pipe ?hd = \<lparr>fp_magic = PERFILE2_MAGIC_HOST_ENDIAN, fp_size = 104\<rparr>" by (simp add: file_header_def)
  have e: "reader_open tgt order self (InputFile_new contents) = open_rest tgt (fresh_reader order tgt self) ?f"
    using r p assms(6) by (simp add: reader_open_def Let_def fresh_reader_def debug_assert_def rust_assert_def)
  show ?thesis
    unfolding e
    using open_rest_written [OF refl refl assms(1-4), of "fresh_reader order tgt self" bufs ?f] assms(5-7)
    by (simp add: fresh_reader_def PerfSessionInfo_new_def)
qed

section \<open>Event descriptions\<close>

definition plain_name :: "bytes \<Rightarrow> bool" where
  "plain_name s \<longleftrightarrow> length s < NAME_MAX_SIZE \<and> (\<forall>c \<in> set s. c \<noteq> 0 \<and> c < 0x80)"

definition name_pad :: "EventDesc \<Rightarrow> nat" where
  "name_pad x = 8 - (length (ed_name x) AND 7)"

definition desc_entry :: "bool \<Rightarrow> EventDesc \<Rightarrow> bytes" where
  "desc_entry be x =
     PerfEventAttr_bytes be (ed_attr x) @ word_bytes be (word_of_nat (length (ed_sample_ids x)) :: u32)
     @ word_bytes be (word_of_nat (length (ed_name x) + name_pad x) :: u32) @ ed_name x @ replicate (name_pad x) 0 @ id_bytes be x"

definition desc_ok :: "EventDesc \<Rightarrow> bool" where
  "desc_ok x \<longleftrightarrow> plain_name (ed_name x) \<and> length (ed_sample_ids x) \<le> 0x10000 \<and> at_attr_size (ed_attr x) = 128"

lemma as_latin1_plain: "plain_name s \<Longrightarrow> as_latin1 s = s"
  by (auto simp: as_latin1_def plain_name_def not_less [symmetric] word_less_nat_alt)

lemma latin1_plain: "plain_name s \<Longrightarrow> string_from_latin1 s = s"
  by (induction s) (auto simp: string_from_latin1_def plain_name_def latin1_char_def)

lemma name_pad_bounds: "0 < name_pad x" "plain_name (ed_name x) \<Longrightarrow> length (ed_name x) + name_pad x \<le> 0x10000"
proof -
  have m: "n AND 7 = n mod 8" for n :: nat using take_bit_eq_mask [of 3 n] by (simp add: take_bit_eq_mod mask_eq_exp_minus_1)
  have b: "n < 65536 \<Longrightarrow> n + (8 - n mod 8) \<le> 65536" for n :: nat by presburger
  show "0 < name_pad x" by (simp add: name_pad_def m)
  show "length (ed_name x) + name_pad x \<le> 0x10000" if "plain_name (ed_name x)"
    using that b unfolding plain_name_def name_pad_def m by simp
qed

lemma append_desc_ok: "desc_ok x \<Longrightarrow> append_desc tgt header x = Some (header @ desc_entry (big_endian tgt) x)"
  by (auto simp: append_desc_def desc_ok_def as_latin1_plain desc_entry_def name_pad_def id_bytes_def debug_assert_def rust_assert_def
      plain_name_def Let_def)

lemma append_descs_ok:
  "\<forall>x \<in> set ds. desc_ok x \<Longrightarrow> append_descs tgt header ds = Some (header @ concat (map (desc_entry (big_endian tgt)) ds))"
  by (induction ds arbitrary: header) (simp_all add: append_desc_ok)

lemma word_at_attr_size: "word_at be (PerfEventAttr_bytes be a @ r) 4 = at_attr_size a"
  using arg_cong [OF PerfEventAttr_of_bytes_bytes(1) [of be a r], of at_attr_size] by (simp add: PerfEventAttr_of_bytes_def)

lemma read_u32_keep: "read_u32 (KEEP_ENDIAN tgt) (word_bytes (big_endian tgt) v @ c) = Some v"
  using read_u32_word [of "KEEP_ENDIAN tgt" v c] by (simp add: KEEP_ENDIAN_def)

lemma read_attr_size: "read_u32 (KEEP_ENDIAN tgt) (drop 4 (PerfEventAttr_bytes (big_endian tgt) a) @ c) = Some (at_attr_size a)"
  using read_u32_keep [of tgt "at_attr_size a"] by (simp add: PerfEventAttr_bytes_def)

lemma takeWhile_name: "plain_name s \<Longrightarrow> 0 < n \<Longrightarrow> takeWhile (\<lambda>x. x \<noteq> 0) (s @ replicate n 0) = s"
  by (cases n) (auto simp: plain_name_def takeWhile_append)

lemma unat_small_u32 [simp]: "n < 2 ^ 32 \<Longrightarrow> unat (word_of_nat n :: u32) = n"
  by (simp add: unsigned_of_nat take_bit_nat_eq_self)

lemma event_desc_step:
  assumes "desc_ok x" "offsets_agree offs ra" "all_offsets (ed_attr x) = offs"
  shows "event_desc_loop tgt (KEEP_ENDIAN tgt) (pre @ desc_entry (big_endian tgt) x @ post) 128 (Suc n) (length pre) ra =
    event_desc_loop tgt (KEEP_ENDIAN tgt) (pre @ desc_entry (big_endian tgt) x @ post) 128 n (length (pre @ desc_entry (big_endian tgt) x))
      (add_desc (ed_name x) x ra)"
proof -
  let ?be = "big_endian tgt" and ?r = "KEEP_ENDIAN tgt"
  define s where "s = length (ed_name x) + name_pad x"
  define a where "a = PerfEventAttr_bytes ?be (ed_attr x)"
  define ids where "ids = id_bytes ?be x"
  define k where "k = length (ed_sample_ids x)"
  define nm where "nm = ed_name x @ replicate (name_pad x) 0"
  have plain: "plain_name (ed_name x)" and k: "k \<le> 0x10000" and size: "at_attr_size (ed_attr x) = 128"
    using assms(1) by (simp_all add: desc_ok_def k_def)
  have s: "s \<le> 0x10000" "length nm = s" "0 \<in> set nm" "length (takeWhile (\<lambda>x. x \<noteq> 0) nm) = length (ed_name x)" "length (ed_name x) \<le> s"
    using name_pad_bounds [of x] plain by (simp_all add: s_def nm_def takeWhile_name)
  have len: "length a = 128" "length ids = k * 8" by (simp_all add: a_def ids_def k_def)
  have e: "desc_entry ?be x = a @ word_bytes ?be (word_of_nat k :: u32) @ word_bytes ?be (word_of_nat s :: u32) @ nm @ ids"
    by (simp add: desc_entry_def a_def ids_def k_def s_def nm_def)
  have u: "unat (word_of_nat k :: u32) = k" "unat (word_of_nat s :: u32) = s" using k s(1) by simp_all
  have add: "add_attr tgt ?r a (ed_name x) ids ra = Some (True, add_desc (ed_name x) x ra)"
    using add_attr_written(1) [OF assms(2,3), of tgt "ed_name x"] plain by (simp add: latin1_plain a_def ids_def)
  have nm: "take (length (ed_name x)) nm = ed_name x" by (simp add: nm_def)
  show ?thesis
    using len s k u add read_attr_size [of tgt "ed_attr x"] size
    by (simp add: e Let_def read_u32_keep a_def [symmetric] nm add.assoc)
qed

lemma event_desc_loop_written:
  assumes "\<forall>x \<in> set ds. desc_ok x \<and> all_offsets (ed_attr x) = offs" "offsets_agree offs ra"
  shows "event_desc_loop tgt (KEEP_ENDIAN tgt) (pre @ concat (map (desc_entry (big_endian tgt)) ds)) 128 (length ds) (length pre) ra =
    Some (fold (\<lambda>x. add_desc (ed_name x) x) ds ra)"
  using assms
proof (induction ds arbitrary: pre ra)
  case (Cons x ds)
  then have "offsets_agree offs (add_desc (ed_name x) x ra)" using add_attr_written(2) by simp
  with Cons.IH [of "add_desc (ed_name x) x ra" "pre @ desc_entry (big_endian tgt) x"] Cons.prems
    event_desc_step [of x offs ra tgt pre "concat (map (desc_entry (big_endian tgt)) ds)" "length ds"]
  show ?case by simp
qed simp

section \<open>The feature headers\<close>

text \<open>Headers other than the tracing data and the event descriptions change the reader's headers and its clock only.\<close>

definition only_clock :: "DataFileReader \<Rightarrow> DataFileReader \<Rightarrow> bool" where
  "only_clock s s' \<longleftrightarrow> (\<exists>i. s' = s\<lparr>session_info := i\<rparr> \<and> si_byte_reader i = si_byte_reader (session_info s))"

lemma set_clock_data_total: "\<exists>s'. set_clock_data dbg cid wall cns s = Some s'"
  using set_clock_data_value [of cid dbg wall cns s] by (cases "cid = 0xFFFFFFFF") (auto simp: set_clock_data_def)

lemma header_loaded_clock:
  assumes "i < length (headers s)" "length (headers s) = 32" "i \<noteq> 1" "i \<noteq> 12"
  shows "\<exists>s'. header_loaded tgt i s = Some s' \<and> only_clock s s'"
proof -
  have same: "only_clock s s" unfolding only_clock_def by (rule exI [of _ "session_info s"]) simp
  have c: "\<exists>s'. parse_header_clock_data tgt s = Some s' \<and> only_clock s s'"
  proof -
    define c where "c = (let c = ClockData_of_bytes (big_endian tgt) (headers s ! 29) in
      if byte_swap_needed tgt (si_byte_reader (session_info s)) then ClockData_byte_swap c else c)"
    obtain i where "set_clock_data (debug_assertions tgt) (cd_clockid c) (cd_wall_clock_ns c) (cd_clockid_time_ns c) (session_info s) = Some i"
        "si_byte_reader i = si_byte_reader (session_info s)"
      using set_clock_data_total set_clock_data_reader by blast
    then have "\<exists>s'. (if 1 \<le> cd_version c then do {
          i \<leftarrow> set_clock_data (debug_assertions tgt) (cd_clockid c) (cd_wall_clock_ns c) (cd_clockid_time_ns c) (session_info s);
          Some (s\<lparr>session_info := i\<rparr>)
        } else Some s) = Some s' \<and> only_clock s s'"
      using same by (auto simp: only_clock_def)
    then show ?thesis using same assms(2) by (simp only: c_def parse_header_clock_data_def Let_def) simp
  qed
  have k: "\<exists>s'. parse_header_clockid s = Some s' \<and> only_clock s s'"
  proof (cases "length (headers s ! 23) \<ge> 8")
    case True
    then obtain v where "read_u64 (si_byte_reader (session_info s)) (headers s ! 23) = Some v" using read_u64_total by blast
    with True assms(2) show ?thesis by (auto simp: parse_header_clockid_def only_clock_def set_clock_id_def)
  qed (use same assms(2) in \<open>simp add: parse_header_clockid_def\<close>)
  show ?thesis using c k same assms(3,4) by (simp add: header_loaded_def)
qed

definition loaded_header :: "bytes list \<Rightarrow> nat list \<Rightarrow> DataFileReader \<Rightarrow> nat \<Rightarrow> bytes" where
  "loaded_header hs is s j = (if j \<in> set is \<and> hs ! j \<noteq> [] then hs ! j else headers s ! j)"

lemma load_each_clock:
  assumes "length (headers s) = 32" "\<forall>i \<in> set is. i < 32 \<and> i \<noteq> 12 \<and> (i = 1 \<longrightarrow> hs ! 1 = [])"
  shows "\<exists>s'. load_each tgt hs is s = Some s' \<and> only_clock (s\<lparr>headers := map (loaded_header hs is s) [0..<32]\<rparr>) s'"
  using assms
proof (induction "is" arbitrary: s)
  case Nil
  have "loaded_header hs [] s = (!) (headers s)" by (simp add: loaded_header_def fun_eq_iff)
  then have "s\<lparr>headers := map (loaded_header hs [] s) [0..<32]\<rparr> = s"
    using map_nth [of "headers s"] Nil by simp
  then show ?case by (auto simp: only_clock_def intro!: exI [of _ "session_info s"])
next
  case (Cons i "is")
  show ?case
  proof (cases "hs ! i = []")
    case True
    then have "loaded_header hs (i # is) s = loaded_header hs is s" by (auto simp: loaded_header_def fun_eq_iff)
    with Cons True show ?thesis by simp
  next
    case False
    let ?s = "s\<lparr>headers := (headers s)[i := hs ! i]\<rparr>"
    obtain t where t: "header_loaded tgt i ?s = Some t" "only_clock ?s t"
      using header_loaded_clock [of i ?s tgt] Cons.prems False by auto
    then obtain j where j: "t = ?s\<lparr>session_info := j\<rparr>" "si_byte_reader j = si_byte_reader (session_info s)" by (auto simp: only_clock_def)
    obtain s' where s': "load_each tgt hs is t = Some s'" "only_clock (t\<lparr>headers := map (loaded_header hs is t) [0..<32]\<rparr>) s'"
      using Cons.IH [of t] Cons.prems j by auto
    have m: "map (loaded_header hs is t) [0..<32] = map (loaded_header hs (i # is) s) [0..<32]"
      using j False Cons.prems by (auto simp: loaded_header_def nth_list_update)
    have "only_clock (s\<lparr>headers := map (loaded_header hs (i # is) s) [0..<32]\<rparr>) s'"
      using s'(2) unfolding m by (simp add: only_clock_def j)
    with s'(1) t(1) False show ?thesis by simp
  qed
qed

lemma load_each_append: "load_each tgt hs (is @ js) s = load_each tgt hs is s \<bind> load_each tgt hs js"
  by (induction "is" arbitrary: s) (simp_all split: Option.bind_split)

definition desc_header :: "bool \<Rightarrow> EventDesc list \<Rightarrow> bytes" where
  "desc_header be ds = word_bytes be (word_of_nat (length ds) :: u32) @ word_bytes be (128 :: u32) @ concat (map (desc_entry be) ds)"

definition named_descs :: "EventDesc list \<Rightarrow> ReaderAttrs \<Rightarrow> ReaderAttrs" where
  "named_descs ds = fold (\<lambda>x. add_desc (ed_name x) x) ds"

lemma parse_header_event_desc_written:
  assumes "headers s ! 12 = desc_header (big_endian tgt) ds" "length (headers s) = 32" "length ds < 2 ^ 32" "\<not> parsed_header_event_desc s"
    and "si_byte_reader (session_info s) = KEEP_ENDIAN tgt"
    and "\<forall>x \<in> set ds. desc_ok x \<and> all_offsets (ed_attr x) = offs" "offsets_agree offs (rd_attrs s)"
  shows "parse_header_event_desc tgt s = Some (s\<lparr>rd_attrs := named_descs ds (rd_attrs s), parsed_header_event_desc := True\<rparr>)"
proof -
  let ?be = "big_endian tgt"
  have "event_desc_loop tgt (KEEP_ENDIAN tgt) (desc_header ?be ds) 128 (length ds) 8 (rd_attrs s) = Some (named_descs ds (rd_attrs s))"
    using event_desc_loop_written [OF assms(6,7), of tgt "word_bytes ?be (word_of_nat (length ds) :: u32) @ word_bytes ?be (128 :: u32)"]
    by (simp add: desc_header_def named_descs_def)
  moreover have "read_u32 (KEEP_ENDIAN tgt) (desc_header ?be ds) = Some (word_of_nat (length ds))"
      "slice_from (desc_header ?be ds) 4 = Some (word_bytes ?be (128 :: u32) @ concat (map (desc_entry ?be) ds))" "8 \<le> length (desc_header ?be ds)"
    by (simp_all add: desc_header_def read_u32_keep)
  ultimately show ?thesis
    using assms(1-5) by (simp add: parse_header_event_desc_def read_u32_keep AttrSize_Ver0_def Let_def)
qed

lemma load_each_written:
  assumes "length hs = 32" "hs ! 1 = []" "hs ! 12 = desc_header (big_endian tgt) ds" "headers s = replicate 32 []"
    and "length ds < 2 ^ 32" "\<not> parsed_header_event_desc s" "si_byte_reader (session_info s) = KEEP_ENDIAN tgt"
    and "\<forall>x \<in> set ds. desc_ok x \<and> all_offsets (ed_attr x) = offs" "offsets_agree offs (rd_attrs s)"
  shows "\<exists>i. load_each tgt hs [0..<32] s =
      Some (s\<lparr>headers := hs, session_info := i, rd_attrs := named_descs ds (rd_attrs s), parsed_header_event_desc := True\<rparr>)
    \<and> si_byte_reader i = KEEP_ENDIAN tgt"
proof -
  define ks js :: "nat list" where "ks = [0..<12]" and "js = [13..<32]"
  have split: "[0..<32] = ks @ 12 # js" by (simp add: upt_rec ks_def js_def)
  have ks: "i \<in> set ks \<longleftrightarrow> i < 12" and js: "i \<in> set js \<longleftrightarrow> 13 \<le> i \<and> i < 32" for i
    by (simp_all only: ks_def js_def set_upt atLeastLessThan_iff) simp
  define a where "a = map (loaded_header hs ks s) [0..<32]"
  have a: "length a = 32" "\<And>j. j < 32 \<Longrightarrow> a ! j = (if j < 12 then hs ! j else [])"
    using assms(4) by (auto simp: a_def loaded_header_def ks)
  obtain i where l1: "load_each tgt hs ks s = Some (s\<lparr>headers := a, session_info := i\<rparr>)" "si_byte_reader i = KEEP_ENDIAN tgt"
    using load_each_clock [of s "ks" hs tgt] assms(2,4,7) by (auto simp: only_clock_def a_def ks)
  let ?t = "s\<lparr>session_info := i, headers := a[12 := hs ! 12], rd_attrs := named_descs ds (rd_attrs s), parsed_header_event_desc := True\<rparr>"
  have "length (hs ! 12) \<noteq> 0" unfolding assms(3) by (simp add: desc_header_def del: length_0_conv)
  then have "hs ! 12 \<noteq> []" by simp
  then have l2: "load_each tgt hs (12 # js) (s\<lparr>session_info := i, headers := a\<rparr>) = load_each tgt hs js ?t"
    using parse_header_event_desc_written [of "s\<lparr>session_info := i, headers := a[12 := hs ! 12]\<rparr>" tgt ds offs] assms(3,5,6,8,9) l1(2) a(1)
    by (simp add: header_loaded_def)
  define b where "b = map (loaded_header hs js ?t) [0..<32]"
  have b: "b = hs"
    using a assms(1) by (intro nth_equalityI) (auto simp: b_def loaded_header_def nth_list_update js)
  obtain j where l3: "load_each tgt hs js ?t = Some (?t\<lparr>headers := b, session_info := j\<rparr>)" "si_byte_reader j = KEEP_ENDIAN tgt"
    using load_each_clock [of ?t "js" hs tgt] a(1) l1(2) by (auto simp: only_clock_def b_def js)
  show ?thesis unfolding split load_each_append l1(1) using l2 l3 b by (intro exI [of _ j]) (cases s; simp)
qed

end
