(* ===== verification/Writer_Run.thy ===== *)
theory Writer_Run
  imports File_Writer
begin

unbundle bit_operations_syntax

text \<open>
  The life of a \<open>PerfDataFileWriter\<close> as a state machine: a file is created, data and descriptions are added in any order, and what every reachable state
  satisfies.
\<close>

section \<open>Steps\<close>

text \<open>The operations that leave the file alone; those that may panic take a step only where they return.\<close>

inductive writer_op :: "target \<Rightarrow> PerfDataFileWriter \<Rightarrow> PerfDataFileWriter \<Rightarrow> bool" for tgt where
  set_header: "writer_op tgt pw (snd (writer_set_header i b pw))"
| set_string: "writer_op tgt pw (snd (set_string_header tgt i b pw))"
| nr_cpus: "set_nr_cpus_header tgt available online pw = Some pw' \<Longrightarrow> writer_op tgt pw pw'"
| sample_time: "set_sample_time_header tgt first final pw = Some pw' \<Longrightarrow> writer_op tgt pw pw'"
| clockid: "set_clockid_header tgt cid pw = Some pw' \<Longrightarrow> writer_op tgt pw pw'"
| clock_data: "set_clock_data_header tgt cid wall time pw = Some pw' \<Longrightarrow> writer_op tgt pw pw'"
| session_info: "set_session_info_headers tgt si pw = Some pw' \<Longrightarrow> writer_op tgt pw pw'"
| utsname: "writer_op tgt pw (snd (set_utsname_headers tgt host os arch pw))"
| required: "writer_op tgt pw (set_tracing_data_required long_size page_size pw)"
| header_page: "writer_op tgt pw (snd (set_tracing_data_header_page b pw))"
| header_event: "writer_op tgt pw (snd (set_tracing_data_header_event b pw))"
| clear_ftraces: "writer_op tgt pw (set_tracing_data_clear_ftraces pw)"
| add_ftrace: "writer_op tgt pw (snd (set_tracing_data_add_ftrace b pw))"
| kallsyms: "writer_op tgt pw (snd (set_tracing_data_kallsyms b pw))"
| printk: "writer_op tgt pw (snd (set_tracing_data_printk b pw))"
| cmd_line: "writer_op tgt pw (snd (set_tracing_data_saved_cmd_line b pw))"
| add_desc: "writer_op tgt pw (snd (add_event_desc ids attr name pw))"
| add_tracepoint: "writer_op tgt pw (snd (add_tracepoint_event_desc ids attr name fmt pw))"

text \<open>
  \<open>writing tgt d pw\<close>: the writer is in the state \<open>pw\<close> after a file was created and the event data \<open>d\<close> was written to it. A writer is new or has written
  files before.
\<close>

inductive writing :: "target \<Rightarrow> bytes \<Rightarrow> PerfDataFileWriter \<Rightarrow> bool" for tgt where
  created: "writing tgt [] (create_file tgt PerfDataFileWriter_new)"
| again: "writing tgt d pw \<Longrightarrow> finalize_and_close tgt pw = Some (r, pw') \<Longrightarrow> writing tgt [] (create_file tgt pw')"
| given_up: "writing tgt d pw \<Longrightarrow> writing tgt [] (create_file tgt pw)"
| event_data: "writing tgt d pw \<Longrightarrow> writing tgt (d @ e) (snd (write_event_data e pw))"
| vectored: "writing tgt d pw \<Longrightarrow> writing tgt (d @ take n (concat bufs)) (snd (write_event_data_vectored n bufs pw))"
| finished_init: "writing tgt d pw \<Longrightarrow> writing tgt (d @ PerfEventHeader_bytes (big_endian tgt)
    \<lparr>ph_ty = HeaderType_FinishedInit, ph_misc = 0, ph_size = 8\<rparr>) (snd (write_finished_init tgt pw))"
| finished_round: "writing tgt d pw \<Longrightarrow> writing tgt (d @ PerfEventHeader_bytes (big_endian tgt)
    \<lparr>ph_ty = HeaderType_FinishedRound, ph_misc = 0, ph_size = 8\<rparr>) (snd (write_finished_round tgt pw))"
| op: "writing tgt d pw \<Longrightarrow> writer_op tgt pw pw' \<Longrightarrow> writing tgt d pw'"

section \<open>Invariant\<close>

definition desc_inv :: "EventDesc \<Rightarrow> bool" where
  "desc_inv x \<longleftrightarrow> length (ed_name x) < NAME_MAX_SIZE \<and> 0 \<notin> set (ed_name x) \<and> length (ed_sample_ids x) < SAMPLE_IDS_MAX_SIZE"

definition parts_inv :: "DataFileWriter \<Rightarrow> bool" where
  "parts_inv w \<longleftrightarrow> length (dw_header_page w) < 2 ^ 31 \<and> length (dw_header_event w) < 2 ^ 31 \<and> length (dw_kallsyms w) < 2 ^ 31
     \<and> length (dw_printk w) < 2 ^ 31 \<and> length (dw_cmd_line w) < 2 ^ 31 \<and> length (dw_ftraces w) \<le> 2 ^ 31
     \<and> (\<forall>t \<in> set (dw_ftraces w). length t < 2 ^ 31)"

definition inner_inv :: "DataFileWriter \<Rightarrow> bool" where
  "inner_inv w \<longleftrightarrow> length (dw_headers w) = 32 \<and> btree_inv (dw_formats w) \<and> (\<forall>(k, e) \<in> set (dw_formats w). k = ef_id e)
     \<and> (\<forall>x \<in> set (dw_event_descs w). desc_inv x) \<and> length (dw_event_descs w) \<le> 0xFFFFFFFF \<and> parts_inv w"

definition file_inv :: "target \<Rightarrow> bytes \<Rightarrow> PerfDataFileWriter \<Rightarrow> bool" where
  "file_inv tgt d pw \<longleftrightarrow>
     pw_file pw = Some \<lparr>out_bytes = PerfFileHeader_bytes (big_endian tgt) PerfFileHeader_default @ d, out_pos = 104 + length d\<rparr>"

lemma strlen_take: "0 \<notin> set (take (strlen s) s)" "strlen s \<le> length s"
proof -
  have "take (strlen s) s = takeWhile (\<lambda>c. c \<noteq> 0) s" by (simp add: strlen_def takeWhile_eq_take [symmetric])
  then show "0 \<notin> set (take (strlen s) s)" by (auto dest: set_takeWhileD)
  show "strlen s \<le> length s" by (simp add: strlen_def length_takeWhile_le)
qed

lemma put_header_inv: "inner_inv (pw_inner pw) \<Longrightarrow> inner_inv (pw_inner (put_header i b pw)) \<and> pw_file (put_header i b pw) = pw_file pw"
  by (simp add: put_header_def inner_inv_def parts_inv_def)

lemma unwrap_header_inv:
  "unwrap_header i b pw = Some pw' \<Longrightarrow> inner_inv (pw_inner pw) \<Longrightarrow> inner_inv (pw_inner pw') \<and> pw_file pw' = pw_file pw"
  using put_header_inv by (auto simp: unwrap_header_def split: if_split_asm)

lemmas unwrap_defs = set_nr_cpus_header_def set_sample_time_header_def set_clockid_header_def set_clock_data_header_def

lemma set_string_header_inv:
  "inner_inv (pw_inner pw) \<Longrightarrow>
   inner_inv (pw_inner (snd (set_string_header tgt i b pw))) \<and> pw_file (snd (set_string_header tgt i b pw)) = pw_file pw"
  using put_header_inv by (simp add: set_string_header_def Let_def)

lemma set_session_info_headers_inv:
  assumes "set_session_info_headers tgt s pw = Some pw'" "inner_inv (pw_inner pw)"
  shows "inner_inv (pw_inner pw') \<and> pw_file pw' = pw_file pw"
proof -
  obtain m where m: "inner_inv (pw_inner m) \<and> pw_file m = pw_file pw"
    and r: "(\<exists>i b. unwrap_header i b m = Some pw')"
    using assms by (auto simp: set_session_info_headers_def unwrap_defs dest: unwrap_header_inv
      split: Option.bind_split_asm if_split_asm prod.split_asm)
  from r obtain i b where "unwrap_header i b m = Some pw'" by blast
  from unwrap_header_inv [OF this] m show ?thesis by simp
qed

lemma add_desc_inv:
  "inner_inv (pw_inner pw) \<Longrightarrow> \<not> desc_refused ids name pw \<Longrightarrow> inner_inv (inner_add_event_desc name ids attr (pw_inner pw))"
  using strlen_take [of name] by (auto simp: inner_add_event_desc_def inner_inv_def parts_inv_def desc_refused_def desc_inv_def)

lemma add_format_inv:
  "inner_inv w \<Longrightarrow> btree_get (ef_id fmt) (dw_formats w) = None \<Longrightarrow> inner_inv (w\<lparr>dw_formats := btree_insert (ef_id fmt) fmt (dw_formats w)\<rparr>)"
  using btree.inv_ins [of "dw_formats w"] btree.entries_ins [of "dw_formats w" "ef_id fmt" fmt] by (auto simp: inner_inv_def parts_inv_def)

lemma add_tracepoint_inv:
  assumes "inner_inv (pw_inner pw)"
  shows "inner_inv (pw_inner (snd (add_tracepoint_event_desc ids attr name fmt pw)))
    \<and> pw_file (snd (add_tracepoint_event_desc ids attr name fmt pw)) = pw_file pw"
proof (cases "desc_refused ids name pw \<or> btree_get (ef_id fmt) (dw_formats (pw_inner pw)) \<noteq> None")
  case True
  with assms show ?thesis by (auto simp: add_tracepoint_event_desc_def)
next
  case False
  let ?w = "(pw_inner pw)\<lparr>dw_formats := btree_insert (ef_id fmt) fmt (dw_formats (pw_inner pw))\<rparr>"
  have "inner_inv ?w" "\<not> desc_refused ids name (pw\<lparr>pw_inner := ?w\<rparr>)"
    using False add_format_inv [OF assms, of fmt] by (simp_all add: desc_refused_def)
  then have "inner_inv (inner_add_event_desc name ids attr ?w)" using add_desc_inv [of "pw\<lparr>pw_inner := ?w\<rparr>"] by simp
  with False show ?thesis by (simp add: add_tracepoint_event_desc_def upd_inner_def)
qed

lemmas part_defs = set_tracing_data_required_def set_tracing_data_header_page_def set_tracing_data_header_event_def
  set_tracing_data_clear_ftraces_def set_tracing_data_add_ftrace_def set_tracing_data_kallsyms_def set_tracing_data_printk_def
  set_tracing_data_saved_cmd_line_def upd_inner_def inner_inv_def parts_inv_def

lemma part_ops_inv:
  assumes "inner_inv (pw_inner pw)"
  shows "inner_inv (pw_inner (set_tracing_data_required long_size page_size pw))" "inner_inv (pw_inner (snd (set_tracing_data_header_page b pw)))"
    "inner_inv (pw_inner (snd (set_tracing_data_header_event b pw)))" "inner_inv (pw_inner (set_tracing_data_clear_ftraces pw))"
    "inner_inv (pw_inner (snd (set_tracing_data_add_ftrace b pw)))" "inner_inv (pw_inner (snd (set_tracing_data_kallsyms b pw)))"
    "inner_inv (pw_inner (snd (set_tracing_data_printk b pw)))" "inner_inv (pw_inner (snd (set_tracing_data_saved_cmd_line b pw)))"
  using assms by (simp_all add: part_defs)

lemma part_ops_file:
  "pw_file (set_tracing_data_required long_size page_size pw) = pw_file pw" "pw_file (snd (set_tracing_data_header_page b pw)) = pw_file pw"
  "pw_file (snd (set_tracing_data_header_event b pw)) = pw_file pw" "pw_file (set_tracing_data_clear_ftraces pw) = pw_file pw"
  "pw_file (snd (set_tracing_data_add_ftrace b pw)) = pw_file pw" "pw_file (snd (set_tracing_data_kallsyms b pw)) = pw_file pw"
  "pw_file (snd (set_tracing_data_printk b pw)) = pw_file pw" "pw_file (snd (set_tracing_data_saved_cmd_line b pw)) = pw_file pw"
  by (simp_all add: part_defs)

lemma writer_op_inv:
  "writer_op tgt pw pw' \<Longrightarrow> inner_inv (pw_inner pw) \<Longrightarrow> inner_inv (pw_inner pw') \<and> pw_file pw' = pw_file pw"
proof (induction rule: writer_op.induct)
  case (set_header pw i b)
  then show ?case using put_header_inv by (simp add: writer_set_header_def)
next
  case (session_info si pw pw')
  then show ?case using set_session_info_headers_inv by blast
next
  case (utsname pw host os arch)
  then show ?case using set_string_header_inv by (simp add: set_utsname_headers_def)
next
  case (add_desc pw ids attr name)
  then show ?case using add_desc_inv [of pw] by (simp add: add_event_desc_def upd_inner_def)
next
  case (add_tracepoint pw ids attr name fmt)
  then show ?case using add_tracepoint_inv by blast
qed (auto simp: part_ops_inv part_ops_file unwrap_defs set_string_header_inv dest: unwrap_header_inv)

lemma DataFileWriter_close_inv: "inner_inv (DataFileWriter_close w) \<longleftrightarrow> length (dw_headers w) = 32"
  by (auto simp: DataFileWriter_close_def inner_inv_def parts_inv_def)

lemma create_file_inv:
  "length (dw_headers (pw_inner pw)) = 32 \<Longrightarrow> inner_inv (pw_inner (create_file tgt pw)) \<and> file_inv tgt [] (create_file tgt pw)"
  by (simp add: create_file_def close_no_finalize_def DataFileWriter_close_inv file_inv_def OutputFile_new_def write_all_end PerfFileHeader_default_def)

lemma write_event_data_inner [simp]: "pw_inner (snd (write_event_data e pw)) = pw_inner pw"
  by (simp add: write_event_data_def split: option.split)

lemma write_event_data_inv: "file_inv tgt d pw \<Longrightarrow> file_inv tgt (d @ e) (snd (write_event_data e pw))"
  by (simp add: file_inv_def write_event_data_def write_all_end PerfFileHeader_default_def)

lemma finalize_headers:
  "finalize_and_close tgt pw = Some (r, pw') \<Longrightarrow> length (dw_headers (pw_inner pw')) = length (dw_headers (pw_inner pw))"
  by (auto simp: finalize_and_close_def close_no_finalize_def DataFileWriter_close_def synthesize_tracing_data_def synthesize_event_desc_def Let_def
      split: Option.bind_split_asm if_split_asm option.split_asm prod.split_asm)

lemma writing_inv: "writing tgt d pw \<Longrightarrow> file_inv tgt d pw \<and> inner_inv (pw_inner pw)"
proof (induction rule: writing.induct)
  case created
  then show ?case using create_file_inv [of PerfDataFileWriter_new] by (simp add: PerfDataFileWriter_new_def DataFileWriter_new_def)
next
  case (again d pw r pw')
  then show ?case using create_file_inv [of pw'] finalize_headers [of tgt pw r pw'] by (simp add: inner_inv_def)
next
  case (given_up d pw)
  then show ?case using create_file_inv [of pw] by (simp add: inner_inv_def)
next
  case (vectored d pw n bufs)
  then show ?case using write_event_data_inv [of tgt d pw "take n (concat bufs)"]
    by (simp add: write_event_data_vectored_def write_event_data_def write_vectored_def Let_def file_inv_def)
next
  case (op d pw pw')
  then show ?case using writer_op_inv [OF op.hyps(2)] by (simp add: file_inv_def)
qed (use write_event_data_inv in \<open>simp_all add: write_finished_init_def write_finished_round_def\<close>)

text \<open>
  C24. Every state of a writer, after any sequence of operations, is consistent. The file that is being written holds the empty
  header of 104 bytes and then exactly the event data written since it was created, in order, and its position is at its end; there are 32 headers; the
  formats are kept under their ids, in the order of ids and each once; names have no nul and fewer than 65536 bytes; there are fewer than
  2^32 descriptions, each with fewer ids; and all parts of the tracing data are smaller than 2 GB.
\<close>

theorem writer_invariant:
  assumes "writing tgt d pw" "w = pw_inner pw"
  shows "pw_file pw = Some \<lparr>out_bytes = PerfFileHeader_bytes (big_endian tgt) PerfFileHeader_default @ d, out_pos = 104 + length d\<rparr>
    \<and> length (dw_headers w) = 32
    \<and> btree_inv (dw_formats w) \<and> (\<forall>k e. (k, e) \<in> set (dw_formats w) \<longrightarrow> k = ef_id e)
    \<and> (\<forall>x \<in> set (dw_event_descs w). length (ed_name x) < 65536 \<and> 0 \<notin> set (ed_name x) \<and> length (ed_sample_ids x) < 2 ^ 32 - 1)
    \<and> length (dw_event_descs w) < 2 ^ 32 \<and> parts_inv w"
  using writing_inv [OF assms(1)] assms(2) by (auto simp: file_inv_def inner_inv_def desc_inv_def)

text \<open>A small file: an event description, a round of one event, and the host's name.\<close>

definition example_attr :: PerfEventAttr where
  "example_attr = (PerfEventAttr_of_bytes False (replicate 128 0))\<lparr>at_attr_type := 1, at_attr_size := 128, at_sample_type := 0x10004\<rparr>"

definition example_event :: bytes where
  "example_event = [9, 0, 0, 0, 0, 0, 24, 0] @ [7, 0, 0, 0, 0, 0, 0, 0] @ [5, 0, 0, 0, 0, 0, 0, 0]"

definition example_writer :: "target \<Rightarrow> PerfDataFileWriter" where
  "example_writer tgt =
     snd (write_finished_round tgt (snd (write_event_data example_event
       (snd (add_event_desc [7, 8] example_attr (ascii ''tick'') (snd (set_string_header tgt Index_Hostname (ascii ''host'')
         (create_file tgt PerfDataFileWriter_new))))))))"

definition example_data :: "target \<Rightarrow> bytes" where
  "example_data tgt = ([] @ example_event) @ PerfEventHeader_bytes (big_endian tgt) \<lparr>ph_ty = HeaderType_FinishedRound, ph_misc = 0, ph_size = 8\<rparr>"

lemma example_writing: "writing tgt (example_data tgt) (example_writer tgt)"
  unfolding example_writer_def example_data_def
  by (rule writing.finished_round [OF writing.event_data
    [OF writing.op [OF writing.op [OF writing.created writer_op.set_string] writer_op.add_desc]]])

theorem writer_invariant_witness:
  "out_pos (the (pw_file (example_writer \<lparr>big_endian = False, pointer64 = True, debug_assertions = True\<rparr>))) = 136
    \<and> length (dw_headers (pw_inner (example_writer \<lparr>big_endian = False, pointer64 = True, debug_assertions = True\<rparr>))) = 32"
proof -
  have "length (example_data \<lparr>big_endian = False, pointer64 = True, debug_assertions = True\<rparr>) = 32"
    by (simp add: example_data_def example_event_def)
  then show ?thesis
    using writer_invariant [OF example_writing refl, of "\<lparr>big_endian = False, pointer64 = True, debug_assertions = True\<rparr>"] by simp
qed

end
