(* ===== verification/Time_Order.thy ===== *)
theory Time_Order
  imports File_Reader "HOL-Library.Multiset"
begin

text \<open>
  Reading by time. A round is collected in the order of the file and then sorted by time and position; because positions grow along the round, this is
  the stable sort by time that the documentation of \<open>PerfDataFileEventOrder::Time\<close> promises.
\<close>

section \<open>Positions in a round\<close>

definition numbered :: "QueueEntry list \<Rightarrow> bool" where
  "numbered q \<longleftrightarrow> map qe_round_sequence q = map word_of_nat [0..<length q]"

lemma numbered_push: "numbered q \<Longrightarrow> qe_round_sequence e = word_of_nat (length q) \<Longrightarrow> numbered (q @ [e])"
  by (simp add: numbered_def)

lemma read_entry_sequence:
  "read_entry tgt r self f = Some (Inr (e, b), s, g) \<Longrightarrow> qe_round_sequence e = word_of_nat (length (event_queue s))"
  by (auto simp: read_entry_def Let_def split: Option.bind_split_asm if_split_asm)

lemma push_entry_numbered:
  assumes "read_entry tgt r self f = Some (Inr (e, b), s, g)" "numbered (event_queue self)"
  shows "numbered (event_queue (push_entry e s))"
proof -
  have "event_queue s = event_queue self" using read_entry_same [OF assms(1)] by (simp add: same_events_def)
  with assms(2) read_entry_sequence [OF assms(1)] show ?thesis by (simp add: push_entry_def numbered_push)
qed

lemma collect_round_numbered:
  "collect_round tgt r self f = Some (self', f') \<Longrightarrow> numbered (event_queue self) \<Longrightarrow> numbered (event_queue self')"
proof (induction rule: collect_round_induct)
  case (ended self f result s f')
  with read_entry_same [OF ended(1)] show ?case by (simp add: same_events_def)
qed (auto intro: push_entry_numbered)

lemma numbered_increasing:
  assumes "numbered q" "length q \<le> 2 ^ 32"
  shows "sorted_wrt (\<lambda>a b. qe_round_sequence a < qe_round_sequence b) q"
  unfolding sorted_wrt_iff_nth_less
proof (intro allI impI)
  fix i j assume ij: "i < j" "j < length q"
  have s: "qe_round_sequence (q ! k) = word_of_nat k" if "k < length q" for k
    using assms(1) that by (metis numbered_def nth_map nth_upt add_0 length_upt diff_zero length_map)
  have "unat (word_of_nat k :: u32) = k" if "k < length q" for k
    using that assms(2) by (simp add: unsigned_of_nat take_bit_nat_eq_self)
  with s ij show "qe_round_sequence (q ! i) < qe_round_sequence (q ! j)" by (simp add: word_less_nat_alt)
qed

lemma sort_by_time:
  assumes "sorted_wrt (\<lambda>a b. qe_round_sequence a < qe_round_sequence b) q"
  shows "sort_key entry_key q = sort_key qe_time q"
proof (rule properties_for_sort_key [symmetric])
  have "sorted (map qe_time (sort_key entry_key q))"
    using sorted_sort_key [of entry_key q] unfolding sorted_map
    by (rule sorted_wrt_mono_rel [rotated]) (auto simp: entry_key_def less_eq_prod_def)
  then show "sorted (map qe_time (sort_key entry_key q))" .
  fix k
  have "sorted_wrt (\<lambda>a b. qe_round_sequence a < qe_round_sequence b) (filter (\<lambda>x. qe_time k = qe_time x) q)"
    using assms by (rule sorted_wrt_filter)
  then have "sorted (map entry_key (filter (\<lambda>x. qe_time k = qe_time x) q))"
    unfolding sorted_map by (rule sorted_wrt_mono_rel [rotated]) (auto simp: entry_key_def less_eq_prod_def)
  then show "filter (\<lambda>x. qe_time k = qe_time x) (sort_key entry_key q) = filter (\<lambda>x. qe_time k = qe_time x) q"
    by (simp add: filter_sort sort_key_id_if_sorted)
qed simp

section \<open>A client that reads a round\<close>

fun take_events ::
  "target \<Rightarrow> nat \<Rightarrow> DataFileReader \<Rightarrow> InputFile \<Rightarrow> EventBytesRef \<Rightarrow> (EventBytesRef list \<times> DataFileReader \<times> InputFile) option" where
  "take_events tgt 0 self f eb = Some ([], self, f)"
| "take_events tgt (Suc n) self f eb =
     (case read_event_time_order tgt self f eb of
        Some (Inr True, eb, self, f) \<Rightarrow> map_option (\<lambda>(es, s). (eb # es, s)) (take_events tgt n self f eb)
      | _ \<Rightarrow> None)"

lemma take_queued:
  "event_queue_consumed self + n = length (event_queue self) \<Longrightarrow>
   take_events tgt n self f eb = Some (map qe_bytes_ref (drop (event_queue_consumed self) (event_queue self)),
     self\<lparr>event_queue_consumed := length (event_queue self)\<rparr>, f)"
proof (induction n arbitrary: self eb)
  case (Suc n)
  then have "event_queue_consumed self < length (event_queue self)" by simp
  with Suc.IH [of "self\<lparr>event_queue_consumed := event_queue_consumed self + 1\<rparr>"] Suc.prems show ?case
    by (simp add: read_event_time_order.simps [of tgt self] Cons_nth_drop_Suc [symmetric])
qed simp

section \<open>Properties\<close>


text \<open>Two events whose times are in the opposite order, and the end of the round.\<close>

definition unordered_events :: bytes where
  "unordered_events = [9, 0, 0, 0, 0, 0, 24, 0] @ [7, 0, 0, 0, 0, 0, 0, 0] @ [9, 0, 0, 0, 0, 0, 0, 0]
     @ [9, 0, 0, 0, 0, 0, 24, 0] @ [7, 0, 0, 0, 0, 0, 0, 0] @ [5, 0, 0, 0, 0, 0, 0, 0] @ [68, 0, 0, 0, 0, 0, 8, 0]"

definition unordered_reader :: DataFileReader where
  "unordered_reader = DataFileReader_new\<lparr>rd_attrs := ReaderAttrs_new\<lparr>sample_time_offset := 16\<rparr>, data_end_file_pos := 56, event_order := Order_Time\<rparr>"


end
