(* ===== verification/File_Round_Trip.thy ===== *)
theory File_Round_Trip
  imports Written_Events Writer_Run Time_Order
begin

unbundle bit_operations_syntax

text \<open>
  The writer and the reader together: what a reader returns for a file that the writer finished.
\<close>

section \<open>Descriptions by id\<close>

definition desc_for :: "ReaderAttrs \<Rightarrow> u64 \<Rightarrow> PerfEventDesc option" where
  "desc_for ra k = map_option ((!) (event_desc_list ra)) (event_desc_id_to_index ra k)"

definition read_desc :: "bytes \<Rightarrow> EventDesc \<Rightarrow> PerfEventDesc" where
  "read_desc nm x = \<lparr>pd_attr = ed_attr x, pd_name = nm, pd_format = None, pd_ids = ed_sample_ids x\<rparr>"

lemma desc_for_with_desc:
  "attrs_inv ra \<Longrightarrow> desc_for (with_desc e ra) k = (if k \<in> set (pd_ids e) then Some e else desc_for ra k)"
  by (cases "event_desc_id_to_index ra k") (auto simp: desc_for_def attrs_inv_def nth_append)

lemma stored_attr_128: "at_attr_size a = 128 \<Longrightarrow> stored_attr a = a"
  by (cases a) (simp add: stored_attr_def)

lemma find_append: "find P (xs @ ys) = (case find P xs of None \<Rightarrow> find P ys | Some x \<Rightarrow> Some x)"
  by (induction xs) simp_all

lemma add_desc_read:
  "format_by_id ra = Map.empty \<Longrightarrow> at_attr_size (ed_attr x) = 128 \<Longrightarrow> add_desc nm x ra = with_desc (read_desc nm x) ra"
  by (simp add: add_desc_def read_desc_def stored_attr_128 PerfEventDesc_new_def update_name_def format_of_attr_def)

lemma fold_add_desc:
  assumes "offsets_agree offs ra" "format_by_id ra = Map.empty" "\<forall>x \<in> set ds. at_attr_size (ed_attr x) = 128 \<and> all_offsets (ed_attr x) = offs"
  shows "offsets_agree offs (fold (\<lambda>x. add_desc (nm x) x) ds ra) \<and> format_by_id (fold (\<lambda>x. add_desc (nm x) x) ds ra) = Map.empty
    \<and> desc_for (fold (\<lambda>x. add_desc (nm x) x) ds ra) k =
       (case find (\<lambda>x. k \<in> set (ed_sample_ids x)) (rev ds) of Some x \<Rightarrow> Some (read_desc (nm x) x) | None \<Rightarrow> desc_for ra k)"
  using assms
proof (induction ds arbitrary: ra)
  case (Cons x ds)
  have "format_by_id (add_desc (nm x) x ra) = Map.empty" using Cons.prems(2,3) by (simp add: add_desc_read)
  moreover have "offsets_agree offs (add_desc (nm x) x ra)" using Cons.prems add_attr_written(2) by simp
  moreover have "desc_for (add_desc (nm x) x ra) k = (if k \<in> set (ed_sample_ids x) then Some (read_desc (nm x) x) else desc_for ra k)"
    using Cons.prems by (simp add: add_desc_read desc_for_with_desc offsets_agree_def) (simp add: read_desc_def)
  ultimately show ?case using Cons.IH [of "add_desc (nm x) x ra"] Cons.prems(3) by (simp add: find_append split: option.split)
qed simp

section \<open>A file that was finished and opened\<close>

definition readable :: "int \<times> int \<times> int \<times> int \<Rightarrow> EventDesc \<Rightarrow> bool" where
  "readable offs x \<longleftrightarrow> ed_sample_ids x \<noteq> [] \<and> length (ed_sample_ids x) \<le> 0x10000 \<and> at_attr_size (ed_attr x) = 128
     \<and> (\<forall>c \<in> set (ed_name x). c < 0x80) \<and> all_offsets (ed_attr x) = offs"

text \<open>A writer whose file has no tracing data, and whose descriptions the reader takes.\<close>

definition no_tracing_data :: "DataFileWriter \<Rightarrow> bool" where
  "no_tracing_data w \<longleftrightarrow> dw_headers w ! Index_TracingData = [] \<and> (dw_long_size w = 0 \<or> dw_page_size w = 0)"

definition with_descs :: "target \<Rightarrow> DataFileWriter \<Rightarrow> DataFileWriter" where
  "with_descs tgt w = w\<lparr>dw_headers := (dw_headers w)[Index_EventDesc := desc_header (big_endian tgt) (dw_event_descs w)]\<rparr>"

lemma synthesized_descs:
  assumes "inner_inv w" "no_tracing_data w" "dw_headers w ! Index_EventDesc = []" "\<forall>x \<in> set (dw_event_descs w). readable offs x"
  shows "synthesized tgt w = Some (with_descs tgt w)"
proof -
  have ok: "\<forall>x \<in> set (dw_event_descs w). desc_ok x"
    using assms(1,4) by (auto simp: inner_inv_def desc_inv_def desc_ok_def plain_name_def readable_def)
  have "synthesize_tracing_data tgt w = Some w" using assms(2) by (auto simp: synthesize_tracing_data_def no_tracing_data_def)
  then show ?thesis
    using assms(1,3) append_descs_ok [OF ok]
    by (simp add: synthesized_def synthesize_event_desc_def inner_inv_def debug_assert_def rust_assert_def with_descs_def desc_header_def)
qed

text \<open>The state of a reader that has opened such a file.\<close>

definition opened_reader ::
  "target \<Rightarrow> PerfDataFileEventOrder \<Rightarrow> bytes \<Rightarrow> bytes \<Rightarrow> DataFileWriter \<Rightarrow> bytes list \<Rightarrow> PerfSessionInfo \<Rightarrow> PerfDataFileReader" where
  "opened_reader tgt order d contents w bs i =
     (let ra = fold (add_desc []) (dw_event_descs w) (rd_attrs DataFileReader_new) in
      \<lparr>pr_inner = DataFileReader_new\<lparr>event_order := order, buffers := bs, headers := dw_headers (with_descs tgt w), session_info := i,
         rd_attrs := named_descs (dw_event_descs w) ra, parsed_header_event_desc := True,
         data_begin_file_pos := 104, data_end_file_pos := 104 + length d\<rparr>,
       pr_current = EventBytesRef_default, pr_file = Some (file_on contents 104)\<rparr>)"

lemma DataFileReader_close_new: "DataFileReader_close DataFileReader_new = DataFileReader_new"
  by (simp add: DataFileReader_close_def DataFileReader_new_def ReaderAttrs_clear_def ReaderAttrs_new_def map_replicate)

lemma DataFileReader_new_simps:
  "buffers DataFileReader_new = [[]]" "headers DataFileReader_new = replicate 32 []" "rd_attrs DataFileReader_new = ReaderAttrs_new"
  "\<not> parsed_header_event_desc DataFileReader_new"
  by (simp_all add: DataFileReader_new_def)

lemma finalized_opens:
  assumes "writing tgt d pw" "w = pw_inner pw" "no_tracing_data w" "dw_headers w ! Index_EventDesc = []"
    and "dw_event_descs w \<noteq> []" "\<forall>x \<in> set (dw_event_descs w). readable offs x"
  shows "\<exists>pw'. finalize_and_close tgt pw = Some (Inr (file_bytes (big_endian tgt) d (with_descs tgt w)), pw')"
    "length (file_bytes (big_endian tgt) d (with_descs tgt w)) < 2 ^ 31 \<Longrightarrow>
     \<exists>bs i. open_file tgt (file_bytes (big_endian tgt) d (with_descs tgt w)) order PerfDataFileReader_new =
         Some (Inr (), opened_reader tgt order d (file_bytes (big_endian tgt) d (with_descs tgt w)) w bs i)
       \<and> length bs = 1 \<and> si_byte_reader i = KEEP_ENDIAN tgt"
proof -
  let ?w = "with_descs tgt w" and ?ra = "fold (add_desc []) (dw_event_descs w) ReaderAttrs_new"
  let ?contents = "file_bytes (big_endian tgt) d ?w"
  have inv: "file_inv tgt d pw" "inner_inv w" using writing_inv [OF assms(1)] assms(2) by simp_all
  have w: "synthesized tgt (pw_inner pw) = Some ?w" using synthesized_descs [OF inv(2) assms(3,4,6)] assms(2) by simp
  show "\<exists>pw'. finalize_and_close tgt pw = Some (Inr ?contents, pw')"
    using finalize_layout [OF _ _ _ _ w] inv(1) by (auto simp: file_inv_def at_end_def PerfFileHeader_default_def)
  assume len: "length ?contents < 2 ^ 31"
  have ds: "\<forall>x \<in> set (dw_event_descs w). desc_ok x \<and> ed_sample_ids x \<noteq> [] \<and> at_attr_size (ed_attr x) = 128 \<and> all_offsets (ed_attr x) = offs"
    using inv(2) assms(6) by (auto simp: inner_inv_def desc_inv_def desc_ok_def plain_name_def readable_def)
  have agree: "offsets_agree offs ReaderAttrs_new" by (simp add: offsets_agree_def attrs_inv_new) (simp add: ReaderAttrs_new_def)
  have agree': "offsets_agree offs ?ra"
    using fold_add_desc [OF agree, of "dw_event_descs w" "\<lambda>x. []"] ds by (simp add: ReaderAttrs_new_def)
  show "\<exists>bs i. open_file tgt ?contents order PerfDataFileReader_new = Some (Inr (), opened_reader tgt order d ?contents w bs i)
       \<and> length bs = 1 \<and> si_byte_reader i = KEEP_ENDIAN tgt"
  proof -
    have e: "dw_event_descs ?w = dw_event_descs w" by (simp add: with_descs_def)
    define "is" :: "nat list" where "is = [0..<32]"
    obtain bs where o: "reader_open tgt order DataFileReader_new (InputFile_new ?contents) = map_option (opened ?contents (length d))
          (load_each tgt (dw_headers ?w) is ((fresh_reader order tgt DataFileReader_new)\<lparr>buffers := bs, rd_attrs := ?ra\<rparr>))"
        and bs: "length bs = 1"
      using reader_open_written [OF refl len, of offs DataFileReader_new "[]" order, folded is_def] assms(5) ds agree
      by (auto simp: e DataFileReader_new_simps)
    let ?s = "(fresh_reader order tgt DataFileReader_new)\<lparr>buffers := bs, rd_attrs := ?ra\<rparr>"
    have "\<exists>i. load_each tgt (dw_headers ?w) is ?s =
          Some (?s\<lparr>headers := dw_headers ?w, session_info := i, rd_attrs := named_descs (dw_event_descs w) (rd_attrs ?s), parsed_header_event_desc := True\<rparr>)
        \<and> si_byte_reader i = KEEP_ENDIAN tgt"
      using inv(2) assms(3) ds agree'
      by (intro load_each_written [of _ _ _ _ offs, folded is_def])
        (auto simp: with_descs_def inner_inv_def no_tracing_data_def DataFileReader_new_simps fresh_reader_def PerfSessionInfo_new_def)
    then obtain i where "load_each tgt (dw_headers ?w) is ?s =
          Some (?s\<lparr>headers := dw_headers ?w, session_info := i, rd_attrs := named_descs (dw_event_descs w) ?ra, parsed_header_event_desc := True\<rparr>)"
        and i: "si_byte_reader i = KEEP_ENDIAN tgt" by auto
    then have r: "open_file tgt ?contents order PerfDataFileReader_new = Some (Inr (), PerfDataFileReader_new\<lparr>pr_inner :=
          ?s\<lparr>headers := dw_headers ?w, session_info := i, rd_attrs := named_descs (dw_event_descs w) ?ra, parsed_header_event_desc := True,
            data_begin_file_pos := 104, data_end_file_pos := 104 + length d\<rparr>, pr_file := Some (file_on ?contents 104)\<rparr>)"
      using o by (simp add: open_file_def PerfDataFileReader_close_def PerfDataFileReader_new_def DataFileReader_close_new opened_def)
    show ?thesis unfolding r
      by (intro exI [of _ bs] exI [of _ i])
        (simp add: bs i opened_reader_def fresh_reader_def PerfDataFileReader_new_def DataFileReader_new_def Let_def)
  qed
qed

section \<open>Reading the events\<close>

text \<open>
  A record as events are: its header has its size, and it is not one of the records that carry headers or are followed by data.
\<close>

definition event_record :: "bool \<Rightarrow> bytes \<Rightarrow> bool" where
  "event_record be e \<longleftrightarrow> 8 \<le> length e \<and> unat (ph_size (PerfEventHeader_of_bytes be e)) = length e
     \<and> ph_ty (PerfEventHeader_of_bytes be e) \<notin>
         {HeaderType_HeaderAttr, HeaderType_HeaderTracingData, HeaderType_HeaderBuildId, HeaderType_Auxtrace, HeaderType_HeaderFeature}"

lemma header_of_take: "8 \<le> length e \<Longrightarrow> PerfEventHeader_of_bytes be (take 8 e) = PerfEventHeader_of_bytes be e"
  by (simp add: PerfEventHeader_of_bytes_def word_at_def field_at_def drop_take)

lemma read_event_record:
  assumes "event_record (big_endian tgt) e" "contents = pre @ e @ post" "length pre + length e \<le> data_end_file_pos self"
    and "length (buffers self) = 1" "current_buffer self = 0" "si_byte_reader (session_info self) = KEEP_ENDIAN tgt"
    and "parsed_header_event_desc self" "length (headers self) = 32"
  shows "read_event_file_order tgt self (file_on contents (length pre)) eb =
    Some (Inr True, \<lparr>er_buffer_index = 0, er_range = (0, length e)\<rparr>, self\<lparr>buffers := [e]\<rparr>, file_on contents (length pre + length e))"
proof -
  let ?h = "PerfEventHeader_of_bytes (big_endian tgt) e"
  have e: "8 \<le> length e" "unat (ph_size ?h) = length e" using assms(1) by (simp_all add: event_record_def)
  have "unat (ph_size ?h) < 2 ^ LENGTH(16)" by (rule unsigned_less)
  then have size: "length e < 65536" using e(2) by simp
  have parts: "contents = pre @ take 8 e @ drop 8 e @ post" using assms(2) append_take_drop_id [of 8 e] by (metis append_assoc)
  have r1: "read_exact 8 (file_on contents (length pre)) = (Inr (take 8 e), file_on contents (length pre + 8))"
    by (rule read_reading [of _ pre _ "drop 8 e @ post"]) (use parts e(1) in simp_all)
  have "read_exact (length e - 8) (file_on contents (length pre + 8)) = (Inr (drop 8 e), file_on contents (length pre + 8 + (length e - 8)))"
    by (rule read_reading [of _ "pre @ take 8 e" _ post]) (use parts e(1) in simp_all)
  then have r2: "read_append_vec (take 8 e) (length e - 8) (file_on contents (length pre + 8)) = (Inr e, file_on contents (length pre + length e))"
    using e(1) by (simp add: read_append_vec_def)
  have h: "PerfEventHeader_from_bytes tgt (take 8 e) (KEEP_ENDIAN tgt) = ?h"
    using e(1) PerfEventHeader_from_bytes_source [of "take 8 e" tgt "KEEP_ENDIAN tgt"] by (simp add: KEEP_ENDIAN_def header_of_take min_def)
  obtain b where b: "buffers self = [b]" using assms(4) by (auto simp: length_Suc_conv)
  have pos: "in_pos (file_on contents p) = p" for p by (simp add: file_on_def)
  have special: "event_special tgt ?h 0 0 8 n (self\<lparr>buffers := [e]\<rparr>) f = Some (Inr (), self\<lparr>buffers := [e]\<rparr>, f)" for n f
    using assms(1,7,8) by (simp add: event_special_def event_record_def parse_header_event_desc_def)
  have ends: "\<not> data_end_file_pos self \<le> length pre" "\<not> data_end_file_pos self - length pre < 8"
      "\<not> data_end_file_pos self - (length pre + 8) < length e - 8" "length pre + 8 \<le> data_end_file_pos self"
      "length pre + length e \<le> data_end_file_pos self"
    using assms(3) e(1) by simp_all
  show ?thesis
    using b e size r1 r2 h special assms(5,6) ends
    by (simp add: Let_def read_event_file_order_def read_one_event_def read_event_body_def pos debug_assert_def rust_assert_def set_buffer_def)
qed

text \<open>
  A client that reads until there is no event left: the events and the last result of \<open>move_next_event\<close>. It makes \<open>n\<close> calls at most.
\<close>

fun read_events :: "target \<Rightarrow> nat \<Rightarrow> PerfDataFileReader \<Rightarrow> (PerfEventBytes list \<times> (io_error + bool)) option" where
  "read_events tgt 0 pr = Some ([], Inr True)"
| "read_events tgt (Suc n) pr = do {
     (r, pr) \<leftarrow> move_next_event tgt pr;
     (if r = Inr True then do {
        e \<leftarrow> current_event tgt pr;
        (es, r) \<leftarrow> read_events tgt n pr;
        Some (e # es, r)
      }
      else Some ([], r))
   }"

definition event_of :: "bool \<Rightarrow> bytes \<Rightarrow> PerfEventBytes" where
  "event_of be e = \<lparr>pb_header = PerfEventHeader_of_bytes be e, pb_data = e\<rparr>"

lemma read_events_step:
  "move_next_event tgt pr = Some (Inr True, pr') \<Longrightarrow> current_event tgt pr' = Some e \<Longrightarrow> read_events tgt n pr' = Some (es, r) \<Longrightarrow>
   read_events tgt (Suc n) pr = Some (e # es, r)"
  by simp

lemma read_events_records:
  assumes "\<forall>e \<in> set es. event_record (big_endian tgt) e" "contents = pre @ concat es @ post"
    and "data_end_file_pos (pr_inner pr) = length pre + length (concat es)" "event_order (pr_inner pr) = Order_File"
    and "length (buffers (pr_inner pr)) = 1" "current_buffer (pr_inner pr) = 0" "si_byte_reader (session_info (pr_inner pr)) = KEEP_ENDIAN tgt"
    and "parsed_header_event_desc (pr_inner pr)" "length (headers (pr_inner pr)) = 32" "pr_file pr = Some (file_on contents (length pre))"
  shows "read_events tgt (Suc (length es)) pr = Some (map (event_of (big_endian tgt)) es, Inr False)"
  using assms
proof (induction es arbitrary: pre pr)
  case Nil
  then show ?case
    by (auto simp: move_next_event_def read_event_file_order_def read_one_event_def file_on_def debug_assert_def rust_assert_def length_Suc_conv)
next
  case (Cons e es)
  let ?pr = "\<lparr>pr_inner = (pr_inner pr)\<lparr>buffers := [e]\<rparr>, pr_current = \<lparr>er_buffer_index = 0, er_range = (0, length e)\<rparr>,
    pr_file = Some (file_on contents (length pre + length e))\<rparr>"
  have e: "event_record (big_endian tgt) e" "8 \<le> length e" using Cons.prems(1) by (simp_all add: event_record_def)
  have m: "move_next_event tgt pr = Some (Inr True, ?pr)"
    using read_event_record [OF e(1), of contents pre "concat es @ post" "pr_inner pr" "pr_current pr"] Cons.prems
    by (simp add: move_next_event_def)
  have h: "PerfEventHeader_from_bytes tgt (take 8 e) (KEEP_ENDIAN tgt) = PerfEventHeader_of_bytes (big_endian tgt) e"
    using e(2) PerfEventHeader_from_bytes_source [of "take 8 e" tgt "KEEP_ENDIAN tgt"] by (simp add: KEEP_ENDIAN_def header_of_take)
  have c: "current_event tgt ?pr = Some (event_of (big_endian tgt) e)"
    using e(2) h Cons.prems(7) by (simp add: current_event_def PerfEventBytes_new_def debug_assert_def rust_assert_def event_of_def)
  have "read_events tgt (Suc (length es)) ?pr = Some (map (event_of (big_endian tgt)) es, Inr False)"
    using Cons.prems by (intro Cons.IH [of "pre @ e"]) simp_all
  then show ?case using read_events_step [OF m c] by (simp del: read_events.simps)
qed

section \<open>Properties\<close>

text \<open>
  C5. A finished file can be opened, and nothing is lost. Let a writer have written the event data \<open>d\<close>, with no tracing data, and with event descriptions
  that all have sample ids, ASCII names, an attribute of the current size and the same positions of id and
  time. Then \<open>finalize_and_close\<close> succeeds, and \<open>open_file\<close> succeeds on the file (if it is smaller than 2 GB): the data section
  is \<open>d\<close>, all headers that were set are there, and every sample id finds the last description that has it, with its attribute, name and ids.
\<close>

theorem written_file_opens:
  assumes "writing tgt d pw" "w = pw_inner pw" "no_tracing_data w" "dw_headers w ! Index_EventDesc = []"
    and "dw_event_descs w \<noteq> []" "\<forall>x \<in> set (dw_event_descs w). readable offs x"
  shows "\<exists>contents pw'. finalize_and_close tgt pw = Some (Inr contents, pw')
    \<and> (length contents < 2 ^ 31 \<longrightarrow>
        (\<exists>pr. open_file tgt contents order PerfDataFileReader_new = Some (Inr (), pr)
          \<and> data_begin_file_pos (pr_inner pr) = 104 \<and> data_end_file_pos (pr_inner pr) = 104 + length d \<and> take (length d) (drop 104 contents) = d
          \<and> (\<forall>i. i \<noteq> Index_EventDesc \<longrightarrow> reader_header i pr = writer_get_header i pw)
          \<and> (\<forall>k. event_desc_by_id k pr = Some (map_option (\<lambda>x. read_desc (ed_name x) x)
                (find (\<lambda>x. k \<in> set (ed_sample_ids x)) (rev (dw_event_descs w)))))))"
proof -
  let ?contents = "file_bytes (big_endian tgt) d (with_descs tgt w)" and ?ds = "dw_event_descs w"
  let ?ra = "fold (add_desc []) ?ds ReaderAttrs_new"
  have h: "length (dw_headers w) = 32" using writing_inv [OF assms(1)] assms(2) by (simp add: inner_inv_def)
  have ds: "\<forall>x \<in> set ?ds. at_attr_size (ed_attr x) = 128 \<and> all_offsets (ed_attr x) = offs" using assms(6) by (simp add: readable_def)
  have agree: "offsets_agree offs ReaderAttrs_new" "format_by_id ReaderAttrs_new = Map.empty"
    by (simp add: offsets_agree_def attrs_inv_new) (simp_all add: ReaderAttrs_new_def)
  note first = fold_add_desc [OF agree ds, of "\<lambda>x. []"]
  note second = fold_add_desc [OF conjunct1 [OF first] conjunct1 [OF conjunct2 [OF first]] ds, of ed_name]
  have none: "desc_for ReaderAttrs_new k = None" for k by (simp add: desc_for_def ReaderAttrs_new_def)
  have found: "desc_for (named_descs ?ds ?ra) k = map_option (\<lambda>x. read_desc (ed_name x) x) (find (\<lambda>x. k \<in> set (ed_sample_ids x)) (rev ?ds))" for k
    using conjunct2 [OF conjunct2 [OF first], of k] conjunct2 [OF conjunct2 [OF second], of k] none
    by (simp add: named_descs_def split: option.split)
  have inv: "attrs_inv (named_descs ?ds ?ra)" using conjunct1 [OF second] by (simp add: named_descs_def offsets_agree_def)
  have by_id: "event_desc_by_id k pr = Some (desc_for (rd_attrs (pr_inner pr)) k)" if "attrs_inv (rd_attrs (pr_inner pr))" for k pr
    using that by (auto simp: event_desc_by_id_def desc_for_def attrs_inv_def split: option.split)
  have data: "take (length d) (drop 104 ?contents) = d" by (simp add: file_bytes_def Let_def file_header_def)
  obtain pw' where f: "finalize_and_close tgt pw = Some (Inr ?contents, pw')" using finalized_opens(1) [OF assms] by blast
  show ?thesis
  proof (intro exI [of _ ?contents] exI [of _ pw'] conjI f impI)
    assume "length ?contents < 2 ^ 31"
    then obtain bs i where o: "open_file tgt ?contents order PerfDataFileReader_new = Some (Inr (), opened_reader tgt order d ?contents w bs i)"
      using finalized_opens(2) [OF assms] by blast
    have "reader_header j (opened_reader tgt order d ?contents w bs i) = writer_get_header j pw" if "j \<noteq> Index_EventDesc" for j
      using that h assms(2) by (simp add: reader_header_def writer_get_header_def opened_reader_def with_descs_def Let_def)
    moreover have "rd_attrs (pr_inner (opened_reader tgt order d ?contents w bs i)) = named_descs ?ds ?ra"
      by (simp add: opened_reader_def Let_def DataFileReader_new_simps)
    ultimately show "\<exists>pr. open_file tgt ?contents order PerfDataFileReader_new = Some (Inr (), pr)
        \<and> data_begin_file_pos (pr_inner pr) = 104 \<and> data_end_file_pos (pr_inner pr) = 104 + length d \<and> take (length d) (drop 104 ?contents) = d
        \<and> (\<forall>i. i \<noteq> Index_EventDesc \<longrightarrow> reader_header i pr = writer_get_header i pw)
        \<and> (\<forall>k. event_desc_by_id k pr = Some (map_option (\<lambda>x. read_desc (ed_name x) x) (find (\<lambda>x. k \<in> set (ed_sample_ids x)) (rev ?ds))))"
      using o data by_id inv found by (intro exI [of _ "opened_reader tgt order d ?contents w bs i"]) (simp add: opened_reader_def Let_def)
  qed
qed

text \<open>
  C6. Events come back as they were written. When the event data of a finished file (as before) is a sequence of records, each with its size in its header and
  none of the kinds that carry headers, then a reader in file order returns exactly these records, one for each call of
  \<open>move_next_event\<close>, and then reports the end. No build panics.
\<close>

theorem written_events_read:
  assumes "writing tgt (concat es) pw" "w = pw_inner pw" "no_tracing_data w" "dw_headers w ! Index_EventDesc = []"
    and "dw_event_descs w \<noteq> []" "\<forall>x \<in> set (dw_event_descs w). readable offs x" "\<forall>e \<in> set es. event_record (big_endian tgt) e"
  shows "\<exists>contents pw'. finalize_and_close tgt pw = Some (Inr contents, pw')
    \<and> (length contents < 2 ^ 31 \<longrightarrow>
        (\<exists>pr. open_file tgt contents Order_File PerfDataFileReader_new = Some (Inr (), pr)
          \<and> read_events tgt (Suc (length es)) pr = Some (map (event_of (big_endian tgt)) es, Inr False)))"
proof -
  let ?contents = "file_bytes (big_endian tgt) (concat es) (with_descs tgt w)"
  let ?H = "PerfFileHeader_bytes (big_endian tgt) (file_header (length (concat es)) (104 + length (concat es))
    (header_flags (dw_headers (with_descs tgt w))) (nonempty_headers (dw_headers (with_descs tgt w))) (dw_event_descs (with_descs tgt w)))"
  have h: "length (dw_headers w) = 32" using writing_inv [OF assms(1)] assms(2) by (simp add: inner_inv_def)
  have H: "length ?H = 104" by (simp add: file_header_def)
  obtain pw' where f: "finalize_and_close tgt pw = Some (Inr ?contents, pw')" using finalized_opens(1) [OF assms(1-6)] by blast
  show ?thesis
  proof (intro exI [of _ ?contents] exI [of _ pw'] conjI f impI)
    assume "length ?contents < 2 ^ 31"
    then obtain bs i where o: "open_file tgt ?contents Order_File PerfDataFileReader_new =
          Some (Inr (), opened_reader tgt Order_File (concat es) ?contents w bs i)" and bs: "length bs = 1" and i: "si_byte_reader i = KEEP_ENDIAN tgt"
      using finalized_opens(2) [OF assms(1-6)] by blast
    have "read_events tgt (Suc (length es)) (opened_reader tgt Order_File (concat es) ?contents w bs i) =
        Some (map (event_of (big_endian tgt)) es, Inr False)"
      using assms(7) bs i h H
      by (intro read_events_records [of es tgt ?contents ?H])
        (simp_all add: file_bytes_def Let_def opened_reader_def with_descs_def DataFileReader_new_def)
    with o show "\<exists>pr. open_file tgt ?contents Order_File PerfDataFileReader_new = Some (Inr (), pr)
        \<and> read_events tgt (Suc (length es)) pr = Some (map (event_of (big_endian tgt)) es, Inr False)" by blast
  qed
qed

section \<open>An example\<close>

definition example_target :: target where
  "example_target = \<lparr>big_endian = False, pointer64 = True, debug_assertions = True\<rparr>"

lemma example_target_simps [simp]: "\<not> big_endian example_target" "debug_assertions example_target"
  by (simp_all add: example_target_def)

definition example_desc :: EventDesc where
  "example_desc = \<lparr>ed_name = ascii ''tick'', ed_sample_ids = [7, 8], ed_attr = example_attr\<rparr>"

definition example_host :: bytes where
  "example_host = [5, 0, 0, 0] @ ascii ''host'' @ replicate 8 0"

lemma example_inner:
  "pw_inner (example_writer example_target) =
     DataFileWriter_new\<lparr>dw_headers := (replicate 32 [])[3 := example_host], dw_event_descs := [example_desc]\<rparr>"
proof -
  have "strlen (ascii ''tick'') = 4" "take 4 (ascii ''tick'') = ascii ''tick''" "length (ascii ''tick'') = 4"
    "strlen (ascii ''host'') = 4" "take 4 (ascii ''host'') = ascii ''host''" "length (ascii ''host'') = 4"
    by (simp_all add: strlen_def ascii_def)
  moreover have "word_bytes False (5 :: u32) = [5, 0, 0, 0]" by code_simp
  moreover have "and_not 16 7 = 16" by code_simp
  ultimately show ?thesis
    by (simp add: example_writer_def write_finished_round_def add_event_desc_def desc_refused_def set_string_header_def create_file_def
      close_no_finalize_def PerfDataFileWriter_new_def DataFileWriter_close_def DataFileWriter_new_def upd_inner_def
      inner_add_event_desc_def put_header_def example_target_def example_desc_def example_host_def)
qed

definition example_contents :: bytes where
  "example_contents = file_bytes False (example_data example_target) (with_descs example_target (pw_inner (example_writer example_target)))"

lemma nonempty_headers_length: "length (concat (nonempty_headers hs)) \<le> (\<Sum>i \<leftarrow> [0..<32]. length (hs ! i))"
proof -
  have "length (concat (filter (\<lambda>h. h \<noteq> []) xs)) \<le> sum_list (map length xs)" for xs :: "bytes list"
    by (induction xs) auto
  from this [of "map ((!) hs) [0..<32]"] show ?thesis by (simp add: nonempty_headers_def o_def)
qed

lemma example_contents_small: "length example_contents < 2 ^ 31"
proof -
  let ?w = "with_descs example_target (pw_inner (example_writer example_target))"
  have n: "length (nonempty_headers hs) \<le> 32" for hs
    using length_filter_le [of "\<lambda>h. h \<noteq> []" "map ((!) hs) [0..<32]"] by (simp add: nonempty_headers_def)
  have d: "length (example_data example_target) = 32" by (simp add: example_data_def example_event_def)
  have "length (desc_entry False example_desc) \<le> 300"
    by (simp add: desc_entry_def name_pad_def example_desc_def ascii_def)
  then have h: "length (desc_header False [example_desc]) \<le> 400" by (simp add: desc_header_def)
  have w: "dw_headers ?w = (replicate 32 [])[3 := example_host, 12 := desc_header False [example_desc]]" "dw_event_descs ?w = [example_desc]"
    by (simp_all add: example_inner with_descs_def)
  have "(\<Sum>i \<leftarrow> [0..<32]. length (dw_headers ?w ! i)) \<le> 500"
    using h unfolding w by (simp add: example_host_def ascii_def upt_rec nth_list_update)
  then have "length (concat (nonempty_headers (dw_headers ?w))) \<le> 500" using nonempty_headers_length le_trans by blast
  then show ?thesis using n [of "dw_headers ?w"] d w(2)
    by (simp add: example_contents_def file_bytes_def Let_def footer_length file_header_def) (simp add: example_desc_def)
qed

lemma example_writer_ok:
  "no_tracing_data (pw_inner (example_writer example_target))" "dw_headers (pw_inner (example_writer example_target)) ! Index_EventDesc = []"
  "dw_event_descs (pw_inner (example_writer example_target)) = [example_desc]" "readable (all_offsets example_attr) example_desc"
  by (simp_all add: example_inner no_tracing_data_def DataFileWriter_new_def readable_def example_desc_def example_attr_def ascii_def)

lemma example_finalized: "\<exists>pw'. finalize_and_close example_target (example_writer example_target) = Some (Inr example_contents, pw')"
  using finalized_opens(1) [OF example_writing refl example_writer_ok(1,2), of "all_offsets example_attr"] example_writer_ok(3,4)
  by (simp add: example_contents_def)

theorem written_file_opens_witness:
  "\<exists>pr. open_file example_target example_contents Order_Time PerfDataFileReader_new = Some (Inr (), pr)
     \<and> reader_header Index_Hostname pr = example_host \<and> event_desc_by_id 8 pr = Some (Some (read_desc (ascii ''tick'') example_desc))
     \<and> event_desc_by_id 9 pr = Some None"
proof -
  have ids: "ed_sample_ids example_desc = [7, 8]" "ed_name example_desc = ascii ''tick''" by (simp_all add: example_desc_def)
  have host: "writer_get_header 3 (example_writer example_target) = example_host" by (simp add: writer_get_header_def example_inner)
  obtain pr where "open_file example_target example_contents Order_Time PerfDataFileReader_new = Some (Inr (), pr)"
      "\<forall>i. i \<noteq> Index_EventDesc \<longrightarrow> reader_header i pr = writer_get_header i (example_writer example_target)"
      "\<forall>k. event_desc_by_id k pr = Some (map_option (\<lambda>x. read_desc (ed_name x) x) (find (\<lambda>x. k \<in> set (ed_sample_ids x)) (rev [example_desc])))"
    using written_file_opens [OF example_writing refl example_writer_ok(1,2), of "all_offsets example_attr" Order_Time] example_writer_ok(3,4)
      example_finalized example_contents_small by auto
  then show ?thesis using host ids by (intro exI [of _ pr]) simp
qed

theorem written_events_read_witness:
  "\<exists>pr. open_file example_target example_contents Order_File PerfDataFileReader_new = Some (Inr (), pr)
     \<and> read_events example_target 3 pr = Some ([event_of False example_event,
         event_of False (PerfEventHeader_bytes False \<lparr>ph_ty = HeaderType_FinishedRound, ph_misc = 0, ph_size = 8\<rparr>)], Inr False)"
proof -
  let ?round = "PerfEventHeader_bytes False \<lparr>ph_ty = HeaderType_FinishedRound, ph_misc = 0, ph_size = 8\<rparr>"
  let ?es = "[example_event, ?round]"
  have "event_record False example_event" by code_simp
  moreover have "event_record False ?round" by code_simp
  moreover have "writing example_target (concat ?es) (example_writer example_target)"
    using example_writing [of example_target] by (simp add: example_data_def)
  ultimately obtain pr where "open_file example_target example_contents Order_File PerfDataFileReader_new = Some (Inr (), pr)"
      "read_events example_target (Suc (length ?es)) pr = Some (map (event_of False) ?es, Inr False)"
    using written_events_read [OF _ refl example_writer_ok(1,2), of example_target ?es "all_offsets example_attr"] example_writer_ok(3,4)
      example_finalized example_contents_small by auto
  then show ?thesis by (intro exI [of _ pr]) (simp del: read_events.simps add: numeral_3_eq_3)
qed

end
