(* ===== verification/File_Findings.thy ===== *)
theory File_Findings
  imports File_Round_Trip
begin

unbundle bit_operations_syntax

text \<open>
  Files that the reader does not take, and what a client sees before its first event.
\<close>

section \<open>A file without event descriptions\<close>

lemma reader_open_host:
  assumes "contents = file_bytes (big_endian tgt) d w" "buffers self = [] # bufs"
  shows "reader_open tgt order self (InputFile_new contents) =
    open_rest tgt (fresh_reader order tgt self) \<lparr>in_bytes = contents, in_seek = 16, in_pos = 16, in_len = 0\<rparr>"
proof -
  let ?hd = "file_header (length d) (104 + length d) (header_flags (dw_headers w)) (nonempty_headers (dw_headers w)) (dw_event_descs w)"
  have "read_exact 16 (InputFile_new contents) =
      (Inr (PerfFileHeaderPipe_bytes (big_endian tgt) (fh_pipe ?hd)), \<lparr>in_bytes = contents, in_seek = 16, in_pos = 16, in_len = 0\<rparr>)"
    using assms(1) by (simp add: file_bytes_def Let_def PerfFileHeader_bytes_def read_exact_def InputFile_new_def)
  moreover have "fh_pipe ?hd = \<lparr>fp_magic = PERFILE2_MAGIC_HOST_ENDIAN, fp_size = 104\<rparr>" by (simp add: file_header_def)
  ultimately show ?thesis
    using assms(2) by (simp add: reader_open_def Let_def fresh_reader_def debug_assert_def rust_assert_def)
qed

lemma open_rest_no_descs:
  assumes "contents = file_bytes (big_endian tgt) d w" "dw_event_descs w = []" "length contents < 2 ^ 64"
    and "si_byte_reader (session_info self) = KEEP_ENDIAN tgt" "f = \<lparr>in_bytes = contents, in_seek = 16, in_pos = 16, in_len = 0\<rparr>"
  shows "\<exists>g. open_rest tgt self f = Some (Inl IoInvalidData, self, g)"
proof -
  let ?hs = "nonempty_headers (dw_headers w)" and ?be = "big_endian tgt"
  define hd where "hd = file_header (length d) (104 + length d) (header_flags (dw_headers w)) ?hs []"
  have four: "length (fr_flags (fh_rest hd)) = 4" by (simp add: hd_def file_header_def)
  have c: "contents = PerfFileHeaderPipe_bytes ?be (fh_pipe hd) @ PerfFileHeaderRest_bytes ?be (fh_rest hd) @ d @ footer_bytes ?be (104 + length d) ?hs []"
    using assms(1,2) by (simp add: file_bytes_def Let_def PerfFileHeader_bytes_def hd_def)
  have len: "length contents = 104 + length d + 16 * length ?hs + length (concat ?hs)"
    unfolding c using four by (simp add: footer_length)
  have "fr_attrs (fh_rest hd) = \<lparr>fs_offset = word_of_nat (length contents), fs_size = 0\<rparr>"
    unfolding len by (simp add: hd_def file_header_def)
  then have invalid: "\<not> section_valid (file_on contents 104) (fr_attrs (fh_rest hd))" using assms(3) by (simp add: section_valid_def)
  have r: "read_exact 88 (file_on contents 16) = (Inr (PerfFileHeaderRest_bytes ?be (fh_rest hd)), file_on contents (16 + 88))"
    by (rule read_reading [of _ "PerfFileHeaderPipe_bytes ?be (fh_pipe hd)" _ "d @ footer_bytes ?be (104 + length d) ?hs []"])
      (use c four in simp_all)
  have "PerfFileHeaderRest_of_bytes ?be (PerfFileHeaderRest_bytes ?be (fh_rest hd)) = fh_rest hd"
    using PerfFileHeaderRest_of_bytes_bytes [OF four, of ?be "[]"] by simp
  moreover have "update_len f = file_on contents 16" using assms(5) by (simp add: update_len_def file_on_def)
  ultimately show ?thesis
    using r invalid assms(4) by (simp add: open_rest_def Let_def byte_swap_needed_def KEEP_ENDIAN_def)
qed

text \<open>
  C37. A file without event descriptions cannot be read back. When no description was added, \<open>finalize_and_close\<close> succeeds, whatever event data and
  headers were written, but \<open>open_file\<close> refuses the file as invalid: the section of the attributes is empty and at the very end of the
  file, and the reader wants the start of every section to be inside the file.
\<close>

theorem file_without_descs_rejected:
  assumes "writing tgt d pw" "w = pw_inner pw" "no_tracing_data w" "dw_headers w ! Index_EventDesc = []" "dw_event_descs w = []"
  shows "\<exists>contents pw'. finalize_and_close tgt pw = Some (Inr contents, pw')
    \<and> (length contents < 2 ^ 64 \<longrightarrow> (\<exists>pr. open_file tgt contents order PerfDataFileReader_new = Some (Inl IoInvalidData, pr)))"
proof -
  let ?w = "with_descs tgt w"
  let ?contents = "file_bytes (big_endian tgt) d ?w"
  have inv: "file_inv tgt d pw" "inner_inv w" using writing_inv [OF assms(1)] assms(2) by simp_all
  have w: "synthesized tgt (pw_inner pw) = Some ?w" using synthesized_descs [OF inv(2) assms(3,4)] assms(2,5) by simp
  obtain pw' where f: "finalize_and_close tgt pw = Some (Inr ?contents, pw')"
    using finalize_layout [OF _ _ _ _ w] inv(1) by (auto simp: file_inv_def at_end_def PerfFileHeader_default_def)
  show ?thesis
  proof (intro exI [of _ ?contents] exI [of _ pw'] conjI f impI)
    assume "length ?contents < 2 ^ 64"
    then obtain g where "open_rest tgt (fresh_reader order tgt DataFileReader_new) \<lparr>in_bytes = ?contents, in_seek = 16, in_pos = 16, in_len = 0\<rparr>
        = Some (Inl IoInvalidData, fresh_reader order tgt DataFileReader_new, g)"
      using open_rest_no_descs [OF refl, of ?w tgt d "fresh_reader order tgt DataFileReader_new"] assms(5)
      by (auto simp: with_descs_def fresh_reader_def PerfSessionInfo_new_def)
    then show "\<exists>pr. open_file tgt ?contents order PerfDataFileReader_new = Some (Inl IoInvalidData, pr)"
      using reader_open_host [OF refl DataFileReader_new_simps(1), of tgt order d ?w]
      by (simp add: open_file_def PerfDataFileReader_close_def PerfDataFileReader_new_def DataFileReader_close_new)
  qed
qed

lemma empty_writer_inner: "pw_inner (create_file tgt PerfDataFileWriter_new) = DataFileWriter_new"
  by (simp add: create_file_def close_no_finalize_def PerfDataFileWriter_new_def DataFileWriter_close_def DataFileWriter_new_def)

lemma empty_contents_small: "length (file_bytes False [] (with_descs example_target DataFileWriter_new)) < 2 ^ 64"
proof -
  let ?w = "with_descs example_target DataFileWriter_new"
  have w: "dw_headers ?w = (replicate 32 [])[12 := desc_header False []]" "dw_event_descs ?w = []"
    by (simp_all add: with_descs_def DataFileWriter_new_def)
  have "(\<Sum>i \<leftarrow> [0..<32]. length (dw_headers ?w ! i)) \<le> 500"
    unfolding w by (simp add: upt_rec nth_list_update desc_header_def)
  then have "length (concat (nonempty_headers (dw_headers ?w))) \<le> 500" using nonempty_headers_length le_trans by blast
  moreover have "length (nonempty_headers (dw_headers ?w)) \<le> 32"
    using length_filter_le [of "\<lambda>h. h \<noteq> []" "map ((!) (dw_headers ?w)) [0..<32]"] by (simp add: nonempty_headers_def)
  ultimately show ?thesis using w(2) by (simp add: file_bytes_def Let_def footer_length file_header_def)
qed

theorem file_without_descs_rejected_witness:
  "\<exists>contents pw' pr. finalize_and_close example_target (create_file example_target PerfDataFileWriter_new) = Some (Inr contents, pw')
     \<and> open_file example_target contents Order_File PerfDataFileReader_new = Some (Inl IoInvalidData, pr)"
proof -
  let ?pw = "create_file example_target PerfDataFileWriter_new"
  have ok: "no_tracing_data (pw_inner ?pw)" "dw_headers (pw_inner ?pw) ! Index_EventDesc = []" "dw_event_descs (pw_inner ?pw) = []"
    by (simp_all add: empty_writer_inner no_tracing_data_def DataFileWriter_new_def)
  have inv: "file_inv example_target [] ?pw" "inner_inv (pw_inner ?pw)" using writing_inv [OF writing.created] by simp_all
  have "synthesized example_target (pw_inner ?pw) = Some (with_descs example_target (pw_inner ?pw))"
    using synthesized_descs [OF inv(2) ok(1,2)] ok(3) by simp
  then obtain pw' where "finalize_and_close example_target ?pw = Some (Inr (file_bytes False [] (with_descs example_target (pw_inner ?pw))), pw')"
    using finalize_layout [of ?pw _ _ "[]" example_target] inv(1)
    by (auto simp: file_inv_def at_end_def PerfFileHeader_default_def)
  then show ?thesis
    using file_without_descs_rejected [OF writing.created refl ok, of Order_File] empty_contents_small by (auto simp: empty_writer_inner)
qed

section \<open>No current event\<close>

text \<open>
  C38. Before the first event there is no current event to ask for. After \<open>open_file\<close>, whether it succeeded or not, \<open>current_event\<close> returns a default event
  without data in release builds, as documented, but panics in debug builds, where \<open>PerfEventBytes::new\<close> asserts that the data
  has room for a header.
\<close>

theorem no_current_event:
  assumes "open_file tgt contents order pr0 = Some (r, pr)"
  shows "current_event tgt pr =
    (if debug_assertions tgt then Panic else Some \<lparr>pb_header = PerfEventHeader_new, pb_data = []\<rparr>)"
proof -
  have "pr_current pr = EventBytesRef_default"
    using assms by (auto simp: open_file_def PerfDataFileReader_close_def Let_def split: option.split_asm sum.split_asm prod.split_asm)
  then show ?thesis
    by (simp add: current_event_def EventBytesRef_default_def PerfEventBytes_new_def debug_assert_def rust_assert_def)
qed

theorem no_current_event_witness: "\<exists>r pr. open_file example_target [] Order_File PerfDataFileReader_new = Some (r, pr) \<and> current_event example_target pr = Panic"
proof -
  have "open_file example_target [] Order_File PerfDataFileReader_new \<noteq> None"
    by (simp add: open_file_def reader_open_def read_exact_def InputFile_new_def Let_def)
  then obtain r pr where o: "open_file example_target [] Order_File PerfDataFileReader_new = Some (r, pr)" by auto
  with no_current_event [OF o] show ?thesis by simp
qed

end
