(* ===== verification/Foreign_File.thy ===== *)
theory Foreign_File
  imports File_Findings
begin

unbundle bit_operations_syntax

text \<open>
  A finished file on a machine of the other byte order. The reader knows from the magic number that it has to swap bytes, and swaps the file header, but not
  the sections that it finds in the file.
\<close>

section \<open>Swapped numbers\<close>

lemma nat_to_le_add: "nat_to_le (n + m) x = nat_to_le n x @ nat_to_le m (x div 256 ^ n)"
  by (induction n arbitrary: x) (simp_all add: div_mult2_eq)

lemma nat_to_le_zero: "nat_to_le n 0 = replicate n 0"
  by (induction n) simp_all

lemma le_to_nat_append: "le_to_nat (a @ b) = le_to_nat a + 256 ^ length a * le_to_nat b"
  by (induction a) (simp_all add: algebra_simps)

lemma le_to_nat_zeros: "le_to_nat (replicate n 0) = 0"
  by (induction n) simp_all

lemma swap_bytes_low: "v < 256 ^ 4 \<Longrightarrow> \<exists>k. swap_bytes 8 v = 256 ^ 4 * k"
proof -
  assume "v < 256 ^ 4"
  then have "nat_to_le 8 v = nat_to_le 4 v @ replicate 4 0"
    using nat_to_le_add [of 4 4 v] by (simp only: div_less nat_to_le_zero) simp
  then have "swap_bytes 8 v = 256 ^ 4 * le_to_nat (rev (nat_to_le 4 v))"
    by (simp only: swap_bytes_def rev_append rev_replicate le_to_nat_append le_to_nat_zeros length_replicate add_0)
  then show ?thesis by blast
qed

lemma swap_word_big:
  assumes "0 < n" "n < 2 ^ 32"
  shows "2 ^ 32 \<le> unat (swap_word (word_of_nat n :: u64))"
proof (rule ccontr)
  have "from_bytes True (nat_to_le 8 n) < 256 ^ 8" using from_bytes_bound [of True "nat_to_le 8 n"] by simp
  then have u: "unat (swap_word (word_of_nat n :: u64)) = swap_bytes 8 n"
    using assms(2) by (simp add: swap_word_def swap_bytes_def from_bytes_def)
  assume "\<not> 2 ^ 32 \<le> unat (swap_word (word_of_nat n :: u64))"
  then obtain k where "swap_bytes 8 (swap_bytes 8 n) = 256 ^ 4 * k" using swap_bytes_low [of "swap_bytes 8 n"] u by auto
  then have "n = 256 ^ 4 * k" using swap_bytes_involutive [of 8 n] assms(2) by simp
  with assms show False by (cases k) simp_all
qed

lemma word_at_other: "word_at be (word_bytes (\<not> be) (x :: u64) @ c) 0 = swap_word x"
  using swap_word_at [where 'a = 64, of 0 "word_bytes (\<not> be) x @ c" "\<not> be"] by simp

lemma section_other: "PerfFileSection_of_bytes be (PerfFileSection_bytes (\<not> be) s @ c) = PerfFileSection_byte_swap s"
  by (simp add: PerfFileSection_of_bytes_def PerfFileSection_bytes_def PerfFileSection_byte_swap_def word_at_other)

lemma rest_other:
  "length (fr_flags r) = 4 \<Longrightarrow> PerfFileHeaderRest_byte_swap (PerfFileHeaderRest_of_bytes be (PerfFileHeaderRest_bytes (\<not> be) r)) = r"
proof -
  assume four: "length (fr_flags r) = 4"
  have "PerfFileHeaderRest_byte_swap (PerfFileHeaderRest_of_bytes be bs) = PerfFileHeaderRest_of_bytes (\<not> be) bs" if "length bs = 88" for bs
    using that by (simp add: PerfFileHeaderRest_byte_swap_def PerfFileHeaderRest_of_bytes_def PerfFileSection_byte_swap_def
      PerfFileSection_of_bytes_def)
  from this [of "PerfFileHeaderRest_bytes (\<not> be) r"] four PerfFileHeaderRest_of_bytes_bytes [OF four, of "\<not> be" "[]"] show ?thesis by simp
qed

section \<open>Opening\<close>

lemma load_attrs_loop_foreign:
  assumes "contents = pre @ PerfEventAttr_bytes (\<not> big_endian tgt) a @ PerfFileSection_bytes (\<not> big_endian tgt) \<lparr>fs_offset = word_of_nat off, fs_size = n\<rparr> @ post"
    and "0 < off" "off < 2 ^ 31" "length contents < 2 ^ 31" "length pre < e"
  shows "\<exists>g. load_attrs_loop tgt 128 e (length pre) self (file_on contents p) = Some (Inl IoInvalidData, self, g)"
proof -
  let ?a = "PerfEventAttr_bytes (\<not> big_endian tgt) a"
    and ?s = "PerfFileSection_bytes (\<not> big_endian tgt) \<lparr>fs_offset = word_of_nat off, fs_size = n\<rparr>"
  have len: "length pre + 144 \<le> length contents" using assms(1) by simp
  have r1: "read_exact 128 (file_on contents (length pre)) = (Inr ?a, file_on contents (length pre + 128))"
    using assms(1) by (intro read_reading) simp_all
  have r2: "read_exact 16 (file_on contents (length pre + 128)) = (Inr ?s, file_on contents (length pre + 128 + 16))"
    by (rule read_reading [of _ "pre @ ?a" _ post]) (use assms(1) in simp_all)
  have "PerfFileSection_of_bytes (big_endian tgt) ?s = \<lparr>fs_offset = swap_word (word_of_nat off), fs_size = swap_word n\<rparr>"
    using section_other [of "big_endian tgt" _ "[]"] by (simp add: PerfFileSection_byte_swap_def)
  moreover have "length contents < unat (swap_word (word_of_nat off :: u64))" using swap_word_big [of off] assms(2-4) by simp
  ultimately have "\<not> section_valid (file_on contents q) (PerfFileSection_of_bytes (big_endian tgt) ?s)" for q by (simp add: section_valid_def)
  with r1 r2 len assms(5) show ?thesis by (subst load_attrs_loop.simps) simp
qed

lemma open_rest_foreign:
  assumes "contents = file_bytes (\<not> big_endian tgt) d w" "dw_event_descs w \<noteq> []" "ed_sample_ids (hd (dw_event_descs w)) \<noteq> []" "length contents < 2 ^ 31"
    and "si_byte_reader (session_info self) = SWAP_ENDIAN tgt" "f = \<lparr>in_bytes = contents, in_seek = 16, in_pos = 16, in_len = 0\<rparr>"
    and "buffers self = [] # bufs"
  shows "\<exists>g. open_rest tgt self f = Some (Inl IoInvalidData, self, g)"
proof -
  let ?be = "\<not> big_endian tgt" and ?hs = "nonempty_headers (dw_headers w)"
  obtain x ds where ds: "dw_event_descs w = x # ds" using assms(2) by (cases "dw_event_descs w") auto
  define pos where "pos = 104 + length d"
  define hd where "hd = file_header (length d) pos (header_flags (dw_headers w)) ?hs (x # ds)"
  define attrs_off where "attrs_off = pos + 16 * length ?hs + length (concat ?hs)"
  define a_size where "a_size = 144 * length (x # ds)"
  define off where "off = attrs_off + a_size"
  let ?ids = "concat (map (id_bytes ?be) (x # ds))"
  let ?pre = "PerfFileHeader_bytes ?be hd @ d @ header_sections ?be (pos + 16 * length ?hs) ?hs @ concat ?hs"
  have rest: "fh_rest hd = \<lparr>fr_attr_size = 144, fr_attrs = \<lparr>fs_offset = word_of_nat attrs_off, fs_size = word_of_nat a_size\<rparr>,
      fr_data = \<lparr>fs_offset = word_of_nat 104, fs_size = word_of_nat (length d)\<rparr>,
      fr_event_types = \<lparr>fs_offset = word_of_nat 0, fs_size = word_of_nat 0\<rparr>, fr_flags = [header_flags (dw_headers w), 0, 0, 0]\<rparr>"
    by (simp add: hd_def file_header_def attrs_off_def a_size_def)
  have c: "contents = ?pre @ attr_entries ?be off (x # ds) @ ?ids"
    using assms(1) ds by (simp add: file_bytes_def footer_bytes_def Let_def hd_def pos_def off_def attrs_off_def a_size_def)
  have pre: "length ?pre = attrs_off" by (simp add: rest attrs_off_def pos_def)
  have len: "length contents = off + length ?ids" unfolding c length_append [of ?pre] pre by (simp add: off_def a_size_def)
  have "0 < length (id_bytes ?be x)" using assms(3) ds by simp
  then have "0 < length ?ids" by (simp only: list.map concat.simps length_append)
  then have bound: "off < length contents" "length contents < 2147483648" "attrs_off < off" "104 + length d \<le> attrs_off" "a_size < 2147483648"
    using len assms(4) by (simp_all add: off_def a_size_def attrs_off_def pos_def)
  have r: "read_exact 88 (file_on contents 16) = (Inr (PerfFileHeaderRest_bytes ?be (fh_rest hd)), file_on contents (16 + 88))"
    by (rule read_reading [of _ "PerfFileHeaderPipe_bytes ?be (fh_pipe hd)" _
        "d @ header_sections ?be (pos + 16 * length ?hs) ?hs @ concat ?hs @ attr_entries ?be off (x # ds) @ ?ids"])
      (simp_all add: c PerfFileHeader_bytes_def rest)
  have swap: "PerfFileHeaderRest_byte_swap (PerfFileHeaderRest_of_bytes (big_endian tgt) (PerfFileHeaderRest_bytes ?be (fh_rest hd))) = fh_rest hd"
    by (rule rest_other) (simp add: rest)
  have valid: "section_valid (file_on contents 104) (fr_attrs (fh_rest hd))" "section_valid (file_on contents 104) (fr_data (fh_rest hd))"
      "section_valid (file_on contents 104) (fr_event_types (fh_rest hd))"
    using bound section_valid_on [of attrs_off contents a_size 104] section_valid_on [of 104 contents "length d" 104]
      section_valid_on [of 0 contents 0 104] by (cases contents; simp add: rest off_def)+
  obtain g where "load_attrs_loop tgt 128 (attrs_off + a_size) (length ?pre) self (file_on contents 104) = Some (Inl IoInvalidData, self, g)"
    using load_attrs_loop_foreign [of contents ?pre tgt "ed_attr x" off "word_of_nat (length (ed_sample_ids x) * 8)"
        "attr_entries ?be (off + length (ed_sample_ids x) * 8) ds @ ?ids" "attrs_off + a_size" self 104] c bound pre by (auto simp: off_def)
  then have l: "load_attrs_loop tgt 128 (attrs_off + a_size) attrs_off self (file_on contents 104) = Some (Inl IoInvalidData, self, g)"
    by (simp only: pre)
  have u: "update_len f = file_on contents 16" using assms(6) by (simp add: update_len_def file_on_def)
  have n: "unat (word_of_nat attrs_off :: u64) = attrs_off" "unat (word_of_nat a_size :: u64) = a_size" "attrs_off + a_size < 2 ^ 64"
    using bound by (simp_all add: off_def)
  show ?thesis
    using u r swap valid l n bound(5) assms(5,7)
    by (simp add: open_rest_def Let_def byte_swap_needed_def SWAP_ENDIAN_def rest load_attrs_def debug_assert_def rust_assert_def AttrSize_Ver0_def word_le_nat_alt)
qed

lemma swap_magic: "swap_word PERFILE2_MAGIC_HOST_ENDIAN = PERFILE2_MAGIC_SWAP_ENDIAN" "PERFILE2_MAGIC_SWAP_ENDIAN \<noteq> PERFILE2_MAGIC_HOST_ENDIAN"
  "swap_word (swap_word (104 :: u64)) = 104" "104 < unat (swap_word (104 :: u64))"
  by code_simp+

lemma reader_open_foreign:
  assumes "contents = file_bytes (\<not> big_endian tgt) d w" "buffers self = [] # bufs"
  shows "reader_open tgt order self (InputFile_new contents) =
    open_rest tgt (self\<lparr>event_order := order, session_info := PerfSessionInfo_new (SWAP_ENDIAN tgt)\<rparr>)
      \<lparr>in_bytes = contents, in_seek = 16, in_pos = 16, in_len = 0\<rparr>"
proof -
  let ?hd = "file_header (length d) (104 + length d) (header_flags (dw_headers w)) (nonempty_headers (dw_headers w)) (dw_event_descs w)"
  let ?p = "PerfFileHeaderPipe_bytes (\<not> big_endian tgt) (fh_pipe ?hd)"
  have "read_exact 16 (InputFile_new contents) = (Inr ?p, \<lparr>in_bytes = contents, in_seek = 16, in_pos = 16, in_len = 0\<rparr>)"
    using assms(1) by (simp add: file_bytes_def Let_def PerfFileHeader_bytes_def read_exact_def InputFile_new_def)
  moreover have "PerfFileHeaderPipe_of_bytes (big_endian tgt) ?p = \<lparr>fp_magic = PERFILE2_MAGIC_SWAP_ENDIAN, fp_size = swap_word 104\<rparr>"
    using word_at_other [of "big_endian tgt" 104 "[]"]
    by (simp add: PerfFileHeaderPipe_of_bytes_def PerfFileHeaderPipe_bytes_def file_header_def word_at_other swap_magic(1))
  ultimately show ?thesis
    using assms(2) swap_magic(2-4)
    by (simp add: reader_open_def Let_def from_be_def debug_assert_def rust_assert_def)
qed

text \<open>
  C36. A finished file cannot be read on a machine of the other byte order. The conditions are those under which a file is read back on a machine of
  its own byte order. \<open>open_file\<close> recognises the byte order and swaps the file header, but then reads the section of the first attribute's ids without
  swapping it, finds it outside the file, and refuses the file as invalid. Every build, every order of events and every host behaves so.
\<close>

theorem foreign_file_rejected:
  assumes "writing tgt d pw" "w = pw_inner pw" "no_tracing_data w" "dw_headers w ! Index_EventDesc = []"
    and "dw_event_descs w \<noteq> []" "\<forall>x \<in> set (dw_event_descs w). readable offs x" "big_endian host \<noteq> big_endian tgt"
  shows "\<exists>contents pw'. finalize_and_close tgt pw = Some (Inr contents, pw')
    \<and> (length contents < 2 ^ 31 \<longrightarrow> (\<exists>pr. open_file host contents order PerfDataFileReader_new = Some (Inl IoInvalidData, pr)))"
proof -
  let ?w = "with_descs tgt w"
  let ?contents = "file_bytes (big_endian tgt) d ?w"
  let ?s = "DataFileReader_new\<lparr>event_order := order, session_info := PerfSessionInfo_new (SWAP_ENDIAN host)\<rparr>"
  have be: "?contents = file_bytes (\<not> big_endian host) d ?w" using assms(7) by auto
  obtain pw' where f: "finalize_and_close tgt pw = Some (Inr ?contents, pw')" using finalized_opens(1) [OF assms(1-6)] by blast
  have "hd (dw_event_descs w) \<in> set (dw_event_descs w)" using assms(5) by simp
  then have ids: "ed_sample_ids (hd (dw_event_descs w)) \<noteq> []" using assms(6) by (simp add: readable_def)
  show ?thesis
  proof (intro exI [of _ ?contents] exI [of _ pw'] conjI f impI)
    assume len: "length ?contents < 2 ^ 31"
    obtain g where "open_rest host ?s \<lparr>in_bytes = ?contents, in_seek = 16, in_pos = 16, in_len = 0\<rparr> = Some (Inl IoInvalidData, ?s, g)"
      using open_rest_foreign [OF be _ _ len, of ?s _ "[]"] assms(5) ids
      by (auto simp: with_descs_def PerfSessionInfo_new_def DataFileReader_new_simps)
    then show "\<exists>pr. open_file host ?contents order PerfDataFileReader_new = Some (Inl IoInvalidData, pr)"
      using reader_open_foreign [OF be DataFileReader_new_simps(1), of order]
      by (simp add: open_file_def PerfDataFileReader_close_def PerfDataFileReader_new_def DataFileReader_close_new)
  qed
qed

theorem foreign_file_rejected_witness:
  "\<exists>pr. open_file \<lparr>big_endian = True, pointer64 = True, debug_assertions = False\<rparr> example_contents Order_File PerfDataFileReader_new
     = Some (Inl IoInvalidData, pr)"
  using foreign_file_rejected [OF example_writing refl example_writer_ok(1,2), of "all_offsets example_attr"
      "\<lparr>big_endian = True, pointer64 = True, debug_assertions = False\<rparr>" Order_File] example_writer_ok(3,4)
    example_finalized example_contents_small by auto

end
