(* ===== verification/Reader_Progress.thy ===== *)
theory Reader_Progress
  imports File_Reader
begin

text \<open>
  Reading comes to an end: every event that \<open>move_next_event\<close> returns uses up at least eight bytes of the file, in both orders.
\<close>

section \<open>Opening leaves the queue empty\<close>

definition queue_kept :: "bytes \<Rightarrow> DataFileReader \<Rightarrow> DataFileReader \<times> InputFile \<Rightarrow> bool" where
  "queue_kept contents s = (\<lambda>(s', f'). event_queue s' = event_queue s \<and> event_queue_consumed s' = event_queue_consumed s
     \<and> event_queue_pending_result s' = event_queue_pending_result s \<and> in_bytes f' = contents)"

lemma queue_kept_trans: "queue_kept c a (b, f) \<Longrightarrow> queue_kept c b p \<Longrightarrow> queue_kept c a p"
  by (auto simp: queue_kept_def)

lemma keeps_queue: "keeps s s' \<Longrightarrow> in_bytes f = c \<Longrightarrow> queue_kept c s (s', f)"
  by (simp add: keeps_def queue_kept_def)

lemma seek_absolute_bytes: "seek_absolute p f = (r, f') \<Longrightarrow> in_bytes f' = in_bytes f"
  by (auto simp: seek_absolute_def split: if_split_asm)

lemma read_exact_bytes: "read_exact n f = (r, f') \<Longrightarrow> in_bytes f' = in_bytes f"
  by (auto simp: read_exact_def split: if_split_asm)

lemma read_assign_vec_bytes: "read_assign_vec n f = (r, f') \<Longrightarrow> in_bytes f' = in_bytes f"
  by (auto simp: read_assign_vec_def read_append_vec_def dest: read_exact_bytes split: prod.split_asm sum.split_asm)

lemma load_attrs_loop_queue:
  "load_attrs_loop tgt n e pos self f = Some (x, p) \<Longrightarrow> queue_kept (in_bytes f) self p"
proof (induction "e - pos" arbitrary: pos self f x p rule: less_induct)
  case less
  have IH: "queue_kept (in_bytes g) s q" if "load_attrs_loop tgt n e (pos + n + 16) s g = Some (y, q)" "pos < e" for s g y q
    using less.hyps [OF _ that(1)] that(2) by simp
  show ?case
    using less.prems
    by (auto simp: load_attrs_loop.simps [of tgt n e pos self f] try_file_def Let_def queue_kept_def
        dest!: seek_absolute_bytes read_exact_bytes read_assign_vec_bytes IH
        split: if_split_asm prod.split_asm sum.split_asm Option.bind_split_asm)
qed

lemma header_loaded_queue: "header_loaded tgt i self = Some s \<Longrightarrow> keeps self s"
  by (auto simp: header_loaded_def dest: parse_header_clockid_keeps parse_header_clock_data_keeps
      parse_header_event_desc_keeps parse_tracing_data_keeps split: if_split_asm)

lemma load_headers_loop_queue:
  "load_headers_loop tgt flags is pos self f = Some (x, p) \<Longrightarrow> queue_kept (in_bytes f) self p"
proof (induction "is" arbitrary: pos self f)
  case (Cons i "is")
  from Cons.prems show ?case
    by (auto simp: try_file_def Let_def queue_kept_def keeps_def
        dest!: seek_absolute_bytes read_exact_bytes read_assign_vec_bytes header_loaded_queue Cons.IH
        split: if_split_asm prod.split_asm sum.split_asm Option.bind_split_asm)
qed (auto simp: queue_kept_def)

lemma open_rest_queue: "open_rest tgt self f = Some (x, p) \<Longrightarrow> queue_kept (in_bytes f) self p"
  by (auto simp: open_rest_def load_attrs_def load_headers_def update_len_def try_file_def try_io_def Let_def queue_kept_def
      dest!: seek_absolute_bytes read_exact_bytes load_attrs_loop_queue load_headers_loop_queue
      split: if_split_asm prod.split_asm sum.split_asm option.split_asm Option.bind_split_asm)

lemma reader_open_queue: "reader_open tgt order self f = Some (x, p) \<Longrightarrow> queue_kept (in_bytes f) self p"
  by (auto simp: reader_open_def try_file_def Let_def queue_kept_def dest!: read_exact_bytes open_rest_queue
      split: if_split_asm prod.split_asm sum.split_asm Option.bind_split_asm)

lemma open_file_queue:
  assumes "open_file tgt contents order pr0 = Some (Inr (), pr)"
  shows "\<exists>f. pr_file pr = Some f \<and> in_bytes f = contents \<and> event_queue (pr_inner pr) = [] \<and> event_queue_pending_result (pr_inner pr) = None"
  using assms
  by (auto simp: open_file_def PerfDataFileReader_close_def DataFileReader_close_def InputFile_new_def queue_kept_def Let_def
      dest!: reader_open_queue split: option.split_asm sum.split_asm prod.split_asm)

section \<open>The file is used up\<close>

definition left_over :: "InputFile \<Rightarrow> nat" where
  "left_over f = length (in_bytes f) - in_seek f"

definition work_left :: "DataFileReader \<Rightarrow> InputFile \<Rightarrow> nat" where
  "work_left s f = 8 * (length (event_queue s) - event_queue_consumed s) + left_over f"

lemma read_one_event_work:
  assumes "read_one_event tgt self f eb = Some (Inr True, eb', s', f')"
  shows "left_over f' + 8 \<le> left_over f"
  using read_one_event_advances [OF assms] by (simp add: left_over_def)

lemma read_one_event_left: "read_one_event tgt self f eb = Some (r, eb', s', f') \<Longrightarrow> left_over f' \<le> left_over f"
proof -
  assume "read_one_event tgt self f eb = Some (r, eb', s', f')"
  then have "advances f f'"
    by (auto simp: read_one_event_def Let_def dest!: read_exact_advances read_event_body_advances intro: advances_trans
        split: Option.bind_split_asm if_split_asm sum.split_asm prod.split_asm option.split_asm)
  then show ?thesis by (auto simp: advances_def left_over_def)
qed

lemma read_entry_stops: "read_entry tgt r self f = Some (Inl result, s, f') \<Longrightarrow> result \<noteq> Inr True \<and> left_over f' \<le> left_over f"
  by (auto simp: read_entry_def Let_def dest: read_one_event_left split: Option.bind_split_asm if_split_asm)

lemma read_entry_work:
  assumes "read_entry tgt r self f = Some (Inr (e, final), s, f')"
  shows "left_over f' + 8 \<le> left_over f \<and> event_queue s = event_queue self \<and> event_queue_pending_result s = event_queue_pending_result self"
  using read_entry_event [OF assms] read_one_event_work read_entry_same [OF assms] by (auto simp: same_events_def)

lemma collect_round_work:
  assumes "collect_round tgt r self f = Some (s, g)"
  shows "8 * length (event_queue s) + left_over g \<le> 8 * length (event_queue self) + left_over f
    \<and> (event_queue_pending_result s = event_queue_pending_result self \<or> event_queue_pending_result s \<noteq> Some (Inr True))"
  using assms
proof (induction rule: collect_round_induct)
  case (ended self f result s f')
  then show ?case using read_entry_stops [OF ended] read_entry_same [OF ended] by (auto simp: same_events_def)
next
  case (final self f e s f')
  then show ?case using read_entry_work [OF final] by (auto simp: push_entry_def)
next
  case (more self f e s g self' f')
  then show ?case using read_entry_work [OF more.hyps(1)] by (auto simp: push_entry_def)
qed

definition no_pending_event :: "DataFileReader \<Rightarrow> bool" where
  "no_pending_event s \<longleftrightarrow> event_queue_pending_result s \<noteq> Some (Inr True)"

lemma time_order_work:
  assumes "read_event_time_order tgt self f eb = Some (Inr True, eb', s, g)" "no_pending_event self"
  shows "work_left s g + 8 \<le> work_left self f \<and> no_pending_event s"
proof -
  have queued: "work_left s g + 8 \<le> work_left self f \<and> no_pending_event s"
    if "read_event_time_order tgt self f eb = Some (Inr True, eb', s, g)" "event_queue_consumed self < length (event_queue self)"
      "no_pending_event self" for self f
    using that by (auto simp: read_event_time_order.simps [of tgt self f] work_left_def no_pending_event_def)
  show ?thesis
  proof (cases "event_queue_consumed self < length (event_queue self)")
    case True
    with assms queued show ?thesis by blast
  next
    case False
    then have p: "event_queue_pending_result self = None"
      using assms by (auto simp: read_event_time_order.simps [of tgt self f] no_pending_event_def split: option.split_asm)
    let ?self = "self\<lparr>event_queue := [], event_queue_consumed := 0\<rparr>"
    obtain t h where c: "collect_round tgt (si_byte_reader (session_info self)) ?self f = Some (t, h)"
      and r: "read_event_time_order tgt (t\<lparr>event_queue := sort_key entry_key (event_queue t)\<rparr>) h eb = Some (Inr True, eb', s, g)"
      using assms(1) False p by (auto simp: read_event_time_order.simps [of tgt self f] split: option.split_asm)
    let ?t = "t\<lparr>event_queue := sort_key entry_key (event_queue t)\<rparr>"
    have t: "no_pending_event ?t" "event_queue_consumed t = 0"
      using collect_round_work [OF c] collect_round_leaves [OF c] p by (auto simp: no_pending_event_def)
    have "event_queue_consumed ?t < length (event_queue ?t)"
      using r t(1) collect_round_leaves [OF c] by (auto simp: read_event_time_order.simps [of tgt ?t] t(2) no_pending_event_def split: option.split_asm)
    from queued [OF r this t(1)] collect_round_work [OF c] t(2) False show ?thesis by (simp add: work_left_def)
  qed
qed

section \<open>Reading ends\<close>

text \<open>The reader after \<open>n\<close> calls of \<open>move_next_event\<close>, when all of them return an event.\<close>

fun moves :: "target \<Rightarrow> nat \<Rightarrow> PerfDataFileReader \<Rightarrow> PerfDataFileReader option" where
  "moves tgt 0 pr = Some pr"
| "moves tgt (Suc n) pr = (case move_next_event tgt pr of Some (Inr True, pr) \<Rightarrow> moves tgt n pr | _ \<Rightarrow> None)"

definition reader_work :: "PerfDataFileReader \<Rightarrow> nat" where
  "reader_work pr = (case pr_file pr of None \<Rightarrow> 0 | Some f \<Rightarrow> work_left (pr_inner pr) f)"

lemma move_next_event_work:
  assumes "move_next_event tgt pr = Some (Inr True, pr')" "no_pending_event (pr_inner pr)"
  shows "reader_work pr' + 8 \<le> reader_work pr \<and> no_pending_event (pr_inner pr')"
proof -
  obtain f g where f: "pr_file pr = Some f" "pr_file pr' = Some g"
    and r: "(if event_order (pr_inner pr) = Order_File then read_event_file_order tgt (pr_inner pr) f (pr_current pr)
             else read_event_time_order tgt (pr_inner pr) f (pr_current pr)) = Some (Inr True, pr_current pr', pr_inner pr', g)"
    using assms(1) by (auto simp: move_next_event_def split: option.split_asm Option.bind_split_asm PerfDataFileEventOrder.split_asm)
  show ?thesis
  proof (cases "event_order (pr_inner pr) = Order_File")
    case True
    with r obtain bs where o: "read_one_event tgt ((pr_inner pr)\<lparr>buffers := bs\<rparr>) f (pr_current pr) = Some (Inr True, pr_current pr', pr_inner pr', g)"
      by (auto simp: read_event_file_order_def split: Option.bind_split_asm)
    from read_one_event_work [OF o] read_one_event_same [OF o] f assms(2) show ?thesis
      by (simp add: reader_work_def work_left_def same_events_def no_pending_event_def)
  next
    case False
    with r f time_order_work [OF _ assms(2)] show ?thesis by (auto simp: reader_work_def)
  qed
qed

lemma moves_work: "moves tgt n pr = Some pr' \<Longrightarrow> no_pending_event (pr_inner pr) \<Longrightarrow> reader_work pr' + 8 * n \<le> reader_work pr"
proof (induction n arbitrary: pr)
  case (Suc n)
  then obtain pr1 where "move_next_event tgt pr = Some (Inr True, pr1)" "moves tgt n pr1 = Some pr'"
    by (auto split: option.split_asm prod.split_asm sum.split_asm bool.split_asm)
  with move_next_event_work [of tgt pr pr1] Suc.IH [of pr1] Suc.prems(2) show ?case by simp
qed simp

lemma moves_snoc: "moves tgt n pr = Some p \<Longrightarrow> move_next_event tgt p = Some (Inr True, q) \<Longrightarrow> moves tgt (Suc n) pr = Some q"
proof (induction n arbitrary: pr)
  case (Suc n)
  then obtain pr1 where "move_next_event tgt pr = Some (Inr True, pr1)" "moves tgt n pr1 = Some p"
    by (auto split: option.split_asm prod.split_asm sum.split_asm bool.split_asm)
  with Suc.IH [of pr1] Suc.prems(2) show ?case by simp
qed simp

text \<open>
  C25. Reading a file always comes to an end, whatever the file contains and in both orders: there are at most as many events as the file has groups of eight bytes. After
  some number of calls of \<open>move_next_event\<close> that return an event, the next call does not: it reports the end or an error.
\<close>

theorem reading_ends:
  assumes "open_file tgt contents order pr0 = Some (Inr (), pr)"
  shows "\<exists>n pr'. 8 * n \<le> length contents \<and> moves tgt n pr = Some pr' \<and> (\<forall>pr''. move_next_event tgt pr' \<noteq> Some (Inr True, pr''))"
proof -
  obtain f where "pr_file pr = Some f" "in_bytes f = contents" "event_queue (pr_inner pr) = []" and p: "no_pending_event (pr_inner pr)"
    using open_file_queue [OF assms] by (auto simp: no_pending_event_def)
  then have w: "reader_work pr \<le> length contents" by (simp add: reader_work_def work_left_def left_over_def)
  have bound: "8 * n \<le> length contents" if "moves tgt n pr = Some pr'" for n pr'
    using moves_work [OF that p] w by simp
  define n where "n = (GREATEST n. moves tgt n pr \<noteq> None)"
  have "moves tgt n pr \<noteq> None" unfolding n_def
    by (rule GreatestI_nat [where k = 0 and b = "length contents"]) (use bound in \<open>auto dest!: bound\<close>)
  then obtain pr' where m: "moves tgt n pr = Some pr'" by blast
  have "moves tgt (Suc n) pr = None"
  proof (rule ccontr)
    assume "moves tgt (Suc n) pr \<noteq> None"
    then have "Suc n \<le> n" unfolding n_def
      by (rule Greatest_le_nat [where b = "length contents"]) (use bound in \<open>auto dest!: bound\<close>)
    then show False by simp
  qed
  then have "\<forall>pr''. move_next_event tgt pr' \<noteq> Some (Inr True, pr'')" using moves_snoc [OF m] by fastforce
  with bound [OF m] m show ?thesis by blast
qed

theorem reading_ends_witness:
  "\<exists>pr n pr'. open_file \<lparr>big_endian = False, pointer64 = True, debug_assertions = True\<rparr>
       ([0x50, 0x45, 0x52, 0x46, 0x49, 0x4C, 0x45, 0x32] @ [16, 0, 0, 0, 0, 0, 0, 0] @ [68, 0, 0, 0, 0, 0, 8, 0]) Order_Time PerfDataFileReader_new
       = Some (Inr (), pr)
     \<and> 8 * n \<le> 24 \<and> moves \<lparr>big_endian = False, pointer64 = True, debug_assertions = True\<rparr> n pr = Some pr'"
proof -
  let ?tgt = "\<lparr>big_endian = False, pointer64 = True, debug_assertions = True\<rparr>"
  let ?c = "[0x50, 0x45, 0x52, 0x46, 0x49, 0x4C, 0x45, 0x32] @ [16, 0, 0, 0, 0, 0, 0, 0] @ [68, 0, 0, 0, 0, 0, 8, 0]"
  have "map_option fst (open_file ?tgt ?c Order_Time PerfDataFileReader_new) = Some (Inr ())" by code_simp
  then obtain pr where o: "open_file ?tgt ?c Order_Time PerfDataFileReader_new = Some (Inr (), pr)" by auto
  from reading_ends [OF o] o show ?thesis by auto
qed

end
