(* ===== verification/Guid.thy ===== *)
theory Guid
  imports Perf_Abi
begin

unbundle bit_operations_syntax

text \<open>
  \<open>eventheader_types/src/guid.rs\<close>: GUIDs as 16 bytes in big-endian order, their text, the parser, and the GUID of a provider name, made with the SHA-1 that the
  file implements. The conversion of a character to upper case is Unicode data of the standard library and a parameter (\<open>to_uppercase\<close>).
\<close>

section \<open>GUIDs\<close>

datatype Guid = Guid (guid_bytes: bytes)

definition guid_ok :: "Guid \<Rightarrow> bool" where
  "guid_ok g \<longleftrightarrow> length (guid_bytes g) = 16"

definition guid_zero :: Guid where
  "guid_zero = Guid (replicate 16 0)"

definition from_fields :: "u32 \<Rightarrow> u16 \<Rightarrow> u16 \<Rightarrow> bytes \<Rightarrow> Guid" where
  "from_fields data1 data2 data3 data4 = Guid (word_bytes True data1 @ word_bytes True data2 @ word_bytes True data3 @ data4)"

definition from_bytes_be :: "bytes \<Rightarrow> Guid" where
  "from_bytes_be b = Guid b"

definition from_bytes_le :: "bytes \<Rightarrow> Guid" where
  "from_bytes_le b = Guid (map ((!) b) [3, 2, 1, 0, 5, 4, 7, 6, 8, 9, 10, 11, 12, 13, 14, 15])"

definition from_u128 :: "128 word \<Rightarrow> Guid" where
  "from_u128 value = Guid (word_bytes True value)"

definition to_fields :: "Guid \<Rightarrow> u32 \<times> u16 \<times> u16 \<times> bytes" where
  "to_fields g = (word_at True (guid_bytes g) 0, word_at True (guid_bytes g) 4, word_at True (guid_bytes g) 6, drop 8 (guid_bytes g))"

definition to_bytes_be :: "Guid \<Rightarrow> bytes" where
  "to_bytes_be g = guid_bytes g"

definition to_bytes_le :: "Guid \<Rightarrow> bytes" where
  "to_bytes_le g = map ((!) (guid_bytes g)) [3, 2, 1, 0, 5, 4, 7, 6, 8, 9, 10, 11, 12, 13, 14, 15]"

definition to_u128 :: "Guid \<Rightarrow> 128 word" where
  "to_u128 g = word_at True (guid_bytes g) 0"

definition HEX_DIGITS :: bytes where
  "HEX_DIGITS = [0x30, 0x31, 0x32, 0x33, 0x34, 0x35, 0x36, 0x37, 0x38, 0x39, 0x61, 0x62, 0x63, 0x64, 0x65, 0x66]"

definition hex_pair :: "u8 \<Rightarrow> bytes" where
  "hex_pair b = [HEX_DIGITS ! unat (drop_bit 4 b), HEX_DIGITS ! unat (b AND 0xF)]"

definition hex_part :: "Guid \<Rightarrow> nat \<Rightarrow> nat \<Rightarrow> bytes" where
  "hex_part g i j = concat (map (\<lambda>k. hex_pair (guid_bytes g ! k)) [i..<j])"

definition to_utf8_bytes :: "Guid \<Rightarrow> bytes" where
  "to_utf8_bytes g = hex_part g 0 4 @ [0x2D] @ hex_part g 4 6 @ [0x2D] @ hex_part g 6 8 @ [0x2D] @ hex_part g 8 10 @ [0x2D] @ hex_part g 10 16"

section \<open>Parsing\<close>

record GuidParseState =
  gp_input :: bytes
  gp_pos :: nat
  gp_dash :: nat
  gp_highbits :: u32

definition hex_to_u4 :: "u8 \<Rightarrow> u32" where
  "hex_to_u4 ch =
     (let i = ch - 48 in
      if i < 10 then ucast i
      else let i = (ch OR 32) - 97 in if i < 6 then ucast (i + 10) else 256)"

definition parse_next :: "GuidParseState \<Rightarrow> (u8 \<times> GuidParseState) option" where
  "parse_next s = do {
     c1 \<leftarrow> index (gp_input s) (gp_pos s);
     c2 \<leftarrow> index (gp_input s) (gp_pos s + 1);
     let val = push_bit 4 (hex_to_u4 c1) OR hex_to_u4 c2;
     Some (ucast val, s\<lparr>gp_pos := gp_pos s + 2, gp_highbits := gp_highbits s OR val\<rparr>)
   }"

definition next_dash :: "GuidParseState \<Rightarrow> (u8 \<times> GuidParseState) option" where
  "next_dash s = parse_next (s\<lparr>gp_pos := gp_pos s + gp_dash s\<rparr>)"

fun parse_bytes :: "bool list \<Rightarrow> GuidParseState \<Rightarrow> (bytes \<times> GuidParseState) option" where
  "parse_bytes [] s = Some ([], s)"
| "parse_bytes (dash # ds) s = do {
     (b, s) \<leftarrow> (if dash then next_dash s else parse_next s);
     (bs, s) \<leftarrow> parse_bytes ds s;
     Some (b # bs, s)
   }"

text \<open>The bytes in front of which a dash may stand.\<close>

definition dash_places :: "bool list" where
  "dash_places = [False, False, False, False, True, False, True, False, True, False, True, False, False, False, False, False]"

definition try_parse_ascii :: "bytes \<Rightarrow> Guid option option" where
  "try_parse_ascii value =
     (if length value < 32 then Some None
      else do {
        first \<leftarrow> index value 0;
        final \<leftarrow> index value (length value - 1);
        inner \<leftarrow> (if first \<noteq> 0x7B \<or> final \<noteq> 0x7D then Some value else slice value 1 (length value - 1));
        c8 \<leftarrow> index inner 8;
        c13 \<leftarrow> index inner 13;
        c18 \<leftarrow> index inner 18;
        c23 \<leftarrow> index inner 23;
        let dashed = (length inner = 36 \<and> c8 = 0x2D \<and> c13 = 0x2D \<and> c18 = 0x2D \<and> c23 = 0x2D);
        (if \<not> dashed \<and> length inner \<noteq> 32 then Some None
         else do {
           (b, s) \<leftarrow> parse_bytes dash_places \<lparr>gp_input = inner, gp_pos = 0, gp_dash = if dashed then 1 else 0, gp_highbits = 0\<rparr>;
           Some (if gp_highbits s AND 0xFFFFFF00 \<noteq> 0 then None else Some (from_bytes_be b))
         })
      })"

section \<open>SHA-1\<close>

record Sha1NonSecret =
  sh_chunk :: bytes
  sh_chunk_count :: nat
  sh_chunk_pos :: nat
  sh_results :: "u32 list"

definition Sha1_new :: Sha1NonSecret where
  "Sha1_new = \<lparr>sh_chunk = replicate 64 0, sh_chunk_count = 0, sh_chunk_pos = 0,
     sh_results = [0x67452301, 0xEFCDAB89, 0x98BADCFE, 0x10325476, 0xC3D2E1F0]\<rparr>"

definition rotate_left :: "nat \<Rightarrow> u32 \<Rightarrow> u32" where
  "rotate_left n x = push_bit n x OR drop_bit (32 - n) x"

type_synonym sha_state = "u32 \<times> u32 \<times> u32 \<times> u32 \<times> u32"

text \<open>The words of a chunk and their extension to 80 words.\<close>

definition chunk_words :: "bytes \<Rightarrow> u32 list" where
  "chunk_words chunk = map (\<lambda>i. word_at True chunk (4 * i)) [0..<16]"

definition extend_words :: "u32 list \<Rightarrow> u32 list" where
  "extend_words w = foldl (\<lambda>w i. w[i := rotate_left 1 (w ! (i - 3) XOR w ! (i - 8) XOR w ! (i - 14) XOR w ! (i - 16))])
     (w @ replicate 64 0) [16..<80]"

definition sha_round :: "(u32 \<Rightarrow> u32 \<Rightarrow> u32 \<Rightarrow> u32) \<Rightarrow> u32 \<Rightarrow> u32 list \<Rightarrow> sha_state \<Rightarrow> nat \<Rightarrow> sha_state" where
  "sha_round f k w = (\<lambda>(a, b, c, d, e) i. (rotate_left 5 a + f b c d + e + k + w ! i, a, rotate_left 30 b, c, d))"

definition drain_rounds :: "u32 list \<Rightarrow> sha_state \<Rightarrow> sha_state" where
  "drain_rounds w s =
     (let s = foldl (sha_round (\<lambda>b c d. (b AND c) OR (NOT b AND d)) 0x5A827999 w) s [0..<20];
          s = foldl (sha_round (\<lambda>b c d. b XOR c XOR d) 0x6ED9EBA1 w) s [20..<40];
          s = foldl (sha_round (\<lambda>b c d. (b AND c) OR (b AND d) OR (c AND d)) 0x8F1BBCDC w) s [40..<60]
      in foldl (sha_round (\<lambda>b c d. b XOR c XOR d) 0xCA62C1D6 w) s [60..<80])"

definition sha_drain :: "bool \<Rightarrow> Sha1NonSecret \<Rightarrow> Sha1NonSecret option" where
  "sha_drain dbg h =
     (let w = extend_words (chunk_words (sh_chunk h)); r = sh_results h;
          (a, b, c, d, e) = drain_rounds w (r ! 0, r ! 1, r ! 2, r ! 3, r ! 4)
      in do {
        n \<leftarrow> uadd 32 dbg (sh_chunk_count h) 1;
        Some (h\<lparr>sh_results := [r ! 0 + a, r ! 1 + b, r ! 2 + c, r ! 3 + d, r ! 4 + e], sh_chunk_count := n\<rparr>)
      })"

definition write_u8 :: "bool \<Rightarrow> u8 \<Rightarrow> Sha1NonSecret \<Rightarrow> Sha1NonSecret option" where
  "write_u8 dbg val h = do {
     chunk \<leftarrow> store (sh_chunk h) (sh_chunk_pos h) val;
     p \<leftarrow> uadd 8 dbg (sh_chunk_pos h) 1;
     let h = h\<lparr>sh_chunk := chunk, sh_chunk_pos := p AND 63\<rparr>;
     (if sh_chunk_pos h = 0 then sha_drain dbg h else Some h)
   }"

fun sha_write :: "bool \<Rightarrow> bytes \<Rightarrow> Sha1NonSecret \<Rightarrow> Sha1NonSecret option" where
  "sha_write dbg [] h = Some h"
| "sha_write dbg (b # bs) h = do {
     h \<leftarrow> write_u8 dbg b h;
     sha_write dbg bs h
   }"

lemma and_63_less: "p AND 63 < (64 :: nat)"
  using take_bit_nat_less_exp [of 6 p] by (simp add: take_bit_eq_mask mask_eq_exp_minus_1)

lemma write_u8_pos: "write_u8 dbg v h = Some h' \<Longrightarrow> sh_chunk_pos h' < 64 \<and> (sh_chunk_pos h < 64 \<longrightarrow> sh_chunk_pos h' = (sh_chunk_pos h + 1) mod 64)"
proof -
  assume w: "write_u8 dbg v h = Some h'"
  have m: "n AND 63 = n mod 64" for n :: nat using take_bit_eq_mask [of 6 n] by (simp add: take_bit_eq_mod mask_eq_exp_minus_1)
  have d: "sha_drain b h = Some h' \<Longrightarrow> sh_chunk_pos h' = sh_chunk_pos h" for b h h'
    by (auto simp: sha_drain_def Let_def split: prod.split_asm Option.bind_split_asm)
  from w show ?thesis
    by (auto simp: write_u8_def Let_def m uadd_def dest!: d split: Option.bind_split_asm if_split_asm)
qed

function zero_fill :: "bool \<Rightarrow> Sha1NonSecret \<Rightarrow> Sha1NonSecret option" where
  "zero_fill dbg h =
     (if sh_chunk_pos h \<noteq> 56 then (case write_u8 dbg 0 h of None \<Rightarrow> None | Some h \<Rightarrow> zero_fill dbg h) else Some h)"
  by pat_completeness auto
termination
proof (relation "measure (\<lambda>(dbg, h). if sh_chunk_pos h \<le> 56 then 56 - sh_chunk_pos h else if sh_chunk_pos h < 64 then 120 - sh_chunk_pos h else 200)", goal_cases)
  case (2 dbg h h')
  then show ?case using write_u8_pos [OF 2(2)] by (cases "sh_chunk_pos h = 63"; cases "sh_chunk_pos h < 64") auto
qed simp

declare zero_fill.simps [simp del]

definition sha_finish :: "bool \<Rightarrow> Sha1NonSecret \<Rightarrow> bytes option" where
  "sha_finish dbg h = do {
     let total_bit_count = sh_chunk_count h * 512 + sh_chunk_pos h * 8;
     h \<leftarrow> write_u8 dbg 0x80 h;
     h \<leftarrow> zero_fill dbg h;
     h \<leftarrow> sha_write dbg (word_bytes True (word_of_nat total_bit_count :: u64)) h;
     debug_assert dbg (sh_chunk_pos h = 0);
     Some (concat (map (word_bytes True) (sh_results h)))
   }"

section \<open>The GUID of a name\<close>

definition NAMESPACE_BYTES :: bytes where
  "NAMESPACE_BYTES = [0x48, 0x2C, 0x2D, 0xB2, 0xC3, 0x90, 0x47, 0xC8, 0x87, 0xF8, 0x1A, 0x15, 0xBF, 0xC1, 0x30, 0xFB]"

text \<open>A character in UTF-16, big-endian: one unit, or a pair of surrogates.\<close>

definition encode_utf16_be :: "nat \<Rightarrow> bytes" where
  "encode_utf16_be c =
     (if c < 0x10000 then word_bytes True (word_of_nat c :: u16)
      else word_bytes True (word_of_nat (0xD800 + (c - 0x10000) div 0x400) :: u16)
           @ word_bytes True (word_of_nat (0xDC00 + (c - 0x10000) mod 0x400) :: u16))"

text \<open>The characters of the name are given as their code points.\<close>

definition from_name :: "(nat \<Rightarrow> nat list) \<Rightarrow> bool \<Rightarrow> nat list \<Rightarrow> Guid option" where
  "from_name to_uppercase dbg event_provider_name = do {
     h \<leftarrow> sha_write dbg NAMESPACE_BYTES Sha1_new;
     h \<leftarrow> sha_write dbg (concat (map encode_utf16_be (concat (map to_uppercase event_provider_name)))) h;
     v \<leftarrow> sha_finish dbg h;
     let v = v[7 := (v ! 7 AND 0x0F) OR 0x50];
     b \<leftarrow> slice v 0 16;
     Some (from_bytes_le b)
   }"

end
