(* ===== verification/Guid_Text.thy ===== *)
theory Guid_Text
  imports Guid
begin

unbundle bit_operations_syntax

text \<open>
  The text of GUIDs: what \<open>try_parse_ascii\<close> accepts, as a grammar (32 hexadecimal digits, optional dashes, optional braces), and that it reads back what
  \<open>to_utf8_bytes\<close> writes.
\<close>

section \<open>The accepted text\<close>

definition hex_value :: "u8 \<Rightarrow> u8 option" where
  "hex_value c =
     (if 0x30 \<le> c \<and> c \<le> 0x39 then Some (c - 0x30)
      else if 0x61 \<le> c \<and> c \<le> 0x66 then Some (c - 0x61 + 10)
      else if 0x41 \<le> c \<and> c \<le> 0x46 then Some (c - 0x41 + 10)
      else None)"

fun hex_pairs :: "bytes \<Rightarrow> bytes option" where
  "hex_pairs [] = Some []"
| "hex_pairs [x] = None"
| "hex_pairs (x # y # r) = do {
     a \<leftarrow> hex_value x;
     b \<leftarrow> hex_value y;
     bs \<leftarrow> hex_pairs r;
     Some ((a * 16 + b) # bs)
   }"

definition strip_braces :: "bytes \<Rightarrow> bytes" where
  "strip_braces t = (if 2 \<le> length t \<and> hd t = 0x7B \<and> last t = 0x7D then butlast (tl t) else t)"

definition has_dashes :: "bytes \<Rightarrow> bool" where
  "has_dashes t \<longleftrightarrow> length t = 36 \<and> t ! 8 = 0x2D \<and> t ! 13 = 0x2D \<and> t ! 18 = 0x2D \<and> t ! 23 = 0x2D"

definition strip_dashes :: "bytes \<Rightarrow> bytes" where
  "strip_dashes t =
     (if has_dashes t
      then take 8 t @ take 4 (drop 9 t) @ take 4 (drop 14 t) @ take 4 (drop 19 t) @ drop 24 t else t)"

definition guid_text :: "bytes \<Rightarrow> Guid option" where
  "guid_text t =
     (let digits = strip_dashes (strip_braces t)
      in if length digits = 32 then map_option Guid (hex_pairs digits) else None)"

section \<open>The digits\<close>

lemma or_32: "unat (c OR 32 :: u8) = (if odd (unat c div 32) then unat c else unat c + 32)"
proof -
  have "c OR 32 = c + of_bool (\<not> bit c 5) * 32" using set_bit_eq [of 5 c] by (simp add: set_bit_eq_or push_bit_eq_mult)
  moreover have b: "bit c 5 \<longleftrightarrow> odd (unat c div 32)" using bit_unsigned_iff [of c 5, where ?'a = nat] by (simp add: bit_iff_odd)
  moreover have "unat c + 32 < 256" if "even (unat c div 32)"
  proof -
    have "unat c < 256" using unsigned_less [of c, where ?'a = nat] by simp
    with that show ?thesis by presburger
  qed
  moreover have "unat c < 256" using unsigned_less [of c, where ?'a = nat] by simp
  ultimately show ?thesis by (auto simp: unat_word_ariths)
qed

lemma hex_to_u4_value: "hex_to_u4 c = (case hex_value c of None \<Rightarrow> 256 | Some v \<Rightarrow> ucast v)"
proof -
  define u where "u = unat c"
  have u: "u < 256" using unsigned_less [of c, where ?'a = nat] by (simp add: u_def)
  have upper: "even (u div 32)" if "65 \<le> u" "u \<le> 70" using that by presburger
  have lower: "odd (u div 32)" if "97 \<le> u" "u \<le> 102" using that by presburger
  have d: "c - 48 < 10 \<longleftrightarrow> 48 \<le> u \<and> u \<le> 57" using u by (auto simp: word_less_nat_alt unat_sub_if_size word_size u_def)
  have l: "(c OR 32) - 97 < 6 \<longleftrightarrow> 97 \<le> u \<and> u \<le> 102 \<or> 65 \<le> u \<and> u \<le> 70"
    using u upper lower by (auto simp: word_less_nat_alt unat_sub_if_size word_size or_32 simp flip: u_def)
  have "c OR 32 = c" if "97 \<le> u" "u \<le> 102"
    by (rule word_unat_eq_iff [THEN iffD2]) (use lower [OF that] in \<open>simp add: or_32 flip: u_def\<close>)
  moreover have "c OR 32 = c + 32" if "65 \<le> u" "u \<le> 70"
    by (rule word_unat_eq_iff [THEN iffD2]) (use upper [OF that] that in \<open>simp add: or_32 unat_word_ariths flip: u_def\<close>)
  moreover have "0x30 \<le> c \<longleftrightarrow> 48 \<le> u" "c \<le> 0x39 \<longleftrightarrow> u \<le> 57" "0x61 \<le> c \<longleftrightarrow> 97 \<le> u" "c \<le> 0x66 \<longleftrightarrow> u \<le> 102" "0x41 \<le> c \<longleftrightarrow> 65 \<le> u" "c \<le> 0x46 \<longleftrightarrow> u \<le> 70"
    by (simp_all add: word_le_nat_alt u_def)
  ultimately show ?thesis unfolding hex_to_u4_def Let_def d l hex_value_def by (auto simp: algebra_simps)
qed

lemma hex_value_less: "hex_value c = Some v \<Longrightarrow> v < 16"
  by (auto simp: hex_value_def word_less_nat_alt word_le_nat_alt unat_sub unat_word_ariths split: if_split_asm)

lemma hex_value_digit: "n < 16 \<Longrightarrow> hex_value (HEX_DIGITS ! n) = Some (word_of_nat n)"
proof -
  have "list_all (\<lambda>n. hex_value (HEX_DIGITS ! n) = Some (word_of_nat n)) [0..<16]"
    by (simp add: upt_rec HEX_DIGITS_def hex_value_def)
  then show "n < 16 \<Longrightarrow> ?thesis" unfolding list_all_iff set_upt by (auto simp del: upt_rec_numeral)
qed

lemma small_bits: "v < 16 \<Longrightarrow> bit v n \<Longrightarrow> n < 4" for v :: u8
proof (rule ccontr)
  assume v: "v < 16" "bit v n" and "\<not> n < 4"
  then have "(2 :: nat) ^ 4 \<le> 2 ^ n" by (intro power_increasing) auto
  with v(1) have "unat v div 2 ^ n = 0" by (simp add: word_less_nat_alt)
  with v(2) show False using bit_unsigned_iff [of v n, where ?'a = nat] by (simp add: bit_iff_odd [of "unat v"])
qed

lemma nibbles_or: "a < 16 \<Longrightarrow> b < 16 \<Longrightarrow> a * 16 + b = push_bit 4 a OR (b :: u8)"
proof -
  assume "b < 16"
  then have "push_bit 4 a + b = push_bit 4 a OR b" using small_bits [of b] by (intro disjunctive_add) (fastforce simp: bit_push_bit_iff)
  then show ?thesis by (simp add: push_bit_eq_mult)
qed

lemma low_nibble: "b AND 15 = take_bit 4 (b :: u8)"
  by (simp add: take_bit_eq_mask mask_eq_exp_minus_1)

lemma nibble_less: "unat (drop_bit 4 b) < 16" "unat (b AND 15) < 16" for b :: u8
proof -
  have "unat b < 256" using unsigned_less [of b, where ?'a = nat] by simp
  then show "unat (drop_bit 4 b) < 16" "unat (b AND 15) < 16"
    using take_bit_nat_less_exp [of 4 "unat b"] unfolding low_nibble
    by (simp_all add: unsigned_drop_bit_eq unsigned_take_bit_eq drop_bit_eq_div unat_div less_mult_imp_div_less)
qed

lemma hex_pair_value: "hex_pairs (hex_pair b @ t) = map_option ((#) b) (hex_pairs t)"
proof -
  have "drop_bit 4 b * 16 + (b AND 15) = b" using bits_ident [of 4 b] unfolding low_nibble by (simp add: push_bit_eq_mult)
  then show ?thesis by (cases "hex_pairs t") (simp_all add: hex_pair_def hex_value_digit nibble_less)
qed

text \<open>One byte of the parser: the bits above the byte tell whether both characters are digits.\<close>

definition pair_bits :: "u8 \<Rightarrow> u8 \<Rightarrow> u32" where
  "pair_bits x y = push_bit 4 (hex_to_u4 x) OR hex_to_u4 y"

lemma high_bits: "(0xFFFFFF00 :: u32) = NOT (mask 8)"
  by (simp add: mask_eq_exp_minus_1)

lemma high_or: "(x OR y) AND 0xFFFFFF00 = 0 \<longleftrightarrow> x AND 0xFFFFFF00 = 0 \<and> y AND 0xFFFFFF00 = (0 :: u32)"
  by (auto simp: bit_eq_iff bit_and_iff bit_or_iff)

lemma pair_bits_some:
  assumes "hex_value x = Some a" "hex_value y = Some b"
  shows "pair_bits x y AND 0xFFFFFF00 = 0" "ucast (pair_bits x y) = a * 16 + b"
proof -
  have ab: "a < 16" "b < 16" using assms by (auto intro: hex_value_less)
  have v: "pair_bits x y = push_bit 4 (ucast a) OR ucast b" using assms by (simp add: pair_bits_def hex_to_u4_value)
  show "pair_bits x y AND 0xFFFFFF00 = 0"
    unfolding v high_bits by (rule bit_word_eqI) (use small_bits [OF ab(1)] small_bits [OF ab(2)] in
      \<open>fastforce simp: bit_and_iff bit_or_iff bit_push_bit_iff bit_unsigned_iff bit_not_iff bit_mask_iff\<close>)
  show "ucast (pair_bits x y) = a * 16 + b"
    unfolding v nibbles_or [OF ab] by (rule bit_word_eqI) (auto simp: bit_or_iff bit_push_bit_iff bit_unsigned_iff)
qed

lemma pair_bits_none:
  assumes "hex_value x = None \<or> hex_value y = None"
  shows "pair_bits x y AND 0xFFFFFF00 \<noteq> 0"
  using assms by (auto simp: pair_bits_def hex_to_u4_value high_or simp del: bit_push_bit_iff)

section \<open>The parser\<close>

lemma parse_next_pair:
  "gp_pos s + 1 < length (gp_input s) \<Longrightarrow>
     parse_next s = (let v = pair_bits (gp_input s ! gp_pos s) (gp_input s ! (gp_pos s + 1))
       in Some (ucast v, s\<lparr>gp_pos := gp_pos s + 2, gp_highbits := gp_highbits s OR v\<rparr>))"
  by (simp add: parse_next_def pair_bits_def Let_def)

text \<open>The characters that the parser reads as digits.\<close>

fun gather :: "nat \<Rightarrow> bool list \<Rightarrow> bytes \<Rightarrow> bytes" where
  "gather d [] t = []"
| "gather d (dash # ds) t = (let t = drop (if dash then d else 0) t in take 2 t @ gather d ds (drop 2 t))"

definition reach :: "nat \<Rightarrow> bool list \<Rightarrow> nat" where
  "reach d ds = sum_list (map (\<lambda>dash. (if dash then d else 0) + 2) ds)"

definition digits_read :: "GuidParseState \<Rightarrow> bytes \<Rightarrow> bytes \<Rightarrow> GuidParseState \<Rightarrow> bool" where
  "digits_read s digits b s' \<longleftrightarrow>
     (if gp_highbits s AND 0xFFFFFF00 = 0 \<and> hex_pairs digits \<noteq> None
      then gp_highbits s' AND 0xFFFFFF00 = 0 \<and> hex_pairs digits = Some b
      else gp_highbits s' AND 0xFFFFFF00 \<noteq> 0)"

lemma parse_step:
  assumes "gp_pos s + 1 < length (gp_input s)"
  shows "\<exists>x y v. parse_next s = Some (v, s\<lparr>gp_pos := gp_pos s + 2, gp_highbits := gp_highbits s OR pair_bits x y\<rparr>)
    \<and> take 2 (drop (gp_pos s) (gp_input s)) = [x, y] \<and> v = ucast (pair_bits x y)"
proof -
  have "drop (gp_pos s) (gp_input s) = gp_input s ! gp_pos s # gp_input s ! (gp_pos s + 1) # drop (gp_pos s + 2) (gp_input s)"
    using assms by (simp add: Cons_nth_drop_Suc)
  then show ?thesis using parse_next_pair [OF assms] by (simp add: Let_def)
qed

lemma digits_read_step:
  assumes "digits_read (s\<lparr>gp_pos := p, gp_highbits := gp_highbits s OR pair_bits x y\<rparr>) t b s'"
  shows "digits_read s ([x, y] @ t) (ucast (pair_bits x y) # b) s'"
  using assms pair_bits_some [of x _ y] pair_bits_none [of x y]
  by (cases "hex_value x"; cases "hex_value y"; cases "hex_pairs t") (auto simp: digits_read_def high_or split: if_split_asm)

lemma parse_bytes_gather:
  "gp_pos s + reach (gp_dash s) ds \<le> length (gp_input s) \<Longrightarrow>
     \<exists>b s'. parse_bytes ds s = Some (b, s') \<and> digits_read s (gather (gp_dash s) ds (drop (gp_pos s) (gp_input s))) b s'"
proof (induction ds arbitrary: s)
  case Nil
  then show ?case by (simp add: digits_read_def)
next
  case (Cons dash ds)
  define s1 where "s1 = s\<lparr>gp_pos := gp_pos s + (if dash then gp_dash s else 0)\<rparr>"
  have "gp_pos s1 + 1 < length (gp_input s1)" using Cons.prems by (auto simp: s1_def reach_def)
  then obtain x y v where n: "parse_next s1 = Some (v, s1\<lparr>gp_pos := gp_pos s1 + 2, gp_highbits := gp_highbits s1 OR pair_bits x y\<rparr>)"
      and t: "take 2 (drop (gp_pos s1) (gp_input s1)) = [x, y]" and v: "v = ucast (pair_bits x y)"
    using parse_step by blast
  let ?s2 = "s1\<lparr>gp_pos := gp_pos s1 + 2, gp_highbits := gp_highbits s1 OR pair_bits x y\<rparr>"
  obtain b s' where r: "parse_bytes ds ?s2 = Some (b, s')" "digits_read ?s2 (gather (gp_dash s) ds (drop (gp_pos s1 + 2) (gp_input s))) b s'"
    using Cons.IH [of ?s2] Cons.prems by (auto simp: s1_def reach_def split: if_split_asm)
  have "(if dash then next_dash s else parse_next s) = parse_next s1" by (simp add: next_dash_def s1_def)
  then have "parse_bytes (dash # ds) s = Some (v # b, s')" using n r(1) by simp
  moreover have "gather (gp_dash s) (dash # ds) (drop (gp_pos s) (gp_input s)) = [x, y] @ gather (gp_dash s) ds (drop (gp_pos s1 + 2) (gp_input s))"
    using t by (simp add: s1_def Let_def add.commute add.left_commute)
  moreover have "digits_read s1 d b' s' = digits_read s d b' s'" for d b' by (simp add: digits_read_def s1_def)
  ultimately show ?case using digits_read_step [OF r(2)] v by simp
qed

lemma gather_append: "gather d (xs @ ys) t = gather d xs t @ gather d ys (drop (reach d xs) t)"
  by (induction xs arbitrary: t) (simp_all add: reach_def Let_def ac_simps)

lemma gather_plain: "gather d (replicate n False) t = take (2 * n) t"
proof (induction n arbitrary: t)
  case (Suc n)
  then show ?case using take_add [of 2 "2 * n" t] by simp
qed simp

lemma gather_dash: "gather d (True # replicate n False) t = take (2 * n + 2) (drop d t)"
  using take_add [of 2 "2 * n" "drop d t"] by (simp add: gather_plain)

lemma gather_no_dash: "gather 0 ds t = take (2 * length ds) t"
proof (induction ds arbitrary: t)
  case (Cons dash ds)
  then show ?case using take_add [of 2 "2 * length ds" t] by simp
qed simp

lemma gather_dashless: "length t = 32 \<Longrightarrow> gather 0 dash_places t = t"
proof -
  have "length dash_places = 16" by (simp add: dash_places_def)
  then show "length t = 32 \<Longrightarrow> ?thesis" by (simp add: gather_no_dash)
qed

lemma gather_dashes:
  assumes "length t = 36"
  shows "gather 1 dash_places t = take 8 t @ take 4 (drop 9 t) @ take 4 (drop 14 t) @ take 4 (drop 19 t) @ drop 24 t"
proof -
  let ?g = "True # replicate 1 False"
  have split: "dash_places = replicate 4 False @ ?g @ ?g @ ?g @ True # replicate 5 False" by (simp add: dash_places_def numeral_eq_Suc)
  have "reach 1 (replicate 4 False) = 8" "reach 1 ?g = 5" by (simp_all add: reach_def numeral_eq_Suc)
  then show ?thesis
    unfolding split gather_append gather_dash gather_plain using assms by simp
qed

section \<open>What is accepted\<close>

lemma strip_braces_slice:
  assumes "32 \<le> length t"
  shows "(do { first \<leftarrow> index t 0; final \<leftarrow> index t (length t - 1); (if first \<noteq> 0x7B \<or> final \<noteq> 0x7D then Some t else slice t 1 (length t - 1)) }) = Some (strip_braces t)"
    and "30 \<le> length (strip_braces t)"
proof -
  have "t \<noteq> []" using assms by auto
  then have "hd t = t ! 0" "last t = t ! (length t - 1)" by (simp_all add: hd_conv_nth last_conv_nth)
  moreover have "butlast (tl t) = take (length t - 1 - 1) (drop 1 t)" by (simp add: butlast_conv_take drop_Suc)
  ultimately show "(do { first \<leftarrow> index t 0; final \<leftarrow> index t (length t - 1); (if first \<noteq> 0x7B \<or> final \<noteq> 0x7D then Some t else slice t 1 (length t - 1)) }) = Some (strip_braces t)"
    using assms by (auto simp: strip_braces_def slice_def index_def)
qed (use assms in \<open>auto simp: strip_braces_def\<close>)

lemma strip_dashes_length: "length (strip_dashes t) = (if has_dashes t then 32 else length t)"
  by (simp add: strip_dashes_def has_dashes_def)

lemma strip_braces_le: "length (strip_braces t) \<le> length t"
  by (simp add: strip_braces_def)

lemma try_parse_inner:
  assumes "dashed \<longleftrightarrow> has_dashes t" "dashed \<or> length t = 32"
  shows "\<exists>b s. parse_bytes dash_places \<lparr>gp_input = t, gp_pos = 0, gp_dash = if dashed then 1 else 0, gp_highbits = 0\<rparr> = Some (b, s)
    \<and> (if gp_highbits s AND 0xFFFFFF00 \<noteq> 0 then None else Some (from_bytes_be b)) = map_option Guid (hex_pairs (strip_dashes t))"
proof -
  let ?s = "\<lparr>gp_input = t, gp_pos = 0, gp_dash = if dashed then 1 else 0, gp_highbits = 0\<rparr>"
  have r: "reach (if dashed then 1 else 0) dash_places = (if dashed then 36 else 32)" by (simp add: reach_def dash_places_def)
  have l: "length t = (if dashed then 36 else 32)" using assms by (auto simp: has_dashes_def)
  have g: "gather (if dashed then 1 else 0) dash_places t = strip_dashes t"
    using assms l by (cases dashed) (simp_all add: gather_dashless gather_dashes [unfolded One_nat_def] strip_dashes_def)
  obtain b s where p: "parse_bytes dash_places ?s = Some (b, s)" "digits_read ?s (strip_dashes t) b s"
    using parse_bytes_gather [of ?s dash_places] r l g by auto
  then show ?thesis by (cases "hex_pairs (strip_dashes t)") (auto simp: digits_read_def from_bytes_be_def)
qed

lemma try_parse_ascii_text: "try_parse_ascii t = Some (guid_text t)"
proof (cases "length t < 32")
  case True
  then have "length (strip_braces t) < 32" using strip_braces_le [of t] by linarith
  then have "length (strip_dashes (strip_braces t)) \<noteq> 32" by (simp add: strip_dashes_length has_dashes_def)
  with True show ?thesis by (simp add: try_parse_ascii_def guid_text_def)
next
  case False
  then have t: "32 \<le> length t" by simp
  define u where "u = strip_braces t"
  have "30 \<le> length u" using strip_braces_slice(2) [OF t] by (simp add: u_def)
  then have i: "index u 8 = Some (u ! 8)" "index u 13 = Some (u ! 13)" "index u 18 = Some (u ! 18)" "index u 23 = Some (u ! 23)" by (simp_all add: index_def)
  have "try_parse_ascii t = (if \<not> has_dashes u \<and> length u \<noteq> 32 then Some None else do {
       (b, s) \<leftarrow> parse_bytes dash_places \<lparr>gp_input = u, gp_pos = 0, gp_dash = if has_dashes u then 1 else 0, gp_highbits = 0\<rparr>;
       Some (if gp_highbits s AND 0xFFFFFF00 \<noteq> 0 then None else Some (from_bytes_be b)) })"
    using strip_braces_slice(1) [OF t] False i unfolding try_parse_ascii_def has_dashes_def u_def
    by (auto simp: Let_def split: Option.bind_split_asm)
  then show ?thesis using try_parse_inner [OF refl, of u] by (auto simp: guid_text_def strip_dashes_length simp flip: u_def split: if_split_asm)
qed

text \<open>What \<open>to_utf8_bytes\<close> writes is accepted, with braces and without dashes too.\<close>

lemma hex_part_length: "length (hex_part g i j) = 2 * (j - i)"
  by (simp add: hex_part_def length_concat hex_pair_def comp_def sum_list_triv)

lemma hex_part_append: "i \<le> j \<Longrightarrow> j \<le> k \<Longrightarrow> hex_part g i j @ hex_part g j k = hex_part g i k"
  unfolding hex_part_def by (metis concat_append le_Suc_ex map_append upt_add_eq_append)

lemma hex_pairs_concat: "hex_pairs (concat (map hex_pair bs)) = Some bs"
  by (induction bs) (simp_all add: hex_pair_value)

lemma hex_pairs_part: "guid_ok g \<Longrightarrow> map_option Guid (hex_pairs (hex_part g 0 16)) = Some g"
proof -
  have p: "map (\<lambda>k. hex_pair (guid_bytes g ! k)) [0..<n] = map hex_pair (guid_bytes g)" if "length (guid_bytes g) = n" for n
    using that by (intro nth_equalityI) simp_all
  assume "guid_ok g"
  then show ?thesis unfolding guid_ok_def by (simp only: hex_part_def p hex_pairs_concat) simp
qed

lemma strip_dashes_text: "strip_dashes (to_utf8_bytes g) = hex_part g 0 16"
  by (simp add: strip_dashes_def has_dashes_def to_utf8_bytes_def hex_part_length nth_append hex_part_append)

lemma strip_dashes_digits: "strip_dashes (hex_part g 0 16) = hex_part g 0 16"
  by (simp add: strip_dashes_def has_dashes_def hex_part_length)

lemma strip_braces_plain: "hd t \<noteq> 0x7B \<Longrightarrow> strip_braces t = t"
  by (simp add: strip_braces_def)

lemma hex_part_hd: "i < j \<Longrightarrow> hd (hex_part g i j @ t) \<noteq> 0x7B"
proof -
  have "hex_value (HEX_DIGITS ! n) \<noteq> None" if "n < 16" for n using hex_value_digit [OF that] by simp
  moreover have "hex_value 0x7B = None" by (simp add: hex_value_def)
  ultimately have "HEX_DIGITS ! unat (drop_bit 4 b) \<noteq> 0x7B" for b :: u8 using nibble_less(1) by metis
  then show "i < j \<Longrightarrow> ?thesis" by (simp add: hex_part_def upt_conv_Cons hex_pair_def)
qed

definition guid_notations :: "Guid \<Rightarrow> bytes list" where
  "guid_notations g = [to_utf8_bytes g, hex_part g 0 16, [0x7B] @ to_utf8_bytes g @ [0x7D], [0x7B] @ hex_part g 0 16 @ [0x7D]]"

lemma notation_read:
  assumes "guid_ok g" "t \<in> set (guid_notations g)"
  shows "guid_text t = Some g"
proof -
  have "strip_braces (to_utf8_bytes g) = to_utf8_bytes g" "strip_braces (hex_part g 0 16) = hex_part g 0 16"
    using hex_part_hd [of 0 4 g] hex_part_hd [of 0 16 g "[]"] by (auto simp: to_utf8_bytes_def intro!: strip_braces_plain)
  moreover have "strip_braces ([0x7B] @ u @ [0x7D]) = u" for u by (simp add: strip_braces_def)
  ultimately have "strip_dashes (strip_braces t) = hex_part g 0 16"
    using assms(2) by (auto simp: guid_notations_def strip_dashes_text strip_dashes_digits simp del: append.simps)
  then show ?thesis using hex_pairs_part [OF assms(1)] by (simp add: guid_text_def hex_part_length)
qed

text \<open>The other forms of a GUID: field values, bytes in little-endian order, a 128-bit number.\<close>

lemma from_bytes_le_to: "length b = 16 \<Longrightarrow> to_bytes_le (from_bytes_le b) = b"
  by (auto simp: to_bytes_le_def from_bytes_le_def numeral_eq_Suc length_Suc_conv)

lemma to_bytes_le_from: "guid_ok g \<Longrightarrow> from_bytes_le (to_bytes_le g) = g"
  by (cases g) (auto simp: guid_ok_def to_bytes_le_def from_bytes_le_def numeral_eq_Suc length_Suc_conv)

lemma from_fields_to: "to_fields (from_fields a b c d) = (a, b, c, d)"
  by (simp add: to_fields_def from_fields_def)

lemma from_u128_to: "to_u128 (from_u128 v) = v"
  using word_at_bytes [of 0 "[]" True v "[]"] by (simp add: to_u128_def from_u128_def)

text \<open>
  C23. \<open>try_parse_ascii\<close> accepts exactly the texts of GUIDs and never panics: after removing the braces, if both are there, and the four dashes, if the
  text then has 36 characters and all of them are in their places, 32 characters must be left, all of them hexadecimal digits of either case; the
  result is the bytes that they spell. What \<open>to_utf8_bytes\<close> writes is read back, with braces and without dashes too, and
  the other forms of a GUID convert back.
\<close>

theorem guid_parse_print:
  "try_parse_ascii t = Some (guid_text t)
    \<and> (guid_ok g \<longrightarrow> (\<forall>u \<in> set (guid_notations g). try_parse_ascii u = Some (Some g)) \<and> from_bytes_le (to_bytes_le g) = g)
    \<and> to_fields (from_fields a b c d) = (a, b, c, d) \<and> to_u128 (from_u128 v) = v"
  using notation_read to_bytes_le_from by (auto simp: try_parse_ascii_text from_fields_to from_u128_to)

definition sample_guid :: Guid where
  "sample_guid = Guid [0xA3, 0xA2, 0xA1, 0xA0, 0xB1, 0xB0, 0xC1, 0xC0, 0xD7, 0xD6, 0xD5, 0xD4, 0xD3, 0xD2, 0xD1, 0xD0]"

theorem guid_parse_print_witness:
  "try_parse_ascii [0x7B, 0x61, 0x33, 0x61, 0x32, 0x61, 0x31, 0x61, 0x30, 0x2D, 0x62, 0x31, 0x62, 0x30, 0x2D, 0x63, 0x31, 0x63, 0x30, 0x2D,
     0x64, 0x37, 0x64, 0x36, 0x2D, 0x64, 0x35, 0x64, 0x34, 0x64, 0x33, 0x64, 0x32, 0x64, 0x31, 0x64, 0x30, 0x7D] = Some (Some sample_guid)"
proof -
  have "guid_ok sample_guid" by (simp add: sample_guid_def guid_ok_def)
  then have "try_parse_ascii ([0x7B] @ to_utf8_bytes sample_guid @ [0x7D]) = Some (Some sample_guid)"
    using guid_parse_print [of "[]" sample_guid] by (simp add: guid_notations_def)
  moreover have "to_utf8_bytes sample_guid = [0x61, 0x33, 0x61, 0x32, 0x61, 0x31, 0x61, 0x30, 0x2D, 0x62, 0x31, 0x62, 0x30, 0x2D, 0x63, 0x31, 0x63, 0x30, 0x2D,
     0x64, 0x37, 0x64, 0x36, 0x2D, 0x64, 0x35, 0x64, 0x34, 0x64, 0x33, 0x64, 0x32, 0x64, 0x31, 0x64, 0x30]"
    by code_simp
  ultimately show ?thesis by simp
qed

end
