(* ===== verification/Guid_Spec.thy ===== *)
theory Guid_Spec
  imports Guid_Text Perf_Attrs
begin

unbundle bit_operations_syntax

text \<open>
  SHA-1 as FIPS 180 defines it, and that the hasher of \<open>guid.rs\<close> computes it; the GUID of a name.
\<close>

section \<open>SHA-1 as specified\<close>

fun sched :: "bytes \<Rightarrow> nat \<Rightarrow> u32" where
  "sched block t =
     (if t < 16 then word_at True block (4 * t)
      else word_rotl 1 (sched block (t - 3) XOR sched block (t - 8) XOR sched block (t - 14) XOR sched block (t - 16)))"

declare sched.simps [simp del]

definition sha_f :: "nat \<Rightarrow> u32 \<Rightarrow> u32 \<Rightarrow> u32 \<Rightarrow> u32" where
  "sha_f t x y z =
     (if t < 20 then (x AND y) XOR (NOT x AND z)
      else if t < 40 then x XOR y XOR z
      else if t < 60 then (x AND y) XOR (x AND z) XOR (y AND z)
      else x XOR y XOR z)"

definition sha_k :: "nat \<Rightarrow> u32" where
  "sha_k t = (if t < 20 then 0x5A827999 else if t < 40 then 0x6ED9EBA1 else if t < 60 then 0x8F1BBCDC else 0xCA62C1D6)"

definition fips_round :: "bytes \<Rightarrow> sha_state \<Rightarrow> nat \<Rightarrow> sha_state" where
  "fips_round block = (\<lambda>(a, b, c, d, e) t. (word_rotl 5 a + sha_f t b c d + e + sha_k t + sched block t, a, word_rotl 30 b, c, d))"

definition compress :: "u32 list \<Rightarrow> bytes \<Rightarrow> u32 list" where
  "compress h block =
     (let (a, b, c, d, e) = foldl (fips_round block) (h ! 0, h ! 1, h ! 2, h ! 3, h ! 4) [0..<80]
      in [h ! 0 + a, h ! 1 + b, h ! 2 + c, h ! 3 + d, h ! 4 + e])"

definition hash_blocks :: "bytes \<Rightarrow> u32 list" where
  "hash_blocks m = foldl compress [0x67452301, 0xEFCDAB89, 0x98BADCFE, 0x10325476, 0xC3D2E1F0] (chunks_exact 64 m)"

definition zeros_of :: "bytes \<Rightarrow> nat" where
  "zeros_of m = (119 - length m mod 64) mod 64"

definition padded :: "bytes \<Rightarrow> bytes" where
  "padded m = m @ [0x80] @ replicate (zeros_of m) 0 @ word_bytes True (word_of_nat (8 * length m) :: u64)"

definition sha1 :: "bytes \<Rightarrow> bytes" where
  "sha1 m = concat (map (word_bytes True) (hash_blocks (padded m)))"

section \<open>One block\<close>

lemma rotate_left_rotl: "0 < n \<Longrightarrow> n < 32 \<Longrightarrow> rotate_left n x = word_rotl n x"
proof (rule bit_word_eqI)
  fix i assume n: "0 < n" "n < 32" and "i < LENGTH(32)"
  then have i: "i < 32" by simp
  have "bit (rotate_left n x) i \<longleftrightarrow> (n \<le> i \<and> bit x (i - n)) \<or> bit x (32 + i - n)"
    using i n by (auto simp: rotate_left_def bit_or_iff bit_push_bit_iff bit_drop_bit_eq)
  also have "\<dots> \<longleftrightarrow> bit x ((i + 32 - n) mod 32)"
  proof (cases "n \<le> i")
    case True
    then have "i + 32 - n = (i - n) + 32" "\<not> bit x (32 + i - n)" using i bit_imp_le_length [of x "32 + i - n"] by auto
    with True i show ?thesis by (simp only: mod_add_self2) simp
  qed (use i in \<open>simp add: add.commute\<close>)
  finally show "bit (rotate_left n x) i \<longleftrightarrow> bit (word_rotl n x) i"
    using i n by (simp add: bit_word_rotl_iff)
qed

lemma ch_xor: "(x AND y) OR (NOT x AND z) = (x AND y) XOR (NOT x AND z :: u32)"
  by (rule bit_word_eqI) (auto simp: bit_or_iff bit_xor_iff bit_and_iff bit_not_iff)

lemma maj_xor: "(x AND y) OR (x AND z) OR (y AND z) = (x AND y) XOR (x AND z) XOR (y AND z :: u32)"
  by (rule bit_word_eqI) (auto simp: bit_or_iff bit_xor_iff bit_and_iff)

lemma extend_words_sched:
  assumes "16 \<le> k" "k \<le> 80"
  shows "let w = foldl (\<lambda>w i. w[i := rotate_left 1 (w ! (i - 3) XOR w ! (i - 8) XOR w ! (i - 14) XOR w ! (i - 16))])
      (chunk_words chunk @ replicate 64 0) [16..<k] in length w = 80 \<and> (\<forall>t < k. w ! t = sched chunk t)"
  using assms
proof (induction k rule: nat_induct_at_least)
  case base
  then show ?case by (auto simp: chunk_words_def nth_append sched.simps)
next
  case (Suc k)
  then show ?case
    by (auto simp: Let_def nth_list_update less_Suc_eq rotate_left_rotl sched.simps [of chunk k])
qed

lemma extend_words_nth: "t < 80 \<Longrightarrow> extend_words (chunk_words chunk) ! t = sched chunk t"
proof -
  have "16 \<le> (80 :: nat)" by simp
  from extend_words_sched [OF this order_refl, of chunk] show "t < 80 \<Longrightarrow> ?thesis" unfolding extend_words_def Let_def by blast
qed

lemma drain_rounds_fips:
  assumes "\<forall>t < 80. w ! t = sched block t"
  shows "drain_rounds w s = foldl (fips_round block) s [0..<80]"
proof -
  have e: "fips_round block s t = sha_round f k w s t" if "t < 80" "sha_f t = f" "sha_k t = k" for f k t s
    using that assms by (auto simp: fips_round_def sha_round_def rotate_left_rotl split: prod.split)
  have f: "foldl (sha_round f k w) s [i..<j] = foldl (fips_round block) s [i..<j]"
    if "\<And>t. i \<le> t \<Longrightarrow> t < j \<Longrightarrow> sha_f t = f \<and> sha_k t = k" "j \<le> 80" for f k i j s
    using that e by (intro foldl_cong) auto
  have r1: "foldl (sha_round (\<lambda>b c d. (b AND c) OR (NOT b AND d)) 0x5A827999 w) s [0..<20] = foldl (fips_round block) s [0..<20]" for s
    by (rule f) (simp_all add: sha_f_def sha_k_def fun_eq_iff ch_xor)
  have r2: "foldl (sha_round (\<lambda>b c d. b XOR c XOR d) 0x6ED9EBA1 w) s [20..<40] = foldl (fips_round block) s [20..<40]" for s
    by (rule f) (simp_all add: sha_f_def sha_k_def fun_eq_iff)
  have r3: "foldl (sha_round (\<lambda>b c d. (b AND c) OR (b AND d) OR (c AND d)) 0x8F1BBCDC w) s [40..<60] = foldl (fips_round block) s [40..<60]" for s
    by (rule f) (simp_all add: sha_f_def sha_k_def fun_eq_iff maj_xor)
  have r4: "foldl (sha_round (\<lambda>b c d. b XOR c XOR d) 0xCA62C1D6 w) s [60..<80] = foldl (fips_round block) s [60..<80]" for s
    by (rule f) (simp_all add: sha_f_def sha_k_def fun_eq_iff)
  have split: "[0..<80] = [0..<20] @ [20..<40] @ [40..<60] @ [60..<80]" by (simp add: upt_rec)
  show ?thesis unfolding drain_rounds_def Let_def r1 r2 r3 r4 split foldl_append ..
qed

lemma sha_drain_compress:
  assumes "sh_chunk_count h + 1 < 2 ^ 32"
  shows "sha_drain dbg h = Some (h\<lparr>sh_results := compress (sh_results h) (sh_chunk h), sh_chunk_count := sh_chunk_count h + 1\<rparr>)"
proof -
  let ?r = "sh_results h"
  let ?s = "(?r ! 0, ?r ! 1, ?r ! 2, ?r ! 3, ?r ! 4)"
  have d: "drain_rounds (extend_words (chunk_words (sh_chunk h))) ?s = foldl (fips_round (sh_chunk h)) ?s [0..<80]"
    using extend_words_nth by (intro drain_rounds_fips) blast
  obtain a b c d e where r: "foldl (fips_round (sh_chunk h)) ?s [0..<80] = (a, b, c, d, e)" by (rule prod_cases5)
  have u: "uadd 32 dbg (sh_chunk_count h) 1 = Some (sh_chunk_count h + 1)" using assms by simp
  show ?thesis by (simp only: sha_drain_def Let_def compress_def d r u prod.case bind.bind_lunit)
qed

section \<open>The stream\<close>

lemma chunks_append: "length a = 64 * q \<Longrightarrow> chunks_exact 64 (a @ b) = chunks_exact 64 a @ chunks_exact 64 b"
proof (induction q arbitrary: a)
  case 0
  then show ?case by (simp add: chunks_exact.simps [of 64 "[]"])
next
  case (Suc q)
  then have "length (drop 64 a) = 64 * q" "64 \<le> length a" by simp_all
  with Suc.IH [of "drop 64 a"] show ?case by (simp add: chunks_exact.simps [of 64 "a @ b"] chunks_exact.simps [of 64 a])
qed

lemma chunks_one: "length b = 64 \<Longrightarrow> chunks_exact 64 b = [b]" "length b < 64 \<Longrightarrow> chunks_exact 64 b = []"
  by (simp_all add: chunks_exact.simps)

definition sha_inv :: "bytes \<Rightarrow> Sha1NonSecret \<Rightarrow> bool" where
  "sha_inv m h \<longleftrightarrow> sh_chunk_count h = length m div 64 \<and> sh_chunk_pos h = length m mod 64 \<and> length (sh_chunk h) = 64
     \<and> take (sh_chunk_pos h) (sh_chunk h) = drop (64 * (length m div 64)) m \<and> sh_results h = hash_blocks (take (64 * (length m div 64)) m)"

lemma sha_inv_new: "sha_inv [] Sha1_new"
  by (simp add: sha_inv_def Sha1_new_def hash_blocks_def chunks_one)

lemma mod_64: "n AND 63 = n mod 64" for n :: nat
  using take_bit_eq_mask [of 6 n] by (simp add: take_bit_eq_mod mask_eq_exp_minus_1)

lemma write_u8_inv:
  assumes "sha_inv m h" "length m < 2 ^ 37"
  shows "\<exists>h'. write_u8 dbg v h = Some h' \<and> sha_inv (m @ [v]) h'"
proof -
  define q p where "q = length m div 64" and "p = length m mod 64"
  have len: "length m = 64 * q + p" "p < 64" by (simp_all add: q_def p_def)
  let ?full = "take (64 * q) m" and ?rest = "drop (64 * q) m"
  let ?c = "(sh_chunk h)[p := v]"
  have h: "sh_chunk_count h = q" "sh_chunk_pos h = p" "length (sh_chunk h) = 64" "take p (sh_chunk h) = ?rest" "sh_results h = hash_blocks ?full"
    using assms(1) by (auto simp: sha_inv_def q_def p_def)
  have c: "take (p + 1) ?c = ?rest @ [v]" using h(3,4) len(2) by (simp add: take_Suc_conv_app_nth take_update_cancel)
  have s: "store (sh_chunk h) (sh_chunk_pos h) v = Some ?c" "uadd 8 dbg (sh_chunk_pos h) 1 = Some (p + 1)"
    using h len(2) by simp_all
  show ?thesis
  proof (cases "p = 63")
    case True
    have e: "length (m @ [v]) = 64 * (q + 1)" using len True by simp
    have "take 64 ?c = ?c" using h(3) by simp
    with c True have c': "?c = ?rest @ [v]" by simp
    have f: "?full @ (?rest @ [v]) = m @ [v]" by (metis append_assoc append_take_drop_id)
    have div: "length (m @ [v]) div 64 = q + 1" "length (m @ [v]) mod 64 = 0" using e by simp_all
    have all: "take (64 * (q + 1)) (m @ [v]) = m @ [v]" "drop (64 * (q + 1)) (m @ [v]) = []" using e by simp_all
    have "length ?full = 64 * q" "length (?rest @ [v]) = 64" using len True by simp_all
    then have r: "hash_blocks (?full @ (?rest @ [v])) = compress (hash_blocks ?full) (?rest @ [v])"
      unfolding hash_blocks_def by (simp only: chunks_append chunks_one foldl_append foldl.simps)
    have "q + 1 < 2 ^ 32" using len(1) assms(2) by simp
    then have "write_u8 dbg v h = Some (h\<lparr>sh_chunk := ?c, sh_chunk_pos := 0, sh_results := compress (hash_blocks ?full) ?c, sh_chunk_count := q + 1\<rparr>)"
      using s h True by (simp add: write_u8_def mod_64 sha_drain_compress)
    moreover have "sha_inv (m @ [v]) (h\<lparr>sh_chunk := ?c, sh_chunk_pos := 0, sh_results := compress (hash_blocks ?full) ?c, sh_chunk_count := q + 1\<rparr>)"
      unfolding sha_inv_def div all using r [unfolded f] c' h(3) len True by simp
    ultimately show ?thesis by blast
  next
    case False
    then have e: "length (m @ [v]) div 64 = q" "length (m @ [v]) mod 64 = p + 1" using len by simp_all
    have "write_u8 dbg v h = Some (h\<lparr>sh_chunk := ?c, sh_chunk_pos := p + 1\<rparr>)"
      using s h False len(2) by (simp add: write_u8_def mod_64)
    moreover have "sha_inv (m @ [v]) (h\<lparr>sh_chunk := ?c, sh_chunk_pos := p + 1\<rparr>)"
      unfolding sha_inv_def e using c h len by simp
    ultimately show ?thesis by blast
  qed
qed

lemma sha_write_inv:
  "sha_inv m h \<Longrightarrow> length m + length bs \<le> 2 ^ 37 \<Longrightarrow> \<exists>h'. sha_write dbg bs h = Some h' \<and> sha_inv (m @ bs) h'"
proof (induction bs arbitrary: m h)
  case (Cons b bs)
  obtain h1 where "write_u8 dbg b h = Some h1" "sha_inv (m @ [b]) h1" using write_u8_inv [OF Cons.prems(1), of dbg b] Cons.prems(2) by auto
  with Cons.IH [of "m @ [b]" h1] Cons.prems(2) show ?case by simp
qed simp

lemma zero_fill_inv:
  "sha_inv m h \<Longrightarrow> length m + n < 2 ^ 37 \<Longrightarrow> (length m + n) mod 64 = 56 \<Longrightarrow> n < 64 \<Longrightarrow> \<exists>h'. zero_fill dbg h = Some h' \<and> sha_inv (m @ replicate n 0) h'"
proof (induction n arbitrary: m h)
  case 0
  then have "sh_chunk_pos h = 56" by (simp add: sha_inv_def)
  with 0 show ?case by (simp add: zero_fill.simps [of dbg h])
next
  case (Suc n)
  have "sh_chunk_pos h \<noteq> 56"
  proof
    assume "sh_chunk_pos h = 56"
    then have "(length m + Suc n) mod 64 = (56 + Suc n) mod 64" using Suc.prems(1) mod_add_left_eq [of "length m" 64 "Suc n"] by (simp add: sha_inv_def)
    then have "(56 + Suc n) mod 64 = 56" using Suc.prems(3) by simp
    moreover have "k < 64 \<Longrightarrow> 0 < k \<Longrightarrow> (56 + k) mod 64 \<noteq> 56" for k :: nat by (cases "k < 8") (simp_all add: le_mod_geq)
    ultimately show False using Suc.prems(4) by blast
  qed
  moreover obtain h1 where "write_u8 dbg 0 h = Some h1" "sha_inv (m @ [0]) h1" using write_u8_inv [OF Suc.prems(1), of dbg 0] Suc.prems(2) by auto
  moreover from Suc.IH [of "m @ [0]" h1] this Suc.prems have "\<exists>h'. zero_fill dbg h1 = Some h' \<and> sha_inv (m @ [0] @ replicate n 0) h'" by simp
  ultimately show ?case by (simp add: zero_fill.simps [of dbg h])
qed

lemma zeros_of_length: "zeros_of m < 64" "(length m + 1 + zeros_of m) mod 64 = 56"
proof -
  define p q where "p = length m mod 64" and "q = length m div 64"
  have l: "length m = 64 * q + p" "p < 64" by (simp_all add: p_def q_def)
  show "zeros_of m < 64" by (simp add: zeros_of_def)
  have "(p + 1 + (119 - p) mod 64) mod 64 = 56" using l(2) by (cases "p \<le> 55") (simp_all add: le_mod_geq)
  then have "(64 * q + (p + 1 + (119 - p) mod 64)) mod 64 = 56" by (simp only: mod_mult_self4)
  moreover have "length m + 1 + zeros_of m = 64 * q + (p + 1 + (119 - p) mod 64)" using l by (simp add: zeros_of_def)
  ultimately show "(length m + 1 + zeros_of m) mod 64 = 56" by (simp only:)
qed

lemma sha_finish_inv:
  assumes "sha_inv m h" "length m < 2 ^ 36"
  shows "sha_finish dbg h = Some (sha1 m)"
proof -
  have bits: "sh_chunk_count h * 512 + sh_chunk_pos h * 8 = 8 * length m" proof -
    have "length m = length m div 64 * 64 + length m mod 64" by simp
    with assms(1) show ?thesis unfolding sha_inv_def by linarith
  qed
  obtain h1 where h1: "write_u8 dbg 0x80 h = Some h1" "sha_inv (m @ [0x80]) h1" using write_u8_inv [OF assms(1), of dbg "0x80"] assms(2) by auto
  obtain h2 where h2: "zero_fill dbg h1 = Some h2" "sha_inv ((m @ [0x80]) @ replicate (zeros_of m) 0) h2"
    using zero_fill_inv [OF h1(2), of "zeros_of m" dbg] zeros_of_length [of m] assms(2) by auto
  let ?n = "word_bytes True (word_of_nat (8 * length m) :: u64)"
  obtain h3 where h3: "sha_write dbg ?n h2 = Some h3" "sha_inv (padded m) h3"
    using sha_write_inv [OF h2(2), of ?n dbg] zeros_of_length(1) [of m] assms(2) by (auto simp: padded_def)
  have "length (padded m) = (length m + 1 + zeros_of m) + 8" by (simp add: padded_def)
  then have "length (padded m) mod 64 = 0" using mod_add_left_eq [of "length m + 1 + zeros_of m" 64 8] zeros_of_length(2) [of m] by (simp only:) simp
  then have "sh_chunk_pos h3 = 0" "sh_results h3 = hash_blocks (padded m)" using h3(2) by (auto simp: sha_inv_def)
  then show ?thesis
    unfolding sha_finish_def Let_def bits using h1(1) h2(1) h3(1) by (simp add: sha1_def debug_assert_def rust_assert_def)
qed

section \<open>The GUID of a name\<close>

definition name_message :: "(nat \<Rightarrow> nat list) \<Rightarrow> nat list \<Rightarrow> bytes" where
  "name_message to_uppercase name = NAMESPACE_BYTES @ concat (map encode_utf16_be (concat (map to_uppercase name)))"

lemma hash_blocks_length: "length (hash_blocks m) = 5"
proof -
  have "length (foldl compress h bs) = 5" if "length h = 5" for h bs
    using that by (induction bs arbitrary: h) (auto simp: compress_def split: prod.split)
  then show ?thesis by (simp add: hash_blocks_def)
qed

lemma sha1_length: "length (sha1 m) = 20"
proof -
  obtain a b c d e where "hash_blocks m' = [a, b, c, d, e]" if "m' = padded m" for m'
    using hash_blocks_length [of "padded m"] by (auto simp: length_Suc_conv numeral_eq_Suc)
  then show ?thesis by (simp add: sha1_def)
qed

lemma version_nibble: "drop_bit 4 ((x AND 0x0F) OR 0x50) = (5 :: u8)"
proof (rule bit_word_eqI)
  have "bit (0xF :: u8) n \<longleftrightarrow> n < 4" for n using bit_mask_iff [where 'a = u8, of 4 n] by (auto simp: mask_eq_exp_minus_1 dest: bit_imp_le_length)
  moreover have "drop_bit 4 (0x50 :: u8) = 5" by simp
  ultimately show "bit (drop_bit 4 ((x AND 0x0F) OR 0x50)) n \<longleftrightarrow> bit (5 :: u8) n" for n
    by (metis (no_types) bit_and_iff bit_drop_bit_eq bit_or_iff comp_apply not_add_less1)
qed

text \<open>
  C22. \<open>Guid::from_name\<close> hashes the upper-case UTF-16BE text of the name with SHA-1: in both builds it does not panic and returns the GUID whose
  little-endian bytes are the first 16 of the SHA-1 digest (as FIPS 180 defines it) of the name space followed by the name, with the version 5 in the
  upper half of byte 7. The hasher works on a stream of bytes with a 64-byte buffer; the bound keeps its count of chunks in 32 bits.
\<close>

theorem guid_from_name:
  assumes "length (name_message to_uppercase name) < 2 ^ 36"
  shows "\<exists>g. from_name to_uppercase dbg name = Some g \<and> guid_ok g \<and> drop_bit 4 (guid_bytes g ! 6) = 5
    \<and> to_bytes_le g = take 16 (let v = sha1 (name_message to_uppercase name) in v[7 := (v ! 7 AND 0x0F) OR 0x50])"
proof -
  let ?n = "concat (map encode_utf16_be (concat (map to_uppercase name)))" and ?v = "sha1 (name_message to_uppercase name)"
  let ?w = "?v[7 := (?v ! 7 AND 0x0F) OR 0x50]"
  obtain h1 where h1: "sha_write dbg NAMESPACE_BYTES Sha1_new = Some h1" "sha_inv NAMESPACE_BYTES h1"
    using sha_write_inv [OF sha_inv_new, of NAMESPACE_BYTES dbg] by (auto simp: NAMESPACE_BYTES_def)
  obtain h2 where h2: "sha_write dbg ?n h1 = Some h2" "sha_inv (name_message to_uppercase name) h2"
    using sha_write_inv [OF h1(2), of ?n dbg] assms by (auto simp: name_message_def)
  have f: "sha_finish dbg h2 = Some ?v" using h2(2) assms by (rule sha_finish_inv)
  have "length ?w = 20" by (simp add: sha1_length)
  then have l: "length (take 16 ?w) = 16" and "slice ?w 0 16 = Some (take 16 ?w)" by (simp_all add: slice_def)
  then have "from_name to_uppercase dbg name = Some (from_bytes_le (take 16 ?w))" using h1(1) h2(1) f by (simp add: from_name_def)
  moreover have "guid_ok (from_bytes_le (take 16 ?w))" by (simp add: guid_ok_def from_bytes_le_def)
  moreover have "guid_bytes (from_bytes_le (take 16 ?w)) ! 6 = (?v ! 7 AND 0x0F) OR 0x50" by (simp add: from_bytes_le_def sha1_length)
  ultimately show ?thesis using from_bytes_le_to [OF l] version_nibble by (simp add: Let_def)
qed

definition ascii_upper :: "nat \<Rightarrow> nat list" where
  "ascii_upper c = [if 0x61 \<le> c \<and> c \<le> 0x7A then c - 0x20 else c]"

theorem guid_from_name_witness:
  "\<exists>g. from_name ascii_upper True [0x4D, 0x79] = Some g \<and> guid_ok g \<and> drop_bit 4 (guid_bytes g ! 6) = 5
    \<and> to_bytes_le g = take 16 (let v = sha1 (NAMESPACE_BYTES @ [0, 0x4D, 0, 0x59]) in v[7 := (v ! 7 AND 0x0F) OR 0x50])"
proof -
  have "name_message ascii_upper [0x4D, 0x79] = NAMESPACE_BYTES @ [0, 0x4D, 0, 0x59]"
    by code_simp
  moreover from this have "length (name_message ascii_upper [0x4D, 0x79]) < 2 ^ 36" by (simp add: NAMESPACE_BYTES_def)
  ultimately show ?thesis using guid_from_name [of ascii_upper "[0x4D, 0x79]" True] by simp
qed

end
