(* ===== verification/Spec2Isabelle.thy ===== *)
theory Spec2Isabelle
  imports Round_Trip Tracepoint_Name Dynamic_Provider Tracepoint_Concurrency Decoder_Findings Field_Value Format_Round_Trip Perf_Session Foreign_File Reader_Progress Guid_Spec
begin

text \<open>
  \<^bold>\<open>LinuxTracepoints-Rust.\<close> The repository writes user-space events to Linux tracepoints (\<open>user_events\<close>) and
  decodes them again. This development models the crates as HOL functions over the same data and proves
  what they promise. Every definition that models code carries the name of the Rust item, or that name with a prefix
  where HOL or another component has it already.

  \<^bold>\<open>The program.\<close> A program that produces events links \<open>eventheader\<close> (macros, static events) or
  \<open>eventheader_dynamic\<close> (events defined at run time). Both register tracepoints with the kernel through \<open>tracepoint\<close>
  and write an event as one \<open>writev\<close>: header, optional extensions (activity ids and the metadata of the fields), payload. The layout
  of an event is shared through \<open>eventheader_types\<close>. A tool that consumes events reads perf.data files with \<open>tracepoint_perf\<close>
  and decodes the events with \<open>tracepoint_decode\<close>: by the tracefs \<open>format\<close> file of the event, or, for EventHeader events, with
  the \<open>EventHeaderEnumerator\<close>.

  \<^bold>\<open>How code is modelled.\<close>
  \<^item> A panic is \<open>None\<close> (\<open>Panic\<close>): indexing out of range, a failed \<open>unwrap\<close> or \<open>assert!\<close>. Functions that can panic return
    \<open>option\<close>; their errors are the left side of a sum. \<open>Rust_Prelude\<close> has the vocabulary: \<open>index\<close>, \<open>slice\<close>, \<open>store\<close>, \<open>rust_assert\<close>,
    \<open>debug_assert\<close>, and the arithmetic of unsigned and signed numbers at their width, which panics on overflow in debug builds and wraps in
    release builds (\<open>uadd\<close>, \<open>usub\<close>, \<open>umul\<close>, \<open>sadd\<close>, \<open>sneg\<close>). The flag \<open>dbg\<close> selects the build; \<open>target\<close> also has the byte
    order and the pointer size of the machine.
  \<^item> Fields of the wire formats are words of their width; offsets and lengths are natural numbers with their overflow written out.
  \<^item> Structs are records, enums datatypes; a function with \<open>&mut self\<close> takes and returns the record.
  \<^item> Loops are recursive functions with termination proofs. The only bounds are those of the code: \<open>move_next_limit\<close> and the nesting limit of the
    enumerator, the fixed sizes of the command string. No definition uses fuel, except that the loops of a client
    (\<open>drain\<close>, \<open>read_events\<close>, \<open>take_events\<close>, \<open>moves\<close>) count calls; the theorems say how many calls are enough.
  \<^item> The kernel is a parameter (\<open>linux\<close>: the results of \<open>ioctl\<close>, \<open>writev\<close>, \<open>open\<close> and \<open>close\<close> as functions of a state of the world); what the
    theorems need of it is a named hypothesis (\<open>kernel_ok\<close>, \<open>fd\<close> numbers that are not negative) with an instance (\<open>sample_kernel\<close>).

  \<^bold>\<open>Theories.\<close>
  \<^descr> \<open>Rust_Prelude\<close> the vocabulary above, the predicates \<open>wp\<close> (returns and satisfies) and \<open>wlp\<close> (if it returns, satisfies) with their
    rules, bytes and byte orders.
  \<^descr> \<open>EventHeader_Types\<close> \<open>eventheader_types/src/enums.rs\<close>, \<open>descriptors.rs\<close>: flags, encodings, \<open>EventHeader\<close> and its bytes.
  \<^descr> \<open>Byte_Reader\<close>, \<open>Perf_Item\<close> \<open>tracepoint_decode/src/byte_reader.rs\<close>, \<open>perf_item.rs\<close> (metadata and values of items).
  \<^descr> \<open>Enumerator\<close>, \<open>Enumerator_Api\<close> \<open>tracepoint_decode/src/enumerator.rs\<close>: the record \<open>ctx\<close> is \<open>EventHeaderEnumeratorContext\<close>; every method
    of the state machine is a function on it.
  \<^descr> \<open>Enumerator_Safety\<close>, \<open>Enumerator_Run\<close> the invariant \<open>enum_inv\<close>, that every operation keeps it on arbitrary bytes and does not panic in
    release builds; the locale \<open>cursor\<close> for loops over items, interpreted for the three ways of moving; termination.
  \<^descr> \<open>Wire_Format\<close>, \<open>Event_Decode\<close> the EventHeader format as an abstract specification (fields to bytes, fields to the items a reader
    should see), and that the decoder implements it.
  \<^descr> \<open>Decoder_Findings\<close> events that the decoder does not treat as the format says.
  \<^descr> \<open>Tracepoint\<close>, \<open>Tracepoint_Concurrency\<close> \<open>tracepoint/src/native.rs\<close>, \<open>descriptors.rs\<close>: registering, unregistering, writing; and the
    atomic steps of several threads as step relations, with invariants over all reachable states (locale \<open>invariant_system\<close>).
  \<^descr> \<open>Event_Writer\<close>, \<open>Event_Builder\<close>, \<open>Round_Trip\<close> \<open>eventheader/src/_internal.rs\<close>, \<open>eventheader_dynamic/src/builder.rs\<close>: what is written, and that
    the decoder gives it back.
  \<^descr> \<open>Provider\<close>, \<open>Dynamic_Provider\<close>, \<open>Tracepoint_Name\<close> the two \<open>provider.rs\<close>: registration of all events of a provider, its ordered map of event
    sets (locale \<open>key_index\<close>), and tracepoint names from the writer to the reader.
  \<^descr> \<open>Text_Scan\<close>, \<open>Field_Format\<close>, \<open>Field_Value\<close>, \<open>Event_Format\<close>, \<open>Format_Round_Trip\<close> \<open>perf_field_format.rs\<close>, \<open>perf_event_format.rs\<close>: parsing and
    writing of tracefs format files, deduction of types, access to fields.
  \<^descr> \<open>Perf_Session\<close> \<open>perf_session.rs\<close>: clocks and times.
  \<^descr> \<open>Perf_Abi\<close>, \<open>Perf_Event_Data\<close> \<open>perf_abi.rs\<close>, \<open>perf_event_desc.rs\<close>, \<open>perf_event_data.rs\<close>.
  \<^descr> \<open>Perf_Attrs\<close>, \<open>Event_Info\<close>, \<open>Sample_Record\<close>, \<open>Trailer_Record\<close> the event descriptions of \<open>tracepoint_perf/src/file_reader.rs\<close> and
    the decoding of sample and other records against the layout of \<open>perf_event.h\<close>.
  \<^descr> \<open>Guid\<close>, \<open>Guid_Text\<close>, \<open>Guid_Spec\<close> \<open>eventheader_types/src/guid.rs\<close>: GUIDs and their SHA-1 hasher; the grammar of their texts; SHA-1 as FIPS 180
    defines it, as the reference for the hasher. The upper case of a character is a parameter.
  \<^descr> \<open>Perf_File\<close> \<open>tracepoint_perf/src/file_abi.rs\<close>, \<open>header_index.rs\<close>, \<open>input_file.rs\<close>, \<open>output_file.rs\<close>: the structures of perf.data files, and
    files as lists of bytes with positions.
  \<^descr> \<open>Reader_Headers\<close>, \<open>File_Reader\<close> the rest of \<open>file_reader.rs\<close>: the state \<open>DataFileReader\<close>, the parsers of the headers, opening, reading
    in the order of the file and by time, the public \<open>PerfDataFileReader\<close>.
  \<^descr> \<open>Reader_Progress\<close>, \<open>Time_Order\<close> reading ends on every file; the order of the events of a round.
  \<^descr> \<open>File_Writer\<close>, \<open>Writer_Run\<close> \<open>file_writer.rs\<close>: all operations of \<open>PerfDataFileWriter\<close>; its life as a step relation (\<open>writing\<close>) with the invariant
    of all reachable states.
  \<^descr> \<open>Written_File\<close>, \<open>Written_Events\<close>, \<open>File_Round_Trip\<close> the bytes of a finished file as a layout (\<open>file_bytes\<close>), the reader on this layout part by
    part, and the round trips of headers, descriptions and events.
  \<^descr> \<open>File_Findings\<close>, \<open>Foreign_File\<close> files of the writer that the reader refuses.
  \<^bold>\<open>Results.\<close> Round trips: an event written with any sequence of builder calls decodes to itself (C1), a perf.data file finished by the writer is
  opened by the reader with its headers, descriptions and events (C5, C6), format files (C7), tracepoint names and clock readings. Safety on arbitrary
  input: the enumerator (C3, C4), sample and trailer records. Refinement of the layouts: EventHeader events (C2), samples, trailers. Functional correctness of
  the registration of providers and of times. Invariants of all reachable states: the writer of files, and under interleaving the
  descriptor of the data file and the registration state, which have one owner. The order by time is the stable sort of the order of the file.
  Termination of the decoder's loops and of reading a file. GUIDs of names are the documented SHA-1 hashes, and the parser of GUIDs accepts exactly their texts. The theorems of kind \<open>error\<close> state what
  goes wrong where the code does not do what it means to; the manifest lists them as findings.

  \<^bold>\<open>Not modelled.\<close> Text output (\<open>display.rs\<close>, \<open>writers.rs\<close>, \<open>charconv.rs\<close>, \<open>filters.rs\<close>, the \<open>Display\<close> implementations): it calls
  the formatting machinery of the standard library. The procedural macros of \<open>eventheader_macros\<close>: they run at compile time on token trees of the
  compiler. Bindings, examples and tests. The memory of buffers (capacities, allocation failure) and errors of the file
  system other than the end of a file.
\<close>

end
